(* ===== verification/Prelude.thy ===== *)
theory Prelude
  imports Main "HOL-Library.Word" "HOL-Library.Multiset" "HOL-Library.AList"
begin

text \<open>
  Shared vocabulary of the VibeFlow development: type names for the Go types the engine
  uses, the collections of rewrite rules the component proofs share, and generic lemmas on
  lists, maps, folds and 64-bit integers.

  Conventions. A Go \<^verbatim>\<open>map\<close> that the code only looks up or updates is a HOL map; a Go map
  that the code ranges over is an association list, whose order stands for the order in
  which \<^verbatim>\<open>range\<close> visits it (Go leaves it open, and the theorems hold for every list).
  A \<^verbatim>\<open>time.Time\<close> or \<^verbatim>\<open>time.Duration\<close> is an \<open>int\<close> number of nanoseconds, and a
  function that calls \<^verbatim>\<open>time.Now()\<close> takes the instant as an argument.
\<close>

type_synonym uuid = string
type_synonym go_time = int      \<comment> \<open>\<^verbatim>\<open>time.Time\<close>, nanoseconds\<close>
type_synonym go_duration = int  \<comment> \<open>\<^verbatim>\<open>time.Duration\<close>, nanoseconds\<close>
type_synonym int64 = "64 word"  \<comment> \<open>\<^verbatim>\<open>int64\<close> where it can wrap\<close>

definition Second :: go_duration where
  "Second = 1000000000"

definition Millisecond :: go_duration where
  "Millisecond = 1000000"

definition Minute :: go_duration where
  "Minute = 60 * Second"

text \<open>Rewrite rules shared by the components' proofs.\<close>

named_theorems go_units \<comment> \<open>the units of \<^verbatim>\<open>time\<close>\<close>
named_theorems vf_split \<comment> \<open>facts a case split over a handler's guards needs\<close>

lemmas go_units_defs [go_units] = Second_def Millisecond_def Minute_def

lemma Second_pos [simp]: "0 < Second"
  by (simp add: go_units)


subsection \<open>Slices\<close>

text \<open>\<^verbatim>\<open>append(xs[:i], xs[i+1:]...)\<close> at the first element equal to \<open>x\<close> is \<open>remove1 x xs\<close>;
  \<^verbatim>\<open>xs[len(xs)-n:]\<close> keeps the last \<open>n\<close> elements.\<close>

definition keep_last :: "nat \<Rightarrow> 'a list \<Rightarrow> 'a list" where
  "keep_last n xs = drop (length xs - n) xs"

lemma length_keep_last [simp]: "length (keep_last n xs) = min n (length xs)"
  by (simp add: keep_last_def)

lemma keep_last_all [simp]: "length xs \<le> n \<Longrightarrow> keep_last n xs = xs"
  by (simp add: keep_last_def)

lemma set_keep_last: "set (keep_last n xs) \<subseteq> set xs"
  by (simp add: keep_last_def set_drop_subset)

lemma last_keep_last: "xs \<noteq> [] \<Longrightarrow> 0 < n \<Longrightarrow> last (keep_last n xs) = last xs"
  by (simp add: keep_last_def last_drop)

lemma distinct_keep_last: "distinct xs \<Longrightarrow> distinct (keep_last n xs)"
  by (simp add: keep_last_def)

lemma last_remove1:
  assumes "distinct xs" and "remove1 x xs \<noteq> []" and "last xs \<noteq> x"
  shows "last (remove1 x xs) = last xs"
  using assms
proof (induction xs)
  case (Cons a xs)
  then show ?case by (cases xs) auto
qed simp


subsection \<open>Maps\<close>

lemma map_add_fold_dom: "dom (fold (\<lambda>o' m. m ++ o') os m) = dom m \<union> (\<Union>o' \<in> set os. dom o')"
  by (induction os arbitrary: m) auto

lemma in_set_map_of: "map_of xs k = Some v \<Longrightarrow> (k, v) \<in> set xs"
  by (rule map_of_SomeD)

lemma map_of_not_None: "map_of xs k \<noteq> None \<longleftrightarrow> k \<in> fst ` set xs"
  by (metis domIff dom_map_of_conv_image_fst)


subsection \<open>Runs of an operation preserve what each step preserves\<close>

text \<open>A component offers operations that change its state; \<open>step\<close> applies one of them.
  What every operation keeps, every sequence of operations keeps.\<close>

locale component =
  fixes step :: "'op \<Rightarrow> 's \<Rightarrow> 's"
    and inv :: "'s \<Rightarrow> bool"
  assumes step_inv: "inv s \<Longrightarrow> inv (step e s)"
begin

lemma run_inv: "inv s \<Longrightarrow> inv (fold step es s)"
  by (induction es arbitrary: s) (auto intro: step_inv)

lemma run_inv_prefix: "inv s \<Longrightarrow> inv (fold step (take n es) s)"
  by (rule run_inv)

end

lemma fold_invariant_set:
  assumes "\<And>x s. x \<in> set xs \<Longrightarrow> P s \<Longrightarrow> P (f x s)" and "P s"
  shows "P (fold f xs s)"
  using assms by (induction xs arbitrary: s) auto

lemma fold_measure_const:
  assumes "\<And>x s. x \<in> set xs \<Longrightarrow> m (f x s) = m s"
  shows "m (fold f xs s) = m s"
  using assms by (induction xs arbitrary: s) auto


subsection \<open>Fallible loops\<close>

text \<open>A Go loop whose body may return an error: the first error ends it.\<close>

definition bind_sum :: "'e + 'a \<Rightarrow> ('a \<Rightarrow> 'e + 'b) \<Rightarrow> 'e + 'b" where
  "bind_sum r f = (case r of Inl e \<Rightarrow> Inl e | Inr a \<Rightarrow> f a)"

fun fold_sum :: "('a \<Rightarrow> 's \<Rightarrow> 'e + 's) \<Rightarrow> 'a list \<Rightarrow> 's \<Rightarrow> 'e + 's" where
  "fold_sum f [] s = Inr s"
| "fold_sum f (x # xs) s = bind_sum (f x s) (fold_sum f xs)"

fun check_all :: "('a \<Rightarrow> 'e + unit) \<Rightarrow> 'a list \<Rightarrow> 'e + unit" where
  "check_all f [] = Inr ()"
| "check_all f (x # xs) = bind_sum (f x) (\<lambda>_. check_all f xs)"

lemma bind_sum_simps [simp]: "bind_sum (Inl e) f = Inl e" "bind_sum (Inr a) f = f a"
  by (simp_all add: bind_sum_def)

lemma bind_sum_Inr: "bind_sum r f = Inr b \<longleftrightarrow> (\<exists>a. r = Inr a \<and> f a = Inr b)"
  by (cases r) auto

lemma check_all_Inr: "check_all f xs = Inr () \<longleftrightarrow> (\<forall>x \<in> set xs. f x = Inr ())"
  by (induction xs) (auto simp: bind_sum_Inr)

lemma fold_sum_append: "fold_sum f (xs @ ys) s = bind_sum (fold_sum f xs s) (fold_sum f ys)"
  by (induction xs arbitrary: s) (auto simp: bind_sum_def split: sum.splits)

text \<open>Checks that collect names into a map and refuse a name they have seen: a check of the
  names \<open>ns\<close> succeeds exactly when its own condition \<open>ok\<close> holds and the names are new and
  distinct, and then the map's keys grow by them. Checks in sequence check the names of both.\<close>

definition checks_names ::
  "bool \<Rightarrow> ((string \<times> 'v) list \<Rightarrow> 'e + (string \<times> 'v) list) \<Rightarrow> string list \<Rightarrow> bool" where
  "checks_names ok f ns \<longleftrightarrow>
     (\<forall>seen. (\<forall>seen'. f seen = Inr seen' \<longrightarrow> fst ` set seen' = fst ` set seen \<union> set ns)
           \<and> ((\<exists>seen'. f seen = Inr seen') \<longleftrightarrow>
               ok \<and> distinct ns \<and> set ns \<inter> fst ` set seen = {}))"

lemma checks_names_keys:
  "checks_names ok f ns \<Longrightarrow> f seen = Inr seen' \<Longrightarrow> fst ` set seen' = fst ` set seen \<union> set ns"
  unfolding checks_names_def by blast

lemma checks_names_accepts:
  "checks_names ok f ns \<Longrightarrow>
     (\<exists>seen'. f seen = Inr seen') \<longleftrightarrow> ok \<and> distinct ns \<and> set ns \<inter> fst ` set seen = {}"
  unfolding checks_names_def by blast

lemma checks_names_bind:
  assumes f: "checks_names ok f ns" and g: "checks_names ok' g ms"
  shows "checks_names (ok \<and> ok') (\<lambda>seen. bind_sum (f seen) g) (ns @ ms)"
  unfolding checks_names_def
proof (intro allI conjI impI)
  fix seen seen' assume "bind_sum (f seen) g = Inr seen'"
  then obtain mid where "f seen = Inr mid" "g mid = Inr seen'" by (auto simp: bind_sum_Inr)
  then show "fst ` set seen' = fst ` set seen \<union> set (ns @ ms)"
    using checks_names_keys [OF f] checks_names_keys [OF g] by (simp add: sup_assoc)
next
  fix seen
  show "(\<exists>seen'. bind_sum (f seen) g = Inr seen')
      \<longleftrightarrow> (ok \<and> ok') \<and> distinct (ns @ ms) \<and> set (ns @ ms) \<inter> fst ` set seen = {}"
  proof (cases "f seen")
    case (Inl e)
    then have "\<not> (ok \<and> distinct ns \<and> set ns \<inter> fst ` set seen = {})"
      using checks_names_accepts [OF f, of seen] by simp
    with Inl show ?thesis by auto
  next
    case (Inr mid)
    then have "ok \<and> distinct ns \<and> set ns \<inter> fst ` set seen = {}"
      using checks_names_accepts [OF f, of seen] by simp
    with Inr show ?thesis
      using checks_names_accepts [OF g, of mid] checks_names_keys [OF f Inr] by auto
  qed
qed

lemma checks_names_fold:
  assumes "\<And>x. x \<in> set xs \<Longrightarrow> checks_names (ok x) (f x) (names x)"
  shows "checks_names (\<forall>x \<in> set xs. ok x) (fold_sum f xs) (concat (map names xs))"
  using assms
proof (induction xs)
  case Nil
  show ?case by (simp add: checks_names_def)
next
  case (Cons x xs)
  have "checks_names (ok x \<and> (\<forall>x \<in> set xs. ok x))
          (\<lambda>seen. bind_sum (f x seen) (fold_sum f xs)) (names x @ concat (map names xs))"
    using Cons by (intro checks_names_bind) auto
  moreover have "(\<lambda>seen. bind_sum (f x seen) (fold_sum f xs)) = fold_sum f (x # xs)"
    by (rule ext) simp
  ultimately show ?case by simp
qed

lemma checks_names_run:
  "checks_names ok f ns \<Longrightarrow> (\<exists>seen'. f [] = Inr seen') \<longleftrightarrow> ok \<and> distinct ns"
  by (simp add: checks_names_def)

text \<open>The same check with a second set for the current group: it refuses a name of the group
  and then a name of the whole map. Group names are names of the map, so only the error
  differs.\<close>

definition insert_name ::
  "(string \<Rightarrow> 'e) \<Rightarrow> (string \<Rightarrow> 'v \<Rightarrow> 'e) \<Rightarrow> 'v \<Rightarrow> string
     \<Rightarrow> string list \<times> (string \<times> 'v) list \<Rightarrow> 'e + string list \<times> (string \<times> 'v) list" where
  "insert_name dupGroup dupAll v name = (\<lambda>(groupNames, allNames).
     if name \<in> set groupNames then Inl (dupGroup name)
     else case map_of allNames name of
            Some prev \<Rightarrow> Inl (dupAll name prev)
          | None \<Rightarrow> Inr (name # groupNames, (name, v) # allNames))"

definition check_group ::
  "('a \<Rightarrow> 'e + string) \<Rightarrow> (string \<Rightarrow> 'e) \<Rightarrow> (string \<Rightarrow> 'v \<Rightarrow> 'e) \<Rightarrow> 'v \<Rightarrow> 'a list
     \<Rightarrow> (string \<times> 'v) list \<Rightarrow> 'e + (string \<times> 'v) list" where
  "check_group chk dupGroup dupAll v xs allNames =
     bind_sum (fold_sum (\<lambda>x st. bind_sum (chk x) (\<lambda>n. insert_name dupGroup dupAll v n st)) xs ([], allNames))
       (\<lambda>(_, allNames'). Inr allNames')"

lemma fold_insert_name:
  assumes "\<And>x. x \<in> set xs \<Longrightarrow> chk x = (if ok x then Inr (name x) else Inl (err x))"
    and "set gn \<subseteq> fst ` set seen"
  shows "(case fold_sum (\<lambda>x st. bind_sum (chk x) (\<lambda>n. insert_name dupGroup dupAll v n st)) xs (gn, seen) of
            Inl _ \<Rightarrow> \<not> ((\<forall>x \<in> set xs. ok x) \<and> distinct (map name xs) \<and> name ` set xs \<inter> fst ` set seen = {})
          | Inr (_, seen') \<Rightarrow>
              ((\<forall>x \<in> set xs. ok x) \<and> distinct (map name xs) \<and> name ` set xs \<inter> fst ` set seen = {})
              \<and> fst ` set seen' = fst ` set seen \<union> name ` set xs)"
  using assms
proof (induction xs arbitrary: gn seen)
  case (Cons x xs)
  show ?case
  proof (cases "ok x \<and> name x \<notin> fst ` set seen")
    case True
    then have chk: "chk x = Inr (name x)" using Cons.prems(1) by simp
    have new: "insert_name dupGroup dupAll v (name x) (gn, seen) = Inr (name x # gn, (name x, v) # seen)"
      using True Cons.prems(2) by (auto simp: insert_name_def map_of_eq_None_iff split: option.splits
        dest: map_of_SomeD intro: rev_image_eqI)
    have sub: "set (name x # gn) \<subseteq> fst ` set ((name x, v) # seen)" using Cons.prems(2) by auto
    show ?thesis
      using Cons.IH [OF Cons.prems(1) sub, OF list.set_intros(2)] True
      by (simp add: chk new split: sum.splits prod.splits)
  next
    case False
    with Cons.prems have "\<exists>e. bind_sum (chk x) (\<lambda>n. insert_name dupGroup dupAll v n (gn, seen)) = Inl e"
      by (auto simp: insert_name_def map_of_eq_None_iff split: option.splits)
    then obtain e where "bind_sum (chk x) (\<lambda>n. insert_name dupGroup dupAll v n (gn, seen)) = Inl e" ..
    with False show ?thesis by simp
  qed
qed simp

lemma checks_names_group:
  assumes "\<And>x. x \<in> set xs \<Longrightarrow> chk x = (if ok x then Inr (name x) else Inl (err x))"
  shows "checks_names (\<forall>x \<in> set xs. ok x) (check_group chk dupGroup dupAll v xs) (map name xs)"
  unfolding checks_names_def
proof
  fix seen
  let ?run = "fold_sum (\<lambda>x st. bind_sum (chk x) (\<lambda>n. insert_name dupGroup dupAll v n st)) xs ([], seen)"
  show "(\<forall>seen'. check_group chk dupGroup dupAll v xs seen = Inr seen' \<longrightarrow>
           fst ` set seen' = fst ` set seen \<union> set (map name xs))
      \<and> ((\<exists>seen'. check_group chk dupGroup dupAll v xs seen = Inr seen') \<longleftrightarrow>
           (\<forall>x \<in> set xs. ok x) \<and> distinct (map name xs) \<and> set (map name xs) \<inter> fst ` set seen = {})"
    using fold_insert_name [of xs chk ok name err "[]" seen dupGroup dupAll v, OF assms]
    by (cases ?run) (simp_all add: check_group_def split: prod.splits)
qed


subsection \<open>Association lists filled by a loop\<close>

lemma map_of_fold_update:
  "map_of (fold (\<lambda>(k, v). AList.update k v) es idx) = map_of idx ++ map_of (rev es)"
proof (induction es arbitrary: idx)
  case (Cons e es)
  then show ?case by (cases e) (auto simp: update_conv' map_add_def split: option.splits)
qed simp

lemma keys_fold_update:
  "fst ` set (fold (\<lambda>(k, v). AList.update k v) es idx) = fst ` set idx \<union> fst ` set es"
proof (induction es arbitrary: idx)
  case (Cons e es)
  then show ?case by (cases e) (auto simp: AList.dom_update)
qed simp

lemma map_of_rev_unique:
  assumes "(k, v) \<in> set es" and "\<And>v'. (k, v') \<in> set es \<Longrightarrow> v' = v"
  shows "map_of (rev es) k = Some v"
proof -
  have "map_of (rev es) k \<noteq> None" 
    using assms(1) by (metis map_of_not_None fst_conv image_eqI set_rev)
  then obtain v' where v': "map_of (rev es) k = Some v'" by blast
  then have "(k, v') \<in> set es" using map_of_SomeD by fastforce
  with assms(2) v' show ?thesis by simp
qed

lemma distinct_concat_nth:
  assumes "distinct (concat xss)" and "i < length xss" and "j < length xss"
    and "x \<in> set (xss ! i)" and "x \<in> set (xss ! j)"
  shows "i = j"
  using assms
proof (induction xss arbitrary: i j)
  case (Cons xs xss)
  then show ?case by (cases i; cases j) (auto, (metis IntI UN_I empty_iff nth_mem)+)
qed simp


text \<open>The number of processes in some states, when one process moves.\<close>

lemma length_filter_update:
  "i < length xs \<Longrightarrow>
     int (length (filter P (xs[i := x]))) = int (length (filter P xs)) - (if P (xs ! i) then 1 else 0) + (if P x then 1 else 0)"
proof (induction xs arbitrary: i)
  case (Cons y ys)
  show ?case
  proof (cases i)
    case (Suc j)
    with Cons.IH [of j] Cons.prems show ?thesis by (cases "P y") simp_all
  qed simp
qed simp


subsection \<open>64-bit integers\<close>

text \<open>A product that fits into a signed 64-bit integer is computed exactly.\<close>

lemma int64_exact:
  assumes "- (2 ^ 63) \<le> x" and "x < 2 ^ 63"
  shows "sint (word_of_int x :: int64) = x"
  using assms by (simp add: sint_sbintrunc' signed_take_bit_int_eq_self)

end
