(* ===== verification/Task_Context.thy ===== *)
theory Task_Context
  imports Prelude
begin

text \<open>
  \<^verbatim>\<open>domain/model/context.go\<close>: the variables tasks hand to each other. Values are Go's dynamic
  \<^verbatim>\<open>interface{}\<close> values, restricted to the types the getters distinguish; \<^verbatim>\<open>Context\<close> is the map of
  variables, its typed getters are total functions returning the value and the \<^verbatim>\<open>ok\<close> flag as
  an option, and the three reserved control keys (skip, branch, approval) have their setters
  and getters. The mutex only makes each operation atomic, so every operation is a function.
\<close>

subsection \<open>Dynamic values\<close>

text \<open>A finite \<^verbatim>\<open>float64\<close> is \<open>AFloat64 m e\<close>, the number \<open>m * 2 ^ e\<close>.\<close>

datatype any =
    ANil
  | AString string
  | ABool bool
  | AInt int
  | AInt64 int
  | AFloat64 int int
  | ANumber string              \<comment> \<open>\<^verbatim>\<open>json.Number\<close>\<close>
  | AStrings "string list"      \<comment> \<open>\<^verbatim>\<open>[]string\<close>\<close>
  | ASlice "any list"           \<comment> \<open>\<^verbatim>\<open>[]interface{}\<close>\<close>
  | AMap "string \<Rightarrow> any option" \<comment> \<open>\<^verbatim>\<open>map[string]interface{}\<close>\<close>

type_synonym vars = "string \<rightharpoonup> any"

text \<open>\<^verbatim>\<open>int(f)\<close> truncates towards zero; a value outside the range of \<^verbatim>\<open>int\<close> gives the
  smallest integer, as the amd64 conversion does.\<close>

definition float_trunc :: "int \<Rightarrow> int \<Rightarrow> int" where
  "float_trunc m e =
     (if 0 \<le> e then m * 2 ^ nat e
      else if 0 \<le> m then m div 2 ^ nat (- e) else - ((- m) div 2 ^ nat (- e)))"

definition in_int64 :: "int \<Rightarrow> bool" where
  "in_int64 n \<longleftrightarrow> - (2 ^ 63) \<le> n \<and> n < 2 ^ 63"

definition float_to_int :: "int \<Rightarrow> int \<Rightarrow> int" where
  "float_to_int m e = (let n = float_trunc m e in if in_int64 n then n else - (2 ^ 63))"

text \<open>\<^verbatim>\<open>json.Number.Int64\<close>: \<^verbatim>\<open>strconv.ParseInt(s, 10, 64)\<close>.\<close>

definition digit_val :: "char \<Rightarrow> int option" where
  "digit_val c = (let n = of_char c in if (48::nat) \<le> n \<and> n \<le> 57 then Some (int (n - 48)) else None)"

fun parse_digits :: "int \<Rightarrow> string \<Rightarrow> int option" where
  "parse_digits acc [] = Some acc"
| "parse_digits acc (c # cs) =
     (case digit_val c of None \<Rightarrow> None | Some d \<Rightarrow> parse_digits (10 * acc + d) cs)"

definition parse_unsigned :: "string \<Rightarrow> int option" where
  "parse_unsigned s = (if s = [] then None else parse_digits 0 s)"

definition parse_int64 :: "string \<Rightarrow> int option" where
  "parse_int64 s =
     (let r = (case s of
                 [] \<Rightarrow> None
               | c # cs \<Rightarrow> (if c = CHR ''-'' then map_option uminus (parse_unsigned cs)
                           else if c = CHR ''+'' then parse_unsigned cs
                           else parse_unsigned s))
      in case r of None \<Rightarrow> None | Some n \<Rightarrow> if in_int64 n then Some n else None)"


subsection \<open>The context\<close>

abbreviation SkipGroupsKey :: string where "SkipGroupsKey \<equiv> ''__vibeflow_skip_groups''"
abbreviation BranchKey :: string where "BranchKey \<equiv> ''__vibeflow_branch''"
abbreviation ApprovalKey :: string where "ApprovalKey \<equiv> ''__vibeflow_approval''"

record ctx =
  ctx_vars :: vars

definition NewContext :: ctx where
  "NewContext = \<lparr>ctx_vars = Map.empty\<rparr>"

definition NewContextWith :: "vars \<Rightarrow> ctx" where
  "NewContextWith params = \<lparr>ctx_vars = params\<rparr>"

definition NewContextFromMap :: "vars \<Rightarrow> ctx" where
  "NewContextFromMap m = \<lparr>ctx_vars = m\<rparr>"

definition ctx_Set :: "string \<Rightarrow> any \<Rightarrow> ctx \<Rightarrow> ctx" where
  "ctx_Set key value c = c\<lparr>ctx_vars := (ctx_vars c)(key \<mapsto> value)\<rparr>"

definition ctx_Get :: "ctx \<Rightarrow> string \<Rightarrow> any option" where
  "ctx_Get c key = ctx_vars c key"

definition GetString :: "ctx \<Rightarrow> string \<Rightarrow> string option" where
  "GetString c key = (case ctx_Get c key of Some (AString s) \<Rightarrow> Some s | _ \<Rightarrow> None)"

definition GetInt :: "ctx \<Rightarrow> string \<Rightarrow> int option" where
  "GetInt c key =
     (case ctx_Get c key of
        None \<Rightarrow> None
      | Some v \<Rightarrow> (case v of
            AInt n \<Rightarrow> Some n
          | AInt64 n \<Rightarrow> Some n
          | AFloat64 m e \<Rightarrow> Some (float_to_int m e)
          | ANumber s \<Rightarrow> parse_int64 s
          | _ \<Rightarrow> None))"

definition GetInt64 :: "ctx \<Rightarrow> string \<Rightarrow> int option" where
  "GetInt64 c key =
     (case ctx_Get c key of
        None \<Rightarrow> None
      | Some v \<Rightarrow> (case v of
            AInt64 n \<Rightarrow> Some n
          | AInt n \<Rightarrow> Some n
          | AFloat64 m e \<Rightarrow> Some (float_to_int m e)
          | ANumber s \<Rightarrow> parse_int64 s
          | _ \<Rightarrow> None))"

definition GetBool :: "ctx \<Rightarrow> string \<Rightarrow> bool option" where
  "GetBool c key = (case ctx_Get c key of Some (ABool b) \<Rightarrow> Some b | _ \<Rightarrow> None)"

fun all_strings :: "any list \<Rightarrow> string list option" where
  "all_strings [] = Some []"
| "all_strings (v # vs) =
     (case v of AString s \<Rightarrow> map_option ((#) s) (all_strings vs) | _ \<Rightarrow> None)"

definition GetStringSlice :: "ctx \<Rightarrow> string \<Rightarrow> string list option" where
  "GetStringSlice c key =
     (case ctx_Get c key of
        None \<Rightarrow> None
      | Some v \<Rightarrow> (case v of ASlice arr \<Rightarrow> all_strings arr | AStrings ss \<Rightarrow> Some ss | _ \<Rightarrow> None))"

definition GetMap :: "ctx \<Rightarrow> string \<Rightarrow> vars option" where
  "GetMap c key = (case ctx_Get c key of Some (AMap m) \<Rightarrow> Some m | _ \<Rightarrow> None)"

definition GetAll :: "ctx \<Rightarrow> vars" where
  "GetAll c = ctx_vars c"

definition SkipGroups :: "int \<Rightarrow> ctx \<Rightarrow> ctx" where
  "SkipGroups n c = ctx_Set SkipGroupsKey (AInt n) c"

definition GetSkipGroups :: "ctx \<Rightarrow> int" where
  "GetSkipGroups c =
     (case ctx_Get c SkipGroupsKey of
        None \<Rightarrow> 0
      | Some v \<Rightarrow> (case v of AFloat64 m e \<Rightarrow> float_to_int m e | AInt n \<Rightarrow> n | AInt64 n \<Rightarrow> n | _ \<Rightarrow> 0))"

definition SetBranch :: "string \<Rightarrow> ctx \<Rightarrow> ctx" where
  "SetBranch name c = ctx_Set BranchKey (AString name) c"

definition GetBranch :: "ctx \<Rightarrow> string" where
  "GetBranch c = (case ctx_Get c BranchKey of Some (AString s) \<Rightarrow> s | _ \<Rightarrow> '''')"

definition SetApproval :: "string \<Rightarrow> ctx \<Rightarrow> ctx" where
  "SetApproval msg c = ctx_Set ApprovalKey (AString msg) c"

definition GetApproval :: "ctx \<Rightarrow> string" where
  "GetApproval c = (case GetString c ApprovalKey of Some s \<Rightarrow> s | None \<Rightarrow> '''')"

text \<open>How a value looks after the trip worker, JSON in etcd, master: \<^verbatim>\<open>encoding/json\<close> decodes
  every number into a \<^verbatim>\<open>float64\<close> and every array into \<^verbatim>\<open>[]interface{}\<close>. Integers beyond
  \<open>2 ^ 53\<close>, which a \<^verbatim>\<open>float64\<close> may have to round, are outside the definition: \<open>None\<close>.\<close>

definition exact_float :: "int \<Rightarrow> bool" where
  "exact_float n \<longleftrightarrow> \<bar>n\<bar> \<le> 2 ^ 53"

fun json_wire :: "any \<Rightarrow> any option" where
  "json_wire ANil = Some ANil"
| "json_wire (AString s) = Some (AString s)"
| "json_wire (ABool b) = Some (ABool b)"
| "json_wire (AInt n) = (if exact_float n then Some (AFloat64 n 0) else None)"
| "json_wire (AInt64 n) = (if exact_float n then Some (AFloat64 n 0) else None)"
| "json_wire (AFloat64 m e) = Some (AFloat64 m e)"
| "json_wire (AStrings ss) = Some (ASlice (map AString ss))"
| "json_wire _ = None"

lemmas context_defs =
  NewContext_def NewContextWith_def NewContextFromMap_def ctx_Set_def ctx_Get_def
  SkipGroups_def SetBranch_def SetApproval_def GetSkipGroups_def GetBranch_def
  GetApproval_def GetString_def GetAll_def


subsection \<open>Laws\<close>

lemma ctx_Get_Set [simp]: "ctx_Get (ctx_Set k v c) k' = (if k' = k then Some v else ctx_Get c k')"
  by (simp add: context_defs)

lemma float_trunc_whole [simp]: "float_trunc n 0 = n"
  by (simp add: float_trunc_def)

lemma exact_float_in_int64: "exact_float n \<Longrightarrow> in_int64 n"
  by (auto simp: exact_float_def in_int64_def)

lemma float_to_int_exact: "exact_float n \<Longrightarrow> float_to_int n 0 = n"
  by (simp add: float_to_int_def exact_float_in_int64)

lemma float_to_int_range: "in_int64 (float_to_int m e)"
  by (simp add: float_to_int_def Let_def in_int64_def)

lemma all_strings_map [simp]: "all_strings (map AString ss) = Some ss"
  by (induction ss) auto

lemma all_strings_Some: "all_strings vs = Some ss \<longleftrightarrow> vs = map AString ss"
  by (induction vs arbitrary: ss) (auto split: any.splits)

lemma control_getters_Set_other:
  assumes "k \<notin> {SkipGroupsKey, BranchKey, ApprovalKey}"
  shows "GetSkipGroups (ctx_Set k v c) = GetSkipGroups c"
    and "GetBranch (ctx_Set k v c) = GetBranch c"
    and "GetApproval (ctx_Set k v c) = GetApproval c"
  using assms by (auto simp: GetSkipGroups_def GetBranch_def GetApproval_def GetString_def)

lemma parse_digits_bound: "parse_digits acc s = Some n \<Longrightarrow> 0 \<le> acc \<Longrightarrow> acc \<le> n"
proof (induction acc s rule: parse_digits.induct)
  case (2 acc c cs)
  then show ?case
    by (fastforce simp: digit_val_def Let_def split: option.splits if_splits)
qed simp

lemma parse_int64_range: "parse_int64 s = Some n \<Longrightarrow> in_int64 n"
  by (auto simp: parse_int64_def Let_def split: option.splits if_splits list.splits)

text \<open>Every integer a getter returns is a value of Go's 64-bit \<^verbatim>\<open>int\<close>, whatever the task
  stored, provided integer values in the context are.\<close>

definition ints_in_range :: "ctx \<Rightarrow> bool" where
  "ints_in_range c \<longleftrightarrow>
     (\<forall>k n. (ctx_Get c k = Some (AInt n) \<or> ctx_Get c k = Some (AInt64 n)) \<longrightarrow> in_int64 n)"

lemma GetInt_range:
  assumes "ints_in_range c" and "GetInt c k = Some n"
  shows "in_int64 n"
  using assms
  by (auto simp: GetInt_def ints_in_range_def float_to_int_range parse_int64_range
      split: option.splits any.splits)


subsection \<open>Control markers survive the wire\<close>

text \<open>Whatever a task has in its context, the control marker it sets last is what the
  master reads back from the JSON the worker wrote: the number of groups to skip (for every
  count a \<^verbatim>\<open>float64\<close> represents exactly), the branch name and the approval message; and
  setting one marker leaves the other two as they were.\<close>

theorem control_markers_round_trip:
  assumes "exact_float n"
  shows "(\<exists>v. json_wire (AInt n) = Some v \<and> GetSkipGroups (ctx_Set SkipGroupsKey v c) = n
            \<and> GetInt (ctx_Set SkipGroupsKey v c) SkipGroupsKey = Some n)
       \<and> GetSkipGroups (SkipGroups n c) = n \<and> GetBranch (SkipGroups n c) = GetBranch c
       \<and> GetApproval (SkipGroups n c) = GetApproval c
       \<and> GetBranch (SetBranch b c) = b \<and> GetApproval (SetBranch b c) = GetApproval c
       \<and> GetSkipGroups (SetBranch b c) = GetSkipGroups c
       \<and> GetApproval (SetApproval a c) = a \<and> GetBranch (SetApproval a c) = GetBranch c
       \<and> GetSkipGroups (SetApproval a c) = GetSkipGroups c"
  using assms float_to_int_exact [OF assms]
  by (auto simp: GetSkipGroups_def SkipGroups_def GetBranch_def SetBranch_def GetApproval_def
      SetApproval_def GetString_def GetInt_def)

theorem control_markers_round_trip_witness:
  "exact_float 2 \<and> GetSkipGroups (SkipGroups 2 NewContext) = 2
     \<and> GetBranch (SetBranch ''file_exists'' NewContext) = ''file_exists''"
proof -
  have h: "exact_float 2" by (simp add: exact_float_def)
  show ?thesis
    using h control_markers_round_trip [OF h, of NewContext "''file_exists''" "''ok''"] by simp
qed

end
