(* ===== verification/Workflow_Model.thy ===== *)
theory Workflow_Model
  imports Task_Context "HOL-Library.AList"
begin

text \<open>
  \<^verbatim>\<open>domain/model/workflow.go\<close>, \<^verbatim>\<open>domain/model/task.go\<close> and \<^verbatim>\<open>domain/model/event.go\<close>: workflow
  definitions, their task nodes (plain tasks, sub-workflows, fan-out and loop nodes, branches),
  error policies, the run-time state of a workflow, incremental snapshots, the name indexes and
  the builders. Fields that come from user JSON and that the code compares with constants stay
  strings; statuses the engine sets itself are datatypes. A pointer or map whose \<^verbatim>\<open>nil\<close> the
  code tests is an option.
\<close>

subsection \<open>Constants\<close>

abbreviation TriggerManual :: string where "TriggerManual \<equiv> ''manual''"
abbreviation TriggerCron :: string where "TriggerCron \<equiv> ''cron''"
abbreviation TriggerEvent :: string where "TriggerEvent \<equiv> ''event''"

abbreviation EventTriggerWebhook :: string where "EventTriggerWebhook \<equiv> ''webhook''"
abbreviation EventTriggerWorkflowCompleted :: string
  where "EventTriggerWorkflowCompleted \<equiv> ''workflow_completed''"
abbreviation EventTriggerTaskFailed :: string where "EventTriggerTaskFailed \<equiv> ''task_failed''"

abbreviation LoopConditionAlways :: string where "LoopConditionAlways \<equiv> ''always''"
abbreviation LoopConditionKey :: string where "LoopConditionKey \<equiv> ''key''"

abbreviation TaskNodeTypeTask :: string where "TaskNodeTypeTask \<equiv> ''task''"
abbreviation TaskNodeTypeSubWorkflow :: string where "TaskNodeTypeSubWorkflow \<equiv> ''sub_workflow''"
abbreviation TaskNodeTypeFanOut :: string where "TaskNodeTypeFanOut \<equiv> ''fan_out''"

abbreviation DefaultFanOutOutputKey :: string where "DefaultFanOutOutputKey \<equiv> ''fan_out_results''"
abbreviation LoopContinueKey :: string where "LoopContinueKey \<equiv> ''__vibeflow_loop_continue''"
abbreviation LoopIterationKey :: string where "LoopIterationKey \<equiv> ''__vibeflow_loop_iteration''"

abbreviation ErrorPolicyRetry :: string where "ErrorPolicyRetry \<equiv> ''retry''"
abbreviation ErrorPolicyRollback :: string where "ErrorPolicyRollback \<equiv> ''rollback''"
abbreviation ErrorPolicySkip :: string where "ErrorPolicySkip \<equiv> ''skip''"
abbreviation ErrorPolicyFailFast :: string where "ErrorPolicyFailFast \<equiv> ''fail_fast''"


subsection \<open>Definitions of workflows\<close>

record event_trigger =
  et_EventType :: string
  et_Filter :: string
  et_WebhookSecret :: string

datatype workflow_status =
    WorkflowStatusPending
  | WorkflowStatusRunning
  | WorkflowStatusPaused
  | WorkflowStatusRollingBack
  | WorkflowStatusRolledBack
  | WorkflowStatusCompleted
  | WorkflowStatusFailed

record branch_location =
  ParentGroupIdx :: nat
  ParentNodeName :: string
  BranchName :: string

record loop_def =
  MaxIterations :: int
  ConditionType :: string
  ConditionKey :: string

text \<open>The template of a fan-out is a task node; \<open>'node\<close> stands for the type declared next.\<close>

datatype 'node fan_out_def = FanOutDef
    (IteratorKey: string)
    (FanOutTask: 'node)
    (MaxParallel: int)
    (OutputKey: string)

datatype task_node = TaskNode
    (node_Type: string)
    (node_Name: string)
    (node_Params: "vars option")
    (DelaySec: int)
    (Branches: "(string \<times> task_node list list) list option")
    (DefaultBranch: string)
    (ParallelBranch: bool)
    (SubWorkflow: string)
    (SubWorkflowParams: "vars option")
    (FanOut: "task_node fan_out_def option")
    (node_Loop: "loop_def option")
    (InputMapping: "(string \<times> string) list option")

type_synonym task_groups = "task_node list list"

record error_policy =
  OnTaskFailure :: string
  OnTimeout :: string
  SkippableTasks :: "string list"
  TaskPolicies :: "(string \<times> string) list"

record workflow =
  wf_UUID :: uuid
  wf_Name :: string
  TaskGroups :: task_groups
  Trigger :: string
  CronExpr :: string
  EventTrigger :: "event_trigger option"
  TimeoutSec :: int
  TaskTimeoutSec :: int
  wf_MaxRetries :: int
  wf_BaseBackoff :: int
  wf_Priority :: int
  ErrorPolicy :: "error_policy option"

text \<open>The node \<^verbatim>\<open>TaskNode{Name: name}\<close>, and the assignments the code makes to a node's fields.\<close>

definition named_node :: "string \<Rightarrow> task_node" where
  "named_node name = TaskNode '''' name None 0 None '''' False '''' None None None None"

fun set_node_Params :: "vars option \<Rightarrow> task_node \<Rightarrow> task_node" where
  "set_node_Params p (TaskNode ty nm _ d b db pb sw swp fo l im) = TaskNode ty nm p d b db pb sw swp fo l im"

fun set_InputMapping :: "(string \<times> string) list option \<Rightarrow> task_node \<Rightarrow> task_node" where
  "set_InputMapping m (TaskNode ty nm p d b db pb sw swp fo l _) = TaskNode ty nm p d b db pb sw swp fo l m"

definition GetTaskNodeType :: "task_node \<Rightarrow> string" where
  "GetTaskNodeType node = (if node_Type node \<noteq> '''' then node_Type node else TaskNodeTypeTask)"

text \<open>\<^verbatim>\<open>for ... range node.Branches\<close>: a nil map has no entries.\<close>

definition branch_list :: "task_node \<Rightarrow> (string \<times> task_groups) list" where
  "branch_list node = (case Branches node of None \<Rightarrow> [] | Some bs \<Rightarrow> bs)"

definition branch_nodes :: "task_node \<Rightarrow> task_node list" where
  "branch_nodes node = concat (concat (map snd (branch_list node)))"


subsection \<open>Error policies\<close>

definition GetTaskErrorPolicy :: "error_policy option \<Rightarrow> string \<Rightarrow> string" where
  "GetTaskErrorPolicy ep taskName =
     (case ep of
        None \<Rightarrow> ErrorPolicyRetry
      | Some p \<Rightarrow>
          (case map_of (TaskPolicies p) taskName of
             Some policy \<Rightarrow> policy
           | None \<Rightarrow> if OnTaskFailure p \<noteq> '''' then OnTaskFailure p else ErrorPolicyRetry))"

definition IsSkippable :: "error_policy option \<Rightarrow> string \<Rightarrow> bool" where
  "IsSkippable ep taskName =
     (case ep of
        None \<Rightarrow> False
      | Some p \<Rightarrow>
          if OnTaskFailure p \<noteq> ErrorPolicySkip then False
          else if SkippableTasks p = [] then True
          else taskName \<in> set (SkippableTasks p))"

definition GetTimeoutPolicy :: "error_policy option \<Rightarrow> string" where
  "GetTimeoutPolicy ep =
     (case ep of
        None \<Rightarrow> ''rollback''
      | Some p \<Rightarrow> if OnTimeout p = '''' then ''rollback'' else OnTimeout p)"

datatype policy_error =
    InvalidOnTaskFailure string
  | InvalidOnTimeout string
  | InvalidTaskPolicy string string

definition known_policy :: "string \<Rightarrow> bool" where
  "known_policy p \<longleftrightarrow>
     p \<in> {ErrorPolicyRetry, ErrorPolicyRollback, ErrorPolicySkip, ErrorPolicyFailFast}"

definition validate_policy :: "error_policy option \<Rightarrow> policy_error + unit" where
  "validate_policy ep =
     (case ep of
        None \<Rightarrow> Inr ()
      | Some p \<Rightarrow>
          if \<not> (OnTaskFailure p = '''' \<or> known_policy (OnTaskFailure p))
          then Inl (InvalidOnTaskFailure (OnTaskFailure p))
          else if OnTimeout p \<notin> {'''', ''rollback'', ''fail''}
          then Inl (InvalidOnTimeout (OnTimeout p))
          else check_all (\<lambda>(t, q). if known_policy q then Inr () else Inl (InvalidTaskPolicy t q))
                 (TaskPolicies p))"


subsection \<open>Names and indexes\<close>

definition node_names :: "task_node \<Rightarrow> string list" where
  "node_names n =
     (if GetTaskNodeType n = TaskNodeTypeSubWorkflow then
        (if node_Name n \<noteq> '''' then [node_Name n] else [])
      else if GetTaskNodeType n = TaskNodeTypeFanOut then
        (if node_Name n \<noteq> '''' then [node_Name n] else []) @
        (case FanOut n of
           Some fo \<Rightarrow> (if node_Name (FanOutTask fo) \<noteq> '''' then [node_Name (FanOutTask fo)] else [])
         | None \<Rightarrow> [])
      else [node_Name n])
     @ map node_Name (branch_nodes n)"

definition AllTaskNames :: "workflow \<Rightarrow> string list" where
  "AllTaskNames w = concat (map node_names (concat (TaskGroups w)))"

definition AllTaskNodes :: "workflow \<Rightarrow> task_node list" where
  "AllTaskNodes w = concat (TaskGroups w)"

text \<open>Go maps that the code also ranges over: an association list updated in place.\<close>

type_synonym group_index = "(string \<times> nat) list"
type_synonym branch_index = "(string \<times> branch_location) list"

fun index_groups :: "nat \<Rightarrow> task_groups \<Rightarrow> group_index \<Rightarrow> group_index" where
  "index_groups gi [] idx = idx"
| "index_groups gi (g # gs) idx =
     index_groups (Suc gi) gs (fold (\<lambda>node. AList.update (node_Name node) gi) g idx)"

definition BuildTaskGroupIndex :: "workflow \<Rightarrow> group_index" where
  "BuildTaskGroupIndex w = index_groups 0 (TaskGroups w) []"

definition branch_entries :: "nat \<Rightarrow> task_node \<Rightarrow> (string \<times> branch_location) list" where
  "branch_entries gi node =
     concat (map (\<lambda>(bname, bgroups).
       map (\<lambda>bn. (node_Name bn, \<lparr>ParentGroupIdx = gi, ParentNodeName = node_Name node, BranchName = bname\<rparr>))
         (concat bgroups)) (branch_list node))"

fun index_branches :: "nat \<Rightarrow> task_groups \<Rightarrow> branch_index \<Rightarrow> branch_index" where
  "index_branches gi [] idx = idx"
| "index_branches gi (g # gs) idx =
     index_branches (Suc gi) gs
       (fold (\<lambda>node. fold (\<lambda>(k, v). AList.update k v) (branch_entries gi node)) g idx)"

definition BuildBranchTaskIndex :: "workflow \<Rightarrow> branch_index" where
  "BuildBranchTaskIndex w = index_branches 0 (TaskGroups w) []"

definition AllTaskNamesCached :: "group_index \<Rightarrow> branch_index \<Rightarrow> string list" where
  "AllTaskNamesCached groupIndex branchIndex = map fst groupIndex @ map fst branchIndex"


subsection \<open>Run-time state and snapshots\<close>

text \<open>Texts of \<^verbatim>\<open>Error\<close>, \<^verbatim>\<open>Result\<close> and failed tasks: free text (from a task), or a message the
  engine formats, as a constructor with the arguments it formats.\<close>

datatype msg =
    Text string
  | MsgCancelled
  | MsgRejected
  | MsgTimeout go_duration
  | MsgTimeoutFail go_duration
  | MsgQueueTimeout int
  | MsgTaskFailed string int msg        \<comment> \<open>task, retry count, result\<close>
  | MsgPolicyRollback string msg
  | MsgPolicyFailFast string msg
  | MsgRetrySerialize string
  | MsgRetryPut string
  | MsgGroupFailed int msg              \<comment> \<open>one-based group, error of the executor\<close>
  | MsgLoopFailed int msg
  | MsgAdvancedFailed int msg
  | MsgWorkflowMissing uuid
  | MsgSerialize string
  | MsgPut string
  | MsgContextCancelled
  | MsgWatchdog int
  | MsgListenerClosed
  | MsgTaskStatus string msg
  | MsgTooFewSuccesses nat nat nat
  | MsgSubWorkflowFailed uuid msg
  | MsgFanOut string
  | MsgLoopIteration nat msg
  | MsgUnregistered string              \<comment> \<open>a worker has no handler of this name\<close>
  | MsgNoRollback string
  | MsgPanic string string              \<comment> \<open>task, value of the panic\<close>
  | MsgJoin msg msg                     \<comment> \<open>\<^verbatim>\<open>"%s: %s"\<close>\<close>

abbreviation NoMsg :: msg where "NoMsg \<equiv> Text ''''"

datatype ws_event_type =
    EventWorkflowSubmitted | EventTaskCompleted | EventTaskFailed | EventTaskRolledBack
  | EventWorkflowRollingBack | EventWorkflowRolledBack | EventWorkflowCompleted
  | EventWorkflowFailed | EventWorkflowCancelled | EventWorkflowPaused
  | EventWorkflowApproved | EventWorkflowRejected | EventTaskSkipped

record workflow_state =
  st_Workflow :: workflow
  st_Status :: workflow_status
  StartedAt :: go_time
  CompletedTasks :: "(string \<times> vars option) list"
  FailedTasks :: "(string \<times> msg) list"
  RolledBack :: "(string \<times> bool) list"
  st_Error :: msg
  PausedTaskName :: string
  PausedTaskOutput :: "vars option"
  PausedGroupIdx :: int
  TaskGroupIndex :: group_index
  BranchTaskIndex :: branch_index
  WorkflowUUID :: uuid
  st_WorkflowID :: nat
  ExecutionID :: nat
  SnapshotSeq :: nat
  Snapshotted :: "(string \<times> nat) list"

datatype delta_action = DeltaCompleted | DeltaFailed | DeltaRolledBack | DeltaOther string

record task_delta =
  td_TaskName :: string
  td_Action :: delta_action
  td_Output :: "vars option"
  td_Result :: msg

record workflow_snapshot =
  snap_WorkflowUUID :: uuid
  snap_ExecutionID :: nat
  snap_Status :: workflow_status
  ChangedTasks :: "task_delta list"
  snap_Error :: msg
  snap_UpdatedAt :: go_time

definition apply_delta :: "task_delta \<Rightarrow> workflow_state \<Rightarrow> workflow_state" where
  "apply_delta d s =
     (case td_Action d of
        DeltaCompleted \<Rightarrow> s\<lparr>CompletedTasks := AList.update (td_TaskName d) (td_Output d) (CompletedTasks s)\<rparr>
      | DeltaFailed \<Rightarrow> s\<lparr>FailedTasks := AList.update (td_TaskName d) (td_Result d) (FailedTasks s)\<rparr>
      | DeltaRolledBack \<Rightarrow> s\<lparr>RolledBack := AList.update (td_TaskName d) True (RolledBack s)\<rparr>
      | DeltaOther _ \<Rightarrow> s)"

definition ApplyDeltas :: "task_delta list \<Rightarrow> workflow_state \<Rightarrow> workflow_state" where
  "ApplyDeltas ds s = fold apply_delta ds s"


subsection \<open>Builders\<close>

definition NewWorkflow :: "string \<Rightarrow> workflow" where
  "NewWorkflow name =
     \<lparr>wf_UUID = name, wf_Name = name, TaskGroups = [], Trigger = TriggerManual, CronExpr = '''',
      EventTrigger = None, TimeoutSec = 0, TaskTimeoutSec = 0, wf_MaxRetries = 0, wf_BaseBackoff = 0,
      wf_Priority = 0, ErrorPolicy = None\<rparr>"

definition AddTaskNodeGroup :: "task_node list \<Rightarrow> workflow \<Rightarrow> workflow" where
  "AddTaskNodeGroup nodes w = w\<lparr>TaskGroups := TaskGroups w @ [nodes]\<rparr>"

definition AddTaskGroup :: "string list \<Rightarrow> workflow \<Rightarrow> workflow" where
  "AddTaskGroup tasks w = AddTaskNodeGroup (map named_node tasks) w"

definition AddSubWorkflowGroupWithParams :: "string \<Rightarrow> uuid \<Rightarrow> vars option \<Rightarrow> workflow \<Rightarrow> workflow" where
  "AddSubWorkflowGroupWithParams name sub params w =
     AddTaskNodeGroup [TaskNode TaskNodeTypeSubWorkflow name None 0 None '''' False sub params None None None] w"

definition AddSubWorkflowGroup :: "string \<Rightarrow> uuid \<Rightarrow> workflow \<Rightarrow> workflow" where
  "AddSubWorkflowGroup name sub w = AddSubWorkflowGroupWithParams name sub None w"

definition AddFanOutGroupWithOptions ::
  "string \<Rightarrow> string \<Rightarrow> task_node \<Rightarrow> int \<Rightarrow> string \<Rightarrow> workflow \<Rightarrow> workflow" where
  "AddFanOutGroupWithOptions name iteratorKey task maxParallel outputKey w =
     AddTaskNodeGroup
       [TaskNode TaskNodeTypeFanOut name None 0 None '''' False '''' None
         (Some (FanOutDef iteratorKey task maxParallel outputKey)) None None] w"

definition AddFanOutGroup :: "string \<Rightarrow> string \<Rightarrow> string \<Rightarrow> workflow \<Rightarrow> workflow" where
  "AddFanOutGroup name iteratorKey taskName w =
     AddFanOutGroupWithOptions name iteratorKey (named_node taskName) 0 '''' w"

definition AddLoopGroupWithParams ::
  "string \<Rightarrow> vars option \<Rightarrow> int \<Rightarrow> string \<Rightarrow> string \<Rightarrow> workflow \<Rightarrow> workflow" where
  "AddLoopGroupWithParams taskName params maxIterations conditionType conditionKey w =
     AddTaskNodeGroup
       [TaskNode '''' taskName params 0 None '''' False '''' None None
         (Some \<lparr>MaxIterations = maxIterations, ConditionType = conditionType, ConditionKey = conditionKey\<rparr>) None] w"

definition AddLoopGroup :: "string \<Rightarrow> int \<Rightarrow> string \<Rightarrow> string \<Rightarrow> workflow \<Rightarrow> workflow" where
  "AddLoopGroup taskName maxIterations conditionType conditionKey w =
     AddLoopGroupWithParams taskName None maxIterations conditionType conditionKey w"

text \<open>\<^verbatim>\<open>mappings\<close> may be shorter than \<^verbatim>\<open>tasks\<close>; tasks beyond it keep a nil mapping.\<close>

fun zip_mappings :: "string list \<Rightarrow> (string \<times> string) list option list \<Rightarrow> task_node list" where
  "zip_mappings [] ms = []"
| "zip_mappings (t # ts) [] = named_node t # zip_mappings ts []"
| "zip_mappings (t # ts) (m # ms) = set_InputMapping m (named_node t) # zip_mappings ts ms"

definition AddTaskGroupWithInputMapping ::
  "string list \<Rightarrow> (string \<times> string) list option list \<Rightarrow> workflow \<Rightarrow> workflow" where
  "AddTaskGroupWithInputMapping tasks mappings w = AddTaskNodeGroup (zip_mappings tasks mappings) w"

definition AddBranchNodeGroup ::
  "string \<Rightarrow> (string \<times> task_groups) list option \<Rightarrow> string \<Rightarrow> bool \<Rightarrow> workflow \<Rightarrow> workflow" where
  "AddBranchNodeGroup taskName branches defaultBranch parallelBranch w =
     AddTaskNodeGroup
       [TaskNode '''' taskName None 0 branches defaultBranch parallelBranch '''' None None None None] w"

definition SetEventTrigger :: "string \<Rightarrow> string \<Rightarrow> workflow \<Rightarrow> workflow" where
  "SetEventTrigger eventType flt w =
     w\<lparr>Trigger := TriggerEvent,
        EventTrigger := Some \<lparr>et_EventType = eventType, et_Filter = flt, et_WebhookSecret = ''''\<rparr>\<rparr>"

definition SetErrorPolicy :: "string \<Rightarrow> string \<Rightarrow> workflow \<Rightarrow> workflow" where
  "SetErrorPolicy onTaskFailure onTimeout w =
     w\<lparr>ErrorPolicy := Some \<lparr>OnTaskFailure = onTaskFailure, OnTimeout = onTimeout,
                             SkippableTasks = [], TaskPolicies = []\<rparr>\<rparr>"

definition SetErrorPolicyWithDetails :: "error_policy option \<Rightarrow> workflow \<Rightarrow> workflow" where
  "SetErrorPolicyWithDetails policy w = w\<lparr>ErrorPolicy := policy\<rparr>"


subsection \<open>Input mapping\<close>

text \<open>Later outputs override earlier ones; a nil output contributes nothing.\<close>

definition merge_outputs :: "vars list \<Rightarrow> vars" where
  "merge_outputs os = fold (\<lambda>out m. m ++ out) os Map.empty"

text \<open>Distinct local keys of a Go map make the order of the second loop irrelevant: the result
  is the map from each local key to the value of its source key, where there is one.\<close>

definition ApplyInputMapping :: "task_node \<Rightarrow> vars list \<Rightarrow> vars option" where
  "ApplyInputMapping node upstreamOutputs =
     (case InputMapping node of
        None \<Rightarrow> None
      | Some [] \<Rightarrow> None
      | Some ms \<Rightarrow>
          let merged = merge_outputs upstreamOutputs in
          Some (fold (\<lambda>(localKey, sourceKey) r.
                  case merged sourceKey of Some val \<Rightarrow> r(localKey \<mapsto> val) | None \<Rightarrow> r) ms Map.empty))"


subsection \<open>The name indexes as one list of entries\<close>

definition group_entries :: "nat \<Rightarrow> task_groups \<Rightarrow> (string \<times> nat) list" where
  "group_entries gi gs = concat (map (\<lambda>(i, g). map (\<lambda>n. (node_Name n, i)) g) (enumerate gi gs))"

definition all_branch_entries :: "nat \<Rightarrow> task_groups \<Rightarrow> (string \<times> branch_location) list" where
  "all_branch_entries gi gs = concat (map (\<lambda>(i, g). concat (map (branch_entries i) g)) (enumerate gi gs))"

lemma fold_concat_map: "fold (\<lambda>x. fold f (g x)) xs s = fold f (concat (map g xs)) s"
  by (induction xs arbitrary: s) simp_all

lemma concat_map_concat: "concat (map (\<lambda>x. concat (g x)) xs) = concat (concat (map g xs))"
  by (induction xs) simp_all

lemma group_entries_simps [simp]:
  "group_entries gi [] = []"
  "group_entries gi (g # gs) = map (\<lambda>n. (node_Name n, gi)) g @ group_entries (Suc gi) gs"
  by (simp_all add: group_entries_def)

lemma all_branch_entries_simps [simp]:
  "all_branch_entries gi [] = []"
  "all_branch_entries gi (g # gs) = concat (map (branch_entries gi) g) @ all_branch_entries (Suc gi) gs"
  by (simp_all add: all_branch_entries_def)

lemma index_groups_entries:
  "index_groups gi gs idx = fold (\<lambda>(k, v). AList.update k v) (group_entries gi gs) idx"
  by (induction gs arbitrary: gi idx) (simp_all add: fold_map comp_def)

lemma index_branches_entries:
  "index_branches gi gs idx = fold (\<lambda>(k, v). AList.update k v) (all_branch_entries gi gs) idx"
  by (induction gs arbitrary: gi idx) (simp_all add: fold_concat_map)

lemma group_entriesD:
  "(k, j) \<in> set (group_entries gi gs)
     \<Longrightarrow> \<exists>i < length gs. j = gi + i \<and> (\<exists>n \<in> set (gs ! i). k = node_Name n)"
proof (induction gs arbitrary: gi)
  case (Cons g gs)
  from Cons.prems consider "j = gi" "k \<in> node_Name ` set g" | "(k, j) \<in> set (group_entries (Suc gi) gs)"
    by auto
  then show ?case
  proof cases
    case 1
    then show ?thesis by (intro exI [of _ 0]) auto
  next
    case 2
    from Cons.IH [OF 2] obtain i where "i < length gs" "j = Suc gi + i" "\<exists>n \<in> set (gs ! i). k = node_Name n"
      by blast
    then show ?thesis by (intro exI [of _ "Suc i"]) auto
  qed
qed simp

lemma group_entriesI:
  "i < length gs \<Longrightarrow> n \<in> set (gs ! i) \<Longrightarrow> (node_Name n, gi + i) \<in> set (group_entries gi gs)"
proof (induction gs arbitrary: gi i)
  case (Cons g gs)
  show ?case
  proof (cases i)
    case (Suc i')
    then show ?thesis using Cons.IH [of i' "Suc gi"] Cons.prems by simp
  qed (use Cons.prems in auto)
qed simp

lemma fst_group_entries: "map fst (group_entries gi gs) = map node_Name (concat gs)"
  by (induction gs arbitrary: gi) (simp_all add: comp_def)

lemma fst_branch_entries: "map fst (branch_entries gi n) = map node_Name (branch_nodes n)"
proof -
  have "map fst (concat (map (\<lambda>(bname, bgroups). map (\<lambda>bn. (node_Name bn, h bname)) (concat bgroups)) bs))
      = map node_Name (concat (concat (map snd bs)))" for h :: "string \<Rightarrow> branch_location" and bs
    by (induction bs) (simp_all add: comp_def case_prod_unfold)
  then show ?thesis by (simp add: branch_entries_def branch_nodes_def)
qed

lemma fst_all_branch_entries:
  "map fst (all_branch_entries gi gs) = map node_Name (concat (map branch_nodes (concat gs)))"
  by (induction gs arbitrary: gi) (simp_all add: map_concat comp_def fst_branch_entries)

lemma all_branch_entriesI:
  assumes "i < length gs" and "n \<in> set (gs ! i)" and "e \<in> set (branch_entries (gi + i) n)"
  shows "e \<in> set (all_branch_entries gi gs)"
proof -
  have "(gi + i, gs ! i) \<in> set (enumerate gi gs)" using assms(1) by (simp add: in_set_enumerate_eq)
  with assms(2,3) show ?thesis unfolding all_branch_entries_def by force
qed

lemma branch_entriesI:
  assumes "(b, bgs) \<in> set (branch_list n)" and "bn \<in> set (concat bgs)"
  shows "(node_Name bn, \<lparr>ParentGroupIdx = gi, ParentNodeName = node_Name n, BranchName = b\<rparr>)
           \<in> set (branch_entries gi n)"
proof -
  let ?f = "\<lambda>(bname, bgroups). map (\<lambda>bn. (node_Name bn,
      \<lparr>ParentGroupIdx = gi, ParentNodeName = node_Name n, BranchName = bname\<rparr>)) (concat bgroups)"
  have "(node_Name bn, \<lparr>ParentGroupIdx = gi, ParentNodeName = node_Name n, BranchName = b\<rparr>) \<in> set (?f (b, bgs))"
    using assms(2) by auto
  then show ?thesis unfolding branch_entries_def set_concat set_map using assms(1) by blast
qed

lemma BuildTaskGroupIndex_lookup:
  assumes "i < length (TaskGroups w)" and "n \<in> set (TaskGroups w ! i)"
    and "\<And>j m. j < length (TaskGroups w) \<Longrightarrow> m \<in> set (TaskGroups w ! j) \<Longrightarrow> node_Name m = node_Name n \<Longrightarrow> j = i"
  shows "map_of (BuildTaskGroupIndex w) (node_Name n) = Some i"
proof -
  have "map_of (rev (group_entries 0 (TaskGroups w))) (node_Name n) = Some i"
  proof (rule map_of_rev_unique)
    show "(node_Name n, i) \<in> set (group_entries 0 (TaskGroups w))"
      using group_entriesI [OF assms(1,2), of 0] by simp
  next
    fix v assume "(node_Name n, v) \<in> set (group_entries 0 (TaskGroups w))"
    then obtain j m where "j < length (TaskGroups w)" "v = j" "m \<in> set (TaskGroups w ! j)" "node_Name n = node_Name m"
      by (auto dest: group_entriesD)
    then show "v = i" using assms(3) by metis
  qed
  then show ?thesis by (simp add: BuildTaskGroupIndex_def index_groups_entries map_of_fold_update)
qed

lemma BuildTaskGroupIndex_keys: "fst ` set (BuildTaskGroupIndex w) = node_Name ` set (AllTaskNodes w)"
proof -
  have "set (map fst (group_entries 0 (TaskGroups w))) = set (map node_Name (concat (TaskGroups w)))"
    by (simp only: fst_group_entries)
  then show ?thesis
    by (simp add: BuildTaskGroupIndex_def index_groups_entries keys_fold_update AllTaskNodes_def)
qed

lemma BuildBranchTaskIndex_lookup:
  assumes "(k, v) \<in> set (all_branch_entries 0 (TaskGroups w))"
    and "distinct (map node_Name (concat (map branch_nodes (concat (TaskGroups w)))))"
  shows "map_of (BuildBranchTaskIndex w) k = Some v"
proof -
  have "distinct (map fst (all_branch_entries 0 (TaskGroups w)))"
    using assms(2) by (simp only: fst_all_branch_entries)
  then have "map_of (rev (all_branch_entries 0 (TaskGroups w))) k = Some v"
    using assms(1) by (intro map_of_rev_unique) (auto dest: eq_key_imp_eq_value)
  then show ?thesis by (simp add: BuildBranchTaskIndex_def index_branches_entries map_of_fold_update)
qed

text \<open>The names the two indexes give, and those \<^verbatim>\<open>AllTaskNames\<close> lists: the latter adds the
  templates of fan-out nodes and leaves out empty names of advanced nodes.\<close>

lemma set_AllTaskNamesCached:
  "set (AllTaskNamesCached (BuildTaskGroupIndex w) (BuildBranchTaskIndex w))
     = node_Name ` set (AllTaskNodes w) \<union> node_Name ` (\<Union>n \<in> set (AllTaskNodes w). set (branch_nodes n))"
proof -
  have "set (map fst (all_branch_entries 0 (TaskGroups w)))
      = set (map node_Name (concat (map branch_nodes (concat (TaskGroups w)))))"
    by (simp only: fst_all_branch_entries)
  then have b: "fst ` set (BuildBranchTaskIndex w)
      = node_Name ` (\<Union>n \<in> set (AllTaskNodes w). set (branch_nodes n))"
    by (simp add: BuildBranchTaskIndex_def index_branches_entries keys_fold_update AllTaskNodes_def)
  show ?thesis by (simp add: AllTaskNamesCached_def BuildTaskGroupIndex_keys b)
qed


subsection \<open>Input mapping and snapshots\<close>

lemma merge_outputs_snoc [simp]: "merge_outputs (os @ [out]) = merge_outputs os ++ out"
  by (simp add: merge_outputs_def)

text \<open>Input mapping: a node without a mapping gets no mapped input; otherwise, where the
  mapping's local keys are distinct (as the keys of a Go map are), local key \<open>k\<close> receives the
  value of its source key in the merged upstream outputs, later outputs overriding earlier
  ones, and a local key whose source key no output has stays unset.\<close>

theorem ApplyInputMapping_lookup:
  assumes "InputMapping node = Some ms" and "distinct (map fst ms)" and "ms \<noteq> []"
  shows "\<exists>r. ApplyInputMapping node (os @ [out]) = Some r
     \<and> (\<forall>k. r k = (case map_of ms k of
                      None \<Rightarrow> None
                    | Some src \<Rightarrow> (case out src of Some v \<Rightarrow> Some v | None \<Rightarrow> merge_outputs os src)))"
proof -
  let ?f = "\<lambda>merged::vars. fold (\<lambda>(localKey, sourceKey) r. case merged sourceKey of
       Some val \<Rightarrow> r(localKey \<mapsto> val) | None \<Rightarrow> r)"
  have gen: "?f merged ms r k
      = (case map_of ms k of None \<Rightarrow> r k | Some src \<Rightarrow> (case merged src of None \<Rightarrow> r k | Some v \<Rightarrow> Some v))"
    for merged r k
    using assms(2)
  proof (induction ms arbitrary: r)
    case (Cons m ms)
    have "map_of ms (fst m) = None" using Cons.prems by (simp add: map_of_eq_None_iff)
    with Cons show ?case by (cases m) (auto split: option.splits)
  qed simp
  have "ApplyInputMapping node (os @ [out]) = Some (?f (merge_outputs (os @ [out])) ms Map.empty)"
    using assms(1,3) by (cases ms) (simp_all add: ApplyInputMapping_def Let_def)
  then show ?thesis by (auto simp: gen map_add_def split: option.splits)
qed


theorem ApplyInputMapping_lookup_witness:
  "\<exists>r. ApplyInputMapping (set_InputMapping (Some [(''city'', ''place''), (''n'', ''count'')]) (named_node ''t''))
         [[''place'' \<mapsto> AString ''old'', ''count'' \<mapsto> AInt 2], [''place'' \<mapsto> AString ''new'']] = Some r
     \<and> r ''city'' = Some (AString ''new'') \<and> r ''n'' = Some (AInt 2) \<and> r ''place'' = None"
proof -
  let ?ms = "[(''city'', ''place''), (''n'', ''count'')]"
  let ?a = "[''place'' \<mapsto> AString ''old'', ''count'' \<mapsto> AInt 2] :: vars" and ?b = "[''place'' \<mapsto> AString ''new''] :: vars"
  let ?node = "set_InputMapping (Some ?ms) (named_node ''t'')"
  have "InputMapping ?node = Some ?ms" "distinct (map fst ?ms)" "?ms \<noteq> []" by (simp_all add: named_node_def)
  from ApplyInputMapping_lookup [OF this, of "[?a]" ?b] obtain r where "ApplyInputMapping ?node ([?a] @ [?b]) = Some r"
    and r: "\<forall>k. r k = (case map_of ?ms k of None \<Rightarrow> None
      | Some src \<Rightarrow> (case ?b src of Some v \<Rightarrow> Some v | None \<Rightarrow> merge_outputs [?a] src))" by blast
  moreover have "r ''city'' = Some (AString ''new'')" "r ''n'' = Some (AInt 2)" "r ''place'' = None"
    by (simp_all add: r merge_outputs_def)
  ultimately show ?thesis by auto
qed

end
