(* ===== verification/Go_Heap.thy ===== *)
theory Go_Heap
  imports Prelude
begin

text \<open>
  Go's \<^verbatim>\<open>container/heap\<close> over a slice: \<^verbatim>\<open>up\<close>, \<^verbatim>\<open>down\<close>, \<^verbatim>\<open>heap.Push\<close> and \<^verbatim>\<open>heap.Pop\<close>, with
  the element order \<^verbatim>\<open>Less\<close> as the argument \<open>lt\<close>. The master's pending queue
  (\<^verbatim>\<open>scheduler/types.go\<close>) and the worker's task queue (\<^verbatim>\<open>runtime/priority_queue.go\<close>) are both
  built on it. The locale \<open>heap_order\<close> is what \<^verbatim>\<open>container/heap\<close> asks of \<^verbatim>\<open>Less\<close> (a strict weak
  order); inside it the heap invariant, the multiset of elements and the order in which
  elements leave the heap are proved once for both queues.
\<close>

subsection \<open>The routines of the standard library\<close>

definition heap_swap :: "nat \<Rightarrow> nat \<Rightarrow> 'a list \<Rightarrow> 'a list" where
  "heap_swap i j h = h[i := h ! j, j := h ! i]"

function heap_up :: "('a \<Rightarrow> 'a \<Rightarrow> bool) \<Rightarrow> 'a list \<Rightarrow> nat \<Rightarrow> 'a list" where
  "heap_up lt h j =
     (let i = (j - 1) div 2 in
      if i = j \<or> \<not> lt (h ! j) (h ! i) then h
      else heap_up lt (heap_swap i j h) i)"
  by pat_completeness auto
termination
  by (relation "measure (\<lambda>(lt, h, j). j)") auto

declare heap_up.simps [simp del]

definition heap_child :: "('a \<Rightarrow> 'a \<Rightarrow> bool) \<Rightarrow> 'a list \<Rightarrow> nat \<Rightarrow> nat \<Rightarrow> nat" where
  "heap_child lt h i n =
     (let j1 = 2 * i + 1; j2 = j1 + 1 in if j2 < n \<and> lt (h ! j2) (h ! j1) then j2 else j1)"

function heap_down :: "('a \<Rightarrow> 'a \<Rightarrow> bool) \<Rightarrow> 'a list \<Rightarrow> nat \<Rightarrow> nat \<Rightarrow> 'a list" where
  "heap_down lt h i n =
     (if 2 * i + 1 \<ge> n then h
      else if \<not> lt (h ! heap_child lt h i n) (h ! i) then h
      else heap_down lt (heap_swap i (heap_child lt h i n) h) (heap_child lt h i n) n)"
  by pat_completeness auto
termination
  by (relation "measure (\<lambda>(lt, h, i, n). n - i)") (auto simp: heap_child_def Let_def)

declare heap_down.simps [simp del]

text \<open>\<^verbatim>\<open>heap.Push\<close> appends and sifts up; \<^verbatim>\<open>heap.Pop\<close> swaps the root to the end, sifts down and
  cuts the last element off. On an empty slice \<^verbatim>\<open>heap.Pop\<close> panics: \<open>None\<close>.\<close>

definition heap_push :: "('a \<Rightarrow> 'a \<Rightarrow> bool) \<Rightarrow> 'a \<Rightarrow> 'a list \<Rightarrow> 'a list" where
  "heap_push lt x h = heap_up lt (h @ [x]) (length h)"

definition heap_pop :: "('a \<Rightarrow> 'a \<Rightarrow> bool) \<Rightarrow> 'a list \<Rightarrow> ('a \<times> 'a list) option" where
  "heap_pop lt h =
     (if h = [] then None
      else let n = length h - 1; h' = heap_down lt (heap_swap 0 n h) 0 n
           in Some (h' ! n, take n h'))"

text \<open>A heap of one element.\<close>

lemma heap_push_single: "heap_push lt x [] = [x]"
  unfolding heap_push_def by (subst heap_up.simps) simp

lemma heap_pop_single: "heap_pop lt [x] = Some (x, [])"
proof -
  have "heap_down lt [x] 0 0 = [x]" by (subst heap_down.simps) simp
  then show ?thesis by (simp add: heap_pop_def heap_swap_def)
qed

text \<open>Popping until the heap is empty.\<close>

fun heap_drain :: "nat \<Rightarrow> ('a \<Rightarrow> 'a \<Rightarrow> bool) \<Rightarrow> 'a list \<Rightarrow> 'a list" where
  "heap_drain 0 lt h = []"
| "heap_drain (Suc k) lt h = (case heap_pop lt h of None \<Rightarrow> [] | Some (x, h') \<Rightarrow> x # heap_drain k lt h')"

text \<open>The heap invariant on the first \<open>n\<close> elements: no element is before its parent.\<close>

definition is_heap :: "('a \<Rightarrow> 'a \<Rightarrow> bool) \<Rightarrow> nat \<Rightarrow> 'a list \<Rightarrow> bool" where
  "is_heap lt n h \<longleftrightarrow> (\<forall>k < n. 0 < k \<longrightarrow> \<not> lt (h ! k) (h ! ((k - 1) div 2)))"


subsection \<open>Lengths and multisets, for any order\<close>

lemma length_heap_swap [simp]: "length (heap_swap i j h) = length h"
  by (simp add: heap_swap_def)

lemma mset_heap_swap: "i < length h \<Longrightarrow> j < length h \<Longrightarrow> mset (heap_swap i j h) = mset h"
  by (simp add: heap_swap_def mset_swap)

lemma nth_heap_swap:
  "i < length h \<Longrightarrow> j < length h \<Longrightarrow> k < length h \<Longrightarrow>
   heap_swap i j h ! k = (if k = j then h ! i else if k = i then h ! j else h ! k)"
  by (simp add: heap_swap_def nth_list_update)

lemma length_heap_up [simp]: "length (heap_up lt h j) = length h"
  by (induction lt h j rule: heap_up.induct) (subst heap_up.simps, simp add: Let_def)

lemma mset_heap_up: "j < length h \<Longrightarrow> mset (heap_up lt h j) = mset h"
proof (induction lt h j rule: heap_up.induct)
  case (1 lt h j)
  then show ?case
    by (subst heap_up.simps) (auto simp: Let_def mset_heap_swap)
qed

lemma heap_child_bounds: "2 * i + 1 < n \<Longrightarrow> i < heap_child lt h i n \<and> heap_child lt h i n < n"
  by (auto simp: heap_child_def Let_def)

lemma length_heap_down [simp]: "length (heap_down lt h i n) = length h"
  by (induction lt h i n rule: heap_down.induct) (subst heap_down.simps, simp)

lemma mset_heap_down: "n \<le> length h \<Longrightarrow> mset (heap_down lt h i n) = mset h"
proof (induction lt h i n rule: heap_down.induct)
  case (1 lt h i n)
  show ?case
  proof (cases "2 * i + 1 < n")
    case True
    with heap_child_bounds [OF True, of lt h] 1 show ?thesis
      by (subst heap_down.simps) (auto simp: mset_heap_swap)
  next
    case False
    then show ?thesis by (subst heap_down.simps) simp
  qed
qed

lemma nth_heap_down_beyond: "n \<le> k \<Longrightarrow> k < length h \<Longrightarrow> heap_down lt h i n ! k = h ! k"
proof (induction lt h i n rule: heap_down.induct)
  case (1 lt h i n)
  show ?case
  proof (cases "2 * i + 1 < n")
    case True
    with heap_child_bounds [OF True, of lt h] 1 show ?thesis
      by (subst heap_down.simps) (auto simp: nth_heap_swap)
  next
    case False
    then show ?thesis by (subst heap_down.simps) simp
  qed
qed

lemma mset_heap_push: "mset (heap_push lt x h) = add_mset x (mset h)"
  by (simp add: heap_push_def mset_heap_up)

lemma length_heap_push [simp]: "length (heap_push lt x h) = Suc (length h)"
  by (simp add: heap_push_def)

lemma heap_push_not_Nil [simp]: "heap_push lt x h \<noteq> []"
  by (metis length_heap_push length_0_conv nat.distinct(1))

lemma set_heap_push [simp]: "set (heap_push lt x h) = insert x (set h)"
  by (metis mset_heap_push set_mset_add_mset_insert set_mset_mset)

lemma heap_pop_None_iff [simp]: "heap_pop lt h = None \<longleftrightarrow> h = []"
  by (simp add: heap_pop_def Let_def)

lemma heap_pop_Nil [simp]: "heap_pop lt [] = None"
  by simp

lemma heap_pop_SomeD:
  assumes "heap_pop lt h = Some (x, h')"
  shows "h \<noteq> []" and "x = h ! 0" and "h' = take (length h - 1) (heap_down lt (heap_swap 0 (length h - 1) h) 0 (length h - 1))"
  using assms
  by (auto simp: heap_pop_def Let_def nth_heap_down_beyond nth_heap_swap split: if_splits)

lemma length_heap_pop: "heap_pop lt h = Some (x, h') \<Longrightarrow> Suc (length h') = length h"
  by (frule heap_pop_SomeD(1)) (drule heap_pop_SomeD(3), cases h, auto)

lemma mset_heap_pop:
  assumes "heap_pop lt h = Some (x, h')"
  shows "mset h = add_mset x (mset h')"
proof -
  let ?n = "length h - 1" and ?g = "heap_down lt (heap_swap 0 (length h - 1) h) 0 (length h - 1)"
  from assms have ne: "h \<noteq> []" and x: "x = h ! 0" and h': "h' = take ?n ?g"
    by (auto dest: heap_pop_SomeD)
  from ne have len: "length ?g = Suc ?n" by (cases h) auto
  have last: "?g ! ?n = h ! 0"
    using ne by (simp add: nth_heap_down_beyond nth_heap_swap)
  have "?g = take ?n ?g @ [?g ! ?n]"
    using len by (metis lessI take_Suc_conv_app_nth take_all_iff order_refl)
  then have "mset ?g = add_mset (h ! 0) (mset h')"
    by (metis h' last add_mset_add_single mset.simps mset_append)
  moreover have "mset ?g = mset h"
    using ne by (simp add: mset_heap_down mset_heap_swap)
  ultimately show ?thesis by (simp add: x)
qed


subsection \<open>The heap invariant, for a strict weak order\<close>

locale heap_order =
  fixes lt :: "'a \<Rightarrow> 'a \<Rightarrow> bool"
  assumes asym: "lt x y \<Longrightarrow> \<not> lt y x"
    and neg_trans: "\<not> lt x y \<Longrightarrow> \<not> lt y z \<Longrightarrow> \<not> lt x z"
begin

lemma irrefl: "\<not> lt x x"
  using asym by blast

text \<open>\<open>up\<close> repairs a heap whose only fault may be at position \<open>j\<close> towards its parent.\<close>

lemma heap_up_is_heap:
  assumes "j < length h"
    and "\<And>k. k < length h \<Longrightarrow> 0 < k \<Longrightarrow> k \<noteq> j \<Longrightarrow> \<not> lt (h ! k) (h ! ((k - 1) div 2))"
    and "\<And>k. k < length h \<Longrightarrow> 0 < k \<Longrightarrow> (k - 1) div 2 = j \<Longrightarrow> 0 < j \<Longrightarrow> \<not> lt (h ! k) (h ! ((j - 1) div 2))"
  shows "is_heap lt (length h) (heap_up lt h j)"
  using assms
proof (induction j arbitrary: h rule: less_induct)
  case (less j)
  let ?i = "(j - 1) div 2"
  show ?case
  proof (cases "?i = j \<or> \<not> lt (h ! j) (h ! ?i)")
    case True
    then have "is_heap lt (length h) h"
      using less.prems(2) by (auto simp: is_heap_def)
    with True show ?thesis by (subst heap_up.simps) (simp add: Let_def)
  next
    case False
    then have j: "0 < j" "?i < j" and l: "lt (h ! j) (h ! ?i)" by (cases j; auto)+
    let ?g = "heap_swap ?i j h"
    have g: "?g ! k = (if k = j then h ! ?i else if k = ?i then h ! j else h ! k)" if "k < length h" for k
      using that j less.prems(1) by (simp add: nth_heap_swap)
    have "is_heap lt (length ?g) (heap_up lt ?g ?i)"
    proof (rule less.IH)
      show "?i < j" by (fact j)
      show "?i < length ?g" using j less.prems(1) by simp
    next
      fix k assume k: "k < length ?g" "0 < k" "k \<noteq> ?i"
      then have p: "(k - 1) div 2 < length h" by simp
      have up: "\<not> lt (h ! k) (h ! ((k - 1) div 2))" if "k \<noteq> j"
        using less.prems(2) k that by simp
      consider (j) "k = j" | (child) "k \<noteq> j" "(k - 1) div 2 = j"
        | (sibling) "k \<noteq> j" "(k - 1) div 2 = ?i" | (far) "k \<noteq> j" "(k - 1) div 2 \<noteq> j" "(k - 1) div 2 \<noteq> ?i"
        by blast
      then show "\<not> lt (?g ! k) (?g ! ((k - 1) div 2))"
      proof cases
        case j
        then show ?thesis using asym [OF l] g [of j] g [of ?i] less.prems(1) \<open>?i < j\<close> by simp
      next
        case child
        then show ?thesis
          using less.prems(1) less.prems(3) [of k] \<open>0 < j\<close> k g [of k] g [of j] by simp
      next
        case sibling
        then have "\<not> lt (h ! k) (h ! ?i)" using up by simp
        then have "\<not> lt (h ! k) (h ! j)" using asym [OF l] by (rule neg_trans)
        with sibling \<open>?i < j\<close> k p g [of k] g [of ?i] show ?thesis by simp
      next
        case far
        then show ?thesis using up k p g [of k] g [of "(k - 1) div 2"] by simp
      qed
    next
      fix k assume k: "k < length ?g" "0 < k" "(k - 1) div 2 = ?i" "0 < ?i"
      have par: "(?i - 1) div 2 < ?i" using k(4) by linarith
      have up: "\<not> lt (h ! ?i) (h ! ((?i - 1) div 2))"
        using less.prems(2) [of ?i] j less.prems(1) k(4) by simp
      have kup: "\<not> lt (h ! k) (h ! ((?i - 1) div 2))" if "k \<noteq> j"
      proof (rule neg_trans [OF _ up])
        show "\<not> lt (h ! k) (h ! ?i)" using less.prems(2) [of k] k that by simp
      qed
      have gi: "?g ! ((?i - 1) div 2) = h ! ((?i - 1) div 2)"
        using par j less.prems(1) g [of "(?i - 1) div 2"] by simp
      show "\<not> lt (?g ! k) (?g ! ((?i - 1) div 2))"
      proof (cases "k = j")
        case True
        then show ?thesis unfolding gi using up g [of j] less.prems(1) by simp
      next
        case False
        moreover have "k \<noteq> ?i" using k(2,3) by linarith
        ultimately show ?thesis unfolding gi using kup g [of k] k(1) by simp
      qed
    qed
    with False show ?thesis by (subst heap_up.simps) (simp add: Let_def)
  qed
qed

lemma heap_push_is_heap:
  assumes "is_heap lt (length h) h"
  shows "is_heap lt (Suc (length h)) (heap_push lt x h)"
proof -
  have "is_heap lt (length (h @ [x])) (heap_up lt (h @ [x]) (length h))"
    using assms by (intro heap_up_is_heap) (auto simp: is_heap_def nth_append)
  then show ?thesis by (simp add: heap_push_def)
qed

text \<open>\<open>down\<close> repairs a heap whose only fault may be at position \<open>i\<close> towards its children.\<close>

lemma heap_child_least:
  assumes "2 * i + 1 < n" and "k < n" and "0 < k" and "(k - 1) div 2 = i"
  shows "\<not> lt (h ! k) (h ! heap_child lt h i n)"
proof -
  from assms have "k = 2 * i + 1 \<or> k = 2 * i + 2" by arith
  with assms show ?thesis by (auto simp: heap_child_def Let_def irrefl dest: asym)
qed

lemma heap_child_parent: "2 * i + 1 < n \<Longrightarrow> (heap_child lt h i n - 1) div 2 = i"
  by (auto simp: heap_child_def Let_def)

lemma heap_down_is_heap:
  assumes "n \<le> length h" and "i < length h"
    and "\<And>k. k < n \<Longrightarrow> 0 < k \<Longrightarrow> (k - 1) div 2 \<noteq> i \<Longrightarrow> \<not> lt (h ! k) (h ! ((k - 1) div 2))"
    and "\<And>k. k < n \<Longrightarrow> 0 < k \<Longrightarrow> (k - 1) div 2 = i \<Longrightarrow> 0 < i \<Longrightarrow> \<not> lt (h ! k) (h ! ((i - 1) div 2))"
  shows "is_heap lt n (heap_down lt h i n)"
  using assms
proof (induction "n - i" arbitrary: h i rule: less_induct)
  case less
  let ?j = "heap_child lt h i n"
  show ?case
  proof (cases "2 * i + 1 < n")
    case False
    then have "(k - 1) div 2 \<noteq> i" if "k < n" "0 < k" for k using that by arith
    with less.prems(3) False show ?thesis
      by (subst heap_down.simps) (auto simp: is_heap_def)
  next
    case c: True
    note j = heap_child_bounds [OF c, of lt h] and jp = heap_child_parent [OF c, of h]
    note least = heap_child_least [OF c]
    show ?thesis
    proof (cases "lt (h ! ?j) (h ! i)")
      case False
      then have "is_heap lt n h"
        unfolding is_heap_def using less.prems(3) least neg_trans by metis
      with False show ?thesis by (subst heap_down.simps) simp
    next
      case True
      let ?g = "heap_swap i ?j h"
      have g: "?g ! k = (if k = ?j then h ! i else if k = i then h ! ?j else h ! k)" if "k < n" for k
        using that j less.prems(1,2) by (simp add: nth_heap_swap)
      have "is_heap lt n (heap_down lt ?g ?j n)"
      proof (rule less.hyps)
        show "n - ?j < n - i" using j by linarith
        show "n \<le> length ?g" "?j < length ?g" using less.prems(1) j by auto
      next
        fix k assume k: "k < n" "0 < k" "(k - 1) div 2 \<noteq> ?j"
        then have p: "(k - 1) div 2 < k" "(k - 1) div 2 < n" by auto
        have up: "\<not> lt (h ! k) (h ! ((k - 1) div 2))" if "(k - 1) div 2 \<noteq> i"
          using less.prems(3) k that by simp
        have sib: "\<not> lt (h ! k) (h ! ?j)" if "(k - 1) div 2 = i"
          using least k that by simp
        have ji: "\<not> lt (h ! ?j) (h ! ((i - 1) div 2))" if "0 < i"
          using less.prems(4) [of ?j] j jp that by simp
        show "\<not> lt (?g ! k) (?g ! ((k - 1) div 2))"
          using up sib ji asym [OF True] k p j jp by (auto simp: g)
      next
        fix k assume k: "k < n" "0 < k" "(k - 1) div 2 = ?j" "0 < ?j"
        then have "k \<noteq> ?j" "k \<noteq> i" using j by auto
        moreover have "\<not> lt (h ! k) (h ! ?j)" using less.prems(3) [of k] k j by simp
        ultimately show "\<not> lt (?g ! k) (?g ! ((?j - 1) div 2))"
          using k j jp by (auto simp: g)
      qed
      with True c show ?thesis by (subst heap_down.simps) simp
    qed
  qed
qed

lemma heap_pop_is_heap:
  assumes "is_heap lt (length h) h" and "heap_pop lt h = Some (x, h')"
  shows "is_heap lt (length h') h'"
proof -
  let ?n = "length h - 1" and ?s = "heap_swap 0 (length h - 1) h"
  from assms(2) have ne: "h \<noteq> []" and h': "h' = take ?n (heap_down lt ?s 0 ?n)"
    by (auto dest: heap_pop_SomeD)
  have "is_heap lt ?n (heap_down lt ?s 0 ?n)"
  proof (rule heap_down_is_heap)
    fix k assume k: "k < ?n" "0 < k" "(k - 1) div 2 \<noteq> 0"
    then have "(k - 1) div 2 < ?n" by linarith
    moreover have "?s ! m = h ! m" if "m < ?n" "0 < m" for m
      using that by (subst nth_heap_swap) auto
    ultimately show "\<not> lt (?s ! k) (?s ! ((k - 1) div 2))"
      using k assms(1) by (simp add: is_heap_def)
  qed (use ne in auto)
  then show ?thesis by (auto simp: h' is_heap_def)
qed

text \<open>The root is before or equal to every element.\<close>

lemma is_heap_root_least:
  assumes "is_heap lt n h" and "k < n"
  shows "\<not> lt (h ! k) (h ! 0)"
  using assms(2)
proof (induction k rule: less_induct)
  case (less k)
  show ?case
  proof (cases "k = 0")
    case True
    then show ?thesis by (simp add: irrefl)
  next
    case False
    then have "(k - 1) div 2 < k" by linarith
    with less have "\<not> lt (h ! ((k - 1) div 2)) (h ! 0)" by auto
    moreover have "\<not> lt (h ! k) (h ! ((k - 1) div 2))"
      using assms(1) less.prems False by (simp add: is_heap_def)
    ultimately show ?thesis by (rule neg_trans [rotated])
  qed
qed

lemma heap_pop_least:
  assumes "is_heap lt (length h) h" and "heap_pop lt h = Some (x, h')" and "y \<in> set h"
  shows "\<not> lt y x"
  using assms heap_pop_SomeD(2) [OF assms(2)]
  by (metis in_set_conv_nth is_heap_root_least)

text \<open>Popping everything yields a permutation of the heap in which no element is before
  an earlier one.\<close>

lemma heap_drain_mset:
  "is_heap lt (length h) h \<Longrightarrow> length h \<le> k \<Longrightarrow> mset (heap_drain k lt h) = mset h"
proof (induction k arbitrary: h)
  case (Suc k)
  show ?case
  proof (cases "heap_pop lt h")
    case None
    then have "h = []" by simp
    then show ?thesis by simp
  next
    case (Some p)
    then obtain x h' where p: "heap_pop lt h = Some (x, h')" by (cases p) auto
    then have "mset (heap_drain k lt h') = mset h'"
      using Suc heap_pop_is_heap length_heap_pop [OF p] by fastforce
    with p show ?thesis by (simp add: mset_heap_pop [OF p])
  qed
qed simp

lemma heap_drain_sorted:
  "is_heap lt (length h) h \<Longrightarrow> length h \<le> k \<Longrightarrow> sorted_wrt (\<lambda>x y. \<not> lt y x) (heap_drain k lt h)"
proof (induction k arbitrary: h)
  case (Suc k)
  show ?case
  proof (cases "heap_pop lt h")
    case None
    then have "h = []" by simp
    then show ?thesis by simp
  next
    case (Some p)
    then obtain x h' where p: "heap_pop lt h = Some (x, h')" by (cases p) auto
    have h': "is_heap lt (length h') h'" "length h' \<le> k"
      using Suc.prems p heap_pop_is_heap length_heap_pop [OF p] by auto
    have "set (heap_drain k lt h') \<subseteq> set h"
      using heap_drain_mset [OF h'] mset_heap_pop [OF p]
      by (metis set_mset_mset set_mset_add_mset_insert subset_insertI)
    with h' p Suc show ?thesis by (auto dest: heap_pop_least)
  qed
qed simp

end

end
