(* ===== verification/Validation.thy ===== *)
theory Validation
  imports Workflow_Model Go_Heap
begin

text \<open>
  \<^verbatim>\<open>infra/engine/scheduler/types.go\<close>: the pending queue's order, the task keys, and the
  validation of a workflow before it is registered. An error value keeps the arguments of the
  code's message; \<^verbatim>\<open>parentInfo\<close> is the empty string at its only call and is dropped. The
  validator's loops range over groups with the 1-based number \<^verbatim>\<open>gi+1\<close>.
\<close>

subsection \<open>Errors\<close>

datatype validation_error =
    NameEmpty
  | NameTooLong
  | NameBadChar char
  | PolicyError policy_error
  | MissingEventTrigger
  | MissingFilter string
  | UnknownEventType string
  | EmptyLocalKey nat string
  | EmptySourceKey nat string
  | DefaultBranchMissing nat string string
  | SubWorkflowMissing nat
  | FanOutMissing nat
  | IteratorKeyMissing nat
  | MaxParallelNegative nat
  | TemplateNameMissing nat
  | TaskNameEmpty nat
  | LoopMaxIterations nat string
  | LoopConditionType nat string
  | LoopConditionKeyMissing nat string
  | DuplicateInGroup nat string
  | DuplicateAcross string nat nat
  | BranchNameEmpty nat string string nat
  | BranchDuplicate nat string string nat string
  | BranchConflict string nat string string nat


subsection \<open>The workflow name\<close>

text \<open>\<^verbatim>\<open>len(name)\<close> counts bytes and \<^verbatim>\<open>range name\<close> decodes UTF-8; every byte of a multi-byte rune
  is outside the allowed ASCII set, so both agree on what is accepted.\<close>

definition name_char :: "char \<Rightarrow> bool" where
  "name_char c \<longleftrightarrow>
     (let n = of_char c :: nat in
      (97 \<le> n \<and> n \<le> 122) \<or> (65 \<le> n \<and> n \<le> 90) \<or> (48 \<le> n \<and> n \<le> 57) \<or> c = CHR ''_'' \<or> c = CHR ''-'')"

definition validateWorkflowName :: "string \<Rightarrow> validation_error + unit" where
  "validateWorkflowName name =
     (if name = '''' then Inl NameEmpty
      else if length name > 128 then Inl NameTooLong
      else check_all (\<lambda>c. if \<not> name_char c then Inl (NameBadChar c) else Inr ()) name)"


subsection \<open>Task nodes\<close>

definition validateLoopDef :: "loop_def \<Rightarrow> nat \<Rightarrow> string \<Rightarrow> validation_error + unit" where
  "validateLoopDef loop groupIdx taskName =
     (if MaxIterations loop \<le> 0 then Inl (LoopMaxIterations groupIdx taskName)
      else if ConditionType loop \<noteq> LoopConditionAlways \<and> ConditionType loop \<noteq> LoopConditionKey
      then Inl (LoopConditionType groupIdx taskName)
      else if ConditionType loop = LoopConditionKey \<and> ConditionKey loop = ''''
      then Inl (LoopConditionKeyMissing groupIdx taskName)
      else Inr ())"

definition with_loop_check :: "task_node \<Rightarrow> nat \<Rightarrow> string \<Rightarrow> validation_error + string" where
  "with_loop_check node groupIdx name =
     (case node_Loop node of
        Some loop \<Rightarrow> bind_sum (validateLoopDef loop groupIdx name) (\<lambda>_. Inr name)
      | None \<Rightarrow> Inr name)"

definition validateTaskNode :: "task_node \<Rightarrow> nat \<Rightarrow> validation_error + string" where
  "validateTaskNode node groupIdx =
     (let nodeType = GetTaskNodeType node in
      if nodeType = TaskNodeTypeSubWorkflow then
        (if SubWorkflow node = '''' then Inl (SubWorkflowMissing groupIdx)
         else let name = (if node_Name node = '''' then ''__sub_wf_'' @ SubWorkflow node else node_Name node)
              in with_loop_check node groupIdx name)
      else if nodeType = TaskNodeTypeFanOut then
        (case FanOut node of
           None \<Rightarrow> Inl (FanOutMissing groupIdx)
         | Some fo \<Rightarrow>
             if IteratorKey fo = '''' then Inl (IteratorKeyMissing groupIdx)
             else if MaxParallel fo < 0 then Inl (MaxParallelNegative groupIdx)
             else if node_Name (FanOutTask fo) = '''' then Inl (TemplateNameMissing groupIdx)
             else Inr (node_Name node))
      else if nodeType = TaskNodeTypeTask then
        (if node_Name node = '''' then Inl (TaskNameEmpty groupIdx)
         else with_loop_check node groupIdx (node_Name node))
      else Inr (node_Name node))"


subsection \<open>The whole definition\<close>

definition validate_trigger :: "workflow \<Rightarrow> validation_error + unit" where
  "validate_trigger w =
     (if Trigger w = TriggerEvent then
        (case EventTrigger w of
           None \<Rightarrow> Inl MissingEventTrigger
         | Some et \<Rightarrow>
             if et_EventType et = EventTriggerWebhook then Inr ()
             else if et_EventType et = EventTriggerWorkflowCompleted then
               (if et_Filter et = '''' then Inl (MissingFilter (et_EventType et)) else Inr ())
             else if et_EventType et = EventTriggerTaskFailed then
               (if et_Filter et = '''' then Inl (MissingFilter (et_EventType et)) else Inr ())
             else Inl (UnknownEventType (et_EventType et)))
      else Inr ())"

definition validate_mapping :: "nat \<Rightarrow> task_node \<Rightarrow> validation_error + unit" where
  "validate_mapping gi node =
     check_all (\<lambda>(localKey, sourceKey).
         if localKey = '''' then Inl (EmptyLocalKey gi (node_Name node))
         else if sourceKey = '''' then Inl (EmptySourceKey gi (node_Name node))
         else Inr ())
       (case InputMapping node of None \<Rightarrow> [] | Some ms \<Rightarrow> ms)"

definition validate_default_branch :: "nat \<Rightarrow> task_node \<Rightarrow> validation_error + unit" where
  "validate_default_branch gi node =
     (case Branches node of
        None \<Rightarrow> Inr ()
      | Some bs \<Rightarrow>
          if DefaultBranch node \<noteq> '''' \<and> map_of bs (DefaultBranch node) = None
          then Inl (DefaultBranchMissing gi (node_Name node) (DefaultBranch node))
          else Inr ())"

text \<open>\<^verbatim>\<open>allNames\<close>: task name to 1-based group number. \<^verbatim>\<open>node.Name = name\<close> in the code assigns to
  the loop's copy of the node, so the definition itself keeps its names.\<close>

definition collect_main_names ::
  "nat \<times> task_node list \<Rightarrow> (string \<times> nat) list \<Rightarrow> validation_error + (string \<times> nat) list" where
  "collect_main_names = (\<lambda>(gi, grp).
     check_group (\<lambda>node. validateTaskNode node gi)
       (DuplicateInGroup gi) (\<lambda>name prevGroup. DuplicateAcross name prevGroup gi) gi grp)"

definition collect_branch_group ::
  "nat \<Rightarrow> task_node \<Rightarrow> string \<Rightarrow> nat \<times> task_node list \<Rightarrow> (string \<times> nat) list
     \<Rightarrow> validation_error + (string \<times> nat) list" where
  "collect_branch_group gi node branchName = (\<lambda>(bi, bg).
     check_group
       (\<lambda>bn. if node_Name bn \<noteq> '''' then Inr (node_Name bn)
             else Inl (BranchNameEmpty gi (node_Name node) branchName bi))
       (BranchDuplicate gi (node_Name node) branchName bi)
       (\<lambda>name prevGroup. BranchConflict name gi (node_Name node) branchName prevGroup) gi bg)"

definition collect_branch_names ::
  "nat \<Rightarrow> task_node \<Rightarrow> (string \<times> nat) list \<Rightarrow> validation_error + (string \<times> nat) list" where
  "collect_branch_names gi node =
     fold_sum (\<lambda>(branchName, branchGroups).
         fold_sum (collect_branch_group gi node branchName) (enumerate 1 branchGroups))
       (branch_list node)"

definition validateWorkflowTasks :: "workflow \<Rightarrow> validation_error + unit" where
  "validateWorkflowTasks w =
     bind_sum (case validate_policy (ErrorPolicy w) of Inl e \<Rightarrow> Inl (PolicyError e) | Inr u \<Rightarrow> Inr u) (\<lambda>_.
     bind_sum (validate_trigger w) (\<lambda>_.
     bind_sum (check_all (\<lambda>(gi, grp). check_all (validate_mapping gi) grp) (enumerate 1 (TaskGroups w))) (\<lambda>_.
     bind_sum (check_all (\<lambda>(gi, grp). check_all (validate_default_branch gi) grp) (enumerate 1 (TaskGroups w))) (\<lambda>_.
     bind_sum (fold_sum collect_main_names (enumerate 1 (TaskGroups w)) []) (\<lambda>allNames.
     bind_sum (fold_sum (\<lambda>(gi, grp). fold_sum (collect_branch_names gi) grp) (enumerate 1 (TaskGroups w)) allNames) (\<lambda>_.
     Inr ()))))))"


subsection \<open>What validation accepts\<close>

text \<open>The specification: what a registered workflow definition satisfies, without the order of
  the checks.\<close>

definition policy_ok :: "error_policy option \<Rightarrow> bool" where
  "policy_ok ep \<longleftrightarrow>
     (case ep of
        None \<Rightarrow> True
      | Some p \<Rightarrow> (OnTaskFailure p = '''' \<or> known_policy (OnTaskFailure p))
           \<and> OnTimeout p \<in> {'''', ''rollback'', ''fail''}
           \<and> (\<forall>q \<in> snd ` set (TaskPolicies p). known_policy q))"

definition trigger_ok :: "workflow \<Rightarrow> bool" where
  "trigger_ok w \<longleftrightarrow>
     Trigger w \<noteq> TriggerEvent \<or>
     (case EventTrigger w of
        None \<Rightarrow> False
      | Some et \<Rightarrow> et_EventType et = EventTriggerWebhook
           \<or> et_EventType et \<in> {EventTriggerWorkflowCompleted, EventTriggerTaskFailed} \<and> et_Filter et \<noteq> '''')"

definition loop_ok :: "task_node \<Rightarrow> bool" where
  "loop_ok node \<longleftrightarrow>
     (case node_Loop node of
        None \<Rightarrow> True
      | Some l \<Rightarrow> 0 < MaxIterations l
           \<and> (ConditionType l = LoopConditionAlways \<or> ConditionType l = LoopConditionKey \<and> ConditionKey l \<noteq> ''''))"

definition node_ok :: "task_node \<Rightarrow> bool" where
  "node_ok node \<longleftrightarrow>
     (if GetTaskNodeType node = TaskNodeTypeSubWorkflow then SubWorkflow node \<noteq> '''' \<and> loop_ok node
      else if GetTaskNodeType node = TaskNodeTypeFanOut then
        (case FanOut node of
           None \<Rightarrow> False
         | Some fo \<Rightarrow> IteratorKey fo \<noteq> '''' \<and> 0 \<le> MaxParallel fo \<and> node_Name (FanOutTask fo) \<noteq> '''')
      else if GetTaskNodeType node = TaskNodeTypeTask then node_Name node \<noteq> '''' \<and> loop_ok node
      else True)"

definition resolved_name :: "task_node \<Rightarrow> string" where
  "resolved_name node =
     (if GetTaskNodeType node = TaskNodeTypeSubWorkflow \<and> node_Name node = ''''
      then ''__sub_wf_'' @ SubWorkflow node else node_Name node)"

definition mapping_ok :: "task_node \<Rightarrow> bool" where
  "mapping_ok node \<longleftrightarrow>
     (case InputMapping node of
        None \<Rightarrow> True
      | Some ms \<Rightarrow> \<forall>(lk, sk) \<in> set ms. lk \<noteq> '''' \<and> sk \<noteq> '''')"

definition default_branch_ok :: "task_node \<Rightarrow> bool" where
  "default_branch_ok node \<longleftrightarrow>
     DefaultBranch node = '''' \<or>
     (case Branches node of None \<Rightarrow> True | Some bs \<Rightarrow> DefaultBranch node \<in> fst ` set bs)"

definition well_formed :: "workflow \<Rightarrow> bool" where
  "well_formed w \<longleftrightarrow>
     policy_ok (ErrorPolicy w) \<and> trigger_ok w
     \<and> (\<forall>n \<in> set (AllTaskNodes w). mapping_ok n \<and> default_branch_ok n \<and> node_ok n)
     \<and> (\<forall>n \<in> set (AllTaskNodes w). \<forall>bn \<in> set (branch_nodes n). node_Name bn \<noteq> '''')
     \<and> distinct (map resolved_name (AllTaskNodes w)
                 @ map node_Name (concat (map branch_nodes (AllTaskNodes w))))"

lemma name_check_Inr:
  "validateWorkflowName name = Inr () \<longleftrightarrow>
     name \<noteq> '''' \<and> length name \<le> 128 \<and> (\<forall>c \<in> set name. name_char c)"
  by (auto simp: validateWorkflowName_def check_all_Inr)

lemma policy_check_Inr: "validate_policy ep = Inr () \<longleftrightarrow> policy_ok ep"
  by (cases ep) (auto simp: validate_policy_def policy_ok_def check_all_Inr split: if_splits)

lemma trigger_check_Inr: "validate_trigger w = Inr () \<longleftrightarrow> trigger_ok w"
  by (auto simp: validate_trigger_def trigger_ok_def split: option.splits)

lemma mapping_check_Inr: "validate_mapping gi node = Inr () \<longleftrightarrow> mapping_ok node"
  by (auto simp: validate_mapping_def mapping_ok_def check_all_Inr split: option.splits if_splits)

lemma default_branch_check_Inr: "validate_default_branch gi node = Inr () \<longleftrightarrow> default_branch_ok node"
  by (cases "Branches node")
     (auto simp: validate_default_branch_def default_branch_ok_def map_of_eq_None_iff)

lemma loop_check_Inr: "with_loop_check node gi name = Inr n \<longleftrightarrow> loop_ok node \<and> n = name"
  by (auto simp: with_loop_check_def loop_ok_def validateLoopDef_def bind_sum_Inr split: option.splits if_splits)

lemma node_check_Inr:
  "validateTaskNode node gi = Inr n \<longleftrightarrow> node_ok node \<and> n = resolved_name node"
  by (auto simp: validateTaskNode_def node_ok_def resolved_name_def loop_check_Inr Let_def split: option.splits)

lemma node_check:
  "validateTaskNode node gi
     = (if node_ok node then Inr (resolved_name node) else Inl (projl (validateTaskNode node gi)))"
  using node_check_Inr [of node gi] by (cases "validateTaskNode node gi") auto

lemma enumerate_names: "concat (map (\<lambda>(i, g). f g) (enumerate k gs)) = concat (map f gs)"
  by (induction gs arbitrary: k) simp_all

lemma enumerate_ball: "(\<forall>p \<in> set (enumerate k gs). P (snd p)) \<longleftrightarrow> (\<forall>g \<in> set gs. P g)"
  by (induction gs arbitrary: k) simp_all

lemma main_names_checked:
  "checks_names (\<forall>n \<in> set (AllTaskNodes w). node_ok n)
     (fold_sum collect_main_names (enumerate 1 (TaskGroups w))) (map resolved_name (AllTaskNodes w))"
proof -
  have "checks_names (\<forall>p \<in> set (enumerate 1 (TaskGroups w)). \<forall>n \<in> set (snd p). node_ok n)
      (fold_sum collect_main_names (enumerate 1 (TaskGroups w)))
      (concat (map (\<lambda>(i, g). map resolved_name g) (enumerate 1 (TaskGroups w))))"
    unfolding collect_main_names_def
    by (rule checks_names_fold) (auto intro!: checks_names_group node_check)
  then show ?thesis
    by (simp only: enumerate_names enumerate_ball [where P = "\<lambda>g. \<forall>n \<in> set g. node_ok n"])
       (simp add: AllTaskNodes_def map_concat)
qed

lemma branch_names_checked:
  "checks_names (\<forall>bn \<in> set (branch_nodes n). node_Name bn \<noteq> '''')
     (collect_branch_names gi n) (map node_Name (branch_nodes n))"
proof -
  have "checks_names (\<forall>p \<in> set (branch_list n). \<forall>q \<in> set (enumerate 1 (snd p)). \<forall>bn \<in> set (snd q). node_Name bn \<noteq> '''')
      (collect_branch_names gi n)
      (concat (map (\<lambda>(b, bgs). concat (map (\<lambda>(i, bg). map node_Name bg) (enumerate 1 bgs))) (branch_list n)))"
    unfolding collect_branch_names_def
    by (rule checks_names_fold)
       (auto simp: collect_branch_group_def intro!: checks_names_fold checks_names_group)
  then show ?thesis
    by (simp only: enumerate_names enumerate_ball [where P = "\<lambda>bg. \<forall>bn \<in> set bg. node_Name bn \<noteq> ''''"])
       (simp add: branch_nodes_def map_concat comp_def case_prod_unfold concat_map_concat)
qed

lemma all_branch_names_checked:
  "checks_names (\<forall>n \<in> set (AllTaskNodes w). \<forall>bn \<in> set (branch_nodes n). node_Name bn \<noteq> '''')
     (fold_sum (\<lambda>(gi, grp). fold_sum (collect_branch_names gi) grp) (enumerate 1 (TaskGroups w)))
     (map node_Name (concat (map branch_nodes (AllTaskNodes w))))"
proof -
  let ?named = "\<lambda>n. \<forall>bn \<in> set (branch_nodes n). node_Name bn \<noteq> ''''"
  have "checks_names (\<forall>p \<in> set (enumerate 1 (TaskGroups w)). \<forall>n \<in> set (snd p). ?named n)
      (fold_sum (\<lambda>(gi, grp). fold_sum (collect_branch_names gi) grp) (enumerate 1 (TaskGroups w)))
      (concat (map (\<lambda>(i, g). concat (map (\<lambda>n. map node_Name (branch_nodes n)) g)) (enumerate 1 (TaskGroups w))))"
    by (rule checks_names_fold) (auto intro!: checks_names_fold branch_names_checked)
  then show ?thesis
    by (simp only: enumerate_names enumerate_ball [where P = "\<lambda>g. \<forall>n \<in> set g. ?named n"])
       (simp add: AllTaskNodes_def map_concat comp_def concat_map_concat)
qed

lemma nodes_check_Inr:
  assumes "\<And>gi n. chk gi n = Inr () \<longleftrightarrow> ok n"
  shows "check_all (\<lambda>(gi, grp). check_all (chk gi) grp) (enumerate k (TaskGroups w)) = Inr ()
           \<longleftrightarrow> (\<forall>n \<in> set (AllTaskNodes w). ok n)"
proof -
  have "check_all (\<lambda>(gi, grp). check_all (chk gi) grp) (enumerate k (TaskGroups w)) = Inr ()
      \<longleftrightarrow> (\<forall>p \<in> set (enumerate k (TaskGroups w)). \<forall>n \<in> set (snd p). ok n)"
    by (simp add: check_all_Inr case_prod_unfold assms)
  then show ?thesis
    by (simp add: enumerate_ball [where P = "\<lambda>g. \<forall>n \<in> set g. ok n"] AllTaskNodes_def)
qed

lemma validation_exact: "validateWorkflowTasks w = Inr () \<longleftrightarrow> well_formed w"
proof -
  let ?names = "\<lambda>seen. bind_sum (fold_sum collect_main_names (enumerate 1 (TaskGroups w)) seen)
      (fold_sum (\<lambda>(gi, grp). fold_sum (collect_branch_names gi) grp) (enumerate 1 (TaskGroups w)))"
  have names: "(\<exists>seen. ?names [] = Inr seen) \<longleftrightarrow>
      ((\<forall>n \<in> set (AllTaskNodes w). node_ok n)
       \<and> (\<forall>n \<in> set (AllTaskNodes w). \<forall>bn \<in> set (branch_nodes n). node_Name bn \<noteq> ''''))
      \<and> distinct (map resolved_name (AllTaskNodes w) @ map node_Name (concat (map branch_nodes (AllTaskNodes w))))"
    by (intro checks_names_run checks_names_bind main_names_checked all_branch_names_checked)
  have "validateWorkflowTasks w = Inr () \<longleftrightarrow>
      validate_policy (ErrorPolicy w) = Inr () \<and> validate_trigger w = Inr ()
      \<and> check_all (\<lambda>(gi, grp). check_all (validate_mapping gi) grp) (enumerate 1 (TaskGroups w)) = Inr ()
      \<and> check_all (\<lambda>(gi, grp). check_all (validate_default_branch gi) grp) (enumerate 1 (TaskGroups w)) = Inr ()
      \<and> (\<exists>seen. ?names [] = Inr seen)"
    by (auto simp: validateWorkflowTasks_def bind_sum_Inr split: sum.splits)
  also have "\<dots> \<longleftrightarrow> well_formed w"
    unfolding names policy_check_Inr trigger_check_Inr
      nodes_check_Inr [OF mapping_check_Inr] nodes_check_Inr [OF default_branch_check_Inr] well_formed_def
    by blast
  finally show ?thesis .
qed

text \<open>C16. The validator decides well-formedness: \<^verbatim>\<open>validateWorkflowTasks\<close> returns no error exactly
  for a workflow whose error policy, event trigger, input mappings, default branches and nodes
  are valid, whose branch tasks are named, and in which no two tasks (main tasks under their
  resolved names, and branch tasks) have the same name.\<close>

theorem validateWorkflowTasks_iff: "validateWorkflowTasks w = Inr () \<longleftrightarrow> well_formed w"
  by (rule validation_exact)


subsection \<open>What the indexes give for a validated workflow\<close>

lemma resolved_name_named: "node_Name n \<noteq> '''' \<Longrightarrow> resolved_name n = node_Name n"
  by (simp add: resolved_name_def)

lemma well_formed_group_unique:
  assumes "well_formed w" and "i < length (TaskGroups w)" and "j < length (TaskGroups w)"
    and "n \<in> set (TaskGroups w ! i)" and "m \<in> set (TaskGroups w ! j)"
    and "node_Name n = node_Name m" and "node_Name n \<noteq> ''''"
  shows "j = i"
proof -
  have "distinct (concat (map (map resolved_name) (TaskGroups w)))"
    using assms(1) by (simp add: well_formed_def AllTaskNodes_def map_concat)
  moreover have "resolved_name m = resolved_name n" using assms(6,7) by (simp add: resolved_name_named)
  then have "resolved_name n \<in> set (map (map resolved_name) (TaskGroups w) ! i)"
    "resolved_name n \<in> set (map (map resolved_name) (TaskGroups w) ! j)"
    using assms(2-5) by (auto intro: rev_image_eqI)
  ultimately show ?thesis
    using distinct_concat_nth [of "map (map resolved_name) (TaskGroups w)" j i] assms(2,3) by simp
qed

lemma group_index_exact:
  assumes "validateWorkflowTasks w = Inr ()"
    and "i < length (TaskGroups w)" and "n \<in> set (TaskGroups w ! i)" and "node_Name n \<noteq> ''''"
  shows "map_of (BuildTaskGroupIndex w) (node_Name n) = Some i"
proof -
  have "well_formed w" using assms(1) by (simp only: validation_exact)
  then show ?thesis
    using well_formed_group_unique [OF _ assms(2) _ assms(3)] assms(4)
    by (intro BuildTaskGroupIndex_lookup [OF assms(2,3)]) auto
qed

text \<open>Validation makes the run-time indexes exact: for a validated workflow the group index
  sends every named task of group \<open>i\<close> to \<open>i\<close>, and the branch index sends every task of branch
  \<open>b\<close> of node \<open>n\<close> to group \<open>i\<close>, node \<open>n\<close> and branch \<open>b\<close>; a branch task is never
  mistaken for a main task.\<close>

theorem validated_indexes_exact:
  assumes "validateWorkflowTasks w = Inr ()"
    and "i < length (TaskGroups w)" and "n \<in> set (TaskGroups w ! i)" and "node_Name n \<noteq> ''''"
  shows "map_of (BuildTaskGroupIndex w) (node_Name n) = Some i
     \<and> (\<forall>(b, bgs) \<in> set (branch_list n). \<forall>bn \<in> set (concat bgs).
          map_of (BuildBranchTaskIndex w) (node_Name bn)
            = Some \<lparr>ParentGroupIdx = i, ParentNodeName = node_Name n, BranchName = b\<rparr>
          \<and> map_of (BuildTaskGroupIndex w) (node_Name bn) = None)"
proof -
  have wf: "well_formed w" using assms(1) by (simp only: validation_exact)
  have "map_of (BuildTaskGroupIndex w) (node_Name n) = Some i" by (rule group_index_exact [OF assms])
  moreover have "map_of (BuildBranchTaskIndex w) (node_Name bn)
        = Some \<lparr>ParentGroupIdx = i, ParentNodeName = node_Name n, BranchName = b\<rparr>
      \<and> map_of (BuildTaskGroupIndex w) (node_Name bn) = None"
    if b: "(b, bgs) \<in> set (branch_list n)" "bn \<in> set (concat bgs)" for b bgs bn
  proof
    show "map_of (BuildBranchTaskIndex w) (node_Name bn)
        = Some \<lparr>ParentGroupIdx = i, ParentNodeName = node_Name n, BranchName = b\<rparr>"
      using all_branch_entriesI [OF assms(2,3), of _ 0] branch_entriesI [OF b] wf
      by (intro BuildBranchTaskIndex_lookup) (auto simp: well_formed_def AllTaskNodes_def)
    have n: "n \<in> set (AllTaskNodes w)" using assms(2,3) by (auto simp: AllTaskNodes_def)
    have bn: "bn \<in> set (branch_nodes n)" using b by (force simp: branch_nodes_def)
    have "node_Name bn \<notin> node_Name ` set (AllTaskNodes w)"
    proof
      assume "node_Name bn \<in> node_Name ` set (AllTaskNodes w)"
      then obtain m where m: "m \<in> set (AllTaskNodes w)" "node_Name bn = node_Name m" by blast
      moreover have "node_Name bn \<noteq> ''''" using wf n bn by (auto simp: well_formed_def)
      ultimately have "node_Name bn \<in> resolved_name ` set (AllTaskNodes w)"
        by (metis image_eqI resolved_name_named)
      moreover have "node_Name bn \<in> node_Name ` (\<Union>a \<in> set (AllTaskNodes w). set (branch_nodes a))"
        using n bn by blast
      ultimately show False using wf unfolding well_formed_def distinct_append set_map set_concat by blast
    qed
    then show "map_of (BuildTaskGroupIndex w) (node_Name bn) = None"
      by (simp add: BuildTaskGroupIndex_keys map_of_eq_None_iff)
  qed
  ultimately show ?thesis by blast
qed


definition demo_branching :: workflow where
  "demo_branching = AddTaskNodeGroup [TaskNode '''' ''choose'' None 0 (Some [(''left'', [[named_node ''l'']])]) '''' False '''' None None None None]
     (AddTaskGroup [''first''] (NewWorkflow ''demo''))"

lemma demo_branching_valid: "validateWorkflowTasks demo_branching = Inr ()"
  unfolding validation_exact
  by (simp add: well_formed_def demo_branching_def AddTaskNodeGroup_def AddTaskGroup_def NewWorkflow_def named_node_def
      policy_ok_def trigger_ok_def AllTaskNodes_def node_ok_def loop_ok_def GetTaskNodeType_def resolved_name_def
      branch_nodes_def branch_list_def mapping_ok_def default_branch_ok_def)

theorem validated_indexes_exact_witness:
  "map_of (BuildTaskGroupIndex demo_branching) ''choose'' = Some 1
   \<and> map_of (BuildTaskGroupIndex demo_branching) ''l'' = None"
proof -
  let ?n = "TaskNode '''' ''choose'' None 0 (Some [(''left'', [[named_node ''l'']])]) '''' False '''' None None None None"
  have "1 < length (TaskGroups demo_branching)" "?n \<in> set (TaskGroups demo_branching ! 1)"
    by (simp_all add: demo_branching_def AddTaskNodeGroup_def AddTaskGroup_def NewWorkflow_def)
  with validated_indexes_exact [OF demo_branching_valid, of 1 ?n] show ?thesis
    by (simp add: branch_list_def named_node_def)
qed

end
