(* ===== verification/Task_Payload.thy ===== *)
theory Task_Payload
  imports Workflow_Model "HOL-Library.Sublist"
begin

text \<open>
  \<^verbatim>\<open>infra/store/model.go\<close> and the task keys of \<^verbatim>\<open>infra/engine/scheduler/types.go\<close>: the payload
  the master and the workers exchange through etcd, the scan that reads one string field of its
  JSON without decoding it, and the key under which a task is written. The fields \<^verbatim>\<open>TraceID\<close> and
  \<^verbatim>\<open>TraceContext\<close> carry tracing identifiers that no decision reads and are left out.
\<close>

subsection \<open>The payload\<close>

datatype task_status = StatusPending | StatusRunning | StatusCompleted | StatusFailed
  | StatusUnset  \<comment> \<open>the zero value of payloads the engine makes up\<close>

record task_payload =
  tp_WorkflowID :: uuid
  tp_TaskName :: string
  tp_Status :: task_status
  tp_Priority :: int
  tp_Params :: "vars option"
  tp_Input :: "vars option"
  tp_Output :: "vars option"
  tp_Result :: msg
  RetryCount :: int
  tp_MaxRetries :: int
  tp_TimeoutSec :: int
  tp_BaseBackoff :: int
  Rollback :: bool
  NoRetry :: bool
  EtcdModRevision :: int
  EtcdKey :: string

definition zero_payload :: task_payload where
  "zero_payload =
     \<lparr>tp_WorkflowID = '''', tp_TaskName = '''', tp_Status = StatusUnset, tp_Priority = 0,
      tp_Params = None, tp_Input = None, tp_Output = None, tp_Result = NoMsg, RetryCount = 0,
      tp_MaxRetries = 0, tp_TimeoutSec = 0, tp_BaseBackoff = 0, Rollback = False, NoRetry = False,
      EtcdModRevision = 0, EtcdKey = ''''\<rparr>"


subsection \<open>Scanning one field\<close>

abbreviation quote :: char where "quote \<equiv> CHR 0x22"
abbreviation backslash :: char where "backslash \<equiv> CHR 0x5C"

text \<open>\<^verbatim>\<open>strings.Index\<close>: the text after the first occurrence of \<open>pat\<close>.\<close>

fun after_first :: "string \<Rightarrow> string \<Rightarrow> string option" where
  "after_first pat [] = (if pat = [] then Some [] else None)"
| "after_first pat (c # cs) =
     (if prefix pat (c # cs) then Some (drop (length pat) (c # cs)) else after_first pat cs)"

text \<open>The loop over the string's characters: an escape contributes the character after the
  backslash, the closing quote ends the value, and an unclosed string gives nothing.\<close>

fun scan_string :: "string \<Rightarrow> string \<Rightarrow> string" where
  "scan_string acc [] = ''''"
| "scan_string acc [c] =
     (if c = backslash then '''' else if c = quote then acc else '''')"
| "scan_string acc (c # d # cs) =
     (if c = backslash then scan_string (acc @ [d]) cs
      else if c = quote then acc
      else scan_string (acc @ [c]) (d # cs))"

definition extractJSONField :: "string \<Rightarrow> string \<Rightarrow> string" where
  "extractJSONField data key =
     (case after_first ([quote] @ key @ [quote, CHR '':'']) data of
        None \<Rightarrow> ''''
      | Some rest \<Rightarrow>
          (case dropWhile (\<lambda>c. c = CHR '' '' \<or> c = CHR 0x09) rest of
             [] \<Rightarrow> ''''
           | c # cs \<Rightarrow> if c \<noteq> quote then '''' else scan_string [] cs))"

definition ExtractTaskName :: "string \<Rightarrow> string" where
  "ExtractTaskName data = extractJSONField data ''task_name''"

definition ExtractWorkflowUUID :: "string \<Rightarrow> string" where
  "ExtractWorkflowUUID data = extractJSONField data ''workflow_id''"

text \<open>How \<^verbatim>\<open>encoding/json\<close> writes a string without control characters and without the
  characters it escapes as \<^verbatim>\<open>\u....\<close>: a quote or a backslash gets a backslash before it.\<close>

fun json_escape :: "string \<Rightarrow> string" where
  "json_escape [] = []"
| "json_escape (c # cs) = (if c = quote \<or> c = backslash then [backslash, c] else [c]) @ json_escape cs"

lemma scan_string_escaped: "scan_string acc (json_escape v @ quote # rest) = acc @ v"
proof (induction v arbitrary: acc)
  case Nil
  then show ?case by (cases rest) auto
next
  case (Cons c v)
  have step: "d \<noteq> backslash \<Longrightarrow> d \<noteq> quote \<Longrightarrow> scan_string acc (d # w) = (if w = [] then '''' else scan_string (acc @ [d]) w)" for d w
    by (cases w) auto
  show ?case
    using Cons [of "acc @ [c]"] by (auto simp: step)
qed

lemma after_first_append:
  assumes "\<And>k. k < length pre \<Longrightarrow> \<not> prefix pat (drop k (pre @ pat @ rest))"
  shows "after_first pat (pre @ pat @ rest) = Some rest"
  using assms
proof (induction pre)
  case Nil
  show ?case
  proof (cases "pat @ rest")
    case (Cons c cs)
    then have "prefix pat (c # cs)" by (metis prefixI)
    moreover have "drop (length pat) (c # cs) = rest" by (metis Cons append_eq_conv_conj)
    ultimately show ?thesis by (simp only: append_Nil Cons after_first.simps if_True)
  qed simp
next
  case (Cons c pre)
  have "\<not> prefix pat ((c # pre) @ pat @ rest)" using Cons.prems [of 0] by simp
  moreover have "after_first pat (pre @ pat @ rest) = Some rest"
    using Cons.prems [of "Suc k" for k] by (intro Cons.IH) auto
  ultimately show ?case by simp
qed

text \<open>The field scan agrees with the JSON the store writes: in a document whose first
  occurrence of the key is followed by a string (with optional blanks), the scan returns
  exactly the string, whatever quotes and backslashes it contains and whatever follows.\<close>

theorem extractJSONField_round_trip:
  assumes "data = pre @ ([quote] @ key @ [quote, CHR '':'']) @ blanks @ [quote] @ json_escape v @ [quote] @ rest"
    and "\<And>k. k < length pre \<Longrightarrow> \<not> prefix ([quote] @ key @ [quote, CHR '':'']) (drop k data)"
    and "set blanks \<subseteq> {CHR '' '', CHR 0x09}"
  shows "extractJSONField data key = v"
proof -
  let ?tail = "blanks @ [quote] @ json_escape v @ [quote] @ rest"
  have "after_first ([quote] @ key @ [quote, CHR '':'']) data = Some ?tail"
    using assms(2) unfolding assms(1) by (intro after_first_append) blast
  moreover have "dropWhile (\<lambda>c. c = CHR '' '' \<or> c = CHR 0x09) ?tail = quote # json_escape v @ quote # rest"
    using assms(3) by (subst dropWhile_append2) auto
  ultimately show ?thesis
    by (simp add: extractJSONField_def scan_string_escaped)
qed

theorem extractJSONField_round_trip_witness:
  "extractJSONField ([CHR ''{''] @ ([quote] @ ''task_name'' @ [quote, CHR '':'']) @ '' '' @ [quote]
     @ json_escape [CHR ''a'', quote, CHR ''b''] @ [quote] @ ''}'') ''task_name'' = [CHR ''a'', quote, CHR ''b'']"
  by (rule extractJSONField_round_trip [where pre = "[CHR ''{'']" and blanks = "'' ''" and rest = "''}''"])
     simp_all


subsection \<open>Task keys\<close>

abbreviation taskTTLSeconds :: int where "taskTTLSeconds \<equiv> 86400"

text \<open>The last component, \<^verbatim>\<open><UnixNano>-<randHex(4)>\<close>, is an argument.\<close>

definition pending_prefix :: "string \<Rightarrow> string" where
  "pending_prefix pfx = pfx @ ''PENDING/''"

definition taskKey :: "string \<Rightarrow> string \<Rightarrow> string \<Rightarrow> string \<Rightarrow> string" where
  "taskKey pfx workflowName taskName uniq =
     pending_prefix pfx @ workflowName @ ''/'' @ taskName @ ''/'' @ uniq"

fun nat_digits :: "nat \<Rightarrow> string" where
  "nat_digits n = (if n < 10 then [char_of (48 + n)] else nat_digits (n div 10) @ [char_of (48 + n mod 10)])"

declare nat_digits.simps [simp del]

definition int_digits :: "int \<Rightarrow> string" where
  "int_digits i = (if i < 0 then CHR ''-'' # nat_digits (nat (- i)) else nat_digits (nat i))"

definition retryTaskKey :: "string \<Rightarrow> string \<Rightarrow> string \<Rightarrow> int \<Rightarrow> string \<Rightarrow> string" where
  "retryTaskKey pfx workflowName taskName retryCount uniq =
     pending_prefix pfx @ workflowName @ ''/'' @ taskName @ ''/retry-'' @ int_digits retryCount @ ''-'' @ uniq"

lemma slash_split:
  assumes "CHR ''/'' \<notin> set a" and "CHR ''/'' \<notin> set b" and "a @ CHR ''/'' # x = b @ CHR ''/'' # y"
  shows "a = b \<and> x = y"
proof -
  have split: "takeWhile (\<lambda>c. c \<noteq> CHR ''/'') (s @ CHR ''/'' # t) = s" if "CHR ''/'' \<notin> set s" for s t :: string
    using that by (induction s) auto
  have "a = b" using split [OF assms(1), of x] split [OF assms(2), of y] assms(3) by metis
  with assms(3) show ?thesis by simp
qed

text \<open>Keys keep tasks apart: where workflow identifiers and task names have no slash, two
  task keys under the same prefix are equal only for the same workflow, the same task and the
  same unique last part; and every task key, retries included, lies under the prefix
  \<^verbatim>\<open>PENDING/\<close> that workers watch.\<close>

theorem taskKey_inject:
  assumes "CHR ''/'' \<notin> set wf1" and "CHR ''/'' \<notin> set wf2" and "CHR ''/'' \<notin> set t1" and "CHR ''/'' \<notin> set t2"
  shows "(taskKey pfx wf1 t1 u1 = taskKey pfx wf2 t2 u2 \<longleftrightarrow> wf1 = wf2 \<and> t1 = t2 \<and> u1 = u2)
     \<and> prefix (pending_prefix pfx) (taskKey pfx wf1 t1 u1)
     \<and> prefix (pending_prefix pfx) (retryTaskKey pfx wf1 t1 n u1)"
proof -
  have "wf1 = wf2 \<and> t1 = t2 \<and> u1 = u2" if "taskKey pfx wf1 t1 u1 = taskKey pfx wf2 t2 u2"
  proof -
    from that have eq: "wf1 @ CHR ''/'' # (t1 @ CHR ''/'' # u1) = wf2 @ CHR ''/'' # (t2 @ CHR ''/'' # u2)"
      by (simp add: taskKey_def)
    then have "wf1 = wf2" "t1 @ CHR ''/'' # u1 = t2 @ CHR ''/'' # u2"
      using slash_split [OF assms(1,2)] by blast+
    then show ?thesis using slash_split [OF assms(3,4)] by blast
  qed
  then show ?thesis by (auto simp: taskKey_def retryTaskKey_def)
qed

theorem taskKey_inject_witness:
  "taskKey ''/vibeflow/tasks/'' ''wf-a'' ''fetch'' ''1-00'' \<noteq> taskKey ''/vibeflow/tasks/'' ''wf-b'' ''fetch'' ''1-00''"
  using taskKey_inject [of "''wf-a''" "''wf-b''" "''fetch''" "''fetch''" "''/vibeflow/tasks/''" "''1-00''" "''1-00''" 0]
  by simp

end
