(* ===== verification/Circuit_Breaker.thy ===== *)
theory Circuit_Breaker
  imports Prelude
begin

text \<open>
  \<^verbatim>\<open>infra/circuit/circuit.go\<close>: the circuit breaker in front of MySQL and etcd. The mutex makes
  every method atomic, so a method is a function of the breaker and of the instant at which it
  runs. \<open>run\<close> is a history of calls; the history a specification talks about is the list of
  outcomes the callers reported.
\<close>

datatype breaker_state = StateClosed | StateOpen | StateHalfOpen

record breaker =
  brk_name :: string
  maxFailures :: int
  cooldownInterval :: go_duration
  brk_state :: breaker_state
  consecutiveFails :: int
  lastFailureTime :: "go_time option"  \<comment> \<open>\<open>None\<close>: the zero time\<close>
  lastStateChange :: go_time

fun State_String :: "breaker_state \<Rightarrow> string" where
  "State_String StateClosed = ''CLOSED''"
| "State_String StateOpen = ''OPEN''"
| "State_String StateHalfOpen = ''HALF_OPEN''"

definition NewBreaker :: "string \<Rightarrow> int \<Rightarrow> go_duration \<Rightarrow> go_time \<Rightarrow> breaker" where
  "NewBreaker name maxFails cooldown now =
     \<lparr>brk_name = name, maxFailures = maxFails, cooldownInterval = cooldown, brk_state = StateClosed,
      consecutiveFails = 0, lastFailureTime = None, lastStateChange = now\<rparr>"

definition Allow :: "go_time \<Rightarrow> breaker \<Rightarrow> bool \<times> breaker" where
  "Allow now b =
     (case brk_state b of
        StateClosed \<Rightarrow> (True, b)
      | StateOpen \<Rightarrow>
          if cooldownInterval b \<le> now - lastStateChange b
          then (True, b\<lparr>brk_state := StateHalfOpen, lastStateChange := now\<rparr>)
          else (False, b)
      | StateHalfOpen \<Rightarrow> (False, b))"

definition Success :: "go_time \<Rightarrow> breaker \<Rightarrow> breaker" where
  "Success now b =
     (let b = b\<lparr>consecutiveFails := 0\<rparr> in
      if brk_state b \<noteq> StateClosed then b\<lparr>brk_state := StateClosed, lastStateChange := now\<rparr> else b)"

definition Failure :: "go_time \<Rightarrow> breaker \<Rightarrow> breaker" where
  "Failure now b =
     (let b = b\<lparr>consecutiveFails := consecutiveFails b + 1, lastFailureTime := Some now\<rparr> in
      if brk_state b = StateHalfOpen then b\<lparr>brk_state := StateOpen, lastStateChange := now\<rparr>
      else if brk_state b = StateClosed \<and> maxFailures b \<le> consecutiveFails b
      then b\<lparr>brk_state := StateOpen, lastStateChange := now\<rparr>
      else b)"

definition Stats :: "breaker \<Rightarrow> breaker_state \<times> int \<times> go_time option" where
  "Stats b = (brk_state b, consecutiveFails b, lastFailureTime b)"

lemmas breaker_defs = NewBreaker_def Allow_def Success_def Failure_def Stats_def


subsection \<open>Histories of calls\<close>

datatype breaker_op = OpAllow go_time | OpSuccess go_time | OpFailure go_time

fun breaker_step :: "breaker_op \<Rightarrow> breaker \<Rightarrow> breaker" where
  "breaker_step (OpAllow t) b = snd (Allow t b)"
| "breaker_step (OpSuccess t) b = Success t b"
| "breaker_step (OpFailure t) b = Failure t b"

definition run_breaker :: "breaker_op list \<Rightarrow> breaker \<Rightarrow> breaker" where
  "run_breaker ops b = fold breaker_step ops b"

text \<open>The number of failures reported since the last success.\<close>

fun trailing_failures :: "int \<Rightarrow> breaker_op list \<Rightarrow> int" where
  "trailing_failures n [] = n"
| "trailing_failures n (OpAllow t # ops) = trailing_failures n ops"
| "trailing_failures n (OpSuccess t # ops) = trailing_failures 0 ops"
| "trailing_failures n (OpFailure t # ops) = trailing_failures (n + 1) ops"

text \<open>How many of the calls to \<^verbatim>\<open>Allow\<close> in a history are let through.\<close>

fun admitted :: "breaker_op list \<Rightarrow> breaker \<Rightarrow> nat" where
  "admitted [] b = 0"
| "admitted (OpAllow t # ops) b = (if fst (Allow t b) then 1 else 0) + admitted ops (snd (Allow t b))"
| "admitted (op # ops) b = admitted ops (breaker_step op b)"

fun is_allow :: "breaker_op \<Rightarrow> bool" where
  "is_allow (OpAllow t) = True"
| "is_allow _ = False"

definition breaker_inv :: "breaker \<Rightarrow> bool" where
  "breaker_inv b \<longleftrightarrow>
     0 \<le> consecutiveFails b
     \<and> (brk_state b = StateClosed \<longleftrightarrow> consecutiveFails b < maxFailures b)
     \<and> 0 < maxFailures b"

lemma breaker_config_const:
  "maxFailures (breaker_step op b) = maxFailures b"
  "cooldownInterval (breaker_step op b) = cooldownInterval b"
  by (cases op; auto simp: breaker_defs Let_def split: breaker_state.splits)+

lemma breaker_step_inv: "breaker_inv b \<Longrightarrow> breaker_inv (breaker_step op b)"
  by (cases op) (auto simp: breaker_inv_def breaker_defs Let_def split: breaker_state.splits)

interpretation breaker: component breaker_step breaker_inv
  by unfold_locales (rule breaker_step_inv)

lemma NewBreaker_inv: "0 < n \<Longrightarrow> breaker_inv (NewBreaker name n cooldown now)"
  by (simp add: breaker_inv_def NewBreaker_def)

lemma consecutiveFails_run:
  "consecutiveFails (run_breaker ops b) = trailing_failures (consecutiveFails b) ops"
  unfolding run_breaker_def
proof (induction ops arbitrary: b)
  case (Cons op ops)
  then show ?case
    by (cases op) (auto simp: breaker_defs Let_def split: breaker_state.splits)
qed simp

lemma maxFailures_run: "maxFailures (run_breaker ops b) = maxFailures b"
  unfolding run_breaker_def by (rule fold_measure_const) (rule breaker_config_const)

text \<open>C18. The breaker trips exactly on consecutive failures: after any history of calls on a
  fresh breaker with a positive threshold, requests pass (state closed) if and only if the
  failures reported since the last success are fewer than the threshold.\<close>

theorem breaker_closed_iff:
  assumes "0 < n"
  shows "brk_state (run_breaker ops (NewBreaker name n cooldown start)) = StateClosed
           \<longleftrightarrow> trailing_failures 0 ops < n"
proof -
  let ?b = "NewBreaker name n cooldown start"
  have "breaker_inv (run_breaker ops ?b)"
    unfolding run_breaker_def by (rule breaker.run_inv [OF NewBreaker_inv [OF assms]])
  moreover have "consecutiveFails (run_breaker ops ?b) = trailing_failures 0 ops"
    using consecutiveFails_run [of ops ?b] by (simp add: NewBreaker_def)
  moreover have "maxFailures (run_breaker ops ?b) = n"
    using maxFailures_run [of ops ?b] by (simp add: NewBreaker_def)
  ultimately show ?thesis by (simp add: breaker_inv_def)
qed

theorem breaker_closed_iff_witness:
  "(0::int) < 2
   \<and> brk_state (run_breaker [OpFailure 1, OpSuccess 2, OpFailure 3, OpFailure 4] (NewBreaker ''mysql'' 2 30 0)) \<noteq> StateClosed
   \<and> brk_state (run_breaker [OpFailure 1, OpSuccess 2, OpFailure 3] (NewBreaker ''mysql'' 2 30 0)) = StateClosed"
  using breaker_closed_iff [of 2 "[OpFailure 1, OpSuccess 2, OpFailure 3, OpFailure 4]" "''mysql''" 30 0]
    breaker_closed_iff [of 2 "[OpFailure 1, OpSuccess 2, OpFailure 3]" "''mysql''" 30 0]
  by simp


subsection \<open>One probe per cooldown\<close>

lemma admitted_half_open:
  "brk_state b = StateHalfOpen \<Longrightarrow> \<forall>op \<in> set ops. is_allow op \<Longrightarrow> admitted ops b = 0"
proof (induction ops arbitrary: b)
  case (Cons op ops)
  then show ?case by (cases op) (auto simp: Allow_def)
qed simp

text \<open>C19. An open breaker lets at most one probe through until an outcome is reported, and none
  before the cooldown has passed: whatever concurrent calls to \<^verbatim>\<open>Allow\<close> arrive, at most one is
  admitted, and exactly one is when some call comes at or after the end of the cooldown.\<close>

theorem open_breaker_single_probe:
  assumes "brk_state b = StateOpen" and "\<forall>op \<in> set ops. is_allow op"
  shows "admitted ops b
     = (if \<exists>t. OpAllow t \<in> set ops \<and> cooldownInterval b \<le> t - lastStateChange b then 1 else 0)"
  using assms
proof (induction ops arbitrary: b)
  case (Cons op ops)
  then obtain t where op: "op = OpAllow t" by (cases op) auto
  show ?case
  proof (cases "cooldownInterval b \<le> t - lastStateChange b")
    case True
    with Cons.prems show ?thesis
      by (auto simp: op Allow_def admitted_half_open)
  next
    case False
    then have *: "Allow t b = (False, b)" using Cons.prems(1) by (simp add: Allow_def)
    have "admitted (op # ops) b = admitted ops b" by (simp add: op *)
    also have "\<dots> = (if \<exists>t. OpAllow t \<in> set ops \<and> cooldownInterval b \<le> t - lastStateChange b then 1 else 0)"
      using Cons by simp
    also have "\<dots> = (if \<exists>t. OpAllow t \<in> set (op # ops) \<and> cooldownInterval b \<le> t - lastStateChange b then 1 else 0)"
      using False by (auto simp: op)
    finally show ?thesis .
  qed
qed simp

theorem open_breaker_single_probe_witness:
  "admitted [OpAllow 20, OpAllow 40, OpAllow 41] (Failure 10 (NewBreaker ''etcd'' 1 15 0)) = 1"
proof -
  let ?b = "Failure 10 (NewBreaker ''etcd'' 1 15 0)"
  have b: "brk_state ?b = StateOpen" "cooldownInterval ?b = 15" "lastStateChange ?b = 10"
    by (simp_all add: breaker_defs Let_def)
  have "\<exists>t. OpAllow t \<in> set [OpAllow 20, OpAllow 40, OpAllow 41] \<and> cooldownInterval ?b \<le> t - lastStateChange ?b"
    by (rule exI [of _ 40]) (simp add: b)
  then show ?thesis
    using open_breaker_single_probe [OF b(1), of "[OpAllow 20, OpAllow 40, OpAllow 41]"]
    by (simp only: if_P) simp
qed

end
