(* ===== verification/Sched_State.thy ===== *)
theory Sched_State
  imports Task_Payload Validation
begin

text \<open>
  The state the scheduler's components share (\<^verbatim>\<open>infra/engine/scheduler\<close>). Each component's part is
  a record that extends the previous one, so that its operations and lemmas are stated on the
  part it owns and apply to the whole scheduler: configuration and effects, then the slots and
  queue of \<^verbatim>\<open>TaskDispatcher\<close>, the tables of \<^verbatim>\<open>WorkflowManager\<close>, and the event triggers and
  listeners of \<^verbatim>\<open>Scheduler\<close>.

  Effects on the outside (etcd, MySQL, web sockets) and started goroutines are appended to
  \<open>log\<close> in the order the code performs them. What the outside answers is an argument: \<open>env\<close>.
\<close>

subsection \<open>Configuration and environment\<close>

record config =
  MaxConcurrentTasks :: int
  PerWorkflowMaxConcurrency :: int
  cfg_PendingTaskTimeoutSec :: int
  cfg_DefaultTaskTimeoutSec :: int
  cfg_DefaultBaseBackoffSec :: int
  MaxHistoryCache :: int
  TasksPrefix :: string
  HasHistoryStore :: bool

text \<open>The answers of one operation's calls: the clock, whether serialising a payload and writing
  a key succeed, and the unique last part of the \<open>i\<close>th key it makes; \<open>msg_text\<close> is the text of a
  message the engine formats.\<close>

record env =
  now :: go_time
  serialize_ok :: "task_payload \<Rightarrow> bool"
  put_ok :: "string \<Rightarrow> bool"
  batch_ok :: "string list \<Rightarrow> bool"
  key_uniq :: "nat \<Rightarrow> string"
  msg_text :: "msg \<Rightarrow> string"


subsection \<open>Effects\<close>

datatype job =
    JAsyncInitMySQL workflow go_time
  | JTimeoutAfter nat uuid go_duration
  | JWatchWorkflowStatus nat uuid
  | JExecuteWorkflow uuid "vars list" int
  | JSubmitTarget uuid
  | JRetryTask task_payload int64
  | JRollback uuid "(task_node \<times> vars option) list"
  | JSaveTaskDeltas nat workflow_snapshot
  | JSaveTask nat nat task_payload

datatype ws_target = AllClients | ToWorkflow uuid

datatype effect =
    Broadcast ws_target ws_event_type
  | PersistToMySQL uuid nat nat workflow_status msg workflow_state
  | EtcdPut string task_payload int
  | EtcdBatchPut "(string \<times> task_payload) list" int
  | EtcdDelete string
  | Go job

record sched_base =
  conf :: config
  log :: "effect list"

definition emit :: "effect \<Rightarrow> 'a sched_base_scheme \<Rightarrow> 'a sched_base_scheme" where
  "emit e s = s\<lparr>log := log s @ [e]\<rparr>"

lemma emit_sel [simp]: "conf (emit e s) = conf s" "log (emit e s) = log s @ [e]"
  by (simp_all add: emit_def)


subsection \<open>The dispatcher's slots and queue\<close>

record pendingTask =
  pt_workflowName :: uuid
  pt_node :: task_node
  pt_upstreamOutputs :: "vars list"
  pt_priority :: int
  enqueued :: go_time

text \<open>\<^verbatim>\<open>pendingQueue.Less\<close>: higher priority first, then the earlier entry.\<close>

definition pq_less :: "pendingTask \<Rightarrow> pendingTask \<Rightarrow> bool" where
  "pq_less a b \<longleftrightarrow>
     (if pt_priority a \<noteq> pt_priority b then pt_priority a > pt_priority b else enqueued a < enqueued b)"

interpretation pq: heap_order pq_less
  by unfold_locales (auto simp: pq_less_def split: if_splits)

record td_state = sched_base +
  globalActive :: int
  perWfActive :: "uuid \<Rightarrow> int option"
  pendingPQ :: "pendingTask list"

definition loadPerWfActive :: "uuid \<Rightarrow> 'a td_state_scheme \<Rightarrow> int" where
  "loadPerWfActive u s = (case perWfActive s u of Some n \<Rightarrow> n | None \<Rightarrow> 0)"

definition incPerWfActive :: "uuid \<Rightarrow> 'a td_state_scheme \<Rightarrow> int \<times> 'a td_state_scheme" where
  "incPerWfActive u s =
     (let n = loadPerWfActive u s + 1 in (n, s\<lparr>perWfActive := (perWfActive s)(u \<mapsto> n)\<rparr>))"

definition decPerWfActive :: "uuid \<Rightarrow> 'a td_state_scheme \<Rightarrow> 'a td_state_scheme" where
  "decPerWfActive u s =
     (let n = loadPerWfActive u s - 1
      in s\<lparr>perWfActive := (if n = 0 then (perWfActive s)(u := None) else (perWfActive s)(u \<mapsto> n))\<rparr>)"

definition CleanupPerWfCounter :: "uuid \<Rightarrow> 'a td_state_scheme \<Rightarrow> 'a td_state_scheme" where
  "CleanupPerWfCounter u s = s\<lparr>perWfActive := (perWfActive s)(u := None)\<rparr>"

definition addGlobal :: "int \<Rightarrow> 'a td_state_scheme \<Rightarrow> 'a td_state_scheme" where
  "addGlobal d s = s\<lparr>globalActive := globalActive s + d\<rparr>"

text \<open>\<^verbatim>\<open>if globalMax > 0 { td.globalActive.Add(-1) }; td.decPerWfActive(uuid)\<close>, the pair of
  statements with which the code gives a slot back.\<close>

definition release_slot :: "bool \<Rightarrow> uuid \<Rightarrow> 'a td_state_scheme \<Rightarrow> 'a td_state_scheme" where
  "release_slot hasGlobalLimit u s =
     decPerWfActive u (if hasGlobalLimit then addGlobal (- 1) s else s)"

definition enqueuePending ::
  "go_time \<Rightarrow> uuid \<Rightarrow> task_node \<Rightarrow> vars list \<Rightarrow> int \<Rightarrow> 'a td_state_scheme \<Rightarrow> 'a td_state_scheme" where
  "enqueuePending t u node ups priority s =
     s\<lparr>pendingPQ := heap_push pq_less
        \<lparr>pt_workflowName = u, pt_node = node, pt_upstreamOutputs = ups, pt_priority = priority, enqueued = t\<rparr>
        (pendingPQ s)\<rparr>"

definition PendingTaskCount :: "'a td_state_scheme \<Rightarrow> nat" where
  "PendingTaskCount s = length (pendingPQ s)"

definition GlobalActiveCount :: "'a td_state_scheme \<Rightarrow> int" where
  "GlobalActiveCount s = globalActive s"

named_theorems slot_simps \<comment> \<open>what the counter operations do to each field\<close>

lemma loadPerWfActive_inc [slot_simps]:
  "loadPerWfActive v (snd (incPerWfActive u s)) = loadPerWfActive v s + (if v = u then 1 else 0)"
  "fst (incPerWfActive u s) = loadPerWfActive u s + 1"
  "globalActive (snd (incPerWfActive u s)) = globalActive s"
  "pendingPQ (snd (incPerWfActive u s)) = pendingPQ s"
  "conf (snd (incPerWfActive u s)) = conf s"
  "log (snd (incPerWfActive u s)) = log s"
  by (simp_all add: incPerWfActive_def Let_def loadPerWfActive_def)

lemma loadPerWfActive_dec [slot_simps]:
  "loadPerWfActive v (decPerWfActive u s) = loadPerWfActive v s - (if v = u then 1 else 0)"
  "globalActive (decPerWfActive u s) = globalActive s"
  "pendingPQ (decPerWfActive u s) = pendingPQ s"
  "conf (decPerWfActive u s) = conf s"
  "log (decPerWfActive u s) = log s"
  by (simp_all add: decPerWfActive_def Let_def loadPerWfActive_def)

lemma addGlobal_sel [slot_simps]:
  "loadPerWfActive v (addGlobal d s) = loadPerWfActive v s"
  "globalActive (addGlobal d s) = globalActive s + d"
  "pendingPQ (addGlobal d s) = pendingPQ s"
  "conf (addGlobal d s) = conf s"
  "log (addGlobal d s) = log s"
  "perWfActive (addGlobal d s) = perWfActive s"
  by (simp_all add: addGlobal_def loadPerWfActive_def)

lemma release_slot_sel [slot_simps]:
  "loadPerWfActive v (release_slot g u s) = loadPerWfActive v s - (if v = u then 1 else 0)"
  "globalActive (release_slot g u s) = globalActive s - (if g then 1 else 0)"
  "pendingPQ (release_slot g u s) = pendingPQ s"
  "conf (release_slot g u s) = conf s"
  "log (release_slot g u s) = log s"
  by (simp_all add: release_slot_def slot_simps)

lemma enqueuePending_sel [slot_simps]:
  "loadPerWfActive v (enqueuePending t u n ups p s) = loadPerWfActive v s"
  "globalActive (enqueuePending t u n ups p s) = globalActive s"
  "conf (enqueuePending t u n ups p s) = conf s"
  "log (enqueuePending t u n ups p s) = log s"
  by (simp_all add: enqueuePending_def loadPerWfActive_def)

lemma emit_td [slot_simps]:
  "loadPerWfActive v (emit e s) = loadPerWfActive v s"
  "globalActive (emit e s) = globalActive s"
  "pendingPQ (emit e s) = pendingPQ s"
  "perWfActive (emit e s) = perWfActive s"
  by (simp_all add: emit_def loadPerWfActive_def)

text \<open>A counter that returns to zero is deleted, so a missing entry and a zero entry are the
  same: no operation leaves a zero behind.\<close>

lemma dec_removes_zero: "loadPerWfActive u s = 1 \<Longrightarrow> perWfActive (decPerWfActive u s) u = None"
  by (simp add: decPerWfActive_def)


subsection \<open>The workflow manager's tables\<close>

text \<open>\<open>e_ctx\<close> identifies the cancellable context of the entry (\<^verbatim>\<open>entry.cancel\<close>).\<close>

record workflow_entry =
  e_state :: workflow_state
  e_ctx :: nat
  recovered :: bool

record wm_state = td_state +
  runningEntries :: "(uuid \<times> workflow_entry) list"
  workflowHistory :: "(nat \<times> workflow_state) list"
  workflowHistoryByUUID :: "uuid \<Rightarrow> nat list option"
  registeredWorkflows :: "(uuid \<times> workflow) list"
  historyOrder :: "nat list"
  completedCount :: int
  failedCount :: int
  snapshotLastTime :: "uuid \<Rightarrow> go_time option"
  nextCtx :: nat
  cancelledCtx :: "nat list"

definition running :: "uuid \<Rightarrow> 'a wm_state_scheme \<Rightarrow> workflow_entry option" where
  "running u s = map_of (runningEntries s) u"

definition GetWorkflowState :: "uuid \<Rightarrow> 'a wm_state_scheme \<Rightarrow> workflow_state option" where
  "GetWorkflowState u s = map_option e_state (running u s)"

text \<open>Writing the state of a locked entry.\<close>

definition set_entry :: "uuid \<Rightarrow> workflow_entry \<Rightarrow> 'a wm_state_scheme \<Rightarrow> 'a wm_state_scheme" where
  "set_entry u e s = s\<lparr>runningEntries := AList.update u e (runningEntries s)\<rparr>"

definition modify_state ::
  "uuid \<Rightarrow> (workflow_state \<Rightarrow> workflow_state) \<Rightarrow> 'a wm_state_scheme \<Rightarrow> 'a wm_state_scheme" where
  "modify_state u f s =
     (case running u s of
        None \<Rightarrow> s
      | Some e \<Rightarrow> set_entry u (e\<lparr>e_state := f (e_state e)\<rparr>) s)"

lemma running_set_entry [simp]: "running v (set_entry u e s) = (if v = u then Some e else running v s)"
  by (simp add: running_def set_entry_def update_conv')

lemma running_modify_state:
  "running v (modify_state u f s)
     = (if v = u then map_option (\<lambda>e. e\<lparr>e_state := f (e_state e)\<rparr>) (running u s) else running v s)"
  by (auto simp: modify_state_def split: option.splits)

end
