(* ===== verification/Workflow_Manager.thy ===== *)
theory Workflow_Manager
  imports Sched_State
begin

text \<open>
  \<^verbatim>\<open>infra/engine/scheduler/workflow_manager.go\<close>, the tables: moving a workflow from the running
  entries to the history (\<^verbatim>\<open>PersistWorkflowLocked\<close>), the bounded history cache with its two
  indexes, queries and paging. The life-cycle operations that also touch other components are
  in \<open>Lifecycle\<close>.
\<close>

subsection \<open>History\<close>

abbreviation maxHistoryByUUID :: nat where "maxHistoryByUUID \<equiv> 10"
abbreviation defaultMaxHistoryCache :: int where "defaultMaxHistoryCache \<equiv> 1000"
abbreviation maxHistoryPageSize :: int where "maxHistoryPageSize \<equiv> 100"

definition removeHistoryByUUIDEntry :: "uuid \<Rightarrow> nat \<Rightarrow> 'a wm_state_scheme \<Rightarrow> 'a wm_state_scheme" where
  "removeHistoryByUUIDEntry u execID s =
     (case workflowHistoryByUUID s u of
        None \<Rightarrow> s
      | Some execIDs \<Rightarrow>
          if execID \<in> set execIDs then
            (let ids = remove1 execID execIDs
             in s\<lparr>workflowHistoryByUUID := (workflowHistoryByUUID s)(u := if ids = [] then None else Some ids)\<rparr>)
          else s)"

definition removeFromHistoryOrder :: "nat \<Rightarrow> 'a wm_state_scheme \<Rightarrow> 'a wm_state_scheme" where
  "removeFromHistoryOrder execID s = s\<lparr>historyOrder := remove1 execID (historyOrder s)\<rparr>"

definition deleteHistory :: "nat \<Rightarrow> 'a wm_state_scheme \<Rightarrow> 'a wm_state_scheme" where
  "deleteHistory execID s = s\<lparr>workflowHistory := AList.delete execID (workflowHistory s)\<rparr>"

text \<open>The body of the eviction loop, and the loop.\<close>

definition evict_oldest :: "'a wm_state_scheme \<Rightarrow> 'a wm_state_scheme" where
  "evict_oldest s =
     (let oldestID = hd (historyOrder s);
          s1 = s\<lparr>historyOrder := tl (historyOrder s)\<rparr>;
          s2 = (case map_of (workflowHistory s1) oldestID of
                  Some oldState \<Rightarrow> removeHistoryByUUIDEntry (WorkflowUUID oldState) oldestID s1
                | None \<Rightarrow> s1)
      in deleteHistory oldestID s2)"

lemma evict_oldest_order [simp]: "historyOrder (evict_oldest s) = tl (historyOrder s)"
  by (simp add: evict_oldest_def deleteHistory_def removeHistoryByUUIDEntry_def Let_def split: option.splits)

function lru_evict :: "nat \<Rightarrow> 'a wm_state_scheme \<Rightarrow> 'a wm_state_scheme" where
  "lru_evict maxCache s =
     (if maxCache < length (historyOrder s) then lru_evict maxCache (evict_oldest s) else s)"
  by pat_completeness auto
termination by (relation "measure (\<lambda>(_, s). length (historyOrder s))") auto

declare lru_evict.simps [simp del]

definition max_cache :: "config \<Rightarrow> nat" where
  "max_cache c = nat (if MaxHistoryCache c \<le> 0 then defaultMaxHistoryCache else MaxHistoryCache c)"

definition count_status :: "workflow_status \<Rightarrow> 'a wm_state_scheme \<Rightarrow> 'a wm_state_scheme" where
  "count_status st s =
     (case st of
        WorkflowStatusCompleted \<Rightarrow> s\<lparr>completedCount := completedCount s + 1\<rparr>
      | WorkflowStatusFailed \<Rightarrow> s\<lparr>failedCount := failedCount s + 1\<rparr>
      | WorkflowStatusRolledBack \<Rightarrow> s\<lparr>failedCount := failedCount s + 1\<rparr>
      | _ \<Rightarrow> s)"

definition cleanSnapshotThrottle :: "uuid \<Rightarrow> 'a wm_state_scheme \<Rightarrow> 'a wm_state_scheme" where
  "cleanSnapshotThrottle u s = s\<lparr>snapshotLastTime := (snapshotLastTime s)(u := None)\<rparr>"

definition cancel_ctx :: "nat \<Rightarrow> 'a wm_state_scheme \<Rightarrow> 'a wm_state_scheme" where
  "cancel_ctx c s = s\<lparr>cancelledCtx := c # cancelledCtx s\<rparr>"

text \<open>The first critical section: into the history, out of the running entries.\<close>

definition move_to_history :: "uuid \<Rightarrow> workflow_state \<Rightarrow> 'a wm_state_scheme \<Rightarrow> 'a wm_state_scheme" where
  "move_to_history u st s =
     (let ids = (case workflowHistoryByUUID s u of None \<Rightarrow> [] | Some l \<Rightarrow> l) @ [ExecutionID st];
          ids' = (if length ids > maxHistoryByUUID then keep_last maxHistoryByUUID ids else ids)
      in s\<lparr>workflowHistory := AList.update (ExecutionID st) st (workflowHistory s),
           workflowHistoryByUUID := (workflowHistoryByUUID s)(u \<mapsto> ids'),
           historyOrder := historyOrder s @ [ExecutionID st],
           runningEntries := AList.delete u (runningEntries s)\<rparr>)"

text \<open>Everything up to the eviction. \<open>e\<close> is the locked entry, with the state to persist in it.
  Serialising the state does not fail: the values of the model are all representable in JSON.\<close>

definition persist_tables :: "uuid \<Rightarrow> workflow_entry \<Rightarrow> 'a wm_state_scheme \<Rightarrow> 'a wm_state_scheme" where
  "persist_tables u e s =
     (let st = e_state e;
          s1 = move_to_history u st s;
          s2 = cancel_ctx (e_ctx e) (CleanupPerWfCounter u (cleanSnapshotThrottle u s1));
          s3 = count_status (st_Status st) s2
      in emit (PersistToMySQL u (st_WorkflowID st) (ExecutionID st) (st_Status st) (st_Error st) st) s3)"

definition PersistWorkflowLocked :: "uuid \<Rightarrow> workflow_entry \<Rightarrow> 'a wm_state_scheme \<Rightarrow> 'a wm_state_scheme" where
  "PersistWorkflowLocked u e s = lru_evict (max_cache (conf s)) (persist_tables u e s)"

definition cached_history :: "uuid \<Rightarrow> 'a wm_state_scheme \<Rightarrow> workflow_state option" where
  "cached_history u s =
     (case workflowHistoryByUUID s u of
        None \<Rightarrow> None
      | Some ids \<Rightarrow> if ids = [] then None else map_of (workflowHistory s) (last ids))"

text \<open>\<open>load\<close> answers for \<^verbatim>\<open>GetExecutionByUUID\<close> and the decoding of its record.\<close>

definition GetHistory :: "(uuid \<Rightarrow> workflow_state option) \<Rightarrow> uuid \<Rightarrow> 'a wm_state_scheme \<Rightarrow> workflow_state option" where
  "GetHistory load u s =
     (case cached_history u s of
        Some st \<Rightarrow> Some st
      | None \<Rightarrow> if HasHistoryStore (conf s) then load u else None)"

definition sortedHistory :: "'a wm_state_scheme \<Rightarrow> workflow_state list" where
  "sortedHistory s = sort_key (\<lambda>st. - int (ExecutionID st)) (map snd (workflowHistory s))"

definition ListHistory :: "'a wm_state_scheme \<Rightarrow> workflow_state list" where
  "ListHistory s = sortedHistory s"

text \<open>\<open>db offset limit\<close> answers for \<^verbatim>\<open>LoadExecutions\<close>: \<open>None\<close> for an error, otherwise the records
  (\<open>None\<close> for one that does not decode) and the total.\<close>

definition ListHistoryPaged ::
  "(int \<Rightarrow> int \<Rightarrow> (workflow_state option list \<times> int) option) \<Rightarrow> int \<Rightarrow> int \<Rightarrow> 'a wm_state_scheme
     \<Rightarrow> workflow_state list \<times> int" where
  "ListHistoryPaged db page0 pageSize0 s =
     (let pageSize1 = (if pageSize0 > maxHistoryPageSize then maxHistoryPageSize else pageSize0) in
      case (if HasHistoryStore (conf s) then db ((page0 - 1) * pageSize1) pageSize1 else None) of
        Some (records, tot) \<Rightarrow> (List.map_filter id records, tot)
      | None \<Rightarrow>
          (let all = sortedHistory s; tot = int (length all);
               page = (if page0 < 1 then 1 else page0);
               pageSize = (if pageSize1 < 1 then 10 else pageSize1);
               start = (page - 1) * pageSize
           in if start \<ge> tot then ([], tot)
              else let end' = (if start + pageSize > tot then tot else start + pageSize)
                   in (take (nat (end' - start)) (drop (nat start) all), tot)))"

definition ListWorkflowStates :: "'a wm_state_scheme \<Rightarrow> workflow_state list" where
  "ListWorkflowStates s = map (e_state \<circ> snd) (runningEntries s)"

definition GetRegisteredWorkflow :: "uuid \<Rightarrow> 'a wm_state_scheme \<Rightarrow> workflow option" where
  "GetRegisteredWorkflow u s = map_of (registeredWorkflows s) u"

text \<open>The state of a workflow that has not run: every other field is the zero value.\<close>

definition pending_state :: "workflow \<Rightarrow> workflow_state" where
  "pending_state w =
     \<lparr>st_Workflow = w, st_Status = WorkflowStatusPending, StartedAt = 0, CompletedTasks = [],
      FailedTasks = [], RolledBack = [], st_Error = NoMsg, PausedTaskName = '''',
      PausedTaskOutput = None, PausedGroupIdx = 0, TaskGroupIndex = [], BranchTaskIndex = [],
      WorkflowUUID = '''', st_WorkflowID = 0, ExecutionID = 0, SnapshotSeq = 0, Snapshotted = []\<rparr>"

definition ListWorkflowDefs :: "'a wm_state_scheme \<Rightarrow> workflow_state list" where
  "ListWorkflowDefs s = map (pending_state \<circ> snd) (registeredWorkflows s)"

definition clearFailedTask :: "uuid \<Rightarrow> string \<Rightarrow> 'a wm_state_scheme \<Rightarrow> 'a wm_state_scheme" where
  "clearFailedTask u taskName s =
     modify_state u (\<lambda>st. st\<lparr>FailedTasks := AList.delete taskName (FailedTasks st),
                             Snapshotted := AList.delete taskName (Snapshotted st)\<rparr>) s"


subsection \<open>Which fields an operation keeps\<close>

named_theorems wm_simps \<comment> \<open>fields the history operations keep\<close>

lemma running_update_others [simp]:
  "running u (s\<lparr>workflowHistory := h\<rparr>) = running u s"
  "running u (s\<lparr>workflowHistoryByUUID := b\<rparr>) = running u s"
  "running u (s\<lparr>historyOrder := o'\<rparr>) = running u s"
  "running u (s\<lparr>completedCount := c\<rparr>) = running u s"
  "running u (s\<lparr>failedCount := c\<rparr>) = running u s"
  "running u (s\<lparr>snapshotLastTime := m\<rparr>) = running u s"
  "running u (s\<lparr>cancelledCtx := x\<rparr>) = running u s"
  "running u (s\<lparr>nextCtx := n\<rparr>) = running u s"
  "running u (s\<lparr>perWfActive := p\<rparr>) = running u s"
  "running u (s\<lparr>globalActive := g\<rparr>) = running u s"
  "running u (s\<lparr>pendingPQ := q\<rparr>) = running u s"
  "running u (s\<lparr>log := l\<rparr>) = running u s"
  by (simp_all add: running_def)

lemma loadPerWfActive_update_others [simp]:
  "loadPerWfActive u (s\<lparr>workflowHistory := h\<rparr>) = loadPerWfActive u s"
  "loadPerWfActive u (s\<lparr>workflowHistoryByUUID := b\<rparr>) = loadPerWfActive u s"
  "loadPerWfActive u (s\<lparr>historyOrder := o'\<rparr>) = loadPerWfActive u s"
  by (simp_all add: loadPerWfActive_def)

text \<open>The eviction changes the history tables only.\<close>

lemma removeHistory_frame:
  "\<exists>b. removeHistoryByUUIDEntry v i s = s\<lparr>workflowHistoryByUUID := b\<rparr>"
proof (cases "workflowHistoryByUUID s v")
  case (Some ids)
  then show ?thesis
    by (cases "i \<in> set ids") (auto simp: removeHistoryByUUIDEntry_def Let_def intro: exI [of _ "workflowHistoryByUUID s"])
qed (auto simp: removeHistoryByUUIDEntry_def intro: exI [of _ "workflowHistoryByUUID s"])

lemma evict_oldest_frame:
  "\<exists>h b. evict_oldest s = s\<lparr>workflowHistory := h, workflowHistoryByUUID := b, historyOrder := tl (historyOrder s)\<rparr>"
proof (cases "map_of (workflowHistory s) (hd (historyOrder s))")
  case None
  then have "evict_oldest s = s\<lparr>workflowHistory := AList.delete (hd (historyOrder s)) (workflowHistory s),
      workflowHistoryByUUID := workflowHistoryByUUID s, historyOrder := tl (historyOrder s)\<rparr>"
    by (simp add: evict_oldest_def deleteHistory_def Let_def)
  then show ?thesis by blast
next
  case (Some st)
  obtain b where "removeHistoryByUUIDEntry (WorkflowUUID st) (hd (historyOrder s)) (s\<lparr>historyOrder := tl (historyOrder s)\<rparr>)
      = (s\<lparr>historyOrder := tl (historyOrder s)\<rparr>)\<lparr>workflowHistoryByUUID := b\<rparr>"
    using removeHistory_frame by blast
  with Some have "evict_oldest s = s\<lparr>workflowHistory := AList.delete (hd (historyOrder s)) (workflowHistory s),
      workflowHistoryByUUID := b, historyOrder := tl (historyOrder s)\<rparr>"
    by (simp add: evict_oldest_def deleteHistory_def Let_def)
  then show ?thesis by blast
qed

lemma lru_evict_rule:
  assumes "P s" and "\<And>s. maxCache < length (historyOrder s) \<Longrightarrow> P s \<Longrightarrow> P (evict_oldest s)"
  shows "P (lru_evict maxCache s)"
  using assms(1)
proof (induction "length (historyOrder s)" arbitrary: s rule: less_induct)
  case less
  show ?case
  proof (cases "maxCache < length (historyOrder s)")
    case True
    then have "P (lru_evict maxCache (evict_oldest s))"
      by (intro less.hyps assms(2) less.prems) auto
    with True show ?thesis by (subst lru_evict.simps) simp
  next
    case False
    with less.prems show ?thesis by (subst lru_evict.simps) simp
  qed
qed

lemma lru_evict_frame:
  "\<exists>h b o'. lru_evict n s = s\<lparr>workflowHistory := h, workflowHistoryByUUID := b, historyOrder := o'\<rparr>"
proof (rule lru_evict_rule [where P = "\<lambda>t. \<exists>h b o'. t = s\<lparr>workflowHistory := h, workflowHistoryByUUID := b, historyOrder := o'\<rparr>"])
  have "s = s\<lparr>workflowHistory := workflowHistory s, workflowHistoryByUUID := workflowHistoryByUUID s,
      historyOrder := historyOrder s\<rparr>" by simp
  then show "\<exists>h b o'. s = s\<lparr>workflowHistory := h, workflowHistoryByUUID := b, historyOrder := o'\<rparr>" by blast
next
  fix t assume "\<exists>h b o'. t = s\<lparr>workflowHistory := h, workflowHistoryByUUID := b, historyOrder := o'\<rparr>"
  then show "\<exists>h b o'. evict_oldest t = s\<lparr>workflowHistory := h, workflowHistoryByUUID := b, historyOrder := o'\<rparr>"
    using evict_oldest_frame [of t] by force
qed

lemma lru_evict_keeps [wm_simps]:
  "running u (lru_evict n s) = running u s"
  "runningEntries (lru_evict n s) = runningEntries s"
  "registeredWorkflows (lru_evict n s) = registeredWorkflows s"
  "conf (lru_evict n s) = conf s"
  "log (lru_evict n s) = log s"
  "globalActive (lru_evict n s) = globalActive s"
  "perWfActive (lru_evict n s) = perWfActive s"
  "pendingPQ (lru_evict n s) = pendingPQ s"
  "completedCount (lru_evict n s) = completedCount s"
  "failedCount (lru_evict n s) = failedCount s"
  "cancelledCtx (lru_evict n s) = cancelledCtx s"
  "nextCtx (lru_evict n s) = nextCtx s"
  using lru_evict_frame [of n s] by auto

lemma length_lru_evict: "length (historyOrder (lru_evict n s)) = min n (length (historyOrder s))"
proof (induction "length (historyOrder s)" arbitrary: s rule: less_induct)
  case less
  show ?case using less [of "evict_oldest s"] by (subst lru_evict.simps) auto
qed


subsection \<open>The history cache is bounded and its index consistent\<close>

definition history_bounded :: "'a wm_state_scheme \<Rightarrow> bool" where
  "history_bounded s \<longleftrightarrow>
     fst ` set (workflowHistory s) \<subseteq> set (historyOrder s)
     \<and> length (historyOrder s) \<le> max_cache (conf s)
     \<and> (\<forall>u ids. workflowHistoryByUUID s u = Some ids \<longrightarrow> ids \<noteq> [] \<and> length ids \<le> maxHistoryByUUID)"

definition history_consistent :: "'a wm_state_scheme \<Rightarrow> bool" where
  "history_consistent s \<longleftrightarrow>
     distinct (historyOrder s)
     \<and> fst ` set (workflowHistory s) = set (historyOrder s)
     \<and> (\<forall>u ids. workflowHistoryByUUID s u = Some ids \<longrightarrow>
          ids \<noteq> [] \<and> distinct ids
          \<and> (\<forall>i \<in> set ids. \<exists>st. map_of (workflowHistory s) i = Some st \<and> WorkflowUUID st = u))"

text \<open>Removing one execution from the history tables, whatever the order list.\<close>

lemma byUUID_removeHistory:
  "workflowHistoryByUUID (removeHistoryByUUIDEntry v i s) u
     = (if u = v then (case workflowHistoryByUUID s v of
          None \<Rightarrow> None
        | Some ids \<Rightarrow> if remove1 i ids = [] \<and> i \<in> set ids then None else Some (remove1 i ids))
        else workflowHistoryByUUID s u)"
proof (cases "workflowHistoryByUUID s v")
  case None
  then show ?thesis by (simp add: removeHistoryByUUIDEntry_def)
next
  case (Some ids)
  then show ?thesis by (cases "i \<in> set ids") (simp_all add: removeHistoryByUUIDEntry_def Let_def remove1_idem)
qed

lemma fst_delete: "fst ` set (AList.delete k xs) = fst ` set xs - {k}"
proof -
  have "dom (map_of (AList.delete k xs)) = dom (map_of xs) - {k}" by (simp add: delete_conv')
  then show ?thesis by (simp only: dom_map_of_conv_image_fst)
qed

lemma remove_consistent:
  assumes cons: "history_consistent s" and st: "map_of (workflowHistory s) i = Some st"
    and s': "historyOrder s' = remove1 i (historyOrder s)"
      "workflowHistory s' = AList.delete i (workflowHistory s)"
      "workflowHistoryByUUID s' = workflowHistoryByUUID (removeHistoryByUUIDEntry (WorkflowUUID st) i s)"
  shows "history_consistent s'"
  unfolding history_consistent_def
proof (intro conjI allI impI)
  show "distinct (historyOrder s')" using cons by (simp add: s' history_consistent_def)
  show "fst ` set (workflowHistory s') = set (historyOrder s')"
    using cons by (simp add: s' history_consistent_def fst_delete)
  fix u ids assume "workflowHistoryByUUID s' u = Some ids"
  then consider (other) "u \<noteq> WorkflowUUID st" "workflowHistoryByUUID s u = Some ids"
    | (same) ids0 where "u = WorkflowUUID st" "workflowHistoryByUUID s u = Some ids0" "ids = remove1 i ids0" "ids \<noteq> []"
  proof (cases "u = WorkflowUUID st")
    case True
    then obtain ids0 where ids0: "workflowHistoryByUUID s u = Some ids0"
      and ids: "ids = remove1 i ids0" "\<not> (remove1 i ids0 = [] \<and> i \<in> set ids0)"
      using \<open>workflowHistoryByUUID s' u = Some ids\<close>
      by (auto simp: s' byUUID_removeHistory split: option.splits if_splits)
    moreover have "ids0 \<noteq> []" using cons ids0 unfolding history_consistent_def by blast
    ultimately show thesis using True that(2) by (metis remove1_idem)
  next
    case False
    then show thesis using \<open>workflowHistoryByUUID s' u = Some ids\<close> that(1) by (simp add: s' byUUID_removeHistory)
  qed
  then show "ids \<noteq> []" and "distinct ids"
    and "\<forall>j \<in> set ids. \<exists>st'. map_of (workflowHistory s') j = Some st' \<and> WorkflowUUID st' = u"
  proof (atomize (full), cases)
    case other
    then have ids: "ids \<noteq> []" "distinct ids"
      "\<forall>j \<in> set ids. \<exists>st'. map_of (workflowHistory s) j = Some st' \<and> WorkflowUUID st' = u"
      using cons unfolding history_consistent_def by blast+
    then have "i \<notin> set ids" using other(1) st by fastforce
    with ids show "ids \<noteq> [] \<and> distinct ids \<and> (\<forall>j \<in> set ids. \<exists>st'. map_of (workflowHistory s') j = Some st' \<and> WorkflowUUID st' = u)"
      by (auto simp: s' delete_conv')
  next
    case same
    then have "distinct ids0"
      "\<forall>j \<in> set ids0. \<exists>st'. map_of (workflowHistory s) j = Some st' \<and> WorkflowUUID st' = u"
      using cons unfolding history_consistent_def by blast+
    with same show "ids \<noteq> [] \<and> distinct ids \<and> (\<forall>j \<in> set ids. \<exists>st'. map_of (workflowHistory s') j = Some st' \<and> WorkflowUUID st' = u)"
      by (auto simp: s' delete_conv')
  qed
qed

lemma evict_oldest_history:
  "workflowHistory (evict_oldest s) = AList.delete (hd (historyOrder s)) (workflowHistory s)"
proof (cases "map_of (workflowHistory s) (hd (historyOrder s))")
  case (Some st)
  then show ?thesis
    using removeHistory_frame [of "WorkflowUUID st" "hd (historyOrder s)" "s\<lparr>historyOrder := tl (historyOrder s)\<rparr>"]
    by (auto simp: evict_oldest_def deleteHistory_def)
qed (simp add: evict_oldest_def deleteHistory_def)

lemma evict_oldest_byUUID:
  "workflowHistoryByUUID (evict_oldest s) u =
     (case map_of (workflowHistory s) (hd (historyOrder s)) of
        None \<Rightarrow> workflowHistoryByUUID s u
      | Some st \<Rightarrow> workflowHistoryByUUID (removeHistoryByUUIDEntry (WorkflowUUID st) (hd (historyOrder s)) s) u)"
  by (cases "map_of (workflowHistory s) (hd (historyOrder s))")
     (simp_all add: evict_oldest_def deleteHistory_def byUUID_removeHistory Let_def)

lemma evict_oldest_consistent:
  assumes "history_consistent s" and "historyOrder s \<noteq> []"
  shows "history_consistent (evict_oldest s)"
proof -
  obtain i os where order: "historyOrder s = i # os" using assms(2) by (cases "historyOrder s") auto
  have "i \<in> fst ` set (workflowHistory s)"
    using assms(1) order by (simp add: history_consistent_def)
  then have "map_of (workflowHistory s) i \<noteq> None" by (simp only: map_of_not_None not_False_eq_True)
  then obtain st where st: "map_of (workflowHistory s) i = Some st" by blast
  show ?thesis
  proof (rule remove_consistent [OF assms(1) st])
    show "historyOrder (evict_oldest s) = remove1 i (historyOrder s)" by (simp add: order)
    show "workflowHistory (evict_oldest s) = AList.delete i (workflowHistory s)"
      by (simp add: evict_oldest_history order)
    show "workflowHistoryByUUID (evict_oldest s) = workflowHistoryByUUID (removeHistoryByUUIDEntry (WorkflowUUID st) i s)"
      by (rule ext) (simp add: evict_oldest_byUUID order st)
  qed
qed

lemma lru_evict_consistent: "history_consistent s \<Longrightarrow> history_consistent (lru_evict n s)"
  by (erule lru_evict_rule) (auto intro: evict_oldest_consistent)

lemma move_to_history_sel [wm_simps]:
  "running v (move_to_history u st s) = (if v = u then None else running v s)"
  "historyOrder (move_to_history u st s) = historyOrder s @ [ExecutionID st]"
  "workflowHistory (move_to_history u st s) = AList.update (ExecutionID st) st (workflowHistory s)"
  "conf (move_to_history u st s) = conf s"
  "log (move_to_history u st s) = log s"
  "globalActive (move_to_history u st s) = globalActive s"
  "perWfActive (move_to_history u st s) = perWfActive s"
  "pendingPQ (move_to_history u st s) = pendingPQ s"
  "registeredWorkflows (move_to_history u st s) = registeredWorkflows s"
  "completedCount (move_to_history u st s) = completedCount s"
  "failedCount (move_to_history u st s) = failedCount s"
  "cancelledCtx (move_to_history u st s) = cancelledCtx s"
  "nextCtx (move_to_history u st s) = nextCtx s"
  by (simp_all add: move_to_history_def running_def delete_conv' Let_def)

lemma move_to_history_byUUID:
  "workflowHistoryByUUID (move_to_history u st s) v
     = (if v = u then Some (keep_last maxHistoryByUUID
          ((case workflowHistoryByUUID s u of None \<Rightarrow> [] | Some l \<Rightarrow> l) @ [ExecutionID st]))
        else workflowHistoryByUUID s v)"
  by (simp add: move_to_history_def Let_def)

lemma move_to_history_consistent:
  assumes cons: "history_consistent s" and fresh: "ExecutionID st \<notin> set (historyOrder s)"
    and u: "WorkflowUUID st = u"
  shows "history_consistent (move_to_history u st s)"
  unfolding history_consistent_def
proof (intro conjI allI impI)
  show "distinct (historyOrder (move_to_history u st s))"
    using cons fresh by (simp add: wm_simps history_consistent_def)
  show "fst ` set (workflowHistory (move_to_history u st s)) = set (historyOrder (move_to_history u st s))"
    using cons by (simp add: wm_simps history_consistent_def dom_update)
  fix v ids assume ids: "workflowHistoryByUUID (move_to_history u st s) v = Some ids"
  let ?ok = "\<lambda>v ids. ids \<noteq> [] \<and> distinct ids \<and>
      (\<forall>i \<in> set ids. \<exists>st'. map_of (workflowHistory (move_to_history u st s)) i = Some st' \<and> WorkflowUUID st' = v)"
  have old: "?ok w l \<and> ExecutionID st \<notin> set l" if "workflowHistoryByUUID s w = Some l" for w l
  proof -
    have *: "l \<noteq> []" "distinct l" "\<forall>i \<in> set l. \<exists>st'. map_of (workflowHistory s) i = Some st' \<and> WorkflowUUID st' = w"
      using cons that unfolding history_consistent_def by blast+
    moreover have "set l \<subseteq> set (historyOrder s)"
      using *(3) cons unfolding history_consistent_def by (metis map_of_not_None option.distinct(1) subsetI)
    ultimately show ?thesis using fresh by (auto simp: wm_simps update_conv')
  qed
  have "?ok v ids"
  proof (cases "v = u")
    case False
    with ids old show ?thesis by (simp add: move_to_history_byUUID)
  next
    case True
    let ?all = "(case workflowHistoryByUUID s u of None \<Rightarrow> [] | Some l \<Rightarrow> l) @ [ExecutionID st]"
    have all: "?ok u ?all"
    proof (cases "workflowHistoryByUUID s u")
      case None
      then show ?thesis by (simp add: wm_simps update_conv' u)
    next
      case (Some l)
      then show ?thesis using old [OF Some] by (auto simp: wm_simps update_conv' u)
    qed
    have "ids = keep_last maxHistoryByUUID ?all" using ids True by (simp add: move_to_history_byUUID)
    moreover have "keep_last maxHistoryByUUID ?all \<noteq> []" by (simp add: keep_last_def)
    ultimately show ?thesis
      using all True set_keep_last [of maxHistoryByUUID ?all] distinct_keep_last [of ?all maxHistoryByUUID]
      by (simp only:) (meson subsetD)
  qed
  then show "ids \<noteq> []" and "distinct ids"
    and "\<forall>i \<in> set ids. \<exists>st'. map_of (workflowHistory (move_to_history u st s)) i = Some st' \<and> WorkflowUUID st' = v"
    by blast+
qed


subsection \<open>Persisting a workflow\<close>

lemma count_status_sel [wm_simps]:
  "running v (count_status x s) = running v s"
  "runningEntries (count_status x s) = runningEntries s"
  "workflowHistory (count_status x s) = workflowHistory s"
  "workflowHistoryByUUID (count_status x s) = workflowHistoryByUUID s"
  "historyOrder (count_status x s) = historyOrder s"
  "registeredWorkflows (count_status x s) = registeredWorkflows s"
  "conf (count_status x s) = conf s"
  "log (count_status x s) = log s"
  "globalActive (count_status x s) = globalActive s"
  "perWfActive (count_status x s) = perWfActive s"
  "pendingPQ (count_status x s) = pendingPQ s"
  "nextCtx (count_status x s) = nextCtx s"
  "completedCount (count_status x s) = completedCount s + (if x = WorkflowStatusCompleted then 1 else 0)"
  "failedCount (count_status x s)
     = failedCount s + (if x \<in> {WorkflowStatusFailed, WorkflowStatusRolledBack} then 1 else 0)"
  by (cases x; simp add: count_status_def)+

lemmas persist_parts = persist_tables_def cancel_ctx_def CleanupPerWfCounter_def
  cleanSnapshotThrottle_def emit_def

lemma persist_tables_sel [wm_simps]:
  "running v (persist_tables u e s) = (if v = u then None else running v s)"
  "historyOrder (persist_tables u e s) = historyOrder s @ [ExecutionID (e_state e)]"
  "workflowHistory (persist_tables u e s) = AList.update (ExecutionID (e_state e)) (e_state e) (workflowHistory s)"
  "workflowHistoryByUUID (persist_tables u e s) = workflowHistoryByUUID (move_to_history u (e_state e) s)"
  "conf (persist_tables u e s) = conf s"
  "log (persist_tables u e s) = log s @ [PersistToMySQL u (st_WorkflowID (e_state e))
     (ExecutionID (e_state e)) (st_Status (e_state e)) (st_Error (e_state e)) (e_state e)]"
  "globalActive (persist_tables u e s) = globalActive s"
  "perWfActive (persist_tables u e s) = (perWfActive s)(u := None)"
  "pendingPQ (persist_tables u e s) = pendingPQ s"
  "registeredWorkflows (persist_tables u e s) = registeredWorkflows s"
  "completedCount (persist_tables u e s)
     = completedCount s + (if st_Status (e_state e) = WorkflowStatusCompleted then 1 else 0)"
  "failedCount (persist_tables u e s)
     = failedCount s + (if st_Status (e_state e) \<in> {WorkflowStatusFailed, WorkflowStatusRolledBack} then 1 else 0)"
  by (simp_all add: persist_parts wm_simps Let_def)

lemma Persist_sel [wm_simps]:
  "running v (PersistWorkflowLocked u e s) = (if v = u then None else running v s)"
  "conf (PersistWorkflowLocked u e s) = conf s"
  "log (PersistWorkflowLocked u e s) = log s @ [PersistToMySQL u (st_WorkflowID (e_state e))
     (ExecutionID (e_state e)) (st_Status (e_state e)) (st_Error (e_state e)) (e_state e)]"
  "globalActive (PersistWorkflowLocked u e s) = globalActive s"
  "perWfActive (PersistWorkflowLocked u e s) = (perWfActive s)(u := None)"
  "pendingPQ (PersistWorkflowLocked u e s) = pendingPQ s"
  "registeredWorkflows (PersistWorkflowLocked u e s) = registeredWorkflows s"
  "completedCount (PersistWorkflowLocked u e s)
     = completedCount s + (if st_Status (e_state e) = WorkflowStatusCompleted then 1 else 0)"
  "failedCount (PersistWorkflowLocked u e s)
     = failedCount s + (if st_Status (e_state e) \<in> {WorkflowStatusFailed, WorkflowStatusRolledBack} then 1 else 0)"
  by (simp_all add: PersistWorkflowLocked_def wm_simps)

lemma history_consistent_cong:
  assumes "historyOrder s = historyOrder t" and "workflowHistory s = workflowHistory t"
    and "workflowHistoryByUUID s = workflowHistoryByUUID t"
  shows "history_consistent s \<longleftrightarrow> history_consistent t"
  by (simp add: history_consistent_def assms)

lemma persist_tables_consistent:
  assumes "history_consistent s" and "ExecutionID (e_state e) \<notin> set (historyOrder s)"
    and "WorkflowUUID (e_state e) = u"
  shows "history_consistent (persist_tables u e s)"
  using move_to_history_consistent [OF assms]
    history_consistent_cong [of "persist_tables u e s" "move_to_history u (e_state e) s"]
  by (simp add: wm_simps)

lemma max_cache_pos: "0 < max_cache c"
  by (simp add: max_cache_def)

text \<open>Evicting older executions never removes the newest one.\<close>

lemma evict_oldest_keeps_newest:
  assumes "history_consistent s" and "1 < length (historyOrder s)" and "last (historyOrder s) = i"
    and "map_of (workflowHistory s) i = Some st"
    and "workflowHistoryByUUID s u = Some ids" and "last ids = i"
  shows "last (historyOrder (evict_oldest s)) = i
     \<and> map_of (workflowHistory (evict_oldest s)) i = Some st
     \<and> (\<exists>ids'. workflowHistoryByUUID (evict_oldest s) u = Some ids' \<and> last ids' = i)"
proof -
  obtain j os where order: "historyOrder s = j # os" and os: "os \<noteq> []" "i \<in> set os"
    using assms(2,3) by (cases "historyOrder s") auto
  have "j \<noteq> i" using assms(1) os by (auto simp: history_consistent_def order)
  have ids: "ids \<noteq> []" "distinct ids" using assms(1,5) unfolding history_consistent_def by blast+
  have ne: "remove1 j ids \<noteq> []" using ids(1) assms(6) \<open>j \<noteq> i\<close> by (cases ids) auto
  have "last (remove1 j ids) = i"
    using last_remove1 [OF ids(2) ne] assms(6) \<open>j \<noteq> i\<close> by simp
  with ne have by_uuid: "\<exists>ids'. workflowHistoryByUUID (evict_oldest s) u = Some ids' \<and> last ids' = i"
    using assms(5,6) by (auto simp: evict_oldest_byUUID order byUUID_removeHistory split: option.splits)
  show ?thesis
    using order os assms(3,4) by_uuid \<open>j \<noteq> i\<close> by (simp add: delete_conv' evict_oldest_history)
qed

lemma byUUID_shrinks:
  assumes "workflowHistoryByUUID (evict_oldest s) u = Some ids"
  shows "\<exists>ids0. workflowHistoryByUUID s u = Some ids0 \<and> length ids \<le> length ids0 \<and> (ids0 \<noteq> [] \<longrightarrow> ids \<noteq> [])"
proof (cases "workflowHistoryByUUID s u = Some ids")
  case False
  then obtain i ids0 where ids0: "workflowHistoryByUUID s u = Some ids0" "ids = remove1 i ids0"
    "\<not> (remove1 i ids0 = [] \<and> i \<in> set ids0)"
    using assms by (auto simp: evict_oldest_byUUID byUUID_removeHistory split: option.splits if_splits)
  have "length (remove1 i ids0) \<le> length ids0" by (simp add: length_remove1)
  moreover have "ids0 \<noteq> [] \<Longrightarrow> remove1 i ids0 \<noteq> []" using ids0(3) by (metis remove1_idem)
  ultimately show ?thesis using ids0 by blast
qed blast

lemma lru_evict_keeps_newest:
  assumes "history_consistent s" and "0 < n" and "historyOrder s \<noteq> []" and "last (historyOrder s) = i"
    and "map_of (workflowHistory s) i = Some st"
    and "workflowHistoryByUUID s u = Some ids" and "last ids = i"
  shows "cached_history u (lru_evict n s) = Some st"
proof -
  let ?P = "\<lambda>s. history_consistent s \<and> historyOrder s \<noteq> [] \<and> last (historyOrder s) = i
     \<and> map_of (workflowHistory s) i = Some st
     \<and> (\<exists>ids. workflowHistoryByUUID s u = Some ids \<and> last ids = i)"
  have "?P (lru_evict n s)"
  proof (rule lru_evict_rule)
    show "?P s" using assms by blast
  next
    fix t assume long: "n < length (historyOrder t)" and P: "?P t"
    from P obtain ids' where ids': "workflowHistoryByUUID t u = Some ids'" "last ids' = i" by blast
    have len: "1 < length (historyOrder t)" using long assms(2) by simp
    have "historyOrder (evict_oldest t) \<noteq> []" using len by (cases "historyOrder t") auto
    moreover have "history_consistent (evict_oldest t)" using P by (blast intro: evict_oldest_consistent)
    moreover have "last (historyOrder (evict_oldest t)) = i
       \<and> map_of (workflowHistory (evict_oldest t)) i = Some st
       \<and> (\<exists>ids'. workflowHistoryByUUID (evict_oldest t) u = Some ids' \<and> last ids' = i)"
      by (rule evict_oldest_keeps_newest [OF _ len _ _ ids']) (use P in simp_all)
    ultimately show "?P (evict_oldest t)" by (intro conjI) simp_all
  qed
  then obtain ids' where "history_consistent (lru_evict n s)" "map_of (workflowHistory (lru_evict n s)) i = Some st"
    "workflowHistoryByUUID (lru_evict n s) u = Some ids'" "last ids' = i" by blast
  moreover from this have "ids' \<noteq> []" unfolding history_consistent_def by blast
  ultimately show ?thesis by (simp add: cached_history_def)
qed

lemma Persist_consistent:
  assumes "history_consistent s" and "ExecutionID (e_state e) \<notin> set (historyOrder s)"
    and "WorkflowUUID (e_state e) = u"
  shows "history_consistent (PersistWorkflowLocked u e s)"
    and "cached_history u (PersistWorkflowLocked u e s) = Some (e_state e)"
proof -
  show "cached_history u (PersistWorkflowLocked u e s) = Some (e_state e)"
    unfolding PersistWorkflowLocked_def
    by (rule lru_evict_keeps_newest [OF persist_tables_consistent [OF assms] max_cache_pos])
       (simp_all add: wm_simps update_conv' move_to_history_byUUID last_keep_last)
  show "history_consistent (PersistWorkflowLocked u e s)"
    unfolding PersistWorkflowLocked_def
    by (intro lru_evict_consistent persist_tables_consistent assms)
qed


text \<open>The history cache is bounded, whatever identifiers executions have: after persisting, at
  most the configured number of executions (1000 when none is configured) is cached, each of
  them is in the eviction order, and at most ten executions are indexed per workflow.\<close>

theorem Persist_history_bounded:
  assumes "history_bounded s"
  shows "history_bounded (PersistWorkflowLocked u e s)
     \<and> card (fst ` set (workflowHistory (PersistWorkflowLocked u e s))) \<le> max_cache (conf s)"
proof -
  let ?P = "\<lambda>s. fst ` set (workflowHistory s) \<subseteq> set (historyOrder s)
     \<and> (\<forall>u ids. workflowHistoryByUUID s u = Some ids \<longrightarrow> ids \<noteq> [] \<and> length ids \<le> maxHistoryByUUID)"
  let ?s' = "lru_evict (max_cache (conf s)) (persist_tables u e s)"
  have P: "?P ?s'"
  proof (rule lru_evict_rule)
    show "?P (persist_tables u e s)"
      using assms
      by (auto simp: wm_simps dom_update move_to_history_byUUID history_bounded_def keep_last_def
          split: option.splits if_splits)
  next
    fix t assume P: "?P t" and "max_cache (conf s) < length (historyOrder t)"
    then obtain j os where order: "historyOrder t = j # os" by (cases "historyOrder t") auto
    have "fst ` set (workflowHistory (evict_oldest t)) \<subseteq> set (historyOrder (evict_oldest t))"
      using P by (auto simp: evict_oldest_history fst_delete order)
    moreover have "ids \<noteq> [] \<and> length ids \<le> maxHistoryByUUID"
      if evicted: "workflowHistoryByUUID (evict_oldest t) v = Some ids" for v ids
    proof -
      obtain ids0 where "workflowHistoryByUUID t v = Some ids0" "length ids \<le> length ids0" "ids0 \<noteq> [] \<longrightarrow> ids \<noteq> []"
        using byUUID_shrinks [OF evicted] by blast
      moreover from this P have "ids0 \<noteq> []" "length ids0 \<le> maxHistoryByUUID" by blast+
      ultimately show ?thesis by simp
    qed
    ultimately show "?P (evict_oldest t)" by blast
  qed
  have len: "length (historyOrder ?s') \<le> max_cache (conf s)" by (simp add: length_lru_evict)
  have "card (fst ` set (workflowHistory ?s')) \<le> card (set (historyOrder ?s'))"
    using P by (intro card_mono) auto
  also have "\<dots> \<le> max_cache (conf s)" using card_length [of "historyOrder ?s'"] len by linarith
  finally show ?thesis
    using P len by (simp add: PersistWorkflowLocked_def history_bounded_def wm_simps)
qed

text \<open>The condition on the identifier is needed. Without a history store every execution keeps identifier 0:
  the second execution to be persisted shares the identifier of the first, and once the cache
  is full evicting "the oldest" deletes the newest: with room for one entry, the workflow just
  finished cannot be found.\<close>

definition demo_workflow :: workflow where
  "demo_workflow = AddTaskGroup [''a''] (NewWorkflow ''demo'')"

definition demo_conf :: config where
  "demo_conf = \<lparr>MaxConcurrentTasks = 0, PerWorkflowMaxConcurrency = 0, cfg_PendingTaskTimeoutSec = 0,
     cfg_DefaultTaskTimeoutSec = 0, cfg_DefaultBaseBackoffSec = 0, MaxHistoryCache = 1,
     TasksPrefix = ''/t/'', HasHistoryStore = False\<rparr>"

definition empty_wm :: "config \<Rightarrow> wm_state" where
  "empty_wm c =
     \<lparr>conf = c, log = [], globalActive = 0, perWfActive = Map.empty, pendingPQ = [], runningEntries = [],
      workflowHistory = [], workflowHistoryByUUID = Map.empty, registeredWorkflows = [], historyOrder = [],
      completedCount = 0, failedCount = 0, snapshotLastTime = Map.empty, nextCtx = 0, cancelledCtx = []\<rparr>"

definition demo_entry :: "uuid \<Rightarrow> workflow_entry" where
  "demo_entry u = \<lparr>e_state = (pending_state demo_workflow)\<lparr>st_Status := WorkflowStatusCompleted, WorkflowUUID := u\<rparr>,
                   e_ctx = 0, recovered = False\<rparr>"

lemma shared_execution_id_loses_history:
  "GetHistory (\<lambda>_. None) ''b''
     (PersistWorkflowLocked ''b'' (demo_entry ''b'') (PersistWorkflowLocked ''a'' (demo_entry ''a'') (empty_wm demo_conf)))
   = None"
  by (simp add: PersistWorkflowLocked_def persist_parts move_to_history_def count_status_def demo_entry_def
      pending_state_def empty_wm_def demo_conf_def max_cache_def lru_evict.simps evict_oldest_def
      removeHistoryByUUIDEntry_def deleteHistory_def GetHistory_def cached_history_def Let_def keep_last_def)


theorem Persist_history_bounded_witness:
  "history_bounded (PersistWorkflowLocked ''a'' (demo_entry ''a'') (empty_wm demo_conf))"
proof -
  have "history_bounded (empty_wm demo_conf)" by (simp add: history_bounded_def empty_wm_def)
  then show ?thesis using Persist_history_bounded by blast
qed


subsection \<open>Paging\<close>

lemma page_content:
  assumes "\<not> HasHistoryStore (conf s)" and "1 \<le> psize" and "psize \<le> maxHistoryPageSize"
  shows "fst (ListHistoryPaged db (int (Suc p)) psize s) = take (nat psize) (drop (p * nat psize) (sortedHistory s))"
proof -
  let ?all = "sortedHistory s"
  have stop: "nat (int p * psize + psize) - p * nat psize = nat psize"
    using assms(2) by (simp add: nat_add_distrib nat_mult_distrib)
  have start: "nat (int p * psize) = p * nat psize" using assms(2) by (simp add: nat_mult_distrib)
  show ?thesis
  proof (cases "int p * psize \<ge> int (length ?all)")
    case True
    then have "length ?all \<le> p * nat psize" using start by linarith
    with True assms show ?thesis by (simp add: ListHistoryPaged_def Let_def)
  next
    case False
    then show ?thesis
      using assms start by (auto simp: ListHistoryPaged_def Let_def nat_diff_distrib stop)
  qed
qed

lemma pages_prefix:
  assumes "\<not> HasHistoryStore (conf s)" and "1 \<le> psize" and "psize \<le> maxHistoryPageSize"
  shows "concat (map (\<lambda>p. fst (ListHistoryPaged db (int (Suc p)) psize s)) [0..<k])
           = take (k * nat psize) (sortedHistory s)"
proof (induction k)
  case (Suc k)
  have "take (Suc k * nat psize) (sortedHistory s)
      = take (k * nat psize) (sortedHistory s) @ take (nat psize) (drop (k * nat psize) (sortedHistory s))"
    using take_add [of "k * nat psize" "nat psize" "sortedHistory s"] by (simp add: add.commute)
  with Suc show ?case using page_content [OF assms, of db k] by simp
qed simp

text \<open>Paging through the cached history loses and repeats nothing: without a history store,
  for every page size the code accepts, the pages in order are the whole history, newest
  execution first; each page has at most the requested number of entries and reports the total.\<close>

theorem ListHistoryPaged_complete:
  assumes "\<not> HasHistoryStore (conf s)" and "1 \<le> psize" and "psize \<le> maxHistoryPageSize"
    and "length (workflowHistory s) \<le> k * nat psize"
  shows "concat (map (\<lambda>p. fst (ListHistoryPaged db (int (Suc p)) psize s)) [0..<k]) = ListHistory s
     \<and> mset (ListHistory s) = mset (map snd (workflowHistory s))
     \<and> sorted_wrt (\<lambda>a b. ExecutionID b \<le> ExecutionID a) (ListHistory s)
     \<and> (\<forall>p. length (fst (ListHistoryPaged db (int (Suc p)) psize s)) \<le> nat psize
          \<and> snd (ListHistoryPaged db (int (Suc p)) psize s) = int (length (workflowHistory s)))"
proof -
  have "sorted_wrt (\<lambda>a b. - int (ExecutionID a) \<le> - int (ExecutionID b)) (sortedHistory s)"
    using sorted_sort_key [of "\<lambda>st. - int (ExecutionID st)"] unfolding sortedHistory_def sorted_map by blast
  moreover have "concat (map (\<lambda>p. fst (ListHistoryPaged db (int (Suc p)) psize s)) [0..<k]) = ListHistory s"
    unfolding pages_prefix [OF assms(1-3)] using assms(4) by (simp add: ListHistory_def sortedHistory_def)
  moreover have "length (fst (ListHistoryPaged db (int (Suc p)) psize s)) \<le> nat psize" for p
    unfolding page_content [OF assms(1-3)] by simp
  moreover have "snd (ListHistoryPaged db (int (Suc p)) psize s) = int (length (workflowHistory s))" for p
    using assms(1) by (simp add: ListHistoryPaged_def Let_def sortedHistory_def)
  ultimately show ?thesis by (simp add: ListHistory_def sortedHistory_def)
qed

theorem ListHistoryPaged_complete_witness:
  "let s = (empty_wm demo_conf)\<lparr>workflowHistory := [(1, e_state (demo_entry ''a'')), (2, e_state (demo_entry ''b''))]\<rparr>
   in concat (map (\<lambda>p. fst (ListHistoryPaged (\<lambda>_ _. None) (int (Suc p)) 1 s)) [0..<2]) = ListHistory s"
  unfolding Let_def
  using ListHistoryPaged_complete [of "(empty_wm demo_conf)\<lparr>workflowHistory
       := [(1, e_state (demo_entry ''a'')), (2, e_state (demo_entry ''b''))]\<rparr>" 1 2 "\<lambda>_ _. None"]
  by (simp add: empty_wm_def demo_conf_def)

end
