(* ===== verification/Event_Trigger.thy ===== *)
theory Event_Trigger
  imports Workflow_Model
begin

text \<open>
  \<^verbatim>\<open>infra/engine/scheduler/event_trigger.go\<close>: the listeners that start a workflow when another one
  completes, when a task fails, or on a web hook. A call with a callback is a function that
  returns the targets in the order in which the callback is called with them.
\<close>

record event_listener =
  el_WorkflowUUID :: uuid
  el_WorkflowName :: string
  el_EventType :: string
  el_Filter :: string
  el_WebhookSecret :: string

record trigger_manager =
  listeners :: "(string \<times> event_listener list) list"
  webhookWfs :: "(uuid \<times> event_listener) list"

definition newEventTriggerManager :: trigger_manager where
  "newEventTriggerManager = \<lparr>listeners = [], webhookWfs = []\<rparr>"

definition listeners_for :: "string \<Rightarrow> trigger_manager \<Rightarrow> event_listener list" where
  "listeners_for key m = (case map_of (listeners m) key of None \<Rightarrow> [] | Some ls \<Rightarrow> ls)"

definition RegisterEventTrigger :: "workflow \<Rightarrow> trigger_manager \<Rightarrow> trigger_manager" where
  "RegisterEventTrigger w m =
     (case (if Trigger w \<noteq> TriggerEvent then None else EventTrigger w) of
        None \<Rightarrow> m
      | Some et \<Rightarrow>
          (let l = \<lparr>el_WorkflowUUID = wf_UUID w, el_WorkflowName = wf_Name w, el_EventType = et_EventType et,
                    el_Filter = et_Filter et, el_WebhookSecret = et_WebhookSecret et\<rparr>;
               m1 = m\<lparr>listeners := AList.update (et_EventType et) (listeners_for (et_EventType et) m @ [l]) (listeners m)\<rparr>
           in if et_EventType et = EventTriggerWebhook
              then m1\<lparr>webhookWfs := AList.update (wf_UUID w) l (webhookWfs m1)\<rparr>
              else m1))"

text \<open>\<^verbatim>\<open>append(listeners[:i], listeners[i+1:]...)\<close> at the first listener of the workflow.\<close>

fun remove_listener :: "uuid \<Rightarrow> event_listener list \<Rightarrow> event_listener list" where
  "remove_listener u [] = []"
| "remove_listener u (l # ls) = (if el_WorkflowUUID l = u then ls else l # remove_listener u ls)"

definition UnregisterEventTrigger :: "uuid \<Rightarrow> trigger_manager \<Rightarrow> trigger_manager" where
  "UnregisterEventTrigger u m =
     m\<lparr>webhookWfs := AList.delete u (webhookWfs m),
        listeners := map (\<lambda>(k, ls). (k, remove_listener u ls)) (listeners m)\<rparr>"

definition completed_matches :: "uuid \<Rightarrow> string \<Rightarrow> bool" where
  "completed_matches sourceUUID flt \<longleftrightarrow> \<not> (flt \<noteq> '''' \<and> flt \<noteq> sourceUUID)"

definition FireWorkflowCompleted :: "uuid \<Rightarrow> trigger_manager \<Rightarrow> uuid list" where
  "FireWorkflowCompleted sourceUUID m =
     map el_WorkflowUUID (filter (\<lambda>l. completed_matches sourceUUID (el_Filter l))
       (listeners_for EventTriggerWorkflowCompleted m))"

definition failed_matches :: "uuid \<Rightarrow> string \<Rightarrow> string \<Rightarrow> bool" where
  "failed_matches sourceUUID taskName flt \<longleftrightarrow>
     (if flt \<noteq> '''' then
        (let expectedFilter = sourceUUID @ '':'' @ taskName
         in \<not> (flt \<noteq> sourceUUID \<and> flt \<noteq> expectedFilter))
      else True)"

definition FireTaskFailed :: "uuid \<Rightarrow> string \<Rightarrow> trigger_manager \<Rightarrow> uuid list" where
  "FireTaskFailed sourceUUID taskName m =
     map el_WorkflowUUID (filter (\<lambda>l. failed_matches sourceUUID taskName (el_Filter l))
       (listeners_for EventTriggerTaskFailed m))"

datatype trigger_error = WebhookNotRegistered uuid

definition FireWebhook :: "uuid \<Rightarrow> trigger_manager \<Rightarrow> trigger_error + event_listener" where
  "FireWebhook u m =
     (case map_of (webhookWfs m) u of None \<Rightarrow> Inl (WebhookNotRegistered u) | Some l \<Rightarrow> Inr l)"

definition ListWebhookWorkflows :: "trigger_manager \<Rightarrow> event_listener list" where
  "ListWebhookWorkflows m = map snd (webhookWfs m)"


subsection \<open>Which registrations fire\<close>

lemma listeners_for_register:
  "listeners_for key (RegisterEventTrigger w m) =
     (case (if Trigger w \<noteq> TriggerEvent then None else EventTrigger w) of
        None \<Rightarrow> listeners_for key m
      | Some et \<Rightarrow> listeners_for key m @
          (if key = et_EventType et
           then [\<lparr>el_WorkflowUUID = wf_UUID w, el_WorkflowName = wf_Name w, el_EventType = et_EventType et,
                  el_Filter = et_Filter et, el_WebhookSecret = et_WebhookSecret et\<rparr>] else []))"
  by (auto simp: RegisterEventTrigger_def listeners_for_def update_conv' Let_def split: option.splits)

lemma webhookWfs_register:
  "map_of (webhookWfs (RegisterEventTrigger w m)) u =
     (case (if Trigger w \<noteq> TriggerEvent then None else EventTrigger w) of
        None \<Rightarrow> map_of (webhookWfs m) u
      | Some et \<Rightarrow>
          if et_EventType et = EventTriggerWebhook \<and> u = wf_UUID w
          then Some \<lparr>el_WorkflowUUID = wf_UUID w, el_WorkflowName = wf_Name w, el_EventType = et_EventType et,
                     el_Filter = et_Filter et, el_WebhookSecret = et_WebhookSecret et\<rparr>
          else map_of (webhookWfs m) u)"
  by (auto simp: RegisterEventTrigger_def update_conv' Let_def split: option.splits)

text \<open>What a workflow definition asks for, independently of the registry.\<close>

definition wants_completed :: "uuid \<Rightarrow> workflow \<Rightarrow> bool" where
  "wants_completed src w \<longleftrightarrow> Trigger w = TriggerEvent \<and>
     (\<exists>et. EventTrigger w = Some et \<and> et_EventType et = EventTriggerWorkflowCompleted
           \<and> (et_Filter et = '''' \<or> et_Filter et = src))"

definition wants_failed :: "uuid \<Rightarrow> string \<Rightarrow> workflow \<Rightarrow> bool" where
  "wants_failed src task w \<longleftrightarrow> Trigger w = TriggerEvent \<and>
     (\<exists>et. EventTrigger w = Some et \<and> et_EventType et = EventTriggerTaskFailed
           \<and> et_Filter et \<in> {'''', src, src @ '':'' @ task})"

definition wants_webhook :: "workflow \<Rightarrow> bool" where
  "wants_webhook w \<longleftrightarrow> Trigger w = TriggerEvent \<and>
     (\<exists>et. EventTrigger w = Some et \<and> et_EventType et = EventTriggerWebhook)"

lemma fire_register_step:
  "FireWorkflowCompleted src (RegisterEventTrigger w m)
     = FireWorkflowCompleted src m @ (if wants_completed src w then [wf_UUID w] else [])"
  "FireTaskFailed src task (RegisterEventTrigger w m)
     = FireTaskFailed src task m @ (if wants_failed src task w then [wf_UUID w] else [])"
  by (auto simp: FireWorkflowCompleted_def FireTaskFailed_def listeners_for_register wants_completed_def
      wants_failed_def completed_matches_def failed_matches_def Let_def split: option.splits)

lemma fire_register_run:
  "FireWorkflowCompleted src (fold RegisterEventTrigger ws m)
     = FireWorkflowCompleted src m @ map wf_UUID (filter (wants_completed src) ws)"
  "FireTaskFailed src task (fold RegisterEventTrigger ws m)
     = FireTaskFailed src task m @ map wf_UUID (filter (wants_failed src task) ws)"
  by (induction ws arbitrary: m) (simp_all add: fire_register_step)

lemma webhook_register_run:
  "(\<exists>l. FireWebhook u (fold RegisterEventTrigger ws m) = Inr l)
     \<longleftrightarrow> (\<exists>l. FireWebhook u m = Inr l) \<or> (\<exists>w \<in> set ws. wants_webhook w \<and> wf_UUID w = u)"
proof (induction ws arbitrary: m)
  case (Cons w ws)
  have "(\<exists>l. FireWebhook u (RegisterEventTrigger w m) = Inr l)
      \<longleftrightarrow> (\<exists>l. FireWebhook u m = Inr l) \<or> wants_webhook w \<and> wf_UUID w = u"
    by (auto simp: FireWebhook_def webhookWfs_register wants_webhook_def split: option.splits)
  then show ?case by (simp add: Cons.IH)
qed simp

text \<open>From an empty registry, the registered definitions alone decide which targets the callbacks of the
  events get, in registration order, and which web hooks are accepted.\<close>

lemma fires_as_registered:
  "FireWorkflowCompleted src (fold RegisterEventTrigger ws newEventTriggerManager)
     = map wf_UUID (filter (wants_completed src) ws)
   \<and> FireTaskFailed src task (fold RegisterEventTrigger ws newEventTriggerManager)
     = map wf_UUID (filter (wants_failed src task) ws)
   \<and> ((\<exists>l. FireWebhook u (fold RegisterEventTrigger ws newEventTriggerManager) = Inr l)
        \<longleftrightarrow> (\<exists>w \<in> set ws. wants_webhook w \<and> wf_UUID w = u))"
proof -
  have "FireWorkflowCompleted src newEventTriggerManager = []" "FireTaskFailed src task newEventTriggerManager = []"
    "\<not> (\<exists>l. FireWebhook u newEventTriggerManager = Inr l)"
    by (simp_all add: FireWorkflowCompleted_def FireTaskFailed_def FireWebhook_def listeners_for_def newEventTriggerManager_def)
  then show ?thesis by (simp add: fire_register_run webhook_register_run)
qed

text \<open>Unregistering removes one listener per event type: a workflow registered once is gone, one
  registered twice still fires (re-registering a definition adds a second listener).\<close>

lemma listeners_for_unregister: "listeners_for key (UnregisterEventTrigger u m) = remove_listener u (listeners_for key m)"
proof -
  have "map_of (map (\<lambda>(k, ls). (k, remove_listener u ls)) xs) key = map_option (remove_listener u) (map_of xs key)" for xs
    by (induction xs) auto
  then show ?thesis
    by (auto simp: UnregisterEventTrigger_def listeners_for_def split: option.splits)
qed

lemma remove_listener_once: "u \<notin> el_WorkflowUUID ` set ls \<Longrightarrow> remove_listener u (ls @ [l]) = (if el_WorkflowUUID l = u then ls else ls @ [l])"
  by (induction ls) auto

lemma unregister_register_fires:
  assumes "\<forall>key. wf_UUID w \<notin> el_WorkflowUUID ` set (listeners_for key m)"
  shows "FireWorkflowCompleted src (UnregisterEventTrigger (wf_UUID w) (RegisterEventTrigger w m)) = FireWorkflowCompleted src m"
    and "FireTaskFailed src task (UnregisterEventTrigger (wf_UUID w) (RegisterEventTrigger w m)) = FireTaskFailed src task m"
proof -
  have none: "remove_listener u ls = ls" if "u \<notin> el_WorkflowUUID ` set ls" for u ls
    using that by (induction ls) auto
  have "listeners_for key (UnregisterEventTrigger (wf_UUID w) (RegisterEventTrigger w m)) = listeners_for key m" for key
    using assms none by (auto simp: listeners_for_unregister listeners_for_register remove_listener_once split: option.splits)
  then show "FireWorkflowCompleted src (UnregisterEventTrigger (wf_UUID w) (RegisterEventTrigger w m)) = FireWorkflowCompleted src m"
    "FireTaskFailed src task (UnregisterEventTrigger (wf_UUID w) (RegisterEventTrigger w m)) = FireTaskFailed src task m"
    by (simp_all add: FireWorkflowCompleted_def FireTaskFailed_def)
qed

end
