(* ===== verification/Dispatcher.thy ===== *)
theory Dispatcher
  imports Workflow_Manager Event_Trigger Circuit_Breaker
begin

text \<open>
  \<^verbatim>\<open>infra/engine/scheduler/task_dispatcher.go\<close>, with \<^verbatim>\<open>markWorkflowFailed\<close> of \<^verbatim>\<open>watch.go\<close>, the callback
  the scheduler injects into it. A call of a method runs to its end as one step; the
  interleaving of concurrent \<^verbatim>\<open>PushTask\<close> calls on the atomic counters is in \<open>Slot_Race\<close>.
  The per-task listeners are channels of capacity one, a buffer of at most one payload each.
\<close>

record sched = wm_state +
  etm :: trigger_manager
  taskListeners :: "uuid \<Rightarrow> (string \<times> task_payload list) list option"
  mysqlBreaker :: breaker

subsection \<open>Marking a workflow as failed\<close>

definition fail_entry :: "string \<Rightarrow> msg \<Rightarrow> workflow_entry \<Rightarrow> workflow_entry" where
  "fail_entry taskName errMsg e =
     e\<lparr>e_state := (e_state e)\<lparr>FailedTasks := AList.update taskName errMsg (FailedTasks (e_state e)),
                              st_Status := WorkflowStatusFailed, st_Error := errMsg\<rparr>\<rparr>"

definition markWorkflowFailed :: "task_payload \<Rightarrow> msg \<Rightarrow> 'a sched_scheme \<Rightarrow> 'a sched_scheme" where
  "markWorkflowFailed payload errMsg s =
     (let u = tp_WorkflowID payload;
          s1 = (case running u s of
                  None \<Rightarrow> s
                | Some e \<Rightarrow> PersistWorkflowLocked u (fail_entry (tp_TaskName payload) errMsg e) s);
          s2 = emit (Broadcast (ToWorkflow u) EventWorkflowFailed) s1
      in fold (\<lambda>target. emit (Go (JSubmitTarget target))) (FireTaskFailed u (tp_TaskName payload) (etm s2)) s2)"


subsection \<open>Writing a task\<close>

definition defaultPendingTaskTimeoutSec :: int where "defaultPendingTaskTimeoutSec = 300"
definition defaultTaskTimeoutSec :: int where "defaultTaskTimeoutSec = 30"
definition defaultBaseBackoffSec :: int where "defaultBaseBackoffSec = 1"

definition getWorkflowPriority :: "uuid \<Rightarrow> 'a wm_state_scheme \<Rightarrow> int" where
  "getWorkflowPriority u s =
     (case GetWorkflowState u s of Some st \<Rightarrow> wf_Priority (st_Workflow st) | None \<Rightarrow> 0)"

text \<open>The payload of a task of workflow \<open>w\<close>: the same statements in \<^verbatim>\<open>doPush\<close> and \<^verbatim>\<open>batchPush\<close>.\<close>

definition task_timeout :: "config \<Rightarrow> workflow \<Rightarrow> int" where
  "task_timeout c w =
     (let t1 = TaskTimeoutSec w;
          t2 = (if t1 \<le> 0 then cfg_DefaultTaskTimeoutSec c else t1)
      in if t2 \<le> 0 then defaultTaskTimeoutSec else t2)"

definition base_backoff :: "config \<Rightarrow> workflow \<Rightarrow> int" where
  "base_backoff c w =
     (let b1 = wf_BaseBackoff w;
          b2 = (if b1 \<le> 0 then cfg_DefaultBaseBackoffSec c else b1)
      in if b2 \<le> 0 then defaultBaseBackoffSec else b2)"

definition task_input :: "task_node \<Rightarrow> vars list \<Rightarrow> vars" where
  "task_input node ups =
     (case ApplyInputMapping node ups of Some mapped \<Rightarrow> mapped | None \<Rightarrow> merge_outputs ups)"

definition new_payload :: "config \<Rightarrow> workflow \<Rightarrow> uuid \<Rightarrow> task_node \<Rightarrow> vars list \<Rightarrow> task_payload" where
  "new_payload c w u node ups =
     zero_payload\<lparr>tp_WorkflowID := u, tp_TaskName := node_Name node, tp_Status := StatusPending,
       tp_Priority := wf_Priority w,
       tp_Params := Some (case node_Params node of Some p \<Rightarrow> p | None \<Rightarrow> Map.empty),
       tp_Input := Some (task_input node ups), tp_Output := Some Map.empty,
       tp_TimeoutSec := task_timeout c w, tp_MaxRetries := wf_MaxRetries w,
       tp_BaseBackoff := base_backoff c w\<rparr>"

datatype push_error = WorkflowMissing uuid | SerializeFailed string | PutFailed string

definition doPush ::
  "env \<Rightarrow> uuid \<Rightarrow> task_node \<Rightarrow> vars list \<Rightarrow> 'a wm_state_scheme \<Rightarrow> (push_error + unit) \<times> 'a wm_state_scheme" where
  "doPush ev u node ups s =
     (case GetWorkflowState u s of
        None \<Rightarrow> (Inl (WorkflowMissing u), s)
      | Some st \<Rightarrow>
          (let payload = new_payload (conf s) (st_Workflow st) u node ups;
               key = taskKey (TasksPrefix (conf s)) u (node_Name node) (key_uniq ev 0)
           in if \<not> serialize_ok ev payload then (Inl (SerializeFailed (node_Name node)), s)
              else if \<not> put_ok ev key then (Inl (PutFailed (node_Name node)), s)
              else (Inr (), emit (EtcdPut key payload taskTTLSeconds) s)))"

text \<open>The end of \<^verbatim>\<open>PushTask\<close>: give the slot back when the write fails.\<close>

definition push_or_release ::
  "env \<Rightarrow> bool \<Rightarrow> uuid \<Rightarrow> task_node \<Rightarrow> vars list \<Rightarrow> 'a wm_state_scheme \<Rightarrow> (push_error + unit) \<times> 'a wm_state_scheme" where
  "push_or_release ev hasGlobalLimit u node ups s =
     (case doPush ev u node ups s of (r, s1) \<Rightarrow>
        (r, case r of Inr _ \<Rightarrow> s1 | Inl _ \<Rightarrow> release_slot hasGlobalLimit u s1))"

definition PushTask ::
  "env \<Rightarrow> uuid \<Rightarrow> task_node \<Rightarrow> vars list \<Rightarrow> 'a wm_state_scheme \<Rightarrow> (push_error + unit) \<times> 'a wm_state_scheme" where
  "PushTask ev u node ups s =
     (let priority = getWorkflowPriority u s;
          globalMax = MaxConcurrentTasks (conf s);
          perWfMax = PerWorkflowMaxConcurrency (conf s);
          enqueue = (\<lambda>t. (Inr (), enqueuePending (now ev) u node ups priority t));
          push = push_or_release ev (0 < globalMax) u node ups
      in if 0 < globalMax \<or> 0 < perWfMax then
           (if 0 < perWfMax \<and> perWfMax \<le> loadPerWfActive u s then enqueue s
            else if 0 < globalMax \<and> globalMax \<le> globalActive s then enqueue s
            else (case incPerWfActive u s of (newWf, s1) \<Rightarrow>
              if 0 < perWfMax \<and> perWfMax < newWf then enqueue (decPerWfActive u s1)
              else (let s2 = addGlobal 1 s1; newGlobal = globalActive s2 in
                if 0 < globalMax \<and> globalMax < newGlobal
                then enqueue (decPerWfActive u (addGlobal (- 1) s2))
                else push s2)))
         else push s)"

text \<open>\<^verbatim>\<open>batchPush\<close>: the loop's state is the cache of workflow definitions, the keys and values
  collected so far, \<^verbatim>\<open>occupied\<close>, and the scheduler.\<close>

type_synonym 'a batch_loop =
  "(uuid \<Rightarrow> workflow option) \<times> (string \<times> task_payload) list \<times> bool list \<times> 'a"

definition batch_step ::
  "env \<Rightarrow> bool \<Rightarrow> nat \<times> pendingTask \<Rightarrow> 'a wm_state_scheme batch_loop \<Rightarrow> 'a wm_state_scheme batch_loop" where
  "batch_step ev hasGlobalLimit = (\<lambda>(i, pt) (cache, kvs, occupied, s).
     (let u = pt_workflowName pt;
          found = (case cache u of Some w \<Rightarrow> Some w | None \<Rightarrow> map_option st_Workflow (GetWorkflowState u s))
      in case found of
           None \<Rightarrow> (cache, kvs, occupied @ [False], s)
         | Some w \<Rightarrow>
             (let cache1 = cache(u \<mapsto> w);
                  payload = new_payload (conf s) w u (pt_node pt) (pt_upstreamOutputs pt);
                  key = taskKey (TasksPrefix (conf s)) u (node_Name (pt_node pt)) (key_uniq ev i)
              in if \<not> serialize_ok ev payload
                 then (cache1, kvs, occupied @ [False], release_slot hasGlobalLimit u s)
                 else (cache1, kvs @ [(key, payload)], occupied @ [True], s))))"

definition batchPush ::
  "env \<Rightarrow> pendingTask list \<Rightarrow> bool \<Rightarrow> 'a wm_state_scheme \<Rightarrow> 'a wm_state_scheme" where
  "batchPush ev tasks hasGlobalLimit s =
     (if tasks = [] then s
      else case fold (batch_step ev hasGlobalLimit) (enumerate 0 tasks) (Map.empty, [], [], s) of
        (_, kvs, occupied, s1) \<Rightarrow>
          if kvs = [] then s1
          else if \<not> batch_ok ev (map fst kvs)
          then fold (\<lambda>(pt, occ). if occ then release_slot hasGlobalLimit (pt_workflowName pt) else id)
                 (zip tasks occupied) s1
          else emit (EtcdBatchPut kvs taskTTLSeconds) s1)"


subsection \<open>The pending queue\<close>

definition getPendingTimeoutSec :: "config \<Rightarrow> int" where
  "getPendingTimeoutSec c =
     (let t = cfg_PendingTaskTimeoutSec c in if t \<le> 0 then defaultPendingTaskTimeoutSec else t)"

text \<open>The eviction loop: \<open>heap_pop\<close> returns the root, which the code peeks at before popping.\<close>

function evict_queue ::
  "go_time \<Rightarrow> go_duration \<Rightarrow> pendingTask list \<Rightarrow> pendingTask list \<Rightarrow> pendingTask list \<times> pendingTask list" where
  "evict_queue t timeout evicted q =
     (case heap_pop pq_less q of
        None \<Rightarrow> (evicted, q)
      | Some (pt, q') \<Rightarrow>
          if t - enqueued pt \<le> timeout then (evicted, q)
          else evict_queue t timeout (evicted @ [pt]) q')"
  by pat_completeness auto
termination by (relation "measure (\<lambda>(_, _, _, q). length q)") (auto dest: length_heap_pop)

declare evict_queue.simps [simp del]

definition queue_timeout_payload :: "int \<Rightarrow> pendingTask \<Rightarrow> task_payload" where
  "queue_timeout_payload timeoutSec pt =
     zero_payload\<lparr>tp_WorkflowID := pt_workflowName pt, tp_TaskName := node_Name (pt_node pt),
       tp_Result := MsgQueueTimeout timeoutSec, tp_Status := StatusFailed\<rparr>"

definition evictTimedOutLocked :: "env \<Rightarrow> int \<Rightarrow> 'a sched_scheme \<Rightarrow> 'a sched_scheme" where
  "evictTimedOutLocked ev timeoutSec s =
     (if timeoutSec \<le> 0 \<or> pendingPQ s = [] then s
      else case evict_queue (now ev) (timeoutSec * Second) [] (pendingPQ s) of
        (evicted, q) \<Rightarrow>
          fold (\<lambda>pt. markWorkflowFailed (queue_timeout_payload timeoutSec pt) (MsgQueueTimeout timeoutSec))
            evicted (s\<lparr>pendingPQ := q\<rparr>))"

function dispatch_loop ::
  "int \<Rightarrow> int \<Rightarrow> pendingTask list \<Rightarrow> uuid list \<Rightarrow> pendingTask list \<Rightarrow> 'a td_state_scheme
     \<Rightarrow> pendingTask list \<times> pendingTask list \<times> 'a td_state_scheme" where
  "dispatch_loop globalMax perWfMax deferred blockedWf toPush s =
     (case heap_pop pq_less (pendingPQ s) of
        None \<Rightarrow> (deferred, toPush, s)
      | Some (pt, q) \<Rightarrow>
          if 0 < globalMax \<and> globalMax \<le> globalActive s then (deferred, toPush, s)
          else if 0 < perWfMax \<and> perWfMax \<le> loadPerWfActive (pt_workflowName pt) s
          then dispatch_loop globalMax perWfMax (deferred @ [pt]) (pt_workflowName pt # blockedWf) toPush
                 (s\<lparr>pendingPQ := q\<rparr>)
          else if pt_workflowName pt \<in> set blockedWf
          then dispatch_loop globalMax perWfMax (deferred @ [pt]) blockedWf toPush (s\<lparr>pendingPQ := q\<rparr>)
          else dispatch_loop globalMax perWfMax deferred blockedWf (toPush @ [pt])
                 (snd (incPerWfActive (pt_workflowName pt) (addGlobal 1 (s\<lparr>pendingPQ := q\<rparr>)))))"
  by pat_completeness auto
termination
  by (relation "measure (\<lambda>(_, _, _, _, _, s). length (pendingPQ s))")
     (auto simp: slot_simps dest: length_heap_pop)

declare dispatch_loop.simps [simp del]

text \<open>The part of \<^verbatim>\<open>tryDispatchPending\<close> under the queue's lock, after the eviction.\<close>

definition select_pending :: "'a td_state_scheme \<Rightarrow> pendingTask list \<times> 'a td_state_scheme" where
  "select_pending s =
     (case dispatch_loop (MaxConcurrentTasks (conf s)) (PerWorkflowMaxConcurrency (conf s)) [] [] [] s of
        (deferred, toPush, s1) \<Rightarrow>
          (toPush, s1\<lparr>pendingPQ := fold (heap_push pq_less) deferred (pendingPQ s1)\<rparr>))"

definition tryDispatchPending :: "env \<Rightarrow> 'a sched_scheme \<Rightarrow> 'a sched_scheme" where
  "tryDispatchPending ev s =
     (case select_pending (evictTimedOutLocked ev (getPendingTimeoutSec (conf s)) s) of
        (toPush, s1) \<Rightarrow> batchPush ev toPush (0 < MaxConcurrentTasks (conf s)) s1)"

definition ReleaseSlot :: "env \<Rightarrow> 'a sched_scheme \<Rightarrow> 'a sched_scheme" where
  "ReleaseSlot ev s =
     tryDispatchPending ev (if 0 < MaxConcurrentTasks (conf s) then addGlobal (- 1) s else s)"

definition ReleaseSlotForWorkflow :: "env \<Rightarrow> uuid \<Rightarrow> 'a sched_scheme \<Rightarrow> 'a sched_scheme" where
  "ReleaseSlotForWorkflow ev u s =
     tryDispatchPending ev (release_slot (0 < MaxConcurrentTasks (conf s)) u s)"


subsection \<open>Retries and rollback tasks\<close>

text \<open>\<open>ctxDone\<close>: the context is cancelled before the back-off has passed.\<close>

definition RetryTask :: "env \<Rightarrow> bool \<Rightarrow> task_payload \<Rightarrow> 'a sched_scheme \<Rightarrow> 'a sched_scheme" where
  "RetryTask ev ctxDone payload0 s =
     (if ctxDone then s else
      let u = tp_WorkflowID payload0;
          globalMax = MaxConcurrentTasks (conf s);
          perWfMax = PerWorkflowMaxConcurrency (conf s);
          s1 = (if 0 < globalMax \<or> 0 < perWfMax
                then snd (incPerWfActive u (if 0 < globalMax then addGlobal 1 s else s)) else s);
          payload = payload0\<lparr>RetryCount := RetryCount payload0 + 1, tp_Status := StatusPending, tp_Result := NoMsg\<rparr>;
          giveUp = (\<lambda>errMsg. tryDispatchPending ev (release_slot (0 < globalMax) u (markWorkflowFailed payload errMsg s1)));
          key = retryTaskKey (TasksPrefix (conf s)) u (tp_TaskName payload) (RetryCount payload) (key_uniq ev 0)
      in if \<not> serialize_ok ev payload then giveUp (MsgRetrySerialize (tp_TaskName payload))
         else if \<not> put_ok ev key then giveUp (MsgRetryPut (tp_TaskName payload))
         else clearFailedTask u (tp_TaskName payload) (emit (EtcdPut key payload taskTTLSeconds) s1))"

definition PushRollbackTask ::
  "env \<Rightarrow> uuid \<Rightarrow> task_node \<Rightarrow> vars option \<Rightarrow> 'a wm_state_scheme \<Rightarrow> 'a wm_state_scheme" where
  "PushRollbackTask ev u node originalOutput s =
     (let payload = zero_payload\<lparr>tp_WorkflowID := u, tp_TaskName := node_Name node, tp_Status := StatusPending,
            tp_Params := node_Params node, tp_Input := originalOutput, tp_Output := Some Map.empty,
            tp_TimeoutSec := cfg_DefaultTaskTimeoutSec (conf s), Rollback := True\<rparr>;
          key = taskKey (TasksPrefix (conf s)) u (node_Name node) (key_uniq ev 0)
      in if \<not> serialize_ok ev payload then s
         else if \<not> put_ok ev key then s
         else emit (EtcdPut key payload taskTTLSeconds) s)"


subsection \<open>Selecting pending tasks\<close>

lemma dispatch_loop_rule:
  assumes run: "dispatch_loop g p def bl tp s = (def', tp', s')"
    and init: "P def bl tp s"
    and defer_step: "\<And>def bl bl' tp s pt q. P def bl tp s \<Longrightarrow> heap_pop pq_less (pendingPQ s) = Some (pt, q)
        \<Longrightarrow> (0 < p \<and> p \<le> loadPerWfActive (pt_workflowName pt) s \<and> bl' = pt_workflowName pt # bl
             \<or> pt_workflowName pt \<in> set bl \<and> bl' = bl)
        \<Longrightarrow> P (def @ [pt]) bl' tp (s\<lparr>pendingPQ := q\<rparr>)"
    and push_step: "\<And>def bl tp s pt q. P def bl tp s \<Longrightarrow> heap_pop pq_less (pendingPQ s) = Some (pt, q)
        \<Longrightarrow> \<not> (0 < g \<and> g \<le> globalActive s)
        \<Longrightarrow> \<not> (0 < p \<and> p \<le> loadPerWfActive (pt_workflowName pt) s)
        \<Longrightarrow> P def bl (tp @ [pt]) (snd (incPerWfActive (pt_workflowName pt) (addGlobal 1 (s\<lparr>pendingPQ := q\<rparr>))))"
  shows "(\<exists>bl'. P def' bl' tp' s') \<and> (pendingPQ s' = [] \<or> 0 < g \<and> g \<le> globalActive s')"
  using run init defer_step push_step
proof (induction g p def bl tp s rule: dispatch_loop.induct)
  case (1 g p def bl tp s)
  show ?case
  proof (cases "heap_pop pq_less (pendingPQ s)")
    case None
    with 1(4,5) show ?thesis by (auto simp: dispatch_loop.simps [of g p def bl tp s])
  next
    case (Some ptq)
    then obtain pt q where pop: "heap_pop pq_less (pendingPQ s) = Some (pt, q)" by (cases ptq) auto
    note eq = dispatch_loop.simps [of g p def bl tp s, unfolded pop option.case prod.case]
    consider (full) "0 < g \<and> g \<le> globalActive s"
      | (limit) "\<not> (0 < g \<and> g \<le> globalActive s)" "0 < p \<and> p \<le> loadPerWfActive (pt_workflowName pt) s"
      | (blocked) "\<not> (0 < g \<and> g \<le> globalActive s)" "\<not> (0 < p \<and> p \<le> loadPerWfActive (pt_workflowName pt) s)"
          "pt_workflowName pt \<in> set bl"
      | (push) "\<not> (0 < g \<and> g \<le> globalActive s)" "\<not> (0 < p \<and> p \<le> loadPerWfActive (pt_workflowName pt) s)"
          "pt_workflowName pt \<notin> set bl"
      by blast
    then show ?thesis
    proof cases
      case full
      with 1(4,5) eq show ?thesis by auto
    next
      case limit
      have "dispatch_loop g p (def @ [pt]) (pt_workflowName pt # bl) tp (s\<lparr>pendingPQ := q\<rparr>) = (def', tp', s')"
        using 1(4) limit by (simp add: eq)
      moreover have "P (def @ [pt]) (pt_workflowName pt # bl) tp (s\<lparr>pendingPQ := q\<rparr>)"
        by (rule 1(6) [OF 1(5) pop]) (use limit in blast)
      ultimately show ?thesis by (rule 1(1) [OF pop refl limit _ _ 1(6) 1(7)])
    next
      case blocked
      have "dispatch_loop g p (def @ [pt]) bl tp (s\<lparr>pendingPQ := q\<rparr>) = (def', tp', s')"
        using 1(4) blocked by (simp add: eq)
      moreover have "P (def @ [pt]) bl tp (s\<lparr>pendingPQ := q\<rparr>)"
        by (rule 1(6) [OF 1(5) pop]) (use blocked in blast)
      ultimately show ?thesis by (rule 1(2) [OF pop refl blocked _ _ 1(6) 1(7)])
    next
      case push
      have "dispatch_loop g p def bl (tp @ [pt])
          (snd (incPerWfActive (pt_workflowName pt) (addGlobal 1 (s\<lparr>pendingPQ := q\<rparr>)))) = (def', tp', s')"
        using 1(4) push by (simp add: eq)
      then show ?thesis
        by (rule 1(3) [OF pop refl push _ 1(7) [OF 1(5) pop push(1,2)] 1(6) 1(7)])
    qed
  qed
qed

text \<open>The loop's invariant, from a state \<open>s0\<close> whose queue is a heap.\<close>

definition dispatch_inv ::
  "int \<Rightarrow> int \<Rightarrow> 'a td_state_scheme \<Rightarrow> pendingTask list \<Rightarrow> uuid list \<Rightarrow> pendingTask list \<Rightarrow> 'a td_state_scheme \<Rightarrow> bool" where
  "dispatch_inv g p s0 def bl tp s \<longleftrightarrow>
     is_heap pq_less (length (pendingPQ s)) (pendingPQ s)
     \<and> mset def + mset tp + mset (pendingPQ s) = mset (pendingPQ s0)
     \<and> globalActive s = globalActive s0 + int (length tp)
     \<and> (\<forall>u. loadPerWfActive u s = loadPerWfActive u s0 + int (length (filter (\<lambda>x. pt_workflowName x = u) tp)))
     \<and> (0 < g \<longrightarrow> globalActive s \<le> max g (globalActive s0))
     \<and> (0 < p \<longrightarrow> (\<forall>u. loadPerWfActive u s \<le> max p (loadPerWfActive u s0)))
     \<and> (\<forall>u \<in> set bl \<union> pt_workflowName ` set def. 0 < p \<and> p \<le> loadPerWfActive u s)
     \<and> (\<forall>x \<in> set tp. \<forall>y \<in> set (pendingPQ s). \<not> pq_less y x)
     \<and> sorted_wrt (\<lambda>x y. \<not> pq_less y x) tp
     \<and> conf s = conf s0 \<and> log s = log s0"

lemma dispatch_inv_defer:
  assumes "dispatch_inv g p s0 def bl tp s" and pop: "heap_pop pq_less (pendingPQ s) = Some (pt, q)"
    and "0 < p \<and> p \<le> loadPerWfActive (pt_workflowName pt) s \<and> bl' = pt_workflowName pt # bl
         \<or> pt_workflowName pt \<in> set bl \<and> bl' = bl"
  shows "dispatch_inv g p s0 (def @ [pt]) bl' tp (s\<lparr>pendingPQ := q\<rparr>)"
proof -
  have load: "loadPerWfActive u (s\<lparr>pendingPQ := q\<rparr>) = loadPerWfActive u s" for u
    by (simp add: loadPerWfActive_def)
  have m: "mset (pendingPQ s) = add_mset pt (mset q)" using mset_heap_pop [OF pop] by simp
  then have sub: "set q \<subseteq> set (pendingPQ s)" by (metis set_mset_add_mset_insert set_mset_mset subset_insertI)
  show ?thesis
    using assms(1,3) m sub pq.heap_pop_is_heap [OF _ pop]
    by (auto simp: dispatch_inv_def load)
qed

lemma dispatch_inv_push:
  assumes inv: "dispatch_inv g p s0 def bl tp s" and pop: "heap_pop pq_less (pendingPQ s) = Some (pt, q)"
    and g: "\<not> (0 < g \<and> g \<le> globalActive s)" and p: "\<not> (0 < p \<and> p \<le> loadPerWfActive (pt_workflowName pt) s)"
  shows "dispatch_inv g p s0 def bl (tp @ [pt])
           (snd (incPerWfActive (pt_workflowName pt) (addGlobal 1 (s\<lparr>pendingPQ := q\<rparr>))))"
    (is "dispatch_inv _ _ _ _ _ _ ?s'")
proof -
  have load: "loadPerWfActive u ?s' = loadPerWfActive u s + (if u = pt_workflowName pt then 1 else 0)" for u
    by (simp add: slot_simps) (simp add: loadPerWfActive_def)
  have m: "mset (pendingPQ s) = add_mset pt (mset q)" using mset_heap_pop [OF pop] by simp
  then have sets: "set q \<subseteq> set (pendingPQ s)" "pt \<in> set (pendingPQ s)"
    by (metis set_mset_add_mset_insert set_mset_mset subset_insertI insertI1)+
  have least: "\<forall>y \<in> set q. \<not> pq_less y pt"
    using inv sets pq.heap_pop_least [OF _ pop] by (auto simp: dispatch_inv_def)
  have heap: "is_heap pq_less (length q) q"
    using inv pq.heap_pop_is_heap [OF _ pop] by (simp add: dispatch_inv_def)
  have sel: "pendingPQ ?s' = q" "globalActive ?s' = globalActive s + 1" "conf ?s' = conf s" "log ?s' = log s"
    by (simp_all add: slot_simps)
  show ?thesis
    unfolding dispatch_inv_def sel load
  proof (intro conjI allI impI ballI)
    show "globalActive s + 1 \<le> max g (globalActive s0)" if "0 < g"
      using that g by linarith
    show "loadPerWfActive u s + (if u = pt_workflowName pt then 1 else 0) \<le> max p (loadPerWfActive u s0)" if "0 < p" for u
    proof (cases "u = pt_workflowName pt")
      case True
      with that p show ?thesis by simp
    next
      case False
      have "loadPerWfActive u s \<le> max p (loadPerWfActive u s0)"
        using that inv unfolding dispatch_inv_def by blast
      with False show ?thesis by simp
    qed
    show "0 < p" "p \<le> loadPerWfActive u s + (if u = pt_workflowName pt then 1 else 0)"
      if "u \<in> set bl \<union> pt_workflowName ` set def" for u
    proof -
      have "0 < p \<and> p \<le> loadPerWfActive u s" using that inv unfolding dispatch_inv_def by blast
      then show "0 < p" "p \<le> loadPerWfActive u s + (if u = pt_workflowName pt then 1 else 0)" by auto
    qed
    show "\<not> pq_less y x" if "x \<in> set (tp @ [pt])" "y \<in> set q" for x y
      using that inv least sets unfolding dispatch_inv_def by auto
    show "sorted_wrt (\<lambda>x y. \<not> pq_less y x) (tp @ [pt])"
      using inv sets by (auto simp: dispatch_inv_def sorted_wrt_append)
  qed (use inv m heap in \<open>simp_all add: dispatch_inv_def\<close>)
qed


lemma fold_heap_push_mset: "mset (fold (heap_push pq_less) xs q) = mset xs + mset q"
  by (induction xs arbitrary: q) (simp_all add: mset_heap_push)

lemma fold_heap_push_is_heap:
  "is_heap pq_less (length q) q \<Longrightarrow> is_heap pq_less (length (fold (heap_push pq_less) xs q)) (fold (heap_push pq_less) xs q)"
proof (induction xs arbitrary: q)
  case (Cons x xs)
  then show ?case using pq.heap_push_is_heap [of q x] by simp
qed simp

text \<open>C3. Selecting pending tasks is exact, bounded, fair and work conserving. From a state whose
  queue is a heap: the selected tasks and the remaining queue are exactly the old queue (no
  task is lost or duplicated) and the queue stays a heap; every selected task occupies one
  global slot and one slot of its workflow; a configured limit is never exceeded by the
  selection; the selected tasks come in priority order, and no task left behind precedes a
  selected one unless its workflow is at its limit; and a task is left behind only when the
  global limit is reached or its workflow is at its limit.\<close>

theorem select_pending_correct:
  assumes heap: "is_heap pq_less (length (pendingPQ s)) (pendingPQ s)"
    and sel: "select_pending s = (toPush, s')"
  defines "g \<equiv> MaxConcurrentTasks (conf s)" and "p \<equiv> PerWorkflowMaxConcurrency (conf s)"
  shows "mset toPush + mset (pendingPQ s') = mset (pendingPQ s)
     \<and> is_heap pq_less (length (pendingPQ s')) (pendingPQ s')
     \<and> globalActive s' = globalActive s + int (length toPush)
     \<and> (\<forall>u. loadPerWfActive u s' = loadPerWfActive u s + int (length (filter (\<lambda>x. pt_workflowName x = u) toPush)))
     \<and> (0 < g \<longrightarrow> globalActive s' \<le> max g (globalActive s))
     \<and> (0 < p \<longrightarrow> (\<forall>u. loadPerWfActive u s' \<le> max p (loadPerWfActive u s)))
     \<and> sorted_wrt (\<lambda>x y. \<not> pq_less y x) toPush
     \<and> (\<forall>x \<in> set toPush. \<forall>y \<in> set (pendingPQ s').
          pq_less y x \<longrightarrow> 0 < p \<and> p \<le> loadPerWfActive (pt_workflowName y) s')
     \<and> (\<forall>y \<in> set (pendingPQ s').
          0 < g \<and> g \<le> globalActive s' \<or> 0 < p \<and> p \<le> loadPerWfActive (pt_workflowName y) s')"
proof -
  obtain def s1 where run: "dispatch_loop g p [] [] [] s = (def, toPush, s1)"
    and s': "s' = s1\<lparr>pendingPQ := fold (heap_push pq_less) def (pendingPQ s1)\<rparr>"
    using sel unfolding select_pending_def g_def p_def
    by (auto split: prod.splits)
  have "dispatch_inv g p s [] [] [] s" using heap by (simp add: dispatch_inv_def)
  with run have "(\<exists>bl. dispatch_inv g p s def bl toPush s1) \<and> (pendingPQ s1 = [] \<or> 0 < g \<and> g \<le> globalActive s1)"
    by (rule dispatch_loop_rule) (blast intro: dispatch_inv_defer dispatch_inv_push)+
  then obtain bl where inv: "dispatch_inv g p s def bl toPush s1"
    and stop: "pendingPQ s1 = [] \<or> 0 < g \<and> g \<le> globalActive s1" by blast
  have load: "loadPerWfActive u s' = loadPerWfActive u s1" for u by (simp add: s' loadPerWfActive_def)
  have global: "globalActive s' = globalActive s1" by (simp add: s')
  have "mset (pendingPQ s') = mset def + mset (pendingPQ s1)" by (simp add: s' fold_heap_push_mset)
  then have q': "set (pendingPQ s') = set def \<union> set (pendingPQ s1)"
    by (metis set_mset_mset set_mset_union)
  show ?thesis
  proof (intro conjI)
    show "mset toPush + mset (pendingPQ s') = mset (pendingPQ s)"
      using inv by (simp add: s' fold_heap_push_mset dispatch_inv_def ac_simps)
    show "is_heap pq_less (length (pendingPQ s')) (pendingPQ s')"
      using inv fold_heap_push_is_heap by (simp add: s' dispatch_inv_def)
    show "globalActive s' = globalActive s + int (length toPush)"
      "0 < g \<longrightarrow> globalActive s' \<le> max g (globalActive s)"
      "sorted_wrt (\<lambda>x y. \<not> pq_less y x) toPush"
      using inv unfolding global dispatch_inv_def by blast+
    show "\<forall>u. loadPerWfActive u s' = loadPerWfActive u s + int (length (filter (\<lambda>x. pt_workflowName x = u) toPush))"
      "0 < p \<longrightarrow> (\<forall>u. loadPerWfActive u s' \<le> max p (loadPerWfActive u s))"
      using inv unfolding load dispatch_inv_def by blast+
    show "\<forall>x \<in> set toPush. \<forall>y \<in> set (pendingPQ s').
        pq_less y x \<longrightarrow> 0 < p \<and> p \<le> loadPerWfActive (pt_workflowName y) s'"
      using inv unfolding load q' dispatch_inv_def by blast
    show "\<forall>y \<in> set (pendingPQ s').
        0 < g \<and> g \<le> globalActive s' \<or> 0 < p \<and> p \<le> loadPerWfActive (pt_workflowName y) s'"
    proof
      fix y assume "y \<in> set (pendingPQ s')"
      then consider "y \<in> set def" | "0 < g \<and> g \<le> globalActive s1" using q' stop by auto
      then show "0 < g \<and> g \<le> globalActive s' \<or> 0 < p \<and> p \<le> loadPerWfActive (pt_workflowName y) s'"
        using inv unfolding load global dispatch_inv_def by cases auto
    qed
  qed
qed

definition demo_pending :: "uuid \<Rightarrow> int \<Rightarrow> go_time \<Rightarrow> pendingTask" where
  "demo_pending u prio t = \<lparr>pt_workflowName = u, pt_node = named_node ''a'', pt_upstreamOutputs = [],
     pt_priority = prio, enqueued = t\<rparr>"

definition demo_td :: wm_state where
  "demo_td = (empty_wm (demo_conf\<lparr>MaxConcurrentTasks := 1\<rparr>))\<lparr>pendingPQ := [demo_pending ''w'' 5 0, demo_pending ''v'' 1 0]\<rparr>"

theorem select_pending_correct_witness:
  "\<exists>toPush s'. select_pending demo_td = (toPush, s')
     \<and> mset toPush + mset (pendingPQ s') = mset [demo_pending ''w'' 5 0, demo_pending ''v'' 1 0]
     \<and> globalActive s' \<le> 1"
proof -
  have "is_heap pq_less (length (pendingPQ demo_td)) (pendingPQ demo_td)"
    by (auto simp: is_heap_def demo_td_def pq_less_def demo_pending_def less_Suc_eq)
  moreover obtain toPush s' where sel: "select_pending demo_td = (toPush, s')" by fastforce
  ultimately show ?thesis
    using select_pending_correct [of demo_td toPush s']
    by (intro exI [of _ toPush] exI [of _ s']) (auto simp: demo_td_def demo_conf_def empty_wm_def)
qed

subsection \<open>Pushing a task\<close>

lemma GetWorkflowState_slots [simp]:
  "GetWorkflowState v (snd (incPerWfActive u s)) = GetWorkflowState v s"
  "GetWorkflowState v (decPerWfActive u s) = GetWorkflowState v s"
  "GetWorkflowState v (addGlobal d s) = GetWorkflowState v s"
  "GetWorkflowState v (release_slot g u s) = GetWorkflowState v s"
  "GetWorkflowState v (emit e s) = GetWorkflowState v s"
  by (simp_all add: GetWorkflowState_def incPerWfActive_def decPerWfActive_def addGlobal_def
      release_slot_def emit_def Let_def)

lemma doPush_cases:
  obtains (failed) err where "doPush ev u node ups s = (Inl err, s)"
  | (ok) st where "GetWorkflowState u s = Some st"
      "doPush ev u node ups s
         = (Inr (), emit (EtcdPut (taskKey (TasksPrefix (conf s)) u (node_Name node) (key_uniq ev 0))
                            (new_payload (conf s) (st_Workflow st) u node ups) taskTTLSeconds) s)"
proof (cases "GetWorkflowState u s")
  case None
  then show thesis by (intro failed) (simp add: doPush_def)
next
  case (Some st)
  let ?payload = "new_payload (conf s) (st_Workflow st) u node ups"
  let ?key = "taskKey (TasksPrefix (conf s)) u (node_Name node) (key_uniq ev 0)"
  consider "\<not> serialize_ok ev ?payload" | "serialize_ok ev ?payload" "\<not> put_ok ev ?key"
    | "serialize_ok ev ?payload" "put_ok ev ?key" by blast
  then show thesis
  proof cases
    case 1
    with Some show thesis by (intro failed) (simp add: doPush_def)
  next
    case 2
    with Some show thesis by (intro failed) (simp add: doPush_def)
  next
    case 3
    with Some show thesis by (intro ok) (simp_all add: doPush_def)
  qed
qed

text \<open>What a call can do to the slots, the queue and the log.\<close>

definition push_queued :: "env \<Rightarrow> uuid \<Rightarrow> task_node \<Rightarrow> vars list \<Rightarrow> 'a wm_state_scheme \<Rightarrow> 'a wm_state_scheme \<Rightarrow> bool" where
  "push_queued ev u node ups s s' \<longleftrightarrow>
     s' = enqueuePending (now ev) u node ups (getWorkflowPriority u s) s"

text \<open>\<open>d\<close>: the slots a dispatched task takes; \<open>g\<close> and \<open>w\<close>: what a failed push leaves on the global counter
  and takes from the workflow's counter.\<close>

definition push_dispatched ::
  "int \<Rightarrow> env \<Rightarrow> uuid \<Rightarrow> task_node \<Rightarrow> vars list \<Rightarrow> 'a wm_state_scheme \<Rightarrow> 'a wm_state_scheme \<Rightarrow> bool" where
  "push_dispatched d ev u node ups s s' \<longleftrightarrow>
     globalActive s' = globalActive s + d
     \<and> (\<forall>v. loadPerWfActive v s' = loadPerWfActive v s + (if v = u then d else 0))
     \<and> pendingPQ s' = pendingPQ s
     \<and> (\<exists>st. GetWorkflowState u s = Some st
          \<and> log s' = log s @ [EtcdPut (taskKey (TasksPrefix (conf s)) u (node_Name node) (key_uniq ev 0))
                                (new_payload (conf s) (st_Workflow st) u node ups) taskTTLSeconds])"

definition push_refused :: "int \<Rightarrow> int \<Rightarrow> uuid \<Rightarrow> 'a wm_state_scheme \<Rightarrow> 'a wm_state_scheme \<Rightarrow> bool" where
  "push_refused g w u s s' \<longleftrightarrow>
     globalActive s' = globalActive s + g
     \<and> (\<forall>v. loadPerWfActive v s' = loadPerWfActive v s - (if v = u then w else 0))
     \<and> pendingPQ s' = pendingPQ s \<and> log s' = log s"

lemma dec_inc_same:
  "loadPerWfActive v (decPerWfActive u (snd (incPerWfActive u s))) = loadPerWfActive v s"
  by (simp add: slot_simps)

text \<open>C4. What \<^verbatim>\<open>PushTask\<close> does to slots, queue and etcd, under every configuration. It queues the
  task and touches no counter, precisely when a configured limit of the workflow or of the whole
  system is reached. Otherwise it writes exactly this task to etcd, takes one global slot and one of
  the workflow if any limit is configured (none without a limit), and stays within the
  configured limits; or it returns an error, and queue and etcd are as they were. After an error the
  slots are as they were if there is a global limit; with a limit per workflow only, the global
  counter keeps the slot; without any limit the workflow's counter loses one that was never taken.\<close>

theorem PushTask_accounting:
  assumes push: "PushTask ev u node ups s = (r, s')"
  defines "g \<equiv> MaxConcurrentTasks (conf s)" and "p \<equiv> PerWorkflowMaxConcurrency (conf s)"
  defines "limited \<equiv> 0 < g \<or> 0 < p"
    and "at_limit \<equiv> 0 < p \<and> p \<le> loadPerWfActive u s \<or> 0 < g \<and> g \<le> globalActive s"
  shows "if at_limit then r = Inr () \<and> push_queued ev u node ups s s'
         else (r = Inr () \<and> push_dispatched (if limited then 1 else 0) ev u node ups s s'
                \<and> (0 < g \<longrightarrow> globalActive s' \<le> g) \<and> (0 < p \<longrightarrow> loadPerWfActive u s' \<le> p))
              \<or> ((\<exists>err. r = Inl err)
                \<and> push_refused (if limited \<and> \<not> 0 < g then 1 else 0) (if limited then 0 else 1) u s s')"
proof (cases at_limit)
  case True
  then show ?thesis
    using push unfolding at_limit_def p_def g_def
    by (auto simp: PushTask_def push_queued_def Let_def split: if_splits)
next
  case False
  let ?s2 = "if limited then addGlobal 1 (snd (incPerWfActive u s)) else s"
  have below: "0 < p \<longrightarrow> loadPerWfActive u s < p" "0 < g \<longrightarrow> globalActive s < g"
    using False by (auto simp: at_limit_def)
  then have run: "PushTask ev u node ups s = push_or_release ev (0 < g) u node ups ?s2"
    unfolding PushTask_def Let_def p_def g_def limited_def
    by (auto simp: case_prod_unfold slot_simps)
  have "(\<exists>err. r = Inl err) \<and> push_refused (if limited \<and> \<not> 0 < g then 1 else 0) (if limited then 0 else 1) u s s'"
    if "doPush ev u node ups ?s2 = (Inl err, ?s2)" for err
    using push that by (auto simp: run push_or_release_def push_refused_def slot_simps limited_def)
  moreover have "r = Inr () \<and> push_dispatched (if limited then 1 else 0) ev u node ups s s'
       \<and> (0 < g \<longrightarrow> globalActive s' \<le> g) \<and> (0 < p \<longrightarrow> loadPerWfActive u s' \<le> p)"
    if st: "GetWorkflowState u ?s2 = Some st" and do_push: "doPush ev u node ups ?s2 = (Inr (),
        emit (EtcdPut (taskKey (TasksPrefix (conf ?s2)) u (node_Name node) (key_uniq ev 0))
               (new_payload (conf ?s2) (st_Workflow st) u node ups) taskTTLSeconds) ?s2)" for st
  proof -
    have cnf: "conf ?s2 = conf s" by (simp add: slot_simps)
    have "r = Inr ()" "s' = emit (EtcdPut (taskKey (TasksPrefix (conf s)) u (node_Name node) (key_uniq ev 0))
               (new_payload (conf s) (st_Workflow st) u node ups) taskTTLSeconds) ?s2"
      using push unfolding run push_or_release_def do_push cnf by simp_all
    then show ?thesis
      using st below by (auto simp: push_dispatched_def slot_simps limited_def split: if_splits)
  qed
  ultimately show ?thesis
    using False by (cases rule: doPush_cases [of ev u node ups ?s2]) auto
qed

definition demo_env :: env where
  "demo_env = \<lparr>now = 0, serialize_ok = (\<lambda>_. True), put_ok = (\<lambda>_. True), batch_ok = (\<lambda>_. True), key_uniq = (\<lambda>_. ''0-ab''),
     msg_text = (\<lambda>m. case m of Text t \<Rightarrow> t | _ \<Rightarrow> ''message'')\<rparr>"

definition demo_running :: wm_state where
  "demo_running = (empty_wm (demo_conf\<lparr>MaxConcurrentTasks := 1\<rparr>))\<lparr>runningEntries := [(''w'', demo_entry ''w'')]\<rparr>"

theorem PushTask_accounting_witness:
  "\<exists>s'. PushTask demo_env ''w'' (named_node ''a'') [] demo_running = (Inr (), s') \<and> globalActive s' = 1"
proof -
  obtain r s' where push: "PushTask demo_env ''w'' (named_node ''a'') [] demo_running = (r, s')" by fastforce
  have "r = Inr ()"
    using push
    by (auto simp: PushTask_def push_or_release_def doPush_def demo_running_def demo_conf_def empty_wm_def demo_env_def Let_def
        incPerWfActive_def loadPerWfActive_def addGlobal_def GetWorkflowState_def running_def)
  then show ?thesis
    using PushTask_accounting [OF push] push
    by (auto simp: demo_running_def demo_conf_def empty_wm_def loadPerWfActive_def push_dispatched_def)
qed

text \<open>Where the counters drift. Without limits, a failing push takes a slot of the workflow that
  was never given; with a limit per workflow only, every dispatched task leaves the global
  counter one higher for good.\<close>

lemma PushTask_unlimited_failure_goes_negative:
  assumes "MaxConcurrentTasks (conf s) = 0" and "PerWorkflowMaxConcurrency (conf s) = 0"
    and "running u s = None"
  shows "loadPerWfActive u (snd (PushTask ev u node ups s)) = loadPerWfActive u s - 1"
  using assms by (simp add: PushTask_def push_or_release_def doPush_def GetWorkflowState_def Let_def slot_simps)

lemma per_workflow_limit_leaks_global:
  assumes "MaxConcurrentTasks (conf s) = 0" and "0 < PerWorkflowMaxConcurrency (conf s)"
    and "loadPerWfActive u s < PerWorkflowMaxConcurrency (conf s)"
  shows "globalActive (snd (PushTask ev u node ups s)) = globalActive s + 1
     \<and> globalActive (release_slot (0 < MaxConcurrentTasks (conf s)) u t) = globalActive t"
proof -
  have "PushTask ev u node ups s = push_or_release ev False u node ups (addGlobal 1 (snd (incPerWfActive u s)))"
    using assms by (auto simp: PushTask_def Let_def case_prod_unfold slot_simps)
  then show ?thesis
    using assms(1)
    by (cases rule: doPush_cases [of ev u node ups "addGlobal 1 (snd (incPerWfActive u s))"])
       (auto simp: push_or_release_def slot_simps)
qed


subsection \<open>Writing a batch\<close>

abbreviation tasks_of :: "uuid \<Rightarrow> pendingTask list \<Rightarrow> int" where
  "tasks_of u tasks \<equiv> int (length (filter (\<lambda>x. pt_workflowName x = u) tasks))"

definition kvs_of :: "uuid \<Rightarrow> (string \<times> task_payload) list \<Rightarrow> int" where
  "kvs_of u kvs = int (length (filter (\<lambda>kv. tp_WorkflowID (snd kv) = u) kvs))"

definition occupied_of :: "uuid \<Rightarrow> (pendingTask \<times> bool) list \<Rightarrow> int" where
  "occupied_of u xs = int (length (filter (\<lambda>(pt, occ). occ \<and> pt_workflowName pt = u) xs))"

lemma tp_WorkflowID_new_payload [simp]: "tp_WorkflowID (new_payload c w u node ups) = u"
  by (simp add: new_payload_def zero_payload_def)

lemma counts_append [simp]:
  "kvs_of u (xs @ ys) = kvs_of u xs + kvs_of u ys"
  "occupied_of u (ps @ qs) = occupied_of u ps + occupied_of u qs"
  "kvs_of u [] = 0" "occupied_of u [] = 0"
  "kvs_of u [kv] = (if tp_WorkflowID (snd kv) = u then 1 else 0)"
  "occupied_of u [(pt, b)] = (if b \<and> pt_workflowName pt = u then 1 else 0)"
  by (simp_all add: kvs_of_def occupied_of_def)

definition batch_inv ::
  "'a wm_state_scheme \<Rightarrow> (nat \<times> pendingTask) list \<Rightarrow> 'a wm_state_scheme batch_loop \<Rightarrow> bool" where
  "batch_inv s its = (\<lambda>(cache, kvs, occupied, t).
     length occupied = length its
     \<and> (\<forall>u. GetWorkflowState u t = GetWorkflowState u s)
     \<and> log t = log s \<and> conf t = conf s \<and> pendingPQ t = pendingPQ s
     \<and> globalActive t = globalActive s - (int (length its) - int (length kvs))
     \<and> (\<forall>u. loadPerWfActive u t = loadPerWfActive u s - (tasks_of u (map snd its) - kvs_of u kvs))
     \<and> length kvs = length (filter id occupied)
     \<and> (\<forall>u. kvs_of u kvs = occupied_of u (zip (map snd its) occupied)))"

lemma batch_step_inv:
  assumes "batch_inv s its st" and "GetWorkflowState (pt_workflowName pt) s \<noteq> None"
  shows "batch_inv s (its @ [(i, pt)]) (batch_step ev True (i, pt) st)"
proof -
  obtain cache kvs occupied t where st: "st = (cache, kvs, occupied, t)" by (cases st) auto
  have "GetWorkflowState (pt_workflowName pt) t \<noteq> None"
    using assms by (simp add: batch_inv_def st)
  then obtain w where w: "(case cache (pt_workflowName pt) of Some w \<Rightarrow> Some w
      | None \<Rightarrow> map_option st_Workflow (GetWorkflowState (pt_workflowName pt) t)) = Some w"
    by (cases "cache (pt_workflowName pt)") auto
  show ?thesis
    using assms(1)
    by (auto simp: batch_inv_def st batch_step_def w Let_def slot_simps simp del: option.case_eq_if)
qed

lemma batch_fold_inv:
  assumes "\<forall>p \<in> set its. GetWorkflowState (pt_workflowName (snd p)) s \<noteq> None"
  shows "batch_inv s its (fold (batch_step ev True) its (Map.empty, [], [], s))"
  using assms
proof (induction its rule: rev_induct)
  case Nil
  show ?case by (simp add: batch_inv_def)
next
  case (snoc p its)
  then show ?case using batch_step_inv [of s its _ "snd p" "fst p" ev] by simp
qed

lemma release_occupied:
  "globalActive (fold (\<lambda>(pt, occ). if occ then release_slot True (pt_workflowName pt) else id) xs s)
     = globalActive s - int (length (filter snd xs))"
  "loadPerWfActive u (fold (\<lambda>(pt, occ). if occ then release_slot True (pt_workflowName pt) else id) xs s)
     = loadPerWfActive u s - occupied_of u xs"
  "log (fold (\<lambda>(pt, occ). if occ then release_slot True (pt_workflowName pt) else id) xs s) = log s"
  "pendingPQ (fold (\<lambda>(pt, occ). if occ then release_slot True (pt_workflowName pt) else id) xs s) = pendingPQ s"
proof (induction xs arbitrary: s)
  case (Cons x xs)
  case 1 show ?case using Cons.IH(1) by (cases x) (simp add: slot_simps)
  case 2 show ?case using Cons.IH(2) by (cases x) (simp add: slot_simps occupied_of_def)
  case 3 show ?case using Cons.IH(3) by (cases x) (simp add: slot_simps)
  case 4 show ?case using Cons.IH(4) by (cases x) (simp add: slot_simps)
qed (simp_all add: occupied_of_def)

text \<open>A batch keeps exactly the slots of the tasks it writes: for tasks of running workflows,
  under a global limit, every task that cannot be serialised and, when the batch write fails,
  every task gives its slots back, globally and to its workflow; the tasks whose slots stay
  occupied are exactly those written to etcd in one batch.\<close>

theorem batchPush_slots:
  assumes running: "\<forall>pt \<in> set tasks. GetWorkflowState (pt_workflowName pt) s \<noteq> None"
  shows "\<exists>kvs. (if kvs = [] then log (batchPush ev tasks True s) = log s
               else log (batchPush ev tasks True s) = log s @ [EtcdBatchPut kvs taskTTLSeconds])
     \<and> globalActive (batchPush ev tasks True s) = globalActive s - (int (length tasks) - int (length kvs))
     \<and> (\<forall>u. loadPerWfActive u (batchPush ev tasks True s) = loadPerWfActive u s - (tasks_of u tasks - kvs_of u kvs))
     \<and> pendingPQ (batchPush ev tasks True s) = pendingPQ s"
proof (cases "tasks = []")
  case True
  then show ?thesis by (intro exI [of _ "[]"]) (simp add: batchPush_def)
next
  case False
  obtain cache kvs occupied t
    where run: "fold (batch_step ev True) (enumerate 0 tasks) (Map.empty, [], [], s) = (cache, kvs, occupied, t)"
    by (cases "fold (batch_step ev True) (enumerate 0 tasks) (Map.empty, [], [], s)") auto
  have "batch_inv s (enumerate 0 tasks) (cache, kvs, occupied, t)"
    using batch_fold_inv [of "enumerate 0 tasks" s ev] running
    by (simp add: run) (metis in_set_enumerate_eq nth_mem diff_zero add_0_right)
  then have inv: "length occupied = length tasks" "log t = log s" "pendingPQ t = pendingPQ s"
    "globalActive t = globalActive s - (int (length tasks) - int (length kvs))"
    "\<And>u. loadPerWfActive u t = loadPerWfActive u s - (tasks_of u tasks - kvs_of u kvs)"
    "length kvs = length (filter id occupied)" "\<And>u. kvs_of u kvs = occupied_of u (zip tasks occupied)"
    by (simp_all add: batch_inv_def)
  show ?thesis
  proof (cases "kvs = [] \<or> batch_ok ev (map fst kvs)")
    case True
    with False inv show ?thesis
      by (intro exI [of _ kvs]) (auto simp: batchPush_def run slot_simps)
  next
    case fails: False
    have occ: "length (filter snd (zip tasks occupied)) = length kvs"
    proof -
      have "length (filter snd (zip tasks occupied)) = length (filter id (map snd (zip tasks occupied)))"
        by (simp add: filter_map comp_def)
      then show ?thesis using inv(1,6) by simp
    qed
    have "batchPush ev tasks True s
        = fold (\<lambda>(pt, occ). if occ then release_slot True (pt_workflowName pt) else id) (zip tasks occupied) t"
      using False fails by (simp add: batchPush_def run)
    then show ?thesis
      using inv occ by (intro exI [of _ "[]"]) (simp add: release_occupied)
  qed
qed

theorem batchPush_slots_witness:
  "\<exists>kvs :: (string \<times> task_payload) list. globalActive (batchPush demo_env [demo_pending ''w'' 5 0] True demo_running)
     = globalActive demo_running - (1 - int (length kvs))"
proof -
  have "\<forall>pt \<in> set [demo_pending ''w'' 5 0]. GetWorkflowState (pt_workflowName pt) demo_running \<noteq> None"
    by (simp add: demo_pending_def demo_running_def GetWorkflowState_def running_def)
  from batchPush_slots [OF this, of demo_env]
  obtain kvs :: "(string \<times> task_payload) list" where "globalActive (batchPush demo_env [demo_pending ''w'' 5 0] True demo_running)
      = globalActive demo_running - (int (length [demo_pending ''w'' 5 0]) - int (length kvs))" by blast
  then show ?thesis by (intro exI [of _ kvs]) simp
qed

text \<open>The hypothesis is needed, contrary to the comment at the \<^verbatim>\<open>continue\<close>: a queued task whose
  workflow has ended has already taken its slot when the batch skips it, and the slot is never
  given back. Here the only slot is lost, nothing is written and the queue is empty.\<close>

lemma ended_workflow_leaks_slot:
  fixes s :: sched
  assumes "conf s = demo_conf\<lparr>MaxConcurrentTasks := 1\<rparr>" and "globalActive s = 0"
    and "pendingPQ s = [demo_pending ''gone'' 0 0]" and "running ''gone'' s = None"
  shows "globalActive (tryDispatchPending demo_env s) = 1
     \<and> pendingPQ (tryDispatchPending demo_env s) = [] \<and> log (tryDispatchPending demo_env s) = log s"
proof -
  let ?pt = "demo_pending ''gone'' 0 0"
  let ?s1 = "snd (incPerWfActive ''gone'' (addGlobal 1 (s\<lparr>pendingPQ := []\<rparr>)))"
  have evict: "evictTimedOutLocked demo_env (getPendingTimeoutSec (conf s)) s = s"
    by (simp add: evictTimedOutLocked_def evict_queue.simps heap_pop_single assms getPendingTimeoutSec_def
        demo_conf_def demo_env_def demo_pending_def defaultPendingTaskTimeoutSec_def go_units)
  have u: "pt_workflowName ?pt = ''gone''" by (simp add: demo_pending_def)
  have "dispatch_loop 1 0 [] [] [?pt] ?s1 = ([], [?pt], ?s1)"
    by (simp add: dispatch_loop.simps [of _ _ _ _ _ ?s1] slot_simps)
  then have "dispatch_loop 1 0 [] [] [] s = ([], [?pt], ?s1)"
    by (simp add: dispatch_loop.simps [of _ _ _ _ _ s] heap_pop_single assms u)
  then have "select_pending s = ([?pt], ?s1\<lparr>pendingPQ := []\<rparr>)"
    by (simp add: select_pending_def assms demo_conf_def slot_simps)
  then have run: "tryDispatchPending demo_env s = batchPush demo_env [?pt] True (?s1\<lparr>pendingPQ := []\<rparr>)"
    unfolding tryDispatchPending_def evict by (simp add: assms(1))
  have "GetWorkflowState ''gone'' (?s1\<lparr>pendingPQ := []\<rparr>) = None"
    using assms(4) by (simp add: GetWorkflowState_def incPerWfActive_def addGlobal_def Let_def)
  then have "batchPush demo_env [?pt] True (?s1\<lparr>pendingPQ := []\<rparr>) = ?s1\<lparr>pendingPQ := []\<rparr>"
    by (simp add: batchPush_def batch_step_def demo_pending_def Let_def)
  then show ?thesis using assms by (simp add: run slot_simps)
qed

end
