(* ===== verification/Repository.thy ===== *)
theory Repository
  imports Dispatcher
begin

text \<open>
  \<^verbatim>\<open>infra/engine/scheduler/repository.go\<close>: incremental snapshots of running workflows, the writes to
  MySQL behind the circuit breaker, and what the master rebuilds at start-up: the history cache
  and the running workflows. MySQL itself is outside: what a query returns is an argument, and
  asynchronous writes are jobs whose outcome reaches the breaker later.
\<close>

subsection \<open>Incremental snapshots\<close>

definition snapshotThrottleInterval :: go_duration where
  "snapshotThrottleInterval = 5 * Second"

definition snapshotThrottle :: "go_time \<Rightarrow> uuid \<Rightarrow> go_duration \<Rightarrow> 'a wm_state_scheme \<Rightarrow> bool \<times> 'a wm_state_scheme" where
  "snapshotThrottle t u interval s =
     (case snapshotLastTime s u of
        None \<Rightarrow> (True, s\<lparr>snapshotLastTime := (snapshotLastTime s)(u \<mapsto> t)\<rparr>)
      | Some lastTime \<Rightarrow>
          if t - lastTime < interval then (False, s)
          else (True, s\<lparr>snapshotLastTime := (snapshotLastTime s)(u \<mapsto> t)\<rparr>))"

text \<open>A missing entry of \<^verbatim>\<open>Snapshotted\<close> reads as 0.\<close>

definition unsnapshotted :: "workflow_state \<Rightarrow> string \<Rightarrow> bool" where
  "unsnapshotted st n \<longleftrightarrow> (case map_of (Snapshotted st) n of None \<Rightarrow> True | Some k \<Rightarrow> k = 0)"

definition new_deltas :: "workflow_state \<Rightarrow> task_delta list" where
  "new_deltas st =
     map (\<lambda>(n, out). \<lparr>td_TaskName = n, td_Action = DeltaCompleted, td_Output = out, td_Result = NoMsg\<rparr>)
       (filter (\<lambda>(n, _). unsnapshotted st n) (CompletedTasks st))
     @ map (\<lambda>(n, r). \<lparr>td_TaskName = n, td_Action = DeltaFailed, td_Output = None, td_Result = r\<rparr>)
       (filter (\<lambda>(n, _). unsnapshotted st n) (FailedTasks st))
     @ map (\<lambda>(n, _). \<lparr>td_TaskName = n, td_Action = DeltaRolledBack, td_Output = None, td_Result = NoMsg\<rparr>)
       (filter (\<lambda>(n, _). unsnapshotted st n) (RolledBack st))"

definition tracked :: "workflow_state \<Rightarrow> string \<Rightarrow> bool" where
  "tracked st n \<longleftrightarrow> map_of (CompletedTasks st) n \<noteq> None \<or> map_of (FailedTasks st) n \<noteq> None
     \<or> map_of (RolledBack st) n \<noteq> None"

definition collectTaskDeltas :: "workflow_state \<Rightarrow> task_delta list \<times> workflow_state" where
  "collectTaskDeltas st =
     (let deltas = new_deltas st;
          sq = SnapshotSeq st + 1;
          snaps = fold (\<lambda>d. AList.update (td_TaskName d) sq) deltas (Snapshotted st);
          snaps' = (if deltas \<noteq> [] \<and> sq mod 10 = 0 then filter (\<lambda>(n, _). tracked st n) snaps else snaps)
      in (deltas, st\<lparr>SnapshotSeq := sq, Snapshotted := snaps'\<rparr>))"

definition snapshotRunningWorkflow :: "go_time \<Rightarrow> uuid \<Rightarrow> 'a sched_scheme \<Rightarrow> 'a sched_scheme" where
  "snapshotRunningWorkflow t u s =
     (case snapshotThrottle t u snapshotThrottleInterval s of (pass, s1) \<Rightarrow>
        if \<not> pass then s1
        else case Allow t (mysqlBreaker s1) of (allowed, b) \<Rightarrow>
          (let s2 = s1\<lparr>mysqlBreaker := b\<rparr> in
           if \<not> allowed then s2
           else case running u s2 of
                  None \<Rightarrow> s2
                | Some e \<Rightarrow>
                    (let st = e_state e in
                     if ExecutionID st = 0 \<or> \<not> HasHistoryStore (conf s2) then s2
                     else case collectTaskDeltas st of (deltas, st') \<Rightarrow>
                       emit (Go (JSaveTaskDeltas (ExecutionID st)
                              \<lparr>snap_WorkflowUUID = u, snap_ExecutionID = ExecutionID st, snap_Status = st_Status st,
                               ChangedTasks = deltas, snap_Error = st_Error st, snap_UpdatedAt = t\<rparr>))
                         (set_entry u (e\<lparr>e_state := st'\<rparr>) s2))))"

definition saveTaskRecord :: "go_time \<Rightarrow> task_payload \<Rightarrow> nat \<Rightarrow> nat \<Rightarrow> 'a sched_scheme \<Rightarrow> 'a sched_scheme" where
  "saveTaskRecord t payload execID workflowID s =
     (if \<not> HasHistoryStore (conf s) \<or> execID = 0 then s
      else case Allow t (mysqlBreaker s) of (allowed, b) \<Rightarrow>
        (let s1 = s\<lparr>mysqlBreaker := b\<rparr> in
         if \<not> allowed then s1 else emit (Go (JSaveTask execID workflowID payload)) s1))"

text \<open>The end of an asynchronous write.\<close>

definition report_write :: "go_time \<Rightarrow> bool \<Rightarrow> 'a sched_scheme \<Rightarrow> 'a sched_scheme" where
  "report_write t ok s = s\<lparr>mysqlBreaker := (if ok then Success t else Failure t) (mysqlBreaker s)\<rparr>"


subsection \<open>Writing the final state\<close>

text \<open>A loop that stops at the first success, at most three times: the number of attempts and
  whether one succeeded; \<open>res i\<close> is the outcome of attempt \<open>i\<close>.\<close>

fun attempts :: "nat \<Rightarrow> nat \<Rightarrow> (nat \<Rightarrow> bool) \<Rightarrow> nat \<times> bool" where
  "attempts i 0 res = (i, False)"
| "attempts i (Suc k) res = (if res i then (Suc i, True) else attempts (Suc i) k res)"

definition persistToMySQLInternal ::
  "go_time \<Rightarrow> (nat \<Rightarrow> bool) \<Rightarrow> (nat \<Rightarrow> bool) \<Rightarrow> breaker \<Rightarrow> (nat \<times> nat) option \<times> breaker" where
  "persistToMySQLInternal t statusRes execRes b =
     (case Allow t b of (allowed, b1) \<Rightarrow>
        if \<not> allowed then (None, b1)
        else (let (statusCalls, statusOk) = attempts 0 3 statusRes;
                  b2 = (if statusOk then b1 else Failure t b1);
                  (execCalls, execOk) = attempts 0 3 execRes;
                  b3 = (if execOk then Success t b2 else Failure t b2)
              in (Some (statusCalls, execCalls), b3)))"

text \<open>\<^verbatim>\<open>backoffWithJitter\<close>, up to the random bytes \<open>r\<close>: the exponential delay capped at \<open>mx\<close>, plus
  \<^verbatim>\<open>int64(r) % (exp/2)\<close>, whose sign is that of \<^verbatim>\<open>int64(r)\<close>.\<close>

definition go_rem :: "int \<Rightarrow> int \<Rightarrow> int" where
  "go_rem a b = (if 0 \<le> a then a mod b else - ((- a) mod b))"

definition backoffWithJitter :: "nat \<Rightarrow> go_duration \<Rightarrow> go_duration \<Rightarrow> int64 \<Rightarrow> go_duration" where
  "backoffWithJitter attempt base mx r =
     (let ex = min (base * 2 ^ attempt) mx; jitterN = ex div 2
      in if jitterN \<le> 0 then ex else ex + go_rem (sint r) jitterN)"


subsection \<open>Start-up\<close>

text \<open>One loaded record: its execution identifier, its workflow's identifier and the decoded state.\<close>

definition load_record :: "nat \<times> uuid \<times> workflow_state \<Rightarrow> 'a wm_state_scheme \<Rightarrow> 'a wm_state_scheme" where
  "load_record = (\<lambda>(execID, u, st) s.
     s\<lparr>workflowHistory := AList.update execID st (workflowHistory s),
       workflowHistoryByUUID := (workflowHistoryByUUID s)
         (u \<mapsto> (case workflowHistoryByUUID s u of None \<Rightarrow> [] | Some l \<Rightarrow> l) @ [execID]),
       historyOrder := historyOrder s @ [execID]\<rparr>)"

definition loadHistory :: "(nat \<times> uuid \<times> workflow_state) list option \<Rightarrow> 'a wm_state_scheme \<Rightarrow> 'a wm_state_scheme" where
  "loadHistory records s =
     (if \<not> HasHistoryStore (conf s) then s
      else case records of None \<Rightarrow> s | Some rs \<Rightarrow> fold load_record rs s)"

text \<open>Where a recovered workflow continues: the outputs of the leading groups that are complete,
  and the index of the first group that is not.\<close>

fun recovery_point ::
  "(string \<times> vars option) list \<Rightarrow> nat \<Rightarrow> task_groups \<Rightarrow> vars option list \<Rightarrow> nat \<times> vars option list" where
  "recovery_point completed gi [] ups = (gi, ups)"
| "recovery_point completed gi (g # gs) ups =
     (if \<exists>node \<in> set g. map_of completed (node_Name node) = None then (gi, ups)
      else recovery_point completed (Suc gi) gs
             (ups @ List.map_filter (\<lambda>node. map_of completed (node_Name node)) g))"

definition vars_of :: "vars option \<Rightarrow> vars" where
  "vars_of v = (case v of None \<Rightarrow> Map.empty | Some m \<Rightarrow> m)"

text \<open>\<open>deltas\<close>: the accumulated deltas of the execution, if any were loaded. The scan of etcd for
  pending tasks only logs: both branches of its test leave the group incomplete. A workflow is part
  of every state here; the code also accepts a stored text without one (which no master writes, as
  what is stored is the state of a submitted workflow) and panics on it, in a goroutine of its own.\<close>

definition recoverSingleWorkflow ::
  "go_time \<Rightarrow> workflow_state \<Rightarrow> task_delta list \<Rightarrow> 'a wm_state_scheme \<Rightarrow> 'a wm_state_scheme" where
  "recoverSingleWorkflow t st0 deltas s =
     (let u = (if WorkflowUUID st0 = '''' then wf_UUID (st_Workflow st0) else WorkflowUUID st0) in
      if u = '''' then s
      else
        (let st1 = ApplyDeltas deltas st0;
             w = st_Workflow st1;
             (startGroupIdx, ups) = recovery_point (CompletedTasks st1) 0 (TaskGroups w) [];
             st2 = st1\<lparr>st_Status := WorkflowStatusRunning,
                       TaskGroupIndex := (if TaskGroupIndex st1 = [] then BuildTaskGroupIndex w else TaskGroupIndex st1),
                       BranchTaskIndex := (if BranchTaskIndex st1 = [] then BuildBranchTaskIndex w else BranchTaskIndex st1)\<rparr>
         in case running u s of
              Some _ \<Rightarrow> s
            | None \<Rightarrow>
                (let ctx = nextCtx s;
                     s1 = set_entry u \<lparr>e_state = st2, e_ctx = ctx, recovered = True\<rparr> (s\<lparr>nextCtx := ctx + 1\<rparr>);
                     s2 = emit (Go (JWatchWorkflowStatus ctx u)) s1;
                     elapsed = t - StartedAt st2;
                     remaining = TimeoutSec w * Second - elapsed;
                     s3 = (if 0 < TimeoutSec w
                           then emit (Go (JTimeoutAfter ctx u (if 0 < remaining then remaining else 0))) s2 else s2)
                 in if startGroupIdx < length (TaskGroups w)
                    then emit (Go (JExecuteWorkflow u (map vars_of ups) (int startGroupIdx))) s3
                    else s3)))"


subsection \<open>What deltas restore\<close>

definition completed_entries :: "task_delta list \<Rightarrow> (string \<times> vars option) list" where
  "completed_entries ds = map (\<lambda>d. (td_TaskName d, td_Output d)) (filter (\<lambda>d. td_Action d = DeltaCompleted) ds)"

definition failed_entries :: "task_delta list \<Rightarrow> (string \<times> msg) list" where
  "failed_entries ds = map (\<lambda>d. (td_TaskName d, td_Result d)) (filter (\<lambda>d. td_Action d = DeltaFailed) ds)"

lemma entries_append [simp]:
  "completed_entries (xs @ ys) = completed_entries xs @ completed_entries ys"
  "failed_entries (xs @ ys) = failed_entries xs @ failed_entries ys"
  by (simp_all add: completed_entries_def failed_entries_def)

lemma ApplyDeltas_completed:
  "map_of (CompletedTasks (ApplyDeltas ds st)) = map_of (CompletedTasks st) ++ map_of (rev (completed_entries ds))"
proof -
  have "CompletedTasks (ApplyDeltas ds st)
      = fold (\<lambda>(k, v). AList.update k v) (completed_entries ds) (CompletedTasks st)"
    unfolding ApplyDeltas_def
    by (induction ds arbitrary: st) (auto simp: apply_delta_def completed_entries_def split: delta_action.splits)
  then show ?thesis by (simp add: map_of_fold_update)
qed

lemma ApplyDeltas_failed:
  "map_of (FailedTasks (ApplyDeltas ds st)) = map_of (FailedTasks st) ++ map_of (rev (failed_entries ds))"
proof -
  have "FailedTasks (ApplyDeltas ds st)
      = fold (\<lambda>(k, v). AList.update k v) (failed_entries ds) (FailedTasks st)"
    unfolding ApplyDeltas_def
    by (induction ds arbitrary: st) (auto simp: apply_delta_def failed_entries_def split: delta_action.splits)
  then show ?thesis by (simp add: map_of_fold_update)
qed

lemma new_deltas_entries:
  "completed_entries (new_deltas st) = filter (\<lambda>(n, _). unsnapshotted st n) (CompletedTasks st)"
  "failed_entries (new_deltas st) = filter (\<lambda>(n, _). unsnapshotted st n) (FailedTasks st)"
  by (simp_all add: completed_entries_def failed_entries_def new_deltas_def filter_map comp_def case_prod_unfold)

lemma map_of_filter_fst: "map_of (filter (\<lambda>(n, _). P n) xs) k = (if P k then map_of xs k else None)"
  by (induction xs) auto

lemma distinct_filter_fst: "distinct (map fst xs) \<Longrightarrow> distinct (map fst (filter P xs))"
  by (rule distinct_map_filter)

lemma map_of_rev_distinct: "distinct (map fst xs) \<Longrightarrow> map_of (rev xs) = map_of xs"
  by (subst map_of_inject_set) (auto simp: rev_map [symmetric])

lemma collect_keeps_tasks:
  "collectTaskDeltas st = (ds, st') \<Longrightarrow> CompletedTasks st' = CompletedTasks st \<and> FailedTasks st' = FailedTasks st"
  by (auto simp: collectTaskDeltas_def Let_def)

lemma unsnapshotted_update:
  "unsnapshotted (st\<lparr>CompletedTasks := c\<rparr>) = unsnapshotted st"
  "unsnapshotted (st\<lparr>FailedTasks := f\<rparr>) = unsnapshotted st"
  by (simp_all add: unsnapshotted_def fun_eq_iff)

text \<open>What recovery does not undo: deltas only add, so a task that was snapshotted as failed and
  then retried is still failed in the recovered state.\<close>

lemma retried_task_recovers_as_failed:
  assumes "collectTaskDeltas (base\<lparr>FailedTasks := [(''a'', Text ''boom'')]\<rparr>) = (ds1, st1)"
    and "st2 = st1\<lparr>FailedTasks := AList.delete ''a'' (FailedTasks st1), Snapshotted := AList.delete ''a'' (Snapshotted st1)\<rparr>"
    and "collectTaskDeltas st2 = (ds2, st3)" and "base = pending_state demo_workflow"
  shows "map_of (FailedTasks st3) ''a'' = None
     \<and> map_of (FailedTasks (ApplyDeltas (ds1 @ ds2) base)) ''a'' = Some (Text ''boom'')"
  using assms
  by (auto simp: pending_state_def collectTaskDeltas_def new_deltas_def unsnapshotted_def Let_def
      ApplyDeltas_def apply_delta_def)


subsection \<open>Where recovery continues\<close>

lemma recovery_point_run:
  "recovery_point completed gi groups ups = (k, ups')
   \<Longrightarrow> gi \<le> k \<and> k \<le> gi + length groups
     \<and> (\<forall>j < k - gi. \<forall>node \<in> set (groups ! j). map_of completed (node_Name node) \<noteq> None)
     \<and> (k < gi + length groups \<longrightarrow> (\<exists>node \<in> set (groups ! (k - gi)). map_of completed (node_Name node) = None))
     \<and> ups' = ups @ List.map_filter (\<lambda>node. map_of completed (node_Name node)) (concat (take (k - gi) groups))"
proof (induction completed gi groups ups rule: recovery_point.induct)
  case (2 completed gi g gs ups)
  show ?case
  proof (cases "\<exists>node \<in> set g. map_of completed (node_Name node) = None")
    case True
    with 2(2) show ?thesis by (auto simp: map_filter_simps)
  next
    case False
    with 2(2) have "recovery_point completed (Suc gi) gs
        (ups @ List.map_filter (\<lambda>node. map_of completed (node_Name node)) g) = (k, ups')" by simp
    note IH = 2(1) [OF False this]
    then obtain d where k: "k = gi + Suc d" by (metis Suc_le_D add_Suc_right add_Suc le_Suc_ex)
    have "map_of completed (node_Name node) \<noteq> None"
      if "j < Suc d" "node \<in> set ((g # gs) ! j)" for j node
      using that IH False by (cases j) (auto simp: k)
    with IH show ?thesis by (simp add: k map_filter_def)
  qed
qed (simp add: map_filter_simps)

text \<open>Recovery resumes at the first unfinished group: the resume point is the index of the
  first group with a task that has not completed (the number of groups if there is none), and
  the outputs handed to it are the outputs of all tasks of the groups before it, in order.\<close>

theorem recovery_point_correct:
  assumes "recovery_point (CompletedTasks st) 0 (TaskGroups w) [] = (k, ups)"
  shows "k \<le> length (TaskGroups w)
     \<and> (\<forall>j < k. \<forall>node \<in> set (TaskGroups w ! j). map_of (CompletedTasks st) (node_Name node) \<noteq> None)
     \<and> (k < length (TaskGroups w) \<longrightarrow>
          (\<exists>node \<in> set (TaskGroups w ! k). map_of (CompletedTasks st) (node_Name node) = None))
     \<and> ups = List.map_filter (\<lambda>node. map_of (CompletedTasks st) (node_Name node)) (concat (take k (TaskGroups w)))"
  using recovery_point_run [OF assms] by simp

theorem recovery_point_correct_witness:
  "recovery_point [(''a'', None)] 0 (TaskGroups demo_workflow) [] = (1, [None])
   \<and> map_of [(''a'', None :: vars option)] (node_Name (hd (TaskGroups demo_workflow ! 0))) \<noteq> None"
proof -
  let ?st = "(pending_state demo_workflow)\<lparr>CompletedTasks := [(''a'', None)]\<rparr>"
  have run: "recovery_point (CompletedTasks ?st) 0 (TaskGroups demo_workflow) [] = (1, [None])"
    by (simp add: demo_workflow_def AddTaskGroup_def AddTaskNodeGroup_def NewWorkflow_def named_node_def map_filter_simps)
  have "hd (TaskGroups demo_workflow ! 0) \<in> set (TaskGroups demo_workflow ! 0)"
    by (simp add: demo_workflow_def AddTaskGroup_def AddTaskNodeGroup_def NewWorkflow_def)
  with recovery_point_correct [OF run] run show ?thesis by simp
qed

text \<open>A workflow whose groups were all complete when the master stopped is put back among the
  running ones, but nothing is started that could finish it.\<close>

lemma recovered_finished_workflow_stays_running:
  assumes "WorkflowUUID st \<noteq> ''''" and "running (WorkflowUUID st) s = None"
    and "recovery_point (CompletedTasks st) 0 (TaskGroups (st_Workflow st)) [] = (length (TaskGroups (st_Workflow st)), ups)"
    and "TimeoutSec (st_Workflow st) = 0"
  shows "\<exists>e. running (WorkflowUUID st) (recoverSingleWorkflow t st [] s) = Some e \<and> st_Status (e_state e) = WorkflowStatusRunning
     \<and> log (recoverSingleWorkflow t st [] s) = log s @ [Go (JWatchWorkflowStatus (nextCtx s) (WorkflowUUID st))]"
  using assms
  by (simp add: recoverSingleWorkflow_def ApplyDeltas_def Let_def emit_def)
     (simp add: running_def set_entry_def update_conv')


subsection \<open>The history cache at start-up\<close>

text \<open>\<^verbatim>\<open>LoadExecutions\<close> returns the newest execution first, and the records are appended in that
  order; the index then answers with the last one, the oldest: of two executions of a workflow,
  a restarted master shows the older.\<close>

lemma loadHistory_shows_oldest:
  assumes "HasHistoryStore (conf s)" and "workflowHistoryByUUID s u = None" and "workflowHistory s = []"
    and "i2 \<noteq> i1"
  shows "cached_history u (loadHistory (Some [(i2, u, newer), (i1, u, older)]) s) = Some older"
  using assms by (simp add: loadHistory_def load_record_def cached_history_def)


subsection \<open>The breaker around MySQL\<close>

lemma attempts_success: "attempts i k res = (c, ok) \<Longrightarrow> ok \<longleftrightarrow> (\<exists>j < k. res (i + j))"
proof (induction i k res arbitrary: c ok rule: attempts.induct)
  case (2 i k res)
  show ?case
  proof (cases "res i")
    case False
    with 2 have "ok \<longleftrightarrow> (\<exists>j < k. res (Suc i + j))" by simp
    also have "\<dots> \<longleftrightarrow> (\<exists>j < Suc k. res (i + j))"
      using False by (metis Suc_less_eq add_0_right add_Suc_shift gr0_implies_Suc not_gr_zero)
    finally show ?thesis .
  qed (use 2 in auto)
qed simp

lemma attempts_bound: "attempts i k res = (c, ok) \<Longrightarrow> c \<le> i + k"
  by (induction i k res arbitrary: c ok rule: attempts.induct) (fastforce split: if_splits)+

text \<open>A persist job that the breaker admits always settles the breaker: at most three calls
  of each of the two updates are made, afterwards the breaker is never half open, and if one of
  the attempts to update the execution succeeded it is closed with no failures counted; a job
  the breaker rejects makes no call.\<close>

theorem persist_settles_breaker:
  assumes "persistToMySQLInternal t statusRes execRes b = (calls, b')"
  shows "(case calls of
            None \<Rightarrow> \<not> fst (Allow t b) \<and> b' = b
          | Some (m, n) \<Rightarrow> fst (Allow t b) \<and> m \<le> 3 \<and> n \<le> 3 \<and> brk_state b' \<noteq> StateHalfOpen
              \<and> ((\<exists>j < 3. execRes j) \<longrightarrow> brk_state b' = StateClosed \<and> consecutiveFails b' = 0))"
proof (cases "fst (Allow t b)")
  case False
  then have "snd (Allow t b) = b" by (auto simp: Allow_def split: breaker_state.splits if_splits)
  with False assms show ?thesis by (auto simp: persistToMySQLInternal_def case_prod_unfold)
next
  case True
  obtain m ok1 where a1: "attempts 0 3 statusRes = (m, ok1)" by fastforce
  obtain n ok2 where a2: "attempts 0 3 execRes = (n, ok2)" by fastforce
  have "ok2 \<longleftrightarrow> (\<exists>j < 3. execRes j)" using attempts_success [OF a2] by simp
  moreover have "m \<le> 3" "n \<le> 3" using attempts_bound [OF a1] attempts_bound [OF a2] by simp_all
  moreover have "brk_state (Success t c) = StateClosed \<and> consecutiveFails (Success t c) = 0" for c
    by (simp add: Success_def Let_def)
  moreover have "brk_state (Failure t c) \<noteq> StateHalfOpen" for c
    by (auto simp: Failure_def Let_def)
  ultimately show ?thesis
    using assms True
    by (cases "\<exists>j < 3. execRes j") (auto simp: persistToMySQLInternal_def a1 a2 case_prod_unfold Let_def)
qed

theorem persist_settles_breaker_witness:
  "brk_state (snd (persistToMySQLInternal 40 (\<lambda>_. False) (\<lambda>i. i = 2) (NewBreaker ''mysql-persist'' 5 30 0))) = StateClosed"
proof -
  obtain calls b' where run: "persistToMySQLInternal 40 (\<lambda>_. False) (\<lambda>i. i = 2) (NewBreaker ''mysql-persist'' 5 30 0) = (calls, b')"
    by fastforce
  have allowed: "fst (Allow 40 (NewBreaker ''mysql-persist'' 5 30 0))" by (simp add: Allow_def NewBreaker_def)
  have two: "\<exists>j < 3. j = (2::nat)" by simp
  from persist_settles_breaker [OF run] allowed two have "brk_state b' = StateClosed"
    by (auto split: option.splits)
  with run show ?thesis by simp
qed

text \<open>A snapshot does not: once the cooldown is over it takes the single probe, and for an
  execution that has no identifier yet it returns without writing, so no outcome is ever
  reported and the breaker stays half open: every later request is rejected.\<close>

lemma snapshot_strands_breaker:
  assumes "brk_state (mysqlBreaker s) = StateOpen"
    and "cooldownInterval (mysqlBreaker s) \<le> t - lastStateChange (mysqlBreaker s)"
    and "snapshotLastTime s u = None" and "running u s = Some e" and "ExecutionID (e_state e) = 0"
  shows "brk_state (mysqlBreaker (snapshotRunningWorkflow t u s)) = StateHalfOpen
     \<and> log (snapshotRunningWorkflow t u s) = log s
     \<and> \<not> fst (Allow t' (mysqlBreaker (snapshotRunningWorkflow t u s)))"
proof -
  have r: "running u (s\<lparr>snapshotLastTime := m, mysqlBreaker := b\<rparr>) = Some e" for m b
    using assms(4) by (simp add: running_def)
  show ?thesis
    using assms r by (simp add: snapshotRunningWorkflow_def snapshotThrottle_def Allow_def Let_def)
qed

lemma backoffWithJitter_bounds:
  assumes "0 \<le> base" and "0 \<le> mx" and "ex = min (base * 2 ^ attempt) mx"
  shows "ex - ex div 2 \<le> backoffWithJitter attempt base mx r \<and> backoffWithJitter attempt base mx r \<le> ex + ex div 2"
proof -
  have "- j < go_rem a j \<and> go_rem a j < j" if "0 < j" for a j :: int
    using that pos_mod_bound [of j a] pos_mod_sign [of j a] pos_mod_bound [of j "- a"] pos_mod_sign [of j "- a"]
    by (cases "0 \<le> a") (auto simp: go_rem_def intro: order_less_le_trans [of "- j" 0] order_le_less_trans [of _ 0])
  from this [of "ex div 2" "sint r"] show ?thesis
    using assms by (auto simp: backoffWithJitter_def Let_def)
qed

end
