(* ===== verification/Failure_Handling.thy ===== *)
theory Failure_Handling
  imports Repository
begin

text \<open>
  What the master does with task events and failures: the handlers of
  \<^verbatim>\<open>infra/engine/scheduler/watch.go\<close>, the policies of \<^verbatim>\<open>error_policy.go\<close> and the task listeners of
  \<^verbatim>\<open>scheduler.go\<close>. A handler runs to its end as one step on the scheduler's state; the goroutines
  it starts are jobs in the log. The \<^verbatim>\<open>state\<close> pointer a handler is given is only read for the
  workflow definition, which never changes while a workflow runs.
\<close>

subsection \<open>Task listeners\<close>

text \<open>A listener is the buffer of a channel of capacity one.\<close>

definition registerTaskListener :: "uuid \<Rightarrow> string \<Rightarrow> 'a sched_scheme \<Rightarrow> 'a sched_scheme" where
  "registerTaskListener u task s =
     (let wl = (case taskListeners s u of None \<Rightarrow> [] | Some l \<Rightarrow> l)
      in s\<lparr>taskListeners := (taskListeners s)(u \<mapsto> AList.update task [] wl)\<rparr>)"

definition unregisterTaskListener :: "uuid \<Rightarrow> string \<Rightarrow> 'a sched_scheme \<Rightarrow> 'a sched_scheme" where
  "unregisterTaskListener u task s =
     (case taskListeners s u of
        None \<Rightarrow> s
      | Some wl \<Rightarrow>
          (let wl' = AList.delete task wl
           in s\<lparr>taskListeners := (taskListeners s)(u := if wl' = [] then None else Some wl')\<rparr>))"

definition notifyTaskListener :: "uuid \<Rightarrow> string \<Rightarrow> task_payload \<Rightarrow> 'a sched_scheme \<Rightarrow> bool \<times> 'a sched_scheme" where
  "notifyTaskListener u task payload s =
     (case taskListeners s u of
        None \<Rightarrow> (False, s)
      | Some wl \<Rightarrow>
          (case map_of wl task of
             None \<Rightarrow> (False, s)
           | Some buf \<Rightarrow>
               if buf = [] then (True, s\<lparr>taskListeners := (taskListeners s)(u \<mapsto> AList.update task [payload] wl)\<rparr>)
               else (False, s)))"

definition cleanupTaskListeners :: "uuid \<Rightarrow> 'a sched_scheme \<Rightarrow> 'a sched_scheme" where
  "cleanupTaskListeners u s = s\<lparr>taskListeners := (taskListeners s)(u := None)\<rparr>"

definition listening :: "uuid \<Rightarrow> string \<Rightarrow> 'a sched_scheme \<Rightarrow> task_payload list option" where
  "listening u task s = (case taskListeners s u of None \<Rightarrow> None | Some wl \<Rightarrow> map_of wl task)"


subsection \<open>Recording results\<close>

definition cleanupTaskEtcdKey :: "task_payload \<Rightarrow> 'a sched_base_scheme \<Rightarrow> 'a sched_base_scheme" where
  "cleanupTaskEtcdKey payload s = (if EtcdKey payload = '''' then s else emit (EtcdDelete (EtcdKey payload)) s)"

definition recordTaskCompleted :: "go_time \<Rightarrow> uuid \<Rightarrow> task_payload \<Rightarrow> 'a sched_scheme \<Rightarrow> 'a sched_scheme" where
  "recordTaskCompleted t u payload s =
     (case running u s of
        None \<Rightarrow> s
      | Some e \<Rightarrow>
          (let s1 = modify_state u (\<lambda>st. st\<lparr>CompletedTasks := AList.update (tp_TaskName payload) (tp_Output payload) (CompletedTasks st)\<rparr>) s;
               s2 = snapshotRunningWorkflow t u s1;
               s3 = saveTaskRecord t payload (ExecutionID (e_state e)) (st_WorkflowID (e_state e)) s2;
               s4 = emit (Broadcast (ToWorkflow u) EventTaskCompleted) s3
           in cleanupTaskEtcdKey payload s4))"

definition recordTaskFailed :: "go_time \<Rightarrow> uuid \<Rightarrow> task_payload \<Rightarrow> 'a sched_scheme \<Rightarrow> 'a sched_scheme" where
  "recordTaskFailed t u payload s =
     (let s1 = modify_state u (\<lambda>st. st\<lparr>FailedTasks := AList.update (tp_TaskName payload) (tp_Result payload) (FailedTasks st)\<rparr>) s;
          s2 = snapshotRunningWorkflow t u s1;
          s3 = emit (Broadcast (ToWorkflow u) EventTaskFailed) s2
      in cleanupTaskEtcdKey payload s3)"


subsection \<open>Saga rollback\<close>

text \<open>The index of the failed task's group, \<open>-1\<close> when it has none. An index that is not built
  (empty) is replaced by a search for the first group with the task.\<close>

fun find_group :: "string \<Rightarrow> nat \<Rightarrow> task_groups \<Rightarrow> int" where
  "find_group task gi [] = - 1"
| "find_group task gi (g # gs) = (if \<exists>node \<in> set g. node_Name node = task then int gi else find_group task (Suc gi) gs)"

definition failed_group :: "workflow_state \<Rightarrow> string \<Rightarrow> int" where
  "failed_group st task =
     (if TaskGroupIndex st \<noteq> [] then (case map_of (TaskGroupIndex st) task of Some gi \<Rightarrow> int gi | None \<Rightarrow> - 1)
      else find_group task 0 (TaskGroups (st_Workflow st)))"

text \<open>The tasks to compensate: the groups before the failed one, last group first; the entry is
  looked up again for each of them.\<close>

definition rollback_tasks :: "uuid \<Rightarrow> nat \<Rightarrow> task_groups \<Rightarrow> 'a wm_state_scheme \<Rightarrow> (task_node \<times> vars option) list" where
  "rollback_tasks u gi groups s =
     List.map_filter (\<lambda>node.
       case running u s of
         None \<Rightarrow> None
       | Some e \<Rightarrow>
           (case map_of (CompletedTasks (e_state e)) (node_Name node) of
              None \<Rightarrow> None
            | Some output \<Rightarrow>
                if map_of (RolledBack (e_state e)) (node_Name node) \<noteq> None then None else Some (node, output)))
       (concat (rev (take gi groups)))"

definition finish_rollback :: "uuid \<Rightarrow> 'a wm_state_scheme \<Rightarrow> 'a wm_state_scheme" where
  "finish_rollback u s =
     emit (Broadcast (ToWorkflow u) EventWorkflowRolledBack)
       (case running u s of
          None \<Rightarrow> s
        | Some e \<Rightarrow> PersistWorkflowLocked u (e\<lparr>e_state := (e_state e)\<lparr>st_Status := WorkflowStatusRolledBack\<rparr>\<rparr>) s)"

definition rolling_back_entry :: "task_payload \<Rightarrow> workflow_entry \<Rightarrow> workflow_entry" where
  "rolling_back_entry failed e =
     e\<lparr>e_state := (e_state e)\<lparr>st_Status := WorkflowStatusRollingBack,
         st_Error := MsgTaskFailed (tp_TaskName failed) (RetryCount failed) (tp_Result failed)\<rparr>\<rparr>"

definition startSagaRollback :: "uuid \<Rightarrow> task_payload \<Rightarrow> 'a wm_state_scheme \<Rightarrow> 'a wm_state_scheme" where
  "startSagaRollback u failed s =
     (case running u s of
        None \<Rightarrow> s
      | Some e \<Rightarrow>
          if st_Status (e_state e) \<in> {WorkflowStatusRollingBack, WorkflowStatusRolledBack, WorkflowStatusFailed} then s
          else
            (let s1 = PersistWorkflowLocked u (rolling_back_entry failed e) s;
                 gi = failed_group (e_state e) (tp_TaskName failed);
                 s2 = emit (Broadcast (ToWorkflow u) EventWorkflowRollingBack) s1
             in if gi \<le> 0 then finish_rollback u s2
                else (let tasks = rollback_tasks u (nat gi) (TaskGroups (st_Workflow (e_state e))) s2
                      in if tasks = [] then finish_rollback u s2
                         else emit (Go (JRollback u tasks)) s2)))"

definition mark_rolled_back :: "string \<Rightarrow> workflow_entry \<Rightarrow> workflow_entry" where
  "mark_rolled_back task e = e\<lparr>e_state := (e_state e)\<lparr>RolledBack := AList.update task True (RolledBack (e_state e))\<rparr>\<rparr>"

definition handleRollbackCompleted :: "uuid \<Rightarrow> task_payload \<Rightarrow> 'a wm_state_scheme \<Rightarrow> 'a wm_state_scheme" where
  "handleRollbackCompleted u payload s =
     (case running u s of
        None \<Rightarrow> s
      | Some e0 \<Rightarrow>
          (let e = mark_rolled_back (tp_TaskName payload) e0;
               s1 = PersistWorkflowLocked u e s;
               allRolledBack = (\<forall>node \<in> set (concat (TaskGroups (st_Workflow (e_state e)))).
                 map_of (CompletedTasks (e_state e)) (node_Name node) \<noteq> None
                 \<longrightarrow> map_of (RolledBack (e_state e)) (node_Name node) = Some True);
               s2 = emit (Broadcast (ToWorkflow u) EventTaskRolledBack) s1
           in if allRolledBack then finish_rollback u s2 else s2))"

text \<open>What the rollback goroutine does for a task when the overall time is up.\<close>

definition force_rolled_back :: "uuid \<Rightarrow> string \<Rightarrow> 'a wm_state_scheme \<Rightarrow> 'a wm_state_scheme" where
  "force_rolled_back u task s =
     (case running u s of None \<Rightarrow> s | Some e \<Rightarrow> PersistWorkflowLocked u (mark_rolled_back task e) s)"

text \<open>The semaphore of the rollback goroutines: \<open>None\<close> while \<^verbatim>\<open>acquire\<close> blocks.\<close>

record rollback_semaphore =
  sem_count :: int
  sem_max :: int

definition newRollbackSemaphore :: "int \<Rightarrow> rollback_semaphore" where
  "newRollbackSemaphore m = \<lparr>sem_count = 0, sem_max = m\<rparr>"

definition sem_acquire :: "rollback_semaphore \<Rightarrow> rollback_semaphore option" where
  "sem_acquire rs = (if sem_max rs \<le> sem_count rs then None else Some (rs\<lparr>sem_count := sem_count rs + 1\<rparr>))"

definition sem_release :: "rollback_semaphore \<Rightarrow> rollback_semaphore" where
  "sem_release rs = rs\<lparr>sem_count := sem_count rs - 1\<rparr>"


subsection \<open>Error policies\<close>

datatype error_action = ErrorActionRetry | ErrorActionRollback | ErrorActionSkip | ErrorActionFailFast

definition defaultAction :: "task_payload \<Rightarrow> error_action" where
  "defaultAction payload =
     (if NoRetry payload then ErrorActionRollback
      else if RetryCount payload < tp_MaxRetries payload then ErrorActionRetry
      else ErrorActionRollback)"

definition ResolveErrorPolicy :: "workflow_state option \<Rightarrow> task_payload \<Rightarrow> error_action" where
  "ResolveErrorPolicy st payload =
     (case st of
        None \<Rightarrow> defaultAction payload
      | Some st' \<Rightarrow>
          if ErrorPolicy (st_Workflow st') = None then defaultAction payload
          else
            (let ep = ErrorPolicy (st_Workflow st'); taskPolicy = GetTaskErrorPolicy ep (tp_TaskName payload)
             in if taskPolicy = ErrorPolicyRollback then ErrorActionRollback
                else if taskPolicy = ErrorPolicySkip then
                  (if IsSkippable ep (tp_TaskName payload) then ErrorActionSkip else ErrorActionRetry)
                else if taskPolicy = ErrorPolicyFailFast then ErrorActionFailFast
                else defaultAction payload))"

definition ExecuteRollback :: "uuid \<Rightarrow> task_payload \<Rightarrow> 'a wm_state_scheme \<Rightarrow> 'a wm_state_scheme" where
  "ExecuteRollback u payload s =
     (let errMsg = MsgPolicyRollback (tp_TaskName payload) (tp_Result payload)
      in startSagaRollback u
           (zero_payload\<lparr>tp_WorkflowID := u, tp_TaskName := tp_TaskName payload, tp_Result := errMsg\<rparr>)
           (emit (Broadcast (ToWorkflow u) EventWorkflowFailed) s))"

definition ExecuteFailFast :: "uuid \<Rightarrow> task_payload \<Rightarrow> 'a sched_scheme \<Rightarrow> 'a sched_scheme" where
  "ExecuteFailFast u payload s =
     (let errMsg = MsgPolicyFailFast (tp_TaskName payload) (tp_Result payload)
      in emit (Broadcast (ToWorkflow u) EventWorkflowFailed) (markWorkflowFailed payload errMsg s))"

definition ExecuteSkip :: "uuid \<Rightarrow> 'a sched_base_scheme \<Rightarrow> 'a sched_base_scheme" where
  "ExecuteSkip u s = emit (Broadcast (ToWorkflow u) EventTaskSkipped) s"

definition HandleTimeoutPolicy ::
  "uuid \<Rightarrow> workflow_state \<Rightarrow> go_duration \<Rightarrow> 'a sched_scheme \<Rightarrow> bool \<times> 'a sched_scheme" where
  "HandleTimeoutPolicy u st timeout s =
     (if ErrorPolicy (st_Workflow st) = None then (False, s)
      else if GetTimeoutPolicy (ErrorPolicy (st_Workflow st)) = ''fail'' then
        (let errMsg = MsgTimeoutFail timeout
         in (True, markWorkflowFailed
              (zero_payload\<lparr>tp_WorkflowID := u, tp_TaskName := ''__timeout__'', tp_Result := errMsg\<rparr>) errMsg s))
      else (False, s))"

text \<open>\<^verbatim>\<open>time.Duration(BaseBackoff) * time.Second * (1 << RetryCount)\<close> in 64-bit arithmetic (the shift
  amount of the engine's payloads is never negative), and \<^verbatim>\<open>int64(d.Seconds())\<close>, which truncates
  (the detour over \<^verbatim>\<open>float64\<close> is exact for whole seconds).\<close>

definition calculateBackoff :: "task_payload \<Rightarrow> int64" where
  "calculateBackoff payload =
     word_of_int (tp_BaseBackoff payload) * word_of_int Second * push_bit (nat (RetryCount payload)) 1"

definition backoff_seconds :: "int64 \<Rightarrow> int64" where
  "backoff_seconds d = word_of_int (sgn (sint d) * (\<bar>sint d\<bar> div Second))"


subsection \<open>The failure handler\<close>

definition skip_output :: "env \<Rightarrow> task_payload \<Rightarrow> vars" where
  "skip_output ev payload =
     [''_skipped'' \<mapsto> ABool True, ''_error'' \<mapsto> AString (msg_text ev (tp_Result payload)),
      ''_skip_reason'' \<mapsto> AString ''error_policy_skip'']"

definition skip_entry :: "env \<Rightarrow> task_payload \<Rightarrow> workflow_entry \<Rightarrow> workflow_entry" where
  "skip_entry ev payload e =
     e\<lparr>e_state := (e_state e)
        \<lparr>CompletedTasks := AList.update (tp_TaskName payload) (Some (skip_output ev payload)) (CompletedTasks (e_state e)),
         FailedTasks := AList.delete (tp_TaskName payload) (FailedTasks (e_state e))\<rparr>\<rparr>"

definition skip_failed_task :: "env \<Rightarrow> uuid \<Rightarrow> task_payload \<Rightarrow> 'a sched_scheme \<Rightarrow> 'a sched_scheme" where
  "skip_failed_task ev u payload s =
     (let s1 = (case running u s of None \<Rightarrow> s | Some e \<Rightarrow> PersistWorkflowLocked u (skip_entry ev payload e) s);
          s2 = ExecuteSkip u s1;
          s3 = snd (notifyTaskListener u (tp_TaskName payload)
                 (zero_payload\<lparr>tp_WorkflowID := u, tp_TaskName := tp_TaskName payload, tp_Status := StatusCompleted,
                    tp_Output := Some (skip_output ev payload)\<rparr>) s2)
      in ReleaseSlotForWorkflow ev u s3)"

text \<open>The statements after the policies.\<close>

definition default_failure :: "env \<Rightarrow> uuid \<Rightarrow> task_payload \<Rightarrow> 'a sched_scheme \<Rightarrow> 'a sched_scheme" where
  "default_failure ev u payload s =
     (if NoRetry payload then
        ReleaseSlotForWorkflow ev u (startSagaRollback u payload (emit (Broadcast (ToWorkflow u) EventWorkflowFailed) s))
      else if RetryCount payload < tp_MaxRetries payload then
        emit (Go (JRetryTask payload (backoff_seconds (calculateBackoff payload)))) (ReleaseSlotForWorkflow ev u s)
      else
        ReleaseSlotForWorkflow ev u (startSagaRollback u payload (emit (Broadcast (ToWorkflow u) EventWorkflowFailed) s)))"

definition handleTaskFailed ::
  "env \<Rightarrow> uuid \<Rightarrow> workflow_state \<Rightarrow> task_payload \<Rightarrow> 'a sched_scheme \<Rightarrow> 'a sched_scheme" where
  "handleTaskFailed ev u st payload s =
     (let ep = ErrorPolicy (st_Workflow st); taskPolicy = GetTaskErrorPolicy ep (tp_TaskName payload)
      in if ep \<noteq> None \<and> taskPolicy = ErrorPolicyFailFast
         then ReleaseSlotForWorkflow ev u (ExecuteFailFast u payload s)
         else if ep \<noteq> None \<and> taskPolicy = ErrorPolicyRollback
         then ReleaseSlotForWorkflow ev u (ExecuteRollback u payload s)
         else if ep \<noteq> None \<and> taskPolicy = ErrorPolicySkip \<and> IsSkippable ep (tp_TaskName payload)
         then skip_failed_task ev u payload s
         else default_failure ev u payload s)"


subsection \<open>Timeouts\<close>

text \<open>\<open>ctxDone\<close>: the workflow's context was cancelled before the time was up.\<close>

definition timeoutAfter :: "bool \<Rightarrow> uuid \<Rightarrow> go_duration \<Rightarrow> 'a sched_scheme \<Rightarrow> 'a sched_scheme" where
  "timeoutAfter ctxDone u timeout s =
     (if ctxDone then s
      else case running u s of
        None \<Rightarrow> s
      | Some e0 \<Rightarrow>
          if st_Status (e_state e0) \<notin> {WorkflowStatusRunning, WorkflowStatusPaused} then s
          else
            (let e = e0\<lparr>e_state := (e_state e0)\<lparr>st_Error := MsgTimeout timeout\<rparr>\<rparr>;
                 (handled, s1) = HandleTimeoutPolicy u (e_state e) timeout (PersistWorkflowLocked u e s)
             in if handled then s1
                else startSagaRollback u
                  (zero_payload\<lparr>tp_WorkflowID := u, tp_TaskName := ''__timeout__'', tp_Result := MsgTimeout timeout\<rparr>) s1))"


subsection \<open>Task events\<close>

text \<open>One iteration of \<^verbatim>\<open>watchWorkflowStatus\<close>: whether the loop goes on, and the new state.\<close>

definition ignored_event :: "workflow_entry \<Rightarrow> task_payload \<Rightarrow> bool" where
  "ignored_event e payload \<longleftrightarrow>
     \<not> Rollback payload \<and> map_of (FailedTasks (e_state e)) (tp_TaskName payload) \<noteq> None
     \<or> recovered e \<and>
       (map_of (CompletedTasks (e_state e)) (tp_TaskName payload) \<noteq> None
        \<or> map_of (FailedTasks (e_state e)) (tp_TaskName payload) \<noteq> None \<and> \<not> Rollback payload)"

definition watch_event :: "env \<Rightarrow> uuid \<Rightarrow> task_payload \<Rightarrow> 'a sched_scheme \<Rightarrow> bool \<times> 'a sched_scheme" where
  "watch_event ev u payload s =
     (case running u s of
        None \<Rightarrow> (False, s)
      | Some e \<Rightarrow>
          if ignored_event e payload then (True, s)
          else
            (True,
             case tp_Status payload of
               StatusCompleted \<Rightarrow>
                 (if Rollback payload then handleRollbackCompleted u payload s
                  else ReleaseSlotForWorkflow ev u
                    (snd (notifyTaskListener u (tp_TaskName payload) payload (recordTaskCompleted (now ev) u payload s))))
             | StatusFailed \<Rightarrow>
                 (if Rollback payload then handleRollbackCompleted u payload s
                  else handleTaskFailed ev u (e_state e) payload
                    (snd (notifyTaskListener u (tp_TaskName payload) payload (recordTaskFailed (now ev) u payload s))))
             | _ \<Rightarrow> s))"


subsection \<open>What the handlers may change\<close>

text \<open>The frame of every operation that starts no workflow: the log grows by effects of a given
  kind, the two counters count the final states written in it, entries may leave the running
  table but are not changed, and the registered definitions stay.\<close>

fun is_persist :: "workflow_status \<Rightarrow> effect \<Rightarrow> bool" where
  "is_persist st (PersistToMySQL u w x status err state) = (status = st)"
| "is_persist st _ = False"

definition persists :: "workflow_status \<Rightarrow> effect list \<Rightarrow> int" where
  "persists st l = int (length (filter (is_persist st) l))"

lemma persists_simps [simp]:
  "persists st [] = 0" "persists st (x # l) = (if is_persist st x then 1 else 0) + persists st l"
  "persists st (l @ l') = persists st l + persists st l'"
  by (simp_all add: persists_def)

definition grows_by :: "effect list \<Rightarrow> 'a wm_state_scheme \<Rightarrow> 'a wm_state_scheme \<Rightarrow> bool" where
  "grows_by l s s' \<longleftrightarrow>
     log s' = log s @ l
     \<and> completedCount s' = completedCount s + persists WorkflowStatusCompleted l
     \<and> failedCount s' = failedCount s + persists WorkflowStatusFailed l + persists WorkflowStatusRolledBack l
     \<and> (\<forall>u. running u s' = running u s \<or> running u s' = None)
     \<and> registeredWorkflows s' = registeredWorkflows s \<and> conf s' = conf s
     \<and> (distinct (map fst (runningEntries s)) \<longrightarrow> distinct (map fst (runningEntries s')))"

definition leaves_only :: "(effect \<Rightarrow> bool) \<Rightarrow> 'a wm_state_scheme \<Rightarrow> 'a wm_state_scheme \<Rightarrow> bool" where
  "leaves_only P s s' \<longleftrightarrow> (\<exists>l. grows_by l s s' \<and> (\<forall>x \<in> set l. P x))"

named_theorems leaves \<comment> \<open>operations that satisfy \<open>leaves_only\<close>\<close>

lemma leaves_onlyD:
  assumes "leaves_only P s s'"
  shows "\<exists>l. log s' = log s @ l \<and> (\<forall>x \<in> set l. P x)"
    and "running u s' = running u s \<or> running u s' = None" and "conf s' = conf s"
proof -
  obtain l where "grows_by l s s'" "\<forall>x \<in> set l. P x" using assms unfolding leaves_only_def by blast
  then show "\<exists>l. log s' = log s @ l \<and> (\<forall>x \<in> set l. P x)" "running u s' = running u s \<or> running u s' = None" "conf s' = conf s"
    by (auto simp: grows_by_def)
qed

lemma grows_by_trans:
  assumes "grows_by l s s'" and "grows_by l' s' s''"
  shows "grows_by (l @ l') s s''"
proof -
  have "running u s'' = running u s \<or> running u s'' = None" for u
    using assms unfolding grows_by_def by metis
  then show ?thesis using assms by (simp add: grows_by_def)
qed

lemma leaves_same:
  assumes "log s' = log s" and "runningEntries s' = runningEntries s"
    and "registeredWorkflows s' = registeredWorkflows s" and "conf s' = conf s"
    and "completedCount s' = completedCount s" and "failedCount s' = failedCount s"
  shows "leaves_only P s s'"
proof -
  have "grows_by [] s s'" using assms by (simp add: grows_by_def running_def)
  then show ?thesis by (auto simp: leaves_only_def intro: exI [of _ "[]"])
qed

lemma leaves_refl [leaves]: "leaves_only P s s"
  by (rule leaves_same) simp_all

lemma leaves_trans:
  assumes "leaves_only P s s'" and "leaves_only P s' s''"
  shows "leaves_only P s s''"
proof -
  obtain l where l: "grows_by l s s'" "\<forall>x \<in> set l. P x" using assms(1) unfolding leaves_only_def by blast
  obtain l' where l': "grows_by l' s' s''" "\<forall>x \<in> set l'. P x" using assms(2) unfolding leaves_only_def by blast
  have "\<forall>x \<in> set (l @ l'). P x" using l l' by auto
  with grows_by_trans [OF l(1) l'(1)] show ?thesis unfolding leaves_only_def by blast
qed

lemma leaves_mono:
  assumes "leaves_only P s s'" and "\<And>x. P x \<Longrightarrow> Q x"
  shows "leaves_only Q s s'"
  using assms unfolding leaves_only_def by blast

lemma emit_wm [simp]:
  "running u (emit x s) = running u s" "failedCount (emit x s) = failedCount s"
  "completedCount (emit x s) = completedCount s" "workflowHistory (emit x s) = workflowHistory s"
  "workflowHistoryByUUID (emit x s) = workflowHistoryByUUID s" "historyOrder (emit x s) = historyOrder s"
  "registeredWorkflows (emit x s) = registeredWorkflows s" "runningEntries (emit x s) = runningEntries s"
  "nextCtx (emit x s) = nextCtx s" "cancelledCtx (emit x s) = cancelledCtx s"
  by (simp_all add: emit_def)

lemma leaves_emit:
  assumes "P x" and "\<And>st. \<not> is_persist st x"
  shows "leaves_only P s (emit x s)"
proof -
  have "grows_by [x] s (emit x s)" using assms(2) by (simp add: grows_by_def)
  then show ?thesis using assms(1) by (auto simp: leaves_only_def intro: exI [of _ "[x]"])
qed

lemma leaves_fold:
  assumes "\<And>x s. x \<in> set xs \<Longrightarrow> leaves_only P s (f x s)"
  shows "leaves_only P s (fold f xs s)"
  using assms
proof (induction xs arbitrary: s)
  case (Cons x xs)
  have "leaves_only P (f x s) (fold f xs (f x s))" by (rule Cons.IH, rule Cons.prems) simp
  moreover have "leaves_only P s (f x s)" by (rule Cons.prems) simp
  ultimately show ?case by (simp add: leaves_trans [of P s "f x s"])
qed (simp add: leaves_refl)

lemma runningEntries_Persist:
  "runningEntries (PersistWorkflowLocked u e s) = AList.delete u (runningEntries s)"
  by (simp add: PersistWorkflowLocked_def wm_simps persist_parts move_to_history_def Let_def)

lemma leaves_Persist:
  assumes "P (PersistToMySQL u (st_WorkflowID (e_state e)) (ExecutionID (e_state e)) (st_Status (e_state e)) (st_Error (e_state e)) (e_state e))"
  shows "leaves_only P s (PersistWorkflowLocked u e s)"
proof -
  have "grows_by [PersistToMySQL u (st_WorkflowID (e_state e)) (ExecutionID (e_state e)) (st_Status (e_state e))
      (st_Error (e_state e)) (e_state e)] s (PersistWorkflowLocked u e s)"
    by (simp add: grows_by_def wm_simps runningEntries_Persist distinct_delete)
  with assms show ?thesis by (fastforce simp: leaves_only_def)
qed

text \<open>The effects of freeing a slot: pending tasks that timed out fail their workflow, others are
  written.\<close>

fun dispatch_effect :: "effect \<Rightarrow> bool" where
  "dispatch_effect (PersistToMySQL u w x status err st) = (status = WorkflowStatusFailed)"
| "dispatch_effect (Broadcast tgt ty) = (ty = EventWorkflowFailed)"
| "dispatch_effect (Go j) = (case j of JSubmitTarget _ \<Rightarrow> True | _ \<Rightarrow> False)"
| "dispatch_effect (EtcdBatchPut kvs ttl) = (\<forall>kv \<in> set kvs. \<not> Rollback (snd kv) \<and> tp_Status (snd kv) = StatusPending)"
| "dispatch_effect _ = False"

lemma leaves_markWorkflowFailed [leaves]: "leaves_only dispatch_effect s (markWorkflowFailed payload err s)"
proof -
  let ?u = "tp_WorkflowID payload"
  let ?s1 = "case running ?u s of None \<Rightarrow> s | Some e \<Rightarrow> PersistWorkflowLocked ?u (fail_entry (tp_TaskName payload) err e) s"
  have "leaves_only dispatch_effect s ?s1"
    by (auto simp: fail_entry_def intro: leaves_refl leaves_Persist split: option.splits)
  moreover have "leaves_only dispatch_effect ?s1 (emit (Broadcast (ToWorkflow ?u) EventWorkflowFailed) ?s1)"
    by (rule leaves_emit) simp_all
  moreover have "leaves_only dispatch_effect t (fold (\<lambda>target. emit (Go (JSubmitTarget target))) ts t)" for ts t
    by (rule leaves_fold, rule leaves_emit) simp_all
  ultimately show ?thesis unfolding markWorkflowFailed_def Let_def by (blast intro: leaves_trans [of _ s ?s1] leaves_trans [of _ ?s1])
qed

lemma leaves_release_slot [leaves]: "leaves_only P s (release_slot g u s)"
  by (rule leaves_same) (simp_all add: release_slot_def decPerWfActive_def addGlobal_def Let_def)

lemma leaves_evict [leaves]: "leaves_only dispatch_effect s (evictTimedOutLocked ev t s)"
proof (cases "t \<le> 0 \<or> pendingPQ s = []")
  case False
  obtain evicted q where run: "evict_queue (now ev) (t * Second) [] (pendingPQ s) = (evicted, q)" by fastforce
  have "leaves_only dispatch_effect s (s\<lparr>pendingPQ := q\<rparr>)" by (rule leaves_same) simp_all
  then have "leaves_only dispatch_effect s (fold (\<lambda>pt. markWorkflowFailed (queue_timeout_payload t pt) (MsgQueueTimeout t))
      evicted (s\<lparr>pendingPQ := q\<rparr>))"
    by (rule leaves_trans) (rule leaves_fold, rule leaves_markWorkflowFailed)
  with False show ?thesis unfolding evictTimedOutLocked_def by (simp add: run)
qed (auto simp: evictTimedOutLocked_def leaves_refl)

lemma dispatch_loop_same:
  "dispatch_loop g p def bl tp s = (def', tp', s') \<Longrightarrow> log s' = log s \<and> runningEntries s' = runningEntries s
     \<and> registeredWorkflows s' = registeredWorkflows s \<and> conf s' = conf (s :: 'a wm_state_scheme)
     \<and> completedCount s' = completedCount s \<and> failedCount s' = failedCount s"
  by (drule dispatch_loop_rule [where P = "\<lambda>_ _ _ t. log t = log s \<and> runningEntries t = runningEntries s
      \<and> registeredWorkflows t = registeredWorkflows s \<and> conf t = conf s
      \<and> completedCount t = completedCount s \<and> failedCount t = failedCount s"])
     (auto simp: incPerWfActive_def addGlobal_def Let_def)

lemma leaves_select_pending [leaves]:
  assumes "select_pending s = (toPush, s')"
  shows "leaves_only P s s'"
proof -
  obtain def s1 where run: "dispatch_loop (MaxConcurrentTasks (conf s)) (PerWorkflowMaxConcurrency (conf s)) [] [] [] s = (def, toPush, s1)"
    and s': "s' = s1\<lparr>pendingPQ := fold (heap_push pq_less) def (pendingPQ s1)\<rparr>"
    using assms by (auto simp: select_pending_def split: prod.splits)
  show ?thesis using dispatch_loop_same [OF run] by (intro leaves_same) (simp_all add: s')
qed

lemma leaves_batch_step:
  assumes "batch_step ev g x (cache, kvs, occ, s) = (cache', kvs', occ', s')"
  shows "leaves_only P s s'"
  using assms by (cases x) (auto simp: batch_step_def Let_def intro: leaves_refl leaves_release_slot split: option.splits if_splits)

lemma leaves_batch_fold:
  "fold (batch_step ev g) xs (cache, kvs, occ, s) = (cache', kvs', occ', s') \<Longrightarrow> leaves_only P s s'"
proof (induction xs arbitrary: cache kvs occ s)
  case (Cons x xs)
  obtain c1 k1 o1 s1 where 1: "batch_step ev g x (cache, kvs, occ, s) = (c1, k1, o1, s1)" by (metis prod_cases4)
  with Cons.prems have "fold (batch_step ev g) xs (c1, k1, o1, s1) = (cache', kvs', occ', s')" by simp
  then show ?case using Cons.IH leaves_batch_step [OF 1] leaves_trans by blast
qed (simp add: leaves_refl)

definition fresh_kvs :: "(string \<times> task_payload) list \<Rightarrow> bool" where
  "fresh_kvs kvs \<longleftrightarrow> (\<forall>kv \<in> set kvs. \<not> Rollback (snd kv) \<and> tp_Status (snd kv) = StatusPending)"

lemma batch_step_fresh:
  assumes "batch_step ev g x (cache, kvs, occ, s) = (cache', kvs', occ', s')" and "fresh_kvs kvs"
  shows "fresh_kvs kvs'"
  using assms
  by (cases x) (auto simp: batch_step_def fresh_kvs_def new_payload_def zero_payload_def Let_def split: option.splits if_splits)

lemma batch_fold_fresh:
  "fold (batch_step ev g) xs (cache, kvs, occ, s) = (cache', kvs', occ', s') \<Longrightarrow> fresh_kvs kvs \<Longrightarrow> fresh_kvs kvs'"
proof (induction xs arbitrary: cache kvs occ s)
  case (Cons x xs)
  obtain c1 k1 o1 s1 where 1: "batch_step ev g x (cache, kvs, occ, s) = (c1, k1, o1, s1)" by (metis prod_cases4)
  with Cons.prems have "fold (batch_step ev g) xs (c1, k1, o1, s1) = (cache', kvs', occ', s')" by simp
  then show ?case by (rule Cons.IH) (rule batch_step_fresh [OF 1 Cons.prems(2)])
qed simp

lemma leaves_batchPush [leaves]: "leaves_only dispatch_effect s (batchPush ev tasks g s)"
proof (cases "tasks = []")
  case False
  obtain cache kvs occ s1 where run: "fold (batch_step ev g) (enumerate 0 tasks) (Map.empty, [], [], s) = (cache, kvs, occ, s1)"
    by (metis prod_cases4)
  have 1: "leaves_only dispatch_effect s s1" by (rule leaves_batch_fold [OF run])
  have "leaves_only dispatch_effect s1 (fold (\<lambda>(pt, occ). if occ then release_slot g (pt_workflowName pt) else id) (zip tasks occ) s1)"
    by (rule leaves_fold) (auto intro: leaves_release_slot leaves_refl)
  moreover have "fresh_kvs kvs" by (rule batch_fold_fresh [OF run]) (simp add: fresh_kvs_def)
  then have "leaves_only dispatch_effect s1 (emit (EtcdBatchPut kvs taskTTLSeconds) s1)"
    by (intro leaves_emit) (simp_all add: fresh_kvs_def)
  ultimately show ?thesis using False 1 by (auto simp: batchPush_def run intro: leaves_trans)
qed (simp add: batchPush_def leaves_refl)

lemma leaves_tryDispatchPending [leaves]: "leaves_only dispatch_effect s (tryDispatchPending ev s)"
proof -
  obtain toPush s1 where sel: "select_pending (evictTimedOutLocked ev (getPendingTimeoutSec (conf s)) s) = (toPush, s1)" by fastforce
  show ?thesis
    unfolding tryDispatchPending_def sel prod.case
    by (rule leaves_trans [OF leaves_evict leaves_trans [OF leaves_select_pending [OF sel] leaves_batchPush]])
qed

lemma leaves_ReleaseSlotForWorkflow [leaves]: "leaves_only dispatch_effect s (ReleaseSlotForWorkflow ev u s)"
  unfolding ReleaseSlotForWorkflow_def by (rule leaves_trans [OF leaves_release_slot leaves_tryDispatchPending])

lemma leaves_notify [leaves]: "leaves_only P s (snd (notifyTaskListener u task payload s))"
  by (auto simp: notifyTaskListener_def intro!: leaves_same split: option.splits)


subsection \<open>What a rollback does\<close>

lemma finish_rollback_gone: "running u s = None \<Longrightarrow> finish_rollback u s = emit (Broadcast (ToWorkflow u) EventWorkflowRolledBack) s"
  by (simp add: finish_rollback_def)

lemma rollback_tasks_gone: "running u s = None \<Longrightarrow> rollback_tasks u gi groups s = []"
  by (simp add: rollback_tasks_def map_filter_def)

lemma startSagaRollback_eq:
  "startSagaRollback u failed s =
     (case running u s of
        None \<Rightarrow> s
      | Some e \<Rightarrow>
          if st_Status (e_state e) \<in> {WorkflowStatusRollingBack, WorkflowStatusRolledBack, WorkflowStatusFailed} then s
          else emit (Broadcast (ToWorkflow u) EventWorkflowRolledBack)
                 (emit (Broadcast (ToWorkflow u) EventWorkflowRollingBack)
                   (PersistWorkflowLocked u (rolling_back_entry failed e) s)))"
proof (cases "running u s")
  case (Some e)
  have "running u (emit x (PersistWorkflowLocked u e' s)) = None" for x e' by (simp add: wm_simps)
  with Some show ?thesis
    by (simp add: startSagaRollback_def Let_def finish_rollback_gone rollback_tasks_gone)
qed (simp add: startSagaRollback_def)

text \<open>C14. A saga rollback, as the code performs it. A workflow that is running or paused is moved to
  the history with status ROLLING_BACK and the reason, its context is cancelled, and both the
  start and the end of the rollback are announced; but because the first persist removes the
  running entry, which is then looked up again to find the completed tasks, no compensation
  task is ever started, whatever tasks have completed, the status never becomes ROLLED_BACK and
  the failure counter does not move. A workflow that is not running is not touched.\<close>

theorem startSagaRollback_effects:
  defines "active \<equiv> (\<lambda>e. st_Status (e_state e) \<notin> {WorkflowStatusRollingBack, WorkflowStatusRolledBack, WorkflowStatusFailed})"
  shows "case running u s of
      None \<Rightarrow> startSagaRollback u failed s = s
    | Some e \<Rightarrow>
        if active e then
          startSagaRollback u failed s =
            emit (Broadcast (ToWorkflow u) EventWorkflowRolledBack)
              (emit (Broadcast (ToWorkflow u) EventWorkflowRollingBack)
                (PersistWorkflowLocked u (rolling_back_entry failed e) s))
          \<and> running u (startSagaRollback u failed s) = None
          \<and> failedCount (startSagaRollback u failed s) = failedCount s
          \<and> log (startSagaRollback u failed s) = log s @
             [PersistToMySQL u (st_WorkflowID (e_state e)) (ExecutionID (e_state e)) WorkflowStatusRollingBack
                (MsgTaskFailed (tp_TaskName failed) (RetryCount failed) (tp_Result failed)) (e_state (rolling_back_entry failed e)),
              Broadcast (ToWorkflow u) EventWorkflowRollingBack, Broadcast (ToWorkflow u) EventWorkflowRolledBack]
        else startSagaRollback u failed s = s"
proof (cases "running u s")
  case None
  then show ?thesis by (simp add: startSagaRollback_def)
next
  case (Some e)
  show ?thesis
  proof (cases "active e")
    case False
    with Some show ?thesis by (auto simp: startSagaRollback_def active_def)
  next
    case True
    show ?thesis
      using Some True by (simp add: startSagaRollback_eq active_def wm_simps) (simp add: rolling_back_entry_def)
  qed
qed

lemma leaves_startSagaRollback:
  "leaves_only (\<lambda>x. case x of PersistToMySQL _ _ _ st _ _ \<Rightarrow> st = WorkflowStatusRollingBack | Broadcast _ _ \<Rightarrow> True | _ \<Rightarrow> False)
     s (startSagaRollback u failed s)"
proof (cases "running u s")
  case (Some e)
  let ?P = "\<lambda>x. case x of PersistToMySQL _ _ _ st _ _ \<Rightarrow> st = WorkflowStatusRollingBack | Broadcast _ _ \<Rightarrow> True | _ \<Rightarrow> False"
  have 1: "leaves_only ?P s (PersistWorkflowLocked u (rolling_back_entry failed e) s)"
    by (rule leaves_Persist) (simp add: rolling_back_entry_def)
  have 2: "leaves_only ?P t (emit (Broadcast tgt ty) t)" for tgt ty t by (rule leaves_emit) simp_all
  show ?thesis
    using startSagaRollback_eq [of u failed s] Some
    by (auto intro: leaves_refl leaves_trans [OF leaves_trans [OF 1 2] 2] split: if_splits)
qed (simp add: startSagaRollback_def leaves_refl)


subsection \<open>What happens to a failed task\<close>

text \<open>The outcome the policies promise: \<open>None\<close> for a retry, otherwise the status with which the
  workflow leaves the running table.\<close>

definition failure_outcome :: "workflow_state \<Rightarrow> task_payload \<Rightarrow> workflow_status option" where
  "failure_outcome st payload =
     (case ResolveErrorPolicy (Some st) payload of
        ErrorActionRetry \<Rightarrow> if defaultAction payload = ErrorActionRetry then None else Some WorkflowStatusRollingBack
      | ErrorActionRollback \<Rightarrow> Some WorkflowStatusRollingBack
      | ErrorActionSkip \<Rightarrow> Some (st_Status st)
      | ErrorActionFailFast \<Rightarrow> Some WorkflowStatusFailed)"

fun no_retry :: "effect \<Rightarrow> bool" where
  "no_retry (Go j) = (case j of JRetryTask _ _ \<Rightarrow> False | _ \<Rightarrow> True)"
| "no_retry _ = True"

definition ended_with :: "uuid \<Rightarrow> workflow_status \<Rightarrow> 'a wm_state_scheme \<Rightarrow> 'a wm_state_scheme \<Rightarrow> bool" where
  "ended_with u status s s' \<longleftrightarrow>
     running u s' = None
     \<and> (\<exists>l. log s' = log s @ l \<and> (\<forall>x \<in> set l. no_retry x)
          \<and> (\<exists>w x err st. PersistToMySQL u w x status err st \<in> set l))"

lemma dispatch_no_retry: "dispatch_effect x \<Longrightarrow> no_retry x"
  by (cases x rule: dispatch_effect.cases) (auto split: job.splits)

lemmas leaves_no_retry = leaves_mono [OF _ dispatch_no_retry]

lemma ended_Persist:
  "st_Status (e_state e) = status \<Longrightarrow> ended_with u status s (PersistWorkflowLocked u e s)"
  by (auto simp: ended_with_def wm_simps)

lemma ended_after:
  assumes "ended_with u status s t" and "leaves_only no_retry t t'"
  shows "ended_with u status s t'"
proof -
  obtain l where l: "log t = log s @ l" "\<forall>x \<in> set l. no_retry x" "\<exists>w x err st. PersistToMySQL u w x status err st \<in> set l"
    using assms(1) unfolding ended_with_def by blast
  obtain l' where l': "log t' = log t @ l'" "\<forall>x \<in> set l'. no_retry x" using leaves_onlyD(1) [OF assms(2)] by blast
  have "log t' = log s @ (l @ l')" "\<forall>x \<in> set (l @ l'). no_retry x"
    "\<exists>w x err st. PersistToMySQL u w x status err st \<in> set (l @ l')"
    using l l' by auto
  moreover have "running u t' = None" using assms(1) leaves_onlyD(2) [OF assms(2), of u] unfolding ended_with_def by metis
  ultimately show ?thesis unfolding ended_with_def by blast
qed

lemma ended_before:
  assumes "log t = log s @ l" and "\<forall>x \<in> set l. no_retry x" and "ended_with u status t t'"
  shows "ended_with u status s t'"
proof -
  obtain l' where l': "log t' = log t @ l'" "\<forall>x \<in> set l'. no_retry x" "\<exists>w x err st. PersistToMySQL u w x status err st \<in> set l'"
    using assms(3) unfolding ended_with_def by blast
  have "log t' = log s @ (l @ l')" "\<forall>x \<in> set (l @ l'). no_retry x"
    "\<exists>w x err st. PersistToMySQL u w x status err st \<in> set (l @ l')"
    using assms l' by auto
  then show ?thesis using assms(3) unfolding ended_with_def by blast
qed

lemma ended_release: "ended_with u status s t \<Longrightarrow> ended_with u status s (ReleaseSlotForWorkflow ev v t)"
  by (erule ended_after) (rule leaves_no_retry, rule leaves_ReleaseSlotForWorkflow)

lemma leaves_broadcast: "leaves_only no_retry s (emit (Broadcast tgt ty) s)"
  by (rule leaves_emit) simp_all

lemma ended_markWorkflowFailed:
  assumes "running u s = Some e" and "tp_WorkflowID payload = u"
  shows "ended_with u WorkflowStatusFailed s (markWorkflowFailed payload err s)"
proof -
  let ?s1 = "PersistWorkflowLocked u (fail_entry (tp_TaskName payload) err e) s"
  have "ended_with u WorkflowStatusFailed s ?s1" by (rule ended_Persist) (simp add: fail_entry_def)
  then have "ended_with u WorkflowStatusFailed s (emit (Broadcast (ToWorkflow u) EventWorkflowFailed) ?s1)"
    by (rule ended_after) (rule leaves_broadcast)
  then have "ended_with u WorkflowStatusFailed s (fold (\<lambda>target. emit (Go (JSubmitTarget target))) ts
      (emit (Broadcast (ToWorkflow u) EventWorkflowFailed) ?s1))" for ts
    by (rule ended_after) (rule leaves_fold, rule leaves_emit, simp_all)
  then show ?thesis by (simp add: markWorkflowFailed_def Let_def assms)
qed

lemma ended_saga:
  assumes "running u s = Some e" and "st_Status (e_state e) \<in> {WorkflowStatusRunning, WorkflowStatusPaused}"
  shows "ended_with u WorkflowStatusRollingBack s (startSagaRollback u failed s)"
proof -
  have "ended_with u WorkflowStatusRollingBack s (PersistWorkflowLocked u (rolling_back_entry failed e) s)"
    by (rule ended_Persist) (simp add: rolling_back_entry_def)
  then have "ended_with u WorkflowStatusRollingBack s (emit (Broadcast (ToWorkflow u) EventWorkflowRolledBack)
      (emit (Broadcast (ToWorkflow u) EventWorkflowRollingBack) (PersistWorkflowLocked u (rolling_back_entry failed e) s)))"
    by (blast intro: ended_after leaves_broadcast)
  then show ?thesis using assms by (auto simp: startSagaRollback_eq)
qed

lemma ended_saga_broadcast:
  assumes "running u s = Some e" and "st_Status (e_state e) \<in> {WorkflowStatusRunning, WorkflowStatusPaused}"
  shows "ended_with u WorkflowStatusRollingBack s (startSagaRollback u failed (emit (Broadcast tgt ty) s))"
  by (rule ended_before [of "emit (Broadcast tgt ty) s" s "[Broadcast tgt ty]"])
     (use assms in \<open>auto intro: ended_saga\<close>)

lemma ended_skip:
  assumes "running u s = Some e"
  shows "ended_with u (st_Status (e_state e)) s (skip_failed_task ev u payload s)"
proof -
  have "ended_with u (st_Status (e_state e)) s (PersistWorkflowLocked u (skip_entry ev payload e) s)"
    by (rule ended_Persist) (simp add: skip_entry_def)
  then show ?thesis
    unfolding skip_failed_task_def Let_def ExecuteSkip_def assms option.case
    by (intro ended_release ended_after [OF _ leaves_notify] ended_after [OF _ leaves_broadcast])
qed

text \<open>C10. The error policies decide what a failed task of an active workflow does. Either the
  outcome is a retry: the slot is freed and a retry of this payload is scheduled after its
  back-off, exactly when the resolved policy is to retry and the task may be retried and has
  retries left; or the workflow leaves the running table, nothing is retried, and what is
  written to MySQL is the status the policy stands for: FAILED for fail_fast, ROLLING_BACK for
  a rollback or exhausted retries, and the unchanged status for a skipped task.\<close>

theorem handleTaskFailed_outcome:
  assumes run: "running u s = Some e" and act: "st_Status (e_state e) \<in> {WorkflowStatusRunning, WorkflowStatusPaused}"
    and id: "tp_WorkflowID payload = u" and s'_def: "s' = handleTaskFailed ev u (e_state e) payload s"
  shows "case failure_outcome (e_state e) payload of
      None \<Rightarrow> (\<exists>l. log s' = log s @ l @ [Go (JRetryTask payload (backoff_seconds (calculateBackoff payload)))]
                 \<and> (\<forall>x \<in> set l. dispatch_effect x))
            \<and> \<not> NoRetry payload \<and> RetryCount payload < tp_MaxRetries payload
    | Some status \<Rightarrow> ended_with u status s s'"
proof -
  let ?ep = "ErrorPolicy (st_Workflow (e_state e))"
  let ?policy = "GetTaskErrorPolicy ?ep (tp_TaskName payload)"
  have default: "case if defaultAction payload = ErrorActionRetry then None else Some WorkflowStatusRollingBack of
      None \<Rightarrow> (\<exists>l. log (default_failure ev u payload s) = log s @ l @ [Go (JRetryTask payload (backoff_seconds (calculateBackoff payload)))]
                 \<and> (\<forall>x \<in> set l. dispatch_effect x))
            \<and> \<not> NoRetry payload \<and> RetryCount payload < tp_MaxRetries payload
    | Some status \<Rightarrow> ended_with u status s (default_failure ev u payload s)"
  proof (cases "defaultAction payload = ErrorActionRetry")
    case True
    then have budget: "\<not> NoRetry payload" "RetryCount payload < tp_MaxRetries payload"
      by (auto simp: defaultAction_def split: if_splits)
    obtain l where "log (ReleaseSlotForWorkflow ev u s) = log s @ l" "\<forall>x \<in> set l. dispatch_effect x"
      using leaves_onlyD(1) [OF leaves_ReleaseSlotForWorkflow [of s ev u]] by blast
    with budget True show ?thesis by (simp add: default_failure_def)
  next
    case False
    have "ended_with u WorkflowStatusRollingBack s (ReleaseSlotForWorkflow ev u
        (startSagaRollback u payload (emit (Broadcast (ToWorkflow u) EventWorkflowFailed) s)))"
      by (intro ended_release ended_saga_broadcast [OF run act])
    with False show ?thesis by (auto simp: default_failure_def defaultAction_def split: if_splits)
  qed
  consider (ff) "?ep \<noteq> None" "?policy = ErrorPolicyFailFast" | (rb) "?ep \<noteq> None" "?policy = ErrorPolicyRollback"
    | (skip) "?ep \<noteq> None" "?policy = ErrorPolicySkip" "IsSkippable ?ep (tp_TaskName payload)"
    | (rest) "?ep = None \<or> ?policy \<noteq> ErrorPolicyFailFast \<and> ?policy \<noteq> ErrorPolicyRollback
        \<and> \<not> (?policy = ErrorPolicySkip \<and> IsSkippable ?ep (tp_TaskName payload))"
    by (cases "?ep = None"; cases "?policy = ErrorPolicyFailFast"; cases "?policy = ErrorPolicyRollback";
        cases "?policy = ErrorPolicySkip \<and> IsSkippable ?ep (tp_TaskName payload)") simp_all
  then show ?thesis
  proof cases
    case ff
    have "ended_with u WorkflowStatusFailed s (ExecuteFailFast u payload s)"
      unfolding ExecuteFailFast_def Let_def
      by (rule ended_after [OF ended_markWorkflowFailed [OF run id] leaves_broadcast])
    moreover have "failure_outcome (e_state e) payload = Some WorkflowStatusFailed"
      using ff by (auto simp: failure_outcome_def ResolveErrorPolicy_def Let_def)
    moreover have "s' = ReleaseSlotForWorkflow ev u (ExecuteFailFast u payload s)"
      using ff by (auto simp: s'_def handleTaskFailed_def Let_def)
    ultimately show ?thesis by (simp add: ended_release)
  next
    case rb
    have "ended_with u WorkflowStatusRollingBack s (ExecuteRollback u payload s)"
      unfolding ExecuteRollback_def Let_def by (rule ended_saga_broadcast [OF run act])
    moreover have "failure_outcome (e_state e) payload = Some WorkflowStatusRollingBack"
      using rb by (auto simp: failure_outcome_def ResolveErrorPolicy_def Let_def)
    moreover have "s' = ReleaseSlotForWorkflow ev u (ExecuteRollback u payload s)"
      using rb by (auto simp: s'_def handleTaskFailed_def Let_def)
    ultimately show ?thesis by (simp add: ended_release)
  next
    case skip
    have "failure_outcome (e_state e) payload = Some (st_Status (e_state e))"
      using skip by (auto simp: failure_outcome_def ResolveErrorPolicy_def Let_def)
    moreover have "s' = skip_failed_task ev u payload s"
      using skip by (auto simp: s'_def handleTaskFailed_def Let_def)
    ultimately show ?thesis by (simp add: ended_skip [OF run])
  next
    case rest
    then have "s' = default_failure ev u payload s" by (auto simp: s'_def handleTaskFailed_def Let_def)
    moreover have "failure_outcome (e_state e) payload
        = (if defaultAction payload = ErrorActionRetry then None else Some WorkflowStatusRollingBack)"
      using rest by (auto simp: failure_outcome_def ResolveErrorPolicy_def defaultAction_def Let_def)
    ultimately show ?thesis using default by (simp only:)
  qed
qed


definition demo_active :: workflow_entry where
  "demo_active = \<lparr>e_state = (pending_state demo_workflow)\<lparr>st_Status := WorkflowStatusRunning, WorkflowUUID := ''w''\<rparr>,
                  e_ctx = 0, recovered = False\<rparr>"

definition demo_sched :: sched where
  "demo_sched =
     \<lparr>conf = demo_conf, log = [], globalActive = 0, perWfActive = Map.empty, pendingPQ = [],
      runningEntries = [(''w'', demo_active)], workflowHistory = [], workflowHistoryByUUID = Map.empty,
      registeredWorkflows = [], historyOrder = [], completedCount = 0, failedCount = 0,
      snapshotLastTime = Map.empty, nextCtx = 1, cancelledCtx = [], etm = newEventTriggerManager,
      taskListeners = Map.empty, mysqlBreaker = NewBreaker ''mysql-persist'' 5 30 0\<rparr>"

definition demo_failure :: task_payload where
  "demo_failure = zero_payload\<lparr>tp_WorkflowID := ''w'', tp_TaskName := ''a'', tp_Status := StatusFailed,
     tp_Result := Text ''boom'', RetryCount := 1, tp_MaxRetries := 3, tp_BaseBackoff := 2\<rparr>"

lemma demo_sched_running [simp]: "running ''w'' demo_sched = Some demo_active"
  by (simp add: running_def demo_sched_def)

theorem handleTaskFailed_outcome_witness:
  "\<exists>l. log (handleTaskFailed demo_env ''w'' (e_state demo_active) demo_failure demo_sched)
     = l @ [Go (JRetryTask demo_failure (backoff_seconds (calculateBackoff demo_failure)))]"
proof -
  have "failure_outcome (e_state demo_active) demo_failure = None"
    by (simp add: failure_outcome_def ResolveErrorPolicy_def defaultAction_def demo_active_def demo_failure_def
        pending_state_def demo_workflow_def AddTaskGroup_def AddTaskNodeGroup_def NewWorkflow_def zero_payload_def)
  with handleTaskFailed_outcome [OF demo_sched_running _ _ refl, of demo_failure demo_env]
  have "\<exists>l. log (handleTaskFailed demo_env ''w'' (e_state demo_active) demo_failure demo_sched)
     = log demo_sched @ l @ [Go (JRetryTask demo_failure (backoff_seconds (calculateBackoff demo_failure)))]"
    by (auto simp: demo_active_def demo_failure_def)
  then show ?thesis by (metis append_assoc)
qed


subsection \<open>Back-off\<close>

text \<open>The delay before a retry is the documented exponential, base times two to the number of
  retries so far, as long as that many nanoseconds fit into 63 bits.\<close>

theorem backoff_exponential:
  assumes "0 \<le> tp_BaseBackoff payload" and "0 \<le> RetryCount payload"
    and "tp_BaseBackoff payload * Second * 2 ^ nat (RetryCount payload) < 2 ^ 63"
  shows "sint (backoff_seconds (calculateBackoff payload)) = tp_BaseBackoff payload * 2 ^ nat (RetryCount payload)"
proof -
  let ?n = "nat (RetryCount payload)" and ?b = "tp_BaseBackoff payload"
  have "push_bit ?n (1 :: int64) = word_of_int (2 ^ ?n)" by (simp add: push_bit_eq_mult)
  then have "calculateBackoff payload = word_of_int (?b * Second * 2 ^ ?n)"
    by (simp add: calculateBackoff_def)
  moreover have "sint (word_of_int (?b * Second * 2 ^ ?n) :: int64) = ?b * Second * 2 ^ ?n"
    by (rule int64_exact) (use assms in \<open>simp_all add: order_trans [of "- _" 0] Second_def\<close>)
  ultimately have "sint (calculateBackoff payload) = ?b * 2 ^ ?n * Second" by (simp add: ac_simps)
  moreover have pos: "0 \<le> ?b * 2 ^ ?n" using assms by simp
  ultimately have quot: "sgn (sint (calculateBackoff payload)) * (\<bar>sint (calculateBackoff payload)\<bar> div Second) = ?b * 2 ^ ?n"
    using assms(1) by (simp add: go_units sgn_if abs_mult)
  moreover have "?b * 2 ^ ?n \<le> ?b * 2 ^ ?n * Second" using pos by (simp add: go_units)
  then have "?b * 2 ^ ?n < 2 ^ 63" using assms(3) by (simp add: ac_simps)
  then have "sint (word_of_int (?b * 2 ^ ?n) :: int64) = ?b * 2 ^ ?n" using pos by (intro int64_exact) auto
  ultimately show ?thesis by (simp add: backoff_seconds_def)
qed

theorem backoff_exponential_witness: "sint (backoff_seconds (calculateBackoff demo_failure)) = 4"
  using backoff_exponential [of demo_failure] by (simp add: demo_failure_def go_units)

text \<open>Beyond that the product wraps: the 64th retry has no delay at all.\<close>

lemma backoff_overflow_is_zero:
  assumes "64 \<le> RetryCount payload"
  shows "backoff_seconds (calculateBackoff payload) = 0"
proof -
  have "push_bit (nat (RetryCount payload)) (1 :: int64) = 0"
    using assms by (intro bit_word_eqI) (auto simp: bit_push_bit_iff bit_exp_iff push_bit_of_1)
  then have "calculateBackoff payload = 0" unfolding calculateBackoff_def by (simp only: mult_zero_right)
  then show ?thesis by (simp add: backoff_seconds_def)
qed


subsection \<open>Timeouts and events\<close>

lemma log_fold_submit:
  "log (fold (\<lambda>target. emit (Go (JSubmitTarget target))) ts s) = log s @ map (\<lambda>t. Go (JSubmitTarget t)) ts"
  "running v (fold (\<lambda>target. emit (Go (JSubmitTarget target))) ts t) = running v t"
  by (induction ts arbitrary: s t) simp_all

lemma etm_Persist [simp]: "etm (PersistWorkflowLocked u e s) = etm s"
proof -
  have "etm (lru_evict n t) = etm t" for n and t :: "'a sched_scheme"
    using lru_evict_frame [of n t] by auto
  moreover have "etm (persist_tables u e s) = etm s"
    by (auto simp: persist_parts move_to_history_def count_status_def Let_def split: workflow_status.splits)
  ultimately show ?thesis by (simp add: PersistWorkflowLocked_def)
qed

lemma emit_sched [simp]:
  "etm (emit x s) = etm s" "taskListeners (emit x s) = taskListeners s" "mysqlBreaker (emit x s) = mysqlBreaker s"
  by (simp_all add: emit_def)

text \<open>What a timeout does. When the time of a running or paused workflow is up, it leaves the
  running table and one record of it is written to MySQL, with the timeout as its error but with
  the status it had, RUNNING or PAUSED: the record is written before the policy is asked, and
  neither the rollback nor the fail policy finds the workflow afterwards. Under the fail policy
  the failure is still announced and the workflows that wait for it are started.\<close>

theorem timeout_effects:
  assumes run: "running u s = Some e" and act: "st_Status (e_state e) \<in> {WorkflowStatusRunning, WorkflowStatusPaused}"
    and s': "s' = timeoutAfter False u d s"
  shows "running u s' = None
     \<and> log s' = log s @
          PersistToMySQL u (st_WorkflowID (e_state e)) (ExecutionID (e_state e)) (st_Status (e_state e)) (MsgTimeout d)
            ((e_state e)\<lparr>st_Error := MsgTimeout d\<rparr>) #
          (if ErrorPolicy (st_Workflow (e_state e)) \<noteq> None
              \<and> GetTimeoutPolicy (ErrorPolicy (st_Workflow (e_state e))) = ''fail''
           then Broadcast (ToWorkflow u) EventWorkflowFailed
             # map (\<lambda>v. Go (JSubmitTarget v)) (FireTaskFailed u ''__timeout__'' (etm s))
           else [])"
proof -
  let ?e = "e\<lparr>e_state := (e_state e)\<lparr>st_Error := MsgTimeout d\<rparr>\<rparr>"
  let ?s1 = "PersistWorkflowLocked u ?e s"
  have gone: "running u ?s1 = None" by (simp add: wm_simps)
  have mark: "markWorkflowFailed p err ?s1 =
      fold (\<lambda>target. emit (Go (JSubmitTarget target))) (FireTaskFailed u (tp_TaskName p) (etm s))
        (emit (Broadcast (ToWorkflow u) EventWorkflowFailed) ?s1)" if "tp_WorkflowID p = u" for p err
    using gone that by (simp add: markWorkflowFailed_def)
  show ?thesis
    using run act gone
    by (auto simp: s' timeoutAfter_def HandleTimeoutPolicy_def Let_def mark log_fold_submit startSagaRollback_def wm_simps)
qed

theorem timeout_effects_witness:
  "running ''w'' (timeoutAfter False ''w'' 5 demo_sched) = None
   \<and> length (log (timeoutAfter False ''w'' 5 demo_sched)) = 1"
  using timeout_effects [OF demo_sched_running _ refl, of 5]
  by (simp add: demo_active_def pending_state_def demo_workflow_def AddTaskGroup_def AddTaskNodeGroup_def NewWorkflow_def)
     (simp add: demo_sched_def)

text \<open>A pending task sent to its workflow's channel again after a reconnect is not acted upon: the
  watcher only handles completed and failed tasks.\<close>

lemma redispatched_pending_ignored:
  "tp_Status payload = StatusPending \<Longrightarrow> snd (watch_event ev u payload s) = s"
  by (auto simp: watch_event_def split: option.splits)

lemma running_snapshot:
  "running v (snapshotRunningWorkflow t u s) = running v s
   \<or> (\<exists>e. running v s = Some e \<and> v = u
        \<and> running v (snapshotRunningWorkflow t u s) = Some (e\<lparr>e_state := snd (collectTaskDeltas (e_state e))\<rparr>))"
  by (auto simp: snapshotRunningWorkflow_def snapshotThrottle_def running_def Let_def set_entry_def update_conv' emit_def
      split: option.splits prod.splits)

end
