(* ===== verification/Execution.thy ===== *)
theory Execution
  imports Failure_Handling
begin

text \<open>
  \<^verbatim>\<open>infra/engine/scheduler/execution_manager.go\<close> and \<^verbatim>\<open>advanced_executor.go\<close>: how the groups of a
  workflow are executed one after the other. The executor waits for task results in goroutines;
  the results are arguments here, in the order in which they arrive, and what the code does
  between two waits is a function. Where the code calls itself for the next group, with or
  without a delay, the function returns that call as a \<open>continuation\<close>, and \<open>serial_run\<close>
  composes the calls.
\<close>

subsection \<open>Parallel execution of one group\<close>

datatype parallel_strategy = ParallelStrategyAll | ParallelStrategyFailFast

text \<open>What ends the wait for a task.\<close>

datatype task_wait = CtxDone | WatchdogFired | ListenerClosed | Received task_payload

definition status_name :: "task_status \<Rightarrow> string" where
  "status_name st =
     (case st of StatusPending \<Rightarrow> ''PENDING'' | StatusRunning \<Rightarrow> ''RUNNING'' | StatusCompleted \<Rightarrow> ''COMPLETED''
      | StatusFailed \<Rightarrow> ''FAILED'' | StatusUnset \<Rightarrow> '''')"

definition push_error_msg :: "push_error \<Rightarrow> msg" where
  "push_error_msg e =
     (case e of WorkflowMissing u \<Rightarrow> MsgWorkflowMissing u | SerializeFailed t \<Rightarrow> MsgSerialize t | PutFailed t \<Rightarrow> MsgPut t)"

abbreviation defaultTaskWatchdogTimeoutSec :: int where "defaultTaskWatchdogTimeoutSec \<equiv> 90"

text \<open>\<^verbatim>\<open>executeSingleTask\<close>: push the task and, if that worked, listen for its result; then the result
  of the wait.\<close>

definition executeSingleTask_start ::
  "env \<Rightarrow> uuid \<Rightarrow> task_node \<Rightarrow> vars list \<Rightarrow> 'a sched_scheme \<Rightarrow> (push_error + unit) \<times> 'a sched_scheme" where
  "executeSingleTask_start ev u node ups s =
     (case PushTask ev u node ups s of
        (Inl err, s1) \<Rightarrow> (Inl err, s1)
      | (Inr _, s1) \<Rightarrow> (Inr (), registerTaskListener u (node_Name node) s1))"

definition executeSingleTask_result :: "int \<Rightarrow> (push_error + unit) \<Rightarrow> task_wait \<Rightarrow> msg + vars option" where
  "executeSingleTask_result watchdogTimeoutSec pushed w =
     (case pushed of
        Inl err \<Rightarrow> Inl (push_error_msg err)
      | Inr _ \<Rightarrow>
          (case w of
             CtxDone \<Rightarrow> Inl MsgContextCancelled
           | WatchdogFired \<Rightarrow> Inl (MsgWatchdog watchdogTimeoutSec)
           | ListenerClosed \<Rightarrow> Inl MsgListenerClosed
           | Received payload \<Rightarrow>
               if tp_Status payload = StatusCompleted then Inr (tp_Output payload)
               else Inl (MsgTaskStatus (status_name (tp_Status payload)) (tp_Result payload))))"

text \<open>The loop over the result channel: outputs, first error, successes, failures, and whether the
  other tasks' context was cancelled.\<close>

type_synonym group_acc = "vars list \<times> msg option \<times> nat \<times> nat \<times> bool"

definition collect_result :: "parallel_strategy \<Rightarrow> msg + vars option \<Rightarrow> group_acc \<Rightarrow> group_acc" where
  "collect_result strategy r = (\<lambda>(outs, firstErr, ok, bad, cancelled).
     case r of
       Inl err \<Rightarrow> (case firstErr of
           None \<Rightarrow> (outs, Some err, ok, bad + 1, cancelled \<or> strategy = ParallelStrategyFailFast)
         | Some _ \<Rightarrow> (outs, firstErr, ok, bad + 1, cancelled))
     | Inr out \<Rightarrow> ((case out of None \<Rightarrow> outs | Some o' \<Rightarrow> outs @ [o']), firstErr, ok + 1, bad, cancelled))"

definition ExecuteWithOptions ::
  "parallel_strategy \<Rightarrow> int \<Rightarrow> task_node list \<Rightarrow> (msg + vars option) list \<Rightarrow> msg + vars list" where
  "ExecuteWithOptions strategy minSuccess0 tasks results =
     (if tasks = [] then Inr []
      else case fold (collect_result strategy) results ([], None, 0, 0, False) of
        (outs, firstErr, ok, bad, _) \<Rightarrow>
          (let tot = length tasks; minSuccess = (if minSuccess0 \<le> 0 then int tot else minSuccess0)
           in if minSuccess \<le> int ok then Inr outs
              else Inl (case firstErr of Some err \<Rightarrow> err | None \<Rightarrow> MsgTooFewSuccesses ok tot (nat minSuccess))))"


subsection \<open>Advanced nodes\<close>

text \<open>A type assertion to \<^verbatim>\<open>[]any\<close>: only a dynamic list matches.\<close>

fun extract_rev :: "vars list \<Rightarrow> string \<Rightarrow> any list option" where
  "extract_rev [] key = None"
| "extract_rev (up # ups) key = (case up key of Some (ASlice vs) \<Rightarrow> Some vs | _ \<Rightarrow> extract_rev ups key)"

definition extractIteratorList :: "vars list \<Rightarrow> string \<Rightarrow> any list option" where
  "extractIteratorList upstreamOutputs key = extract_rev (rev upstreamOutputs) key"

definition buildItemOutput :: "nat \<Rightarrow> any \<Rightarrow> vars list \<Rightarrow> vars" where
  "buildItemOutput index item upstreamOutputs =
     (let out0 = [''_index'' \<mapsto> AInt (int index), ''_item'' \<mapsto> item];
          out1 = (case item of AMap m \<Rightarrow> out0 ++ m | _ \<Rightarrow> out0)
      in fold (\<lambda>up out. up ++ out) upstreamOutputs out1)"

text \<open>\<open>results\<close>: for each item in the order of completion, the callback's error or first output.\<close>

definition ExecuteFanOut ::
  "task_node \<Rightarrow> vars list \<Rightarrow> (msg + vars option) list \<Rightarrow> msg + vars" where
  "ExecuteFanOut node upstreamOutputs results =
     (case FanOut node of
        None \<Rightarrow> Inl (MsgFanOut '''')
      | Some fanOut \<Rightarrow>
          (case extractIteratorList upstreamOutputs (IteratorKey fanOut) of
             None \<Rightarrow> Inl (MsgFanOut (IteratorKey fanOut))
           | Some items \<Rightarrow>
               if items = [] then Inr Map.empty
               else case List.map_filter (\<lambda>r. case r of Inl e \<Rightarrow> Some e | Inr _ \<Rightarrow> None) results of
                 e # _ \<Rightarrow> Inl e
               | [] \<Rightarrow>
                   (let allResults = List.map_filter (\<lambda>r. case r of Inr out \<Rightarrow> out | Inl _ \<Rightarrow> None) results;
                        outputKey = (if OutputKey fanOut = '''' then DefaultFanOutOutputKey else OutputKey fanOut)
                    in Inr ([outputKey \<mapsto> ASlice (map AMap allResults), ''_count'' \<mapsto> AInt (int (length allResults))]))))"

definition shouldContinueLoop :: "vars option \<Rightarrow> loop_def \<Rightarrow> int \<Rightarrow> bool" where
  "shouldContinueLoop lastOutput def currentIteration =
     (if currentIteration \<ge> MaxIterations def then False
      else if ConditionType def = LoopConditionAlways then True
      else if ConditionType def = LoopConditionKey then
        (if ConditionKey def = '''' then True
         else case lastOutput of
           None \<Rightarrow> True
         | Some out \<Rightarrow>
             (case out (ConditionKey def) of
                Some (ABool b) \<Rightarrow> b
              | _ \<Rightarrow> (case out LoopContinueKey of Some (ABool b) \<Rightarrow> b | _ \<Rightarrow> True)))
      else True)"

text \<open>\<open>exec\<close> answers for the parallel executor. The upstream outputs of the iteration are a
  parameter of the code that its body does not use: every iteration starts from no outputs.\<close>

fun loop_body ::
  "(task_node list \<Rightarrow> vars list \<Rightarrow> msg + vars list) \<Rightarrow> task_groups \<Rightarrow> vars list \<Rightarrow> vars option
     \<Rightarrow> msg + vars list \<times> vars option" where
  "loop_body exec [] allOutputs lastOutput = Inr (allOutputs, lastOutput)"
| "loop_body exec (tasks # rest) allOutputs lastOutput =
     (case exec tasks allOutputs of
        Inl err \<Rightarrow> Inl err
      | Inr outs \<Rightarrow>
          (let allOutputs' = allOutputs @ outs;
               lastOutput' = (if outs \<noteq> [] then Some (last outs) else lastOutput);
               skip = (case lastOutput' of None \<Rightarrow> 0 | Some o' \<Rightarrow> GetSkipGroups (NewContextFromMap o'))
           in if 0 < skip \<and> int (length rest) \<le> skip then Inr (allOutputs', lastOutput')
              else loop_body exec rest allOutputs' lastOutput'))"

definition executeLoopBody ::
  "(task_node list \<Rightarrow> vars list \<Rightarrow> msg + vars list) \<Rightarrow> uuid \<Rightarrow> task_groups \<Rightarrow> nat \<Rightarrow> nat \<Rightarrow> vars list
     \<Rightarrow> 'a wm_state_scheme \<Rightarrow> msg + vars list \<times> vars option" where
  "executeLoopBody exec u groups startIdx endIdx upstreamOutputs s =
     (if GetWorkflowState u s = None then Inl (MsgWorkflowMissing u)
      else loop_body exec (take (endIdx + 1 - startIdx) (drop startIdx groups)) [] None)"

text \<open>\<^verbatim>\<open>runLoop\<close>; \<open>body iteration upstream\<close> is the result of an iteration, \<open>fuel\<close> counts the
  iterations left, \<^verbatim>\<open>MaxIterations\<close> at the start.\<close>

fun run_iterations ::
  "(nat \<Rightarrow> vars list \<Rightarrow> msg + vars list \<times> vars option) \<Rightarrow> loop_def \<Rightarrow> nat \<Rightarrow> nat \<Rightarrow> vars list \<Rightarrow> vars list \<times> msg option" where
  "run_iterations body def 0 iteration currentOutputs = (currentOutputs, None)"
| "run_iterations body def (Suc fuel) iteration currentOutputs =
     (case body iteration (currentOutputs @ [[LoopIterationKey \<mapsto> AInt (int iteration)]]) of
        Inl err \<Rightarrow> (currentOutputs, Some err)
      | Inr (outputs, lastOutput) \<Rightarrow>
          (let currentOutputs' = currentOutputs @ outputs
           in if \<not> shouldContinueLoop lastOutput def (int iteration + 1) then (currentOutputs', None)
              else run_iterations body def fuel (iteration + 1) currentOutputs'))"

definition runLoop ::
  "(nat \<Rightarrow> vars list \<Rightarrow> msg + vars list \<times> vars option) \<Rightarrow> loop_def \<Rightarrow> vars list \<Rightarrow> vars list \<times> msg option" where
  "runLoop body def upstreamOutputs = run_iterations body def (nat (MaxIterations def)) 0 upstreamOutputs"

definition collectCompletedOutputs :: "(string \<times> vars option) list \<Rightarrow> vars option list" where
  "collectCompletedOutputs completed = map snd completed"

text \<open>The sub-workflow: the definition that is run, and the upstream outputs it is started with.\<close>

definition ExecuteSubWorkflow_start ::
  "uuid \<Rightarrow> task_node \<Rightarrow> vars list \<Rightarrow> 'a wm_state_scheme \<Rightarrow> msg + uuid \<times> vars list" where
  "ExecuteSubWorkflow_start u node upstreamOutputs s =
     (case GetRegisteredWorkflow (SubWorkflow node) s of
        None \<Rightarrow> Inl (MsgWorkflowMissing (SubWorkflow node))
      | Some def \<Rightarrow>
          (let params = (case SubWorkflowParams node of None \<Rightarrow> Map.empty | Some p \<Rightarrow> p)
           in if params \<noteq> Map.empty then
                Inr (u @ ''__sub__'' @ node_Name node, if TaskGroups def \<noteq> [] then upstreamOutputs @ [params] else upstreamOutputs)
              else Inr (wf_UUID def, upstreamOutputs)))"

text \<open>One poll of the sub-workflow: \<open>None\<close> while it goes on.\<close>

definition poll_sub_workflow ::
  "(uuid \<Rightarrow> workflow_state option) \<Rightarrow> uuid \<Rightarrow> 'a wm_state_scheme \<Rightarrow> (msg + vars option list) option" where
  "poll_sub_workflow load u s =
     (case GetWorkflowState u s of
        None \<Rightarrow>
          (case GetHistory load u s of
             None \<Rightarrow> None
           | Some hist \<Rightarrow>
               if st_Status hist = WorkflowStatusCompleted then Some (Inr (collectCompletedOutputs (CompletedTasks hist)))
               else Some (Inl (MsgSubWorkflowFailed u NoMsg)))
      | Some st \<Rightarrow>
          (case st_Status st of
             WorkflowStatusCompleted \<Rightarrow> Some (Inr (collectCompletedOutputs (CompletedTasks st)))
           | WorkflowStatusFailed \<Rightarrow> Some (Inl (MsgSubWorkflowFailed u (st_Error st)))
           | WorkflowStatusRolledBack \<Rightarrow> Some (Inl (MsgSubWorkflowFailed u (st_Error st)))
           | _ \<Rightarrow> None))"


subsection \<open>From one group to the next\<close>

datatype continuation =
    Stopped
  | Panicked                                  \<comment> \<open>index out of range\<close>
  | RunGroup int task_groups nat "vars list"  \<comment> \<open>delay in seconds, groups, index, upstream outputs\<close>

definition finishWorkflow :: "uuid \<Rightarrow> 'a wm_state_scheme \<Rightarrow> 'a wm_state_scheme" where
  "finishWorkflow u s =
     emit (Broadcast (ToWorkflow u) EventWorkflowCompleted)
       (case running u s of
          None \<Rightarrow> s
        | Some e \<Rightarrow> PersistWorkflowLocked u (e\<lparr>e_state := (e_state e)\<lparr>st_Status := WorkflowStatusCompleted\<rparr>\<rparr>) s)"

definition fail_group :: "uuid \<Rightarrow> msg \<Rightarrow> 'a wm_state_scheme \<Rightarrow> 'a wm_state_scheme" where
  "fail_group u err s =
     emit (Broadcast (ToWorkflow u) EventWorkflowFailed)
       (case running u s of
          None \<Rightarrow> s
        | Some e \<Rightarrow> PersistWorkflowLocked u
            (e\<lparr>e_state := (e_state e)\<lparr>st_Status := WorkflowStatusFailed, st_Error := err\<rparr>\<rparr>) s)"

definition findTaskNameInOutput :: "task_groups \<Rightarrow> nat \<Rightarrow> string" where
  "findTaskNameInOutput groups groupIdx =
     (if groupIdx < length groups then (case groups ! groupIdx of [] \<Rightarrow> '''' | n # _ \<Rightarrow> node_Name n) else '''')"

definition pauseForApproval ::
  "go_time \<Rightarrow> uuid \<Rightarrow> workflow_state \<Rightarrow> nat \<Rightarrow> vars \<Rightarrow> 'a sched_scheme \<Rightarrow> 'a sched_scheme" where
  "pauseForApproval t u st groupIdx output s =
     (case running u s of
        None \<Rightarrow> s
      | Some e \<Rightarrow>
          emit (Broadcast (ToWorkflow u) EventWorkflowPaused)
            (snapshotRunningWorkflow t u
              (set_entry u (e\<lparr>e_state := (e_state e)
                 \<lparr>st_Status := WorkflowStatusPaused,
                  PausedTaskName := findTaskNameInOutput (TaskGroups (st_Workflow st)) groupIdx,
                  PausedTaskOutput := Some output, PausedGroupIdx := int groupIdx\<rparr>\<rparr>) s)))"

definition findTaskNodeWithBranches :: "task_groups \<Rightarrow> nat \<Rightarrow> task_node option" where
  "findTaskNodeWithBranches groups groupIdx =
     (if groupIdx < length groups then find (\<lambda>n. Branches n \<noteq> None) (groups ! groupIdx) else None)"

definition branch_target :: "task_node \<Rightarrow> string \<Rightarrow> task_groups option" where
  "branch_target node branchName =
     (case map_of (branch_list node) branchName of
        Some groups \<Rightarrow> Some groups
      | None \<Rightarrow> if DefaultBranch node \<noteq> '''' then map_of (branch_list node) (DefaultBranch node) else None)"

text \<open>What the loop over the group's outputs decides: the first output with a marker that applies.\<close>

datatype control = CtlPause vars | CtlBranch task_groups | CtlSkip int | CtlNext

fun control_of :: "task_groups \<Rightarrow> nat \<Rightarrow> vars list \<Rightarrow> control" where
  "control_of groups cur [] = CtlNext"
| "control_of groups cur (output # rest) =
     (let wctx = NewContextFromMap output; branchName = GetBranch wctx
      in if GetApproval wctx \<noteq> '''' then CtlPause output
         else case (if branchName = '''' then None
                    else case findTaskNodeWithBranches groups cur of
                      None \<Rightarrow> None | Some node \<Rightarrow> branch_target node branchName) of
           Some branchGroups \<Rightarrow> CtlBranch branchGroups
         | None \<Rightarrow> if 0 < GetSkipGroups wctx then CtlSkip (GetSkipGroups wctx) else control_of groups cur rest)"

definition group_delay :: "task_node list \<Rightarrow> int" where
  "group_delay tasks = fold (\<lambda>nt d. if DelaySec nt > d then DelaySec nt else d) tasks 0"

definition advanceToGroup :: "task_groups \<Rightarrow> nat \<Rightarrow> vars list \<Rightarrow> continuation" where
  "advanceToGroup groups groupIdx ups = RunGroup (group_delay (groups ! groupIdx)) groups groupIdx ups"

definition pushBranchGroups ::
  "uuid \<Rightarrow> task_groups \<Rightarrow> vars list \<Rightarrow> nat \<Rightarrow> 'a wm_state_scheme \<Rightarrow> continuation \<times> 'a wm_state_scheme" where
  "pushBranchGroups u branchGroups ups groupIdx s =
     (if groupIdx \<ge> length branchGroups then (Stopped, finishWorkflow u s)
      else (RunGroup (group_delay (branchGroups ! groupIdx)) branchGroups groupIdx ups, s))"

text \<open>The index of the next group is computed with \<^verbatim>\<open>int\<close>: a sum that does not fit wraps to a
  negative number, passes the test against the number of groups, and indexing with it panics.\<close>

definition advanceWorkflow ::
  "go_time \<Rightarrow> uuid \<Rightarrow> workflow_state \<Rightarrow> task_groups \<Rightarrow> nat \<Rightarrow> vars list \<Rightarrow> vars list \<Rightarrow> 'a sched_scheme
     \<Rightarrow> continuation \<times> 'a sched_scheme" where
  "advanceWorkflow t u st groups cur groupOutputs mergedOutputs s =
     (case control_of groups cur groupOutputs of
        CtlPause output \<Rightarrow> (Stopped, pauseForApproval t u st cur output s)
      | CtlBranch branchGroups \<Rightarrow> pushBranchGroups u branchGroups groupOutputs 0 s
      | CtlSkip skip \<Rightarrow>
          (let nextIdx = int cur + 1 + skip
           in if 2 ^ 63 \<le> nextIdx then (Panicked, s)
              else if int (length groups) \<le> nextIdx then (Stopped, finishWorkflow u s)
              else (advanceToGroup groups (nat nextIdx) groupOutputs, s))
      | CtlNext \<Rightarrow>
          (let nextIdx = cur + 1
           in if length groups \<le> nextIdx then (Stopped, finishWorkflow u s)
              else (advanceToGroup groups nextIdx mergedOutputs, s)))"

datatype group_mode = PlainGroup | LoopGroup loop_def | AdvancedGroup

fun detectAdvancedNodes :: "task_node list \<Rightarrow> group_mode" where
  "detectAdvancedNodes [] = PlainGroup"
| "detectAdvancedNodes (node # rest) =
     (case node_Loop node of
        Some l \<Rightarrow> LoopGroup l
      | None \<Rightarrow>
          if GetTaskNodeType node = TaskNodeTypeFanOut \<and> FanOut node \<noteq> None then AdvancedGroup
          else if GetTaskNodeType node = TaskNodeTypeSubWorkflow \<and> SubWorkflow node \<noteq> '''' then AdvancedGroup
          else detectAdvancedNodes rest)"

text \<open>The error a failed group leaves in the workflow, by the kind of the group.\<close>

definition group_error :: "group_mode \<Rightarrow> nat \<Rightarrow> msg \<Rightarrow> msg" where
  "group_error mode groupIdx err =
     (case mode of
        PlainGroup \<Rightarrow> MsgGroupFailed (int groupIdx + 1) err
      | LoopGroup _ \<Rightarrow> MsgLoopFailed (int groupIdx + 1) err
      | AdvancedGroup \<Rightarrow> MsgAdvancedFailed (int groupIdx + 1) err)"

text \<open>The callback of a group: its error, or its outputs.\<close>

definition group_completed ::
  "go_time \<Rightarrow> uuid \<Rightarrow> task_groups \<Rightarrow> nat \<Rightarrow> vars list \<Rightarrow> (msg + vars list) \<Rightarrow> 'a sched_scheme
     \<Rightarrow> continuation \<times> 'a sched_scheme" where
  "group_completed t u groups groupIdx ups result s =
     (case result of
        Inl err \<Rightarrow> (Stopped, fail_group u (group_error (detectAdvancedNodes (groups ! groupIdx)) groupIdx err) s)
      | Inr outs \<Rightarrow>
          (case GetWorkflowState u s of
             None \<Rightarrow> (Stopped, s)
           | Some st \<Rightarrow> advanceWorkflow t u st groups groupIdx outs (ups @ outs) s))"

text \<open>\<^verbatim>\<open>executeGroups\<close> and everything it calls afterwards. \<open>exec\<close> answers for the execution of one
  group: its result, the time, and the scheduler's state when its callback runs.\<close>

definition task_timeout_sec :: "uuid \<Rightarrow> 'a wm_state_scheme \<Rightarrow> int" where
  "task_timeout_sec u s =
     (case GetWorkflowState u s of
        None \<Rightarrow> defaultTaskWatchdogTimeoutSec
      | Some st \<Rightarrow>
          (let t = TaskTimeoutSec (st_Workflow st)
           in if 0 < t \<and> defaultTaskWatchdogTimeoutSec < t * 3 then t * 3 else defaultTaskWatchdogTimeoutSec))"

definition executeGroups ::
  "(task_groups \<Rightarrow> nat \<Rightarrow> vars list \<Rightarrow> 'a sched_scheme \<Rightarrow> go_time \<times> (msg + vars list) \<times> 'a sched_scheme)
     \<Rightarrow> uuid \<Rightarrow> task_groups \<Rightarrow> nat \<Rightarrow> vars list \<Rightarrow> 'a sched_scheme \<Rightarrow> continuation \<times> 'a sched_scheme" where
  "executeGroups exec u groups startIdx ups s =
     (if length groups \<le> startIdx then (Stopped, finishWorkflow u s)
      else case exec groups startIdx ups s of (t, result, s') \<Rightarrow> group_completed t u groups startIdx ups result s')"


subsection \<open>The executor terminates\<close>

text \<open>Every call for a next group goes forward in the same groups or down into a branch of one of
  its nodes, so the size of what is left decreases.\<close>

fun groups_left :: "continuation \<Rightarrow> nat" where
  "groups_left (RunGroup d groups idx ups) = Suc (size_list (size_list size) (drop idx groups))"
| "groups_left _ = 0"

lemma size_drop_less:
  assumes "i < length xs" and "i < j"
  shows "size_list f (drop j xs) < size_list f (drop i xs)"
proof -
  have "size_list f (drop k (ys :: 'a list)) \<le> size_list f ys" for k ys
    by (induction ys arbitrary: k) (auto simp: drop_Cons le_SucI trans_le_add2 split: nat.splits)
  from this [of "j - Suc i" "drop (Suc i) xs"] have "size_list f (drop j xs) \<le> size_list f (drop (Suc i) xs)"
    using assms by simp
  also have "\<dots> < size_list f (drop i xs)" using assms(1) by (simp add: Cons_nth_drop_Suc [symmetric])
  finally show ?thesis .
qed

lemma branch_size:
  assumes "findTaskNodeWithBranches groups cur = Some node" and "branch_target node b = Some gs"
  shows "size_list (size_list size) gs < size_list (size_list size) (drop cur groups)"
proof -
  have cur: "cur < length groups" and node: "node \<in> set (groups ! cur)"
    using assms(1) by (auto simp: findTaskNodeWithBranches_def find_Some_iff split: if_splits)
  obtain k where k: "(k, gs) \<in> set (branch_list node)"
    using assms(2) by (auto simp: branch_target_def split: option.splits if_splits dest: map_of_SomeD)
  then have "size_list (size_list size) gs < size node"
  proof (cases node)
    case (TaskNode ty nm p d brs db pb sw swp fo l im)
    with k obtain bs where bs: "brs = Some bs" "(k, gs) \<in> set bs" by (auto simp: branch_list_def split: option.splits)
    have "size_list (size_list size) gs \<le> size_list (size_prod (\<lambda>_. 0) (size_list (size_list size))) bs"
      using bs(2) by (intro size_list_estimation' [of "(k, gs)"]) simp_all
    with TaskNode bs(1) show ?thesis by simp
  qed
  also have "\<dots> \<le> size_list size (groups ! cur)" 
    by (rule size_list_estimation' [OF node order_refl])
  also have "\<dots> \<le> size_list (size_list size) (drop cur groups)"
    using cur by (simp add: Cons_nth_drop_Suc [symmetric])
  finally show ?thesis .
qed

lemma control_branch:
  "control_of groups cur outs = CtlBranch gs \<Longrightarrow> \<exists>node b. findTaskNodeWithBranches groups cur = Some node \<and> branch_target node b = Some gs"
  by (induction groups cur outs rule: control_of.induct) (auto simp: Let_def split: if_splits option.splits)

lemma control_skip: "control_of groups cur outs = CtlSkip n \<Longrightarrow> 0 < n"
  by (induction groups cur outs rule: control_of.induct) (auto simp: Let_def split: if_splits option.splits)


lemma executeGroups_smaller:
  assumes "executeGroups exec u groups idx ups s = (k, s')"
  shows "groups_left k < groups_left (RunGroup d groups idx ups)"
proof (cases "length groups \<le> idx")
  case True
  with assms show ?thesis by (auto simp: executeGroups_def)
next
  case False
  obtain t result s1 where "exec groups idx ups s = (t, result, s1)" by (metis prod_cases3)
  with False assms have run: "group_completed t u groups idx ups result s1 = (k, s')"
    by (simp add: executeGroups_def)
  show ?thesis
  proof (cases result)
    case (Inl err)
    with run show ?thesis by (auto simp: group_completed_def)
  next
    case (Inr outs)
    show ?thesis
    proof (cases "GetWorkflowState u s1")
      case None
      with run Inr show ?thesis by (auto simp: group_completed_def)
    next
      case (Some st)
      with run Inr have adv: "advanceWorkflow t u st groups idx outs (ups @ outs) s1 = (k, s')"
        by (simp add: group_completed_def)
      show ?thesis
      proof (cases "control_of groups idx outs")
        case (CtlPause out)
        with adv show ?thesis by (auto simp: advanceWorkflow_def)
      next
        case (CtlBranch gs)
        then have "size_list (size_list size) gs < size_list (size_list size) (drop idx groups)"
          using control_branch branch_size by blast
        with CtlBranch adv show ?thesis by (auto simp: advanceWorkflow_def pushBranchGroups_def split: if_splits)
      next
        case (CtlSkip n)
        then have "0 < n" by (rule control_skip)
        with CtlSkip adv False show ?thesis
          by (auto simp: advanceWorkflow_def advanceToGroup_def Let_def intro!: size_drop_less split: if_splits)
      next
        case CtlNext
        with adv False show ?thesis
          by (auto simp: advanceWorkflow_def advanceToGroup_def Let_def intro!: size_drop_less split: if_splits)
      qed
    qed
  qed
qed

text \<open>The executor to its end: \<open>None\<close> for a panic. It needs no fuel.\<close>

function serial_run ::
  "(task_groups \<Rightarrow> nat \<Rightarrow> vars list \<Rightarrow> 'a sched_scheme \<Rightarrow> go_time \<times> (msg + vars list) \<times> 'a sched_scheme)
     \<Rightarrow> uuid \<Rightarrow> continuation \<Rightarrow> 'a sched_scheme \<Rightarrow> 'a sched_scheme option" where
  "serial_run exec u Stopped s = Some s"
| "serial_run exec u Panicked s = None"
| "serial_run exec u (RunGroup d groups idx ups) s =
     (case executeGroups exec u groups idx ups s of (k, s') \<Rightarrow> serial_run exec u k s')"
  by pat_completeness auto
termination
  by (relation "measure (\<lambda>(exec, u, k, s). groups_left k)") (auto simp del: groups_left.simps split: prod.splits dest: executeGroups_smaller)

text \<open>\<^verbatim>\<open>SerialExecutor.Execute\<close>, which \<^verbatim>\<open>ExecuteWorkflow\<close> calls.\<close>

definition ExecuteWorkflow ::
  "(task_groups \<Rightarrow> nat \<Rightarrow> vars list \<Rightarrow> 'a sched_scheme \<Rightarrow> go_time \<times> (msg + vars list) \<times> 'a sched_scheme)
     \<Rightarrow> uuid \<Rightarrow> vars list \<Rightarrow> nat \<Rightarrow> 'a sched_scheme \<Rightarrow> 'a sched_scheme option" where
  "ExecuteWorkflow exec u ups startIdx s =
     (case GetWorkflowState u s of
        None \<Rightarrow> Some s
      | Some st \<Rightarrow> serial_run exec u (RunGroup 0 (TaskGroups (st_Workflow st)) startIdx ups) s)"

text \<open>C2. Groups run in order, each exactly once, and then the workflow completes. Suppose the
  execution of group \<open>i\<close> returns \<open>outs i\<close>, which carry no control marker that applies, and the
  workflow is still running when it returns. Then from any start index the executor runs the
  remaining groups one after the other, hands group \<open>i\<close> the outputs it was started with followed
  by those of every group before it, and finishes the workflow in the state the last group left.\<close>

theorem serial_run_in_order:
  assumes exec: "\<And>i ups s. i < length groups \<Longrightarrow> running u s \<noteq> None \<Longrightarrow>
      exec groups i ups s = (t i, Inr (outs i), step i ups s) \<and> running u (step i ups s) \<noteq> None"
    and plain: "\<And>i. i < length groups \<Longrightarrow> control_of groups i (outs i) = CtlNext"
    and "idx \<le> length groups" and "running u s \<noteq> None"
  shows "serial_run exec u (RunGroup d groups idx ups) s =
     Some (finishWorkflow u
       (fold (\<lambda>i. step i (ups @ concat (map outs [idx..<i]))) [idx..<length groups] s))"
  using assms(3,4)
proof (induction "length groups - idx" arbitrary: idx d ups s)
  case 0
  then show ?case by (simp add: executeGroups_def)
next
  case (Suc n)
  then have idx: "idx < length groups" by simp
  note run = exec [OF idx Suc.prems(2), of ups]
  obtain e where e: "running u (step idx ups s) = Some e" using run by blast
  have shift: "concat (map outs [idx..<i]) = outs idx @ concat (map outs [Suc idx..<i])" if "Suc idx \<le> i" for i
    using that by (subst upt_conv_Cons) simp_all
  have later: "fold (\<lambda>i. step i ((ups @ outs idx) @ concat (map outs [Suc idx..<i]))) [Suc idx..<length groups] s0
      = fold (\<lambda>i. step i (ups @ concat (map outs [idx..<i]))) [Suc idx..<length groups] s0" for s0
    by (rule fold_cong) (simp_all add: shift)
  have go: "executeGroups exec u groups idx ups s
      = (if length groups \<le> Suc idx then (Stopped, finishWorkflow u (step idx ups s))
         else (RunGroup (group_delay (groups ! Suc idx)) groups (Suc idx) (ups @ outs idx), step idx ups s))"
    using idx run e by (simp add: executeGroups_def group_completed_def GetWorkflowState_def advanceWorkflow_def
        plain advanceToGroup_def)
  show ?case
  proof (cases "length groups \<le> Suc idx")
    case True
    with idx have "[idx..<length groups] = [idx]" by (metis Suc_leI le_antisym upt_rec upt_conv_Nil)
    with True show ?thesis by (simp add: go)
  next
    case False
    then have "serial_run exec u (RunGroup d groups idx ups) s
        = serial_run exec u (RunGroup (group_delay (groups ! Suc idx)) groups (Suc idx) (ups @ outs idx)) (step idx ups s)"
      by (simp add: go)
    also have "\<dots> = Some (finishWorkflow u
       (fold (\<lambda>i. step i ((ups @ outs idx) @ concat (map outs [Suc idx..<i]))) [Suc idx..<length groups] (step idx ups s)))"
      using Suc.hyps(2) False run by (intro Suc.hyps(1)) auto
    finally show ?thesis using idx unfolding later by (subst (2) upt_conv_Cons) simp_all
  qed
qed


definition demo_serial :: workflow where
  "demo_serial = AddTaskGroup [''b''] (AddTaskGroup [''a''] (NewWorkflow ''demo''))"

theorem serial_run_in_order_witness:
  "serial_run (\<lambda>_ i ups s. (0, Inr [[''n'' \<mapsto> AInt (int i)]], emit (Broadcast AllClients EventTaskCompleted) s)) ''w''
     (RunGroup 0 (TaskGroups demo_serial) 0 []) demo_sched
   = Some (finishWorkflow ''w'' (emit (Broadcast AllClients EventTaskCompleted) (emit (Broadcast AllClients EventTaskCompleted) demo_sched)))"
proof -
  have groups: "TaskGroups demo_serial = [[named_node ''a''], [named_node ''b'']]"
    by (simp add: demo_serial_def AddTaskGroup_def AddTaskNodeGroup_def NewWorkflow_def)
  show ?thesis
    using serial_run_in_order [of "TaskGroups demo_serial" "''w''"
        "\<lambda>_ i ups s. (0, Inr [[''n'' \<mapsto> AInt (int i)]], emit (Broadcast AllClients EventTaskCompleted) s)"
        "\<lambda>_. 0" "\<lambda>i. [[''n'' \<mapsto> AInt (int i)]]" "\<lambda>_ _. emit (Broadcast AllClients EventTaskCompleted)" 0 demo_sched 0 "[]"]
    by (simp add: groups NewContextFromMap_def GetApproval_def GetBranch_def GetSkipGroups_def GetString_def ctx_Get_def numeral_2_eq_2)
qed


subsection \<open>Results of a group\<close>

definition result_error :: "msg + 'a \<Rightarrow> msg option" where
  "result_error r = (case r of Inl e \<Rightarrow> Some e | Inr _ \<Rightarrow> None)"

definition result_output :: "msg + 'a option \<Rightarrow> 'a option" where
  "result_output r = (case r of Inl _ \<Rightarrow> None | Inr out \<Rightarrow> out)"

lemma result_simps [simp]:
  "result_error (Inl e) = Some e" "result_error (Inr out) = None"
  "result_output (Inl e) = None" "result_output (Inr out) = out"
  by (simp_all add: result_error_def result_output_def)

lemma collect_result_simps:
  "collect_result strategy (Inl e) (outs, None, ok, bad, c) = (outs, Some e, ok, bad + 1, c \<or> strategy = ParallelStrategyFailFast)"
  "collect_result strategy (Inl e) (outs, Some e', ok, bad, c) = (outs, Some e', ok, bad + 1, c)"
  "collect_result strategy (Inr None) (outs, fe, ok, bad, c) = (outs, fe, ok + 1, bad, c)"
  "collect_result strategy (Inr (Some out)) (outs, fe, ok, bad, c) = (outs @ [out], fe, ok + 1, bad, c)"
  by (simp_all add: collect_result_def)

lemma collect_results_fold:
  "fold (collect_result strategy) rs (outs, fe, ok, bad, c)
   = (outs @ List.map_filter result_output rs,
      (case fe of Some e \<Rightarrow> Some e | None \<Rightarrow> (case List.map_filter result_error rs of [] \<Rightarrow> None | e # _ \<Rightarrow> Some e)),
      ok + length (filter (\<lambda>r. result_error r = None) rs), bad + length (filter (\<lambda>r. result_error r \<noteq> None) rs),
      c \<or> fe = None \<and> strategy = ParallelStrategyFailFast \<and> (\<exists>r \<in> set rs. result_error r \<noteq> None))"
proof (induction rs arbitrary: outs fe ok bad c)
  case (Cons r rs)
  show ?case
  proof (cases r)
    case (Inl e)
    then show ?thesis by (cases fe) (simp_all add: collect_result_simps Cons.IH map_filter_simps)
  next
    case (Inr out)
    then show ?thesis by (cases out; cases fe) (simp_all add: collect_result_simps Cons.IH map_filter_simps)
  qed
qed (simp add: map_filter_simps split: option.splits)

text \<open>C17. A group succeeds exactly when enough tasks do. For a non-empty group, one result per
  task in any order of arrival, and the required number of successes (all of them when none is
  configured): if that many succeed the outputs of the successful tasks are returned in the
  order of arrival, otherwise the error that arrived first is returned; with the default every
  failure fails the group, whatever the strategy.\<close>

theorem group_result:
  assumes "tasks \<noteq> []" and "length results = length tasks"
    and successes_def: "successes = length (filter (\<lambda>r. result_error r = None) results)"
    and needed_def: "needed = (if minSuccess \<le> 0 then int (length tasks) else minSuccess)"
  shows "(needed \<le> int successes \<longrightarrow>
            ExecuteWithOptions strategy minSuccess tasks results = Inr (List.map_filter result_output results))
     \<and> (int successes < needed \<longrightarrow>
            ExecuteWithOptions strategy minSuccess tasks results
              = Inl (case List.map_filter result_error results of
                       [] \<Rightarrow> MsgTooFewSuccesses successes (length tasks) (nat needed) | e # _ \<Rightarrow> e))
     \<and> (minSuccess \<le> 0 \<longrightarrow> (needed \<le> int successes \<longleftrightarrow> (\<forall>r \<in> set results. result_error r = None)))"
proof -
  have all: "length (filter P results) = length results \<longleftrightarrow> (\<forall>r \<in> set results. P r)" for P
    by (metis filter_True length_filter_less order_less_irrefl)
  have le: "successes \<le> length results" by (simp add: successes_def)
  show ?thesis
    using assms(1,2) le all [of "\<lambda>r. result_error r = None"]
    by (auto simp: ExecuteWithOptions_def collect_results_fold successes_def needed_def Let_def split: list.splits)
qed

theorem group_result_witness:
  "ExecuteWithOptions ParallelStrategyAll 1 [named_node ''a'', named_node ''b''] [Inl MsgListenerClosed, Inr (Some Map.empty)]
   = Inr [Map.empty]"
  using group_result [of "[named_node ''a'', named_node ''b'']" "[Inl MsgListenerClosed, Inr (Some Map.empty)]" 1 1 1 ParallelStrategyAll]
  by (simp add: result_error_def result_output_def map_filter_simps)


subsection \<open>Loops\<close>

lemma run_iterations_result:
  assumes body: "\<And>j ups. body j ups = Inr (outs j, lst j)"
  shows "i + fuel = nat (MaxIterations def) \<Longrightarrow> 0 < fuel \<Longrightarrow>
    \<exists>k. i < k \<and> k \<le> i + fuel \<and> run_iterations body def fuel i cur = (cur @ concat (map outs [i..<k]), None)
      \<and> (\<forall>j. i \<le> j \<and> Suc j < k \<longrightarrow> shouldContinueLoop (lst j) def (int j + 1))
      \<and> \<not> shouldContinueLoop (lst (k - 1)) def (int k)"
proof (induction fuel arbitrary: i cur)
  case (Suc fuel)
  show ?case
  proof (cases "shouldContinueLoop (lst i) def (int i + 1)")
    case False
    then show ?thesis by (intro exI [of _ "Suc i"]) (auto simp: body ac_simps)
  next
    case True
    then have "int i + 1 < MaxIterations def" by (auto simp: shouldContinueLoop_def split: if_splits)
    with Suc.prems have "0 < fuel" "Suc i + fuel = nat (MaxIterations def)" by auto
    from Suc.IH [OF this(2,1), of "cur @ outs i"] obtain k where k: "Suc i < k" "k \<le> Suc i + fuel"
      "run_iterations body def fuel (Suc i) (cur @ outs i) = ((cur @ outs i) @ concat (map outs [Suc i..<k]), None)"
      "\<forall>j. Suc i \<le> j \<and> Suc j < k \<longrightarrow> shouldContinueLoop (lst j) def (int j + 1)"
      "\<not> shouldContinueLoop (lst (k - 1)) def (int k)" by blast
    have "run_iterations body def (Suc fuel) i cur = (cur @ concat (map outs [i..<k]), None)"
      using True k(1,3) by (simp add: body upt_conv_Cons)
    moreover have "\<forall>j. i \<le> j \<and> Suc j < k \<longrightarrow> shouldContinueLoop (lst j) def (int j + 1)"
      using k(4) True by (metis Suc_leI le_eq_less_or_eq)
    ultimately show ?thesis using k by (intro exI [of _ k]) auto
  qed
qed simp

text \<open>A loop runs its body until its condition fails and never more than the configured number
  of times: if iteration \<open>j\<close> returns \<open>outs j\<close> (and \<open>lst j\<close> as the last output) then for some
  \<open>k\<close> between one and the maximum the loop returns the outputs it was started with followed by
  those of iterations 0 to \<open>k - 1\<close>, the condition held after each of them but the last, and it
  does not hold after the last.\<close>

theorem runLoop_iterations:
  assumes "\<And>j ups. body j ups = Inr (outs j, lst j)" and "0 < MaxIterations def"
  shows "\<exists>k. 0 < k \<and> int k \<le> MaxIterations def
     \<and> runLoop body def ups = (ups @ concat (map outs [0..<k]), None)
     \<and> (\<forall>j. Suc j < k \<longrightarrow> shouldContinueLoop (lst j) def (int j + 1))
     \<and> \<not> shouldContinueLoop (lst (k - 1)) def (int k)"
  using run_iterations_result [of body outs lst 0 "nat (MaxIterations def)" def ups] assms
  by (auto simp: runLoop_def)

theorem runLoop_iterations_witness:
  "\<exists>k. 0 < k \<and> k \<le> 3 \<and> runLoop (\<lambda>j _. Inr ([[''n'' \<mapsto> AInt (int j)]], Some [''go'' \<mapsto> ABool (j < 1)]))
       \<lparr>MaxIterations = 3, ConditionType = LoopConditionKey, ConditionKey = ''go''\<rparr> []
     = (concat (map (\<lambda>j. [[''n'' \<mapsto> AInt (int j)]]) [0..<k]), None)"
  using runLoop_iterations [of "\<lambda>j _. Inr ([[''n'' \<mapsto> AInt (int j)]], Some [''go'' \<mapsto> ABool (j < 1)])"
      "\<lambda>j. [[''n'' \<mapsto> AInt (int j)]]" "\<lambda>j. Some [''go'' \<mapsto> ABool (j < 1)]"
      "\<lparr>MaxIterations = 3, ConditionType = LoopConditionKey, ConditionKey = ''go''\<rparr>" "[]"]
  by auto


subsection \<open>Where results are lost\<close>

text \<open>The tasks of a fan-out share one name and hence one listener: the second registration replaces
  the channel of the first, and of two results only the first to arrive is delivered.\<close>

lemma fan_out_loses_results:
  "notifyTaskListener u n p (snd (notifyTaskListener u n q (registerTaskListener u n s)))
     = (False, snd (notifyTaskListener u n q (registerTaskListener u n s)))"
  by (simp add: notifyTaskListener_def registerTaskListener_def update_conv' Let_def)

text \<open>A task is written before its listener is registered: a result that arrives in between is
  dropped, and the listener starts empty.\<close>

lemma early_result_lost:
  assumes "taskListeners s u = None"
  shows "listening u n (registerTaskListener u n (snd (notifyTaskListener u n p s))) = Some []"
  using assms by (simp add: listening_def notifyTaskListener_def registerTaskListener_def update_conv')

text \<open>A workflow that completes starts no other: \<^verbatim>\<open>FireWorkflowCompleted\<close> is called with a callback
  that only logs.\<close>

lemma completion_starts_nothing:
  "Go j \<in> set (log (finishWorkflow u s)) \<longleftrightarrow> Go j \<in> set (log s)"
  by (auto simp: finishWorkflow_def wm_simps split: option.splits)

end
