(* ===== verification/Lifecycle.thy ===== *)
theory Lifecycle
  imports Execution
begin

text \<open>
  The life cycle of workflows: the operations of \<^verbatim>\<open>workflow_manager.go\<close> and \<^verbatim>\<open>scheduler.go\<close> that a
  client, the cron scheduler or a web hook calls, the start-up in MySQL, and the whole scheduler
  as a state machine whose steps are these operations and the handlers of the other theories.
  Deep copies are the value itself (values of the model are not shared).
\<close>

datatype lifecycle_error =
    InvalidName validation_error
  | NoTaskGroups string
  | InvalidTasks validation_error
  | NotRunning uuid
  | NotActive uuid
  | NotPaused uuid workflow_status
  | AlreadyRunning uuid
  | NotRegistered uuid
  | NotInHistory uuid
  | HistoryInconsistent uuid
  | WebhookError trigger_error
  | NotCron string
  | IndexPanic                  \<comment> \<open>index out of range\<close>


subsection \<open>Submitting\<close>

definition new_entry :: "go_time \<Rightarrow> nat \<Rightarrow> workflow \<Rightarrow> workflow_entry" where
  "new_entry t ctx w =
     \<lparr>e_state = (pending_state w)\<lparr>st_Status := WorkflowStatusRunning, WorkflowUUID := wf_UUID w, StartedAt := t,
        TaskGroupIndex := BuildTaskGroupIndex w, BranchTaskIndex := BuildBranchTaskIndex w\<rparr>,
      e_ctx = ctx, recovered = False\<rparr>"

definition SubmitWorkflow ::
  "go_time \<Rightarrow> workflow \<Rightarrow> 'a wm_state_scheme \<Rightarrow> (lifecycle_error + unit) \<times> 'a wm_state_scheme" where
  "SubmitWorkflow t w s =
     (case validateWorkflowName (wf_Name w) of
        Inl err \<Rightarrow> (Inl (InvalidName err), s)
      | Inr _ \<Rightarrow>
          if TaskGroups w = [] then (Inl (NoTaskGroups (wf_Name w)), s)
          else case validateWorkflowTasks w of
            Inl err \<Rightarrow> (Inl (InvalidTasks err), s)
          | Inr _ \<Rightarrow>
              (let u = wf_UUID w; ctx = nextCtx s;
                   s1 = set_entry u (new_entry t ctx w) (s\<lparr>nextCtx := ctx + 1\<rparr>);
                   s2 = (if HasHistoryStore (conf s) then emit (Go (JAsyncInitMySQL w t)) s1 else s1);
                   s3 = emit (Broadcast AllClients EventWorkflowSubmitted) s2;
                   s4 = (if 0 < TimeoutSec w then emit (Go (JTimeoutAfter ctx u (TimeoutSec w * Second))) s3 else s3);
                   s5 = emit (Go (JWatchWorkflowStatus ctx u)) s4;
                   s6 = emit (Go (JExecuteWorkflow u [] 0)) s5
               in (Inr (), s6)))"

definition RunWorkflow ::
  "go_time \<Rightarrow> uuid \<Rightarrow> 'a wm_state_scheme \<Rightarrow> (lifecycle_error + unit) \<times> 'a wm_state_scheme" where
  "RunWorkflow t u s =
     (case GetRegisteredWorkflow u s of
        None \<Rightarrow> (Inl (NotRegistered u), s)
      | Some w \<Rightarrow> if GetWorkflowState u s \<noteq> None then (Inl (AlreadyRunning u), s) else SubmitWorkflow t w s)"

text \<open>The goroutine of an event chain: \<^verbatim>\<open>JSubmitTarget\<close>.\<close>

definition submit_target :: "go_time \<Rightarrow> uuid \<Rightarrow> 'a wm_state_scheme \<Rightarrow> 'a wm_state_scheme" where
  "submit_target t u s =
     (case GetRegisteredWorkflow u s of None \<Rightarrow> s | Some w \<Rightarrow> snd (SubmitWorkflow t w s))"

definition RetryWorkflow ::
  "go_time \<Rightarrow> uuid \<Rightarrow> 'a wm_state_scheme \<Rightarrow> (lifecycle_error + unit) \<times> 'a wm_state_scheme" where
  "RetryWorkflow t u s =
     (if running u s \<noteq> None then (Inl (AlreadyRunning u), s)
      else case workflowHistoryByUUID s u of
        None \<Rightarrow> (Inl (NotInHistory u), s)
      | Some execIDs \<Rightarrow>
          if execIDs = [] then (Inl (NotInHistory u), s)
          else
            (let latestID = last execIDs
             in case map_of (workflowHistory s) latestID of
                  None \<Rightarrow> (Inl (HistoryInconsistent u), s)
                | Some st \<Rightarrow>
                    SubmitWorkflow t (st_Workflow st)
                      (removeFromHistoryOrder latestID (removeHistoryByUUIDEntry u latestID (deleteHistory latestID s)))))"


subsection \<open>Registering, cron and web hooks\<close>

definition RegisterWorkflow_tables :: "workflow \<Rightarrow> 'a wm_state_scheme \<Rightarrow> 'a wm_state_scheme" where
  "RegisterWorkflow_tables w s =
     (case validateWorkflowName (wf_Name w) of
        Inl _ \<Rightarrow> s
      | Inr _ \<Rightarrow>
          (case validateWorkflowTasks w of
             Inl _ \<Rightarrow> s
           | Inr _ \<Rightarrow> s\<lparr>registeredWorkflows := AList.update (wf_UUID w) w (registeredWorkflows s)\<rparr>))"

text \<open>\<^verbatim>\<open>Scheduler.RegisterWorkflow\<close>: the trigger is registered whatever became of the definition.\<close>

definition RegisterWorkflow :: "workflow \<Rightarrow> 'a sched_scheme \<Rightarrow> 'a sched_scheme" where
  "RegisterWorkflow w s =
     (let s1 = RegisterWorkflow_tables w s in s1\<lparr>etm := RegisterEventTrigger w (etm s1)\<rparr>)"

text \<open>\<open>add\<close> answers for the cron library; the registered function submits the workflow.\<close>

definition ScheduleCronWorkflow :: "(string \<Rightarrow> bool) \<Rightarrow> workflow \<Rightarrow> lifecycle_error + workflow" where
  "ScheduleCronWorkflow add w =
     (if Trigger w \<noteq> TriggerCron \<or> CronExpr w = '''' then Inl (NotCron (wf_Name w))
      else if add (CronExpr w) then Inr w else Inl (NotCron (wf_Name w)))"

definition TriggerWebhook ::
  "go_time \<Rightarrow> uuid \<Rightarrow> vars \<Rightarrow> 'a sched_scheme \<Rightarrow> (lifecycle_error + unit) \<times> 'a sched_scheme" where
  "TriggerWebhook t u payload s =
     (case FireWebhook u (etm s) of
        Inl err \<Rightarrow> (Inl (WebhookError err), s)
      | Inr _ \<Rightarrow>
          (case GetRegisteredWorkflow u s of
             None \<Rightarrow> (Inl (NotRegistered u), s)
           | Some w \<Rightarrow>
               if payload \<noteq> Map.empty \<and> TaskGroups w \<noteq> [] then
                 (case TaskGroups w of
                    (node # nodes) # gs \<Rightarrow>
                      SubmitWorkflow t (w\<lparr>TaskGroups := (set_node_Params (Some payload) node # nodes) # gs\<rparr>) s
                  | _ \<Rightarrow> (Inl IndexPanic, s))
               else SubmitWorkflow t w s))"


subsection \<open>Cancelling, approving, rejecting\<close>

definition cancelled_entry :: "workflow_entry \<Rightarrow> workflow_entry" where
  "cancelled_entry e = e\<lparr>e_state := (e_state e)\<lparr>st_Error := MsgCancelled\<rparr>\<rparr>"

definition CancelWorkflow :: "uuid \<Rightarrow> 'a wm_state_scheme \<Rightarrow> (lifecycle_error + unit) \<times> 'a wm_state_scheme" where
  "CancelWorkflow u s =
     (case running u s of
        None \<Rightarrow> (Inl (NotRunning u), s)
      | Some e \<Rightarrow>
          (let st = e_state e in
           if st_Status st \<noteq> WorkflowStatusRunning \<and> st_Status st \<noteq> WorkflowStatusPaused then (Inl (NotActive u), s)
           else
             (let wasPaused = (st_Status st = WorkflowStatusPaused);
                  s1 = PersistWorkflowLocked u (cancelled_entry e) s;
                  s2 = emit (Broadcast (ToWorkflow u) EventWorkflowCancelled) s1;
                  taskName = (if wasPaused \<and> PausedTaskName st \<noteq> '''' then PausedTaskName st else ''__cancelled__'');
                  s3 = startSagaRollback u
                    (zero_payload\<lparr>tp_WorkflowID := u, tp_TaskName := taskName, tp_Result := MsgCancelled\<rparr>) s2
              in (Inr (), s3))))"

definition clean_output :: "vars \<Rightarrow> vars" where
  "clean_output out = (\<lambda>k. if k \<noteq> SkipGroupsKey \<and> k \<noteq> BranchKey \<and> k \<noteq> ApprovalKey then out k else None)"

definition ApproveWorkflow :: "uuid \<Rightarrow> 'a wm_state_scheme \<Rightarrow> (lifecycle_error + unit) \<times> 'a wm_state_scheme" where
  "ApproveWorkflow u s =
     (case running u s of
        None \<Rightarrow> (Inl (NotRunning u), s)
      | Some e \<Rightarrow>
          (let st = e_state e in
           if st_Status st \<noteq> WorkflowStatusPaused then (Inl (NotPaused u (st_Status st)), s)
           else
             (let s1 = set_entry u (e\<lparr>e_state := st\<lparr>st_Status := WorkflowStatusRunning\<rparr>\<rparr>) s;
                  s2 = emit (Broadcast (ToWorkflow u) EventWorkflowApproved) s1;
                  idx = PausedGroupIdx st; n = int (length (TaskGroups (st_Workflow st)))
              in if 0 \<le> idx \<and> idx < n - 1 then
                   (Inr (), emit (Go (JExecuteWorkflow u [clean_output (vars_of (PausedTaskOutput st))] (idx + 1))) s2)
                 else if idx = n - 1 then (Inr (), finishWorkflow u s2)
                 else (Inr (), s2))))"

definition RejectWorkflow ::
  "env \<Rightarrow> uuid \<Rightarrow> string \<Rightarrow> 'a sched_scheme \<Rightarrow> (lifecycle_error + unit) \<times> 'a sched_scheme" where
  "RejectWorkflow ev u reason s =
     (case running u s of
        None \<Rightarrow> (Inl (NotRunning u), s)
      | Some e \<Rightarrow>
          (let st = e_state e in
           if st_Status st \<noteq> WorkflowStatusPaused then (Inl (NotPaused u (st_Status st)), s)
           else
             (let why = (if reason = '''' then MsgRejected else Text reason);
                  s1 = emit (Broadcast (ToWorkflow u) EventWorkflowRejected) s
              in (Inr (), handleTaskFailed ev u st
                    (zero_payload\<lparr>tp_WorkflowID := u, tp_TaskName := PausedTaskName st, tp_Status := StatusFailed,
                       tp_Result := why\<rparr>) s1))))"


subsection \<open>The workflow's rows in MySQL\<close>

definition cleanupWorkflowState :: "uuid \<Rightarrow> 'a sched_scheme \<Rightarrow> 'a sched_scheme" where
  "cleanupWorkflowState u s =
     (let s1 = s\<lparr>runningEntries := AList.delete u (runningEntries s)\<rparr>;
          s2 = (case running u s of None \<Rightarrow> s1 | Some e \<Rightarrow> cancel_ctx (e_ctx e) s1)
      in cleanSnapshotThrottle u (cleanupTaskListeners u s2))"

text \<open>The two critical sections of \<^verbatim>\<open>asyncInitMySQL\<close>, after the answer of the call before each:
  \<open>None\<close> if it failed. The first tells whether the goroutine goes on.\<close>

definition asyncInit_workflow :: "uuid \<Rightarrow> nat option \<Rightarrow> 'a sched_scheme \<Rightarrow> bool \<times> 'a sched_scheme" where
  "asyncInit_workflow u saved s =
     (case saved of
        None \<Rightarrow> (False, cleanupWorkflowState u s)
      | Some workflowID \<Rightarrow>
          (case running u s of
             None \<Rightarrow> (False, s)
           | Some e \<Rightarrow> (True, modify_state u (\<lambda>st. st\<lparr>st_WorkflowID := workflowID\<rparr>) s)))"

definition asyncInit_execution :: "uuid \<Rightarrow> nat option \<Rightarrow> 'a sched_scheme \<Rightarrow> 'a sched_scheme" where
  "asyncInit_execution u created s =
     (case created of
        None \<Rightarrow> cleanupWorkflowState u s
      | Some execID \<Rightarrow> modify_state u (\<lambda>st. st\<lparr>ExecutionID := execID\<rparr>) s)"

definition asyncInitMySQL :: "uuid \<Rightarrow> nat option \<Rightarrow> nat option \<Rightarrow> 'a sched_scheme \<Rightarrow> 'a sched_scheme" where
  "asyncInitMySQL u saved created s =
     (case asyncInit_workflow u saved s of
        (False, s1) \<Rightarrow> s1
      | (True, s1) \<Rightarrow> asyncInit_execution u created s1)"


subsection \<open>The scheduler as a state machine\<close>

text \<open>Every operation of the scheduler, with the answers of the outside it uses. The handlers of
  goroutines that were started (a retry, the compensation of a task) act only when the log has
  their start; the other goroutines may come at any time.\<close>

datatype sys_op =
    OpSubmit go_time workflow
  | OpRun go_time uuid
  | OpRetryWorkflow go_time uuid
  | OpSubmitTarget go_time uuid
  | OpRegister workflow
  | OpWebhook go_time uuid vars
  | OpCancel uuid
  | OpApprove uuid
  | OpReject env uuid string
  | OpInitWorkflow uuid "nat option"
  | OpInitExecution uuid "nat option"
  | OpEvent env uuid task_payload
  | OpTimeout bool uuid go_duration
  | OpRetryTask env bool task_payload int64
  | OpRollbackTask env uuid task_node "vars option"
  | OpForceRolledBack uuid task_node "vars option"
  | OpPushTask env uuid task_node "vars list"
  | OpListen uuid string
  | OpUnlisten uuid string
  | OpDispatch env
  | OpGroup go_time uuid task_groups nat "vars list" "msg + vars list"
  | OpFinish uuid
  | OpRecover go_time workflow_state "task_delta list"
  | OpReport go_time bool
  | OpLoadHistory "(nat \<times> uuid \<times> workflow_state) list option"

definition compensating :: "uuid \<Rightarrow> task_node \<Rightarrow> vars option \<Rightarrow> 'a sched_scheme \<Rightarrow> bool" where
  "compensating u node out s \<longleftrightarrow>
     (\<exists>x \<in> set (log s). case x of Go (JRollback v tasks) \<Rightarrow> v = u \<and> (node, out) \<in> set tasks | _ \<Rightarrow> False)"

fun sys_step :: "sys_op \<Rightarrow> 'a sched_scheme \<Rightarrow> 'a sched_scheme" where
  "sys_step (OpSubmit t w) s = snd (SubmitWorkflow t w s)"
| "sys_step (OpRun t u) s = snd (RunWorkflow t u s)"
| "sys_step (OpRetryWorkflow t u) s = snd (RetryWorkflow t u s)"
| "sys_step (OpSubmitTarget t u) s = submit_target t u s"
| "sys_step (OpRegister w) s = RegisterWorkflow w s"
| "sys_step (OpWebhook t u params) s = snd (TriggerWebhook t u params s)"
| "sys_step (OpCancel u) s = snd (CancelWorkflow u s)"
| "sys_step (OpApprove u) s = snd (ApproveWorkflow u s)"
| "sys_step (OpReject ev u reason) s = snd (RejectWorkflow ev u reason s)"
| "sys_step (OpInitWorkflow u saved) s = snd (asyncInit_workflow u saved s)"
| "sys_step (OpInitExecution u created) s = asyncInit_execution u created s"
| "sys_step (OpEvent ev u payload) s = snd (watch_event ev u payload s)"
| "sys_step (OpTimeout ctxDone u d) s = timeoutAfter ctxDone u d s"
| "sys_step (OpRetryTask ev ctxDone payload d) s =
     (if Go (JRetryTask payload d) \<in> set (log s) then RetryTask ev ctxDone payload s else s)"
| "sys_step (OpRollbackTask ev u node out) s =
     (if compensating u node out s then PushRollbackTask ev u node out s else s)"
| "sys_step (OpForceRolledBack u node out) s =
     (if compensating u node out s then force_rolled_back u (node_Name node) s else s)"
| "sys_step (OpPushTask ev u node ups) s = snd (PushTask ev u node ups s)"
| "sys_step (OpListen u task) s = registerTaskListener u task s"
| "sys_step (OpUnlisten u task) s = unregisterTaskListener u task s"
| "sys_step (OpDispatch ev) s = tryDispatchPending ev s"
| "sys_step (OpGroup t u groups idx ups result) s = snd (group_completed t u groups idx ups result s)"
| "sys_step (OpFinish u) s = finishWorkflow u s"
| "sys_step (OpRecover t st deltas) s = recoverSingleWorkflow t st deltas s"
| "sys_step (OpReport t ok) s = report_write t ok s"
| "sys_step (OpLoadHistory records) s = loadHistory records s"


subsection \<open>The life-cycle invariant\<close>

text \<open>What the log may hold: final states other than PENDING and ROLLED_BACK, no compensation, and
  retries only of payloads that may be retried.\<close>

fun lawful :: "effect \<Rightarrow> bool" where
  "lawful (PersistToMySQL u w x status err st) = (status \<noteq> WorkflowStatusPending \<and> status \<noteq> WorkflowStatusRolledBack)"
| "lawful (Go j) =
     (case j of
        JRollback _ _ \<Rightarrow> False
      | JRetryTask p d \<Rightarrow> \<not> NoRetry p \<and> RetryCount p < tp_MaxRetries p \<and> \<not> Rollback p
      | _ \<Rightarrow> True)"
| "lawful (EtcdPut key p ttl) = (\<not> Rollback p)"
| "lawful (EtcdBatchPut kvs ttl) = (\<forall>kv \<in> set kvs. \<not> Rollback (snd kv))"
| "lawful _ = True"

definition active :: "workflow_state \<Rightarrow> bool" where
  "active st \<longleftrightarrow> st_Status st \<in> {WorkflowStatusRunning, WorkflowStatusPaused}"

definition lifecycle_inv :: "'a wm_state_scheme \<Rightarrow> bool" where
  "lifecycle_inv s \<longleftrightarrow>
     distinct (map fst (runningEntries s))
     \<and> (\<forall>u e. running u s = Some e \<longrightarrow> active (e_state e))
     \<and> (\<forall>x \<in> set (log s). lawful x)
     \<and> completedCount s = persists WorkflowStatusCompleted (log s)
     \<and> failedCount s = persists WorkflowStatusFailed (log s)"

lemma lawful_no_rolled_back: "\<forall>x \<in> set l. lawful x \<Longrightarrow> persists WorkflowStatusRolledBack l = 0"
proof (induction l)
  case (Cons x l)
  then have "\<not> is_persist WorkflowStatusRolledBack x" by (cases x) auto
  with Cons show ?case by simp
qed simp

lemma inv_leaves:
  assumes "leaves_only lawful s s'" and "lifecycle_inv s"
  shows "lifecycle_inv s'"
proof -
  obtain l where grow: "grows_by l s s'" and lawful: "\<forall>x \<in> set l. lawful x" using assms(1) unfolding leaves_only_def by blast
  have "active (e_state e)" if "running u s' = Some e" for u e
    using that grow assms(2) unfolding grows_by_def lifecycle_inv_def by (metis option.distinct(1))
  moreover have "log s' = log s @ l" "completedCount s' = completedCount s + persists WorkflowStatusCompleted l"
    "failedCount s' = failedCount s + persists WorkflowStatusFailed l"
    "distinct (map fst (runningEntries s) ) \<longrightarrow> distinct (map fst (runningEntries s'))"
    using grow lawful_no_rolled_back [OF lawful] by (simp_all add: grows_by_def)
  ultimately show ?thesis using assms(2) lawful by (auto simp: lifecycle_inv_def)
qed

lemma inv_set_entry:
  assumes "active (e_state e)" and "lifecycle_inv s"
  shows "lifecycle_inv (set_entry u e s)"
  using assms by (simp add: lifecycle_inv_def) (simp add: set_entry_def distinct_update)

lemma inv_emit: "lawful x \<Longrightarrow> (\<And>st. \<not> is_persist st x) \<Longrightarrow> lifecycle_inv s \<Longrightarrow> lifecycle_inv (emit x s)"
  by (rule inv_leaves [OF leaves_emit])

lemma inv_Persist:
  "st_Status (e_state e) \<noteq> WorkflowStatusPending \<Longrightarrow> st_Status (e_state e) \<noteq> WorkflowStatusRolledBack
   \<Longrightarrow> lifecycle_inv s \<Longrightarrow> lifecycle_inv (PersistWorkflowLocked u e s)"
  by (rule inv_leaves [OF leaves_Persist]) simp_all

lemma inv_active: "lifecycle_inv s \<Longrightarrow> running u s = Some e \<Longrightarrow> active (e_state e)"
  by (simp add: lifecycle_inv_def)

lemma inv_frame:
  assumes "log s' = log s" and "runningEntries s' = runningEntries s"
    and "completedCount s' = completedCount s" and "failedCount s' = failedCount s"
  shows "lifecycle_inv s' = lifecycle_inv s"
  using assms by (simp add: lifecycle_inv_def running_def)


subsection \<open>Every operation keeps the invariant\<close>

lemma dispatch_lawful: "dispatch_effect x \<Longrightarrow> lawful x"
  by (cases x rule: dispatch_effect.cases) (auto split: job.splits)

lemmas inv_dispatch = inv_leaves [OF leaves_mono [OF _ dispatch_lawful]]

named_theorems keeps_inv \<comment> \<open>operations that keep the life-cycle invariant\<close>

lemmas inv_handlers [keeps_inv] =
  inv_dispatch [OF leaves_markWorkflowFailed] inv_dispatch [OF leaves_tryDispatchPending]
  inv_dispatch [OF leaves_ReleaseSlotForWorkflow] inv_leaves [OF leaves_notify] inv_leaves [OF leaves_release_slot]

lemma inv_saga [keeps_inv]: "lifecycle_inv s \<Longrightarrow> lifecycle_inv (startSagaRollback u failed s)"
  by (rule inv_leaves [OF leaves_mono [OF leaves_startSagaRollback]]) (auto split: effect.splits)

lemma inv_broadcast [keeps_inv]: "lifecycle_inv s \<Longrightarrow> lifecycle_inv (emit (Broadcast tgt ty) s)"
  by (rule inv_emit) simp_all

lemma inv_modify_state:
  assumes "\<And>st. st_Status (f st) = st_Status st" and "lifecycle_inv s"
  shows "lifecycle_inv (modify_state u f s)"
proof (cases "running u s")
  case (Some e)
  have "active (f (e_state e))" using inv_active [OF assms(2) Some] by (simp add: active_def assms(1))
  with Some show ?thesis by (simp add: modify_state_def inv_set_entry assms(2))
qed (simp add: modify_state_def assms(2))

lemma inv_clearFailedTask [keeps_inv]: "lifecycle_inv s \<Longrightarrow> lifecycle_inv (clearFailedTask u task s)"
  unfolding clearFailedTask_def by (rule inv_modify_state) simp_all

lemma collect_status: "collectTaskDeltas st = (ds, st') \<Longrightarrow> st_Status st' = st_Status st"
  by (auto simp: collectTaskDeltas_def Let_def)

lemma inv_snapshot [keeps_inv]:
  assumes inv: "lifecycle_inv s"
  shows "lifecycle_inv (snapshotRunningWorkflow t u s)"
proof -
  obtain pass s1 where th: "snapshotThrottle t u snapshotThrottleInterval s = (pass, s1)" by fastforce
  then have 1: "log s1 = log s" "runningEntries s1 = runningEntries s" "completedCount s1 = completedCount s" "failedCount s1 = failedCount s"
    by (auto simp: snapshotThrottle_def split: option.splits if_splits)
  obtain allowed b where al: "Allow t (mysqlBreaker s1) = (allowed, b)" by fastforce
  let ?s2 = "s1\<lparr>mysqlBreaker := b\<rparr>"
  have inv1: "lifecycle_inv s1" using inv inv_frame [of s1 s] 1 by simp
  then have inv2: "lifecycle_inv ?s2" using inv_frame [of ?s2 s1] by simp
  show ?thesis
  proof (cases "running u ?s2")
    case None
    with inv1 inv2 show ?thesis by (auto simp: snapshotRunningWorkflow_def th al Let_def)
  next
    case (Some e)
    obtain deltas st' where col: "collectTaskDeltas (e_state e) = (deltas, st')" by fastforce
    have "active st'" using inv_active [OF inv2 Some] by (simp add: active_def collect_status [OF col])
    then have "lifecycle_inv (set_entry u (e\<lparr>e_state := st'\<rparr>) ?s2)" by (intro inv_set_entry inv2) simp
    then have "lifecycle_inv (emit (Go (JSaveTaskDeltas i snap)) (set_entry u (e\<lparr>e_state := st'\<rparr>) ?s2))" for i snap
      by (intro inv_emit) simp_all
    with inv1 inv2 Some show ?thesis by (auto simp: snapshotRunningWorkflow_def th al col Let_def)
  qed
qed

lemma inv_saveTaskRecord [keeps_inv]: "lifecycle_inv s \<Longrightarrow> lifecycle_inv (saveTaskRecord t payload x w s)"
  using inv_frame [of "s\<lparr>mysqlBreaker := snd (Allow t (mysqlBreaker s))\<rparr>" s]
  by (auto simp: saveTaskRecord_def Let_def intro!: inv_emit split: prod.splits)

lemma inv_cleanupTaskEtcdKey [keeps_inv]: "lifecycle_inv s \<Longrightarrow> lifecycle_inv (cleanupTaskEtcdKey payload s)"
  by (auto simp: cleanupTaskEtcdKey_def intro!: inv_emit)

lemma inv_recordTaskCompleted [keeps_inv]: "lifecycle_inv s \<Longrightarrow> lifecycle_inv (recordTaskCompleted t u payload s)"
  by (auto simp: recordTaskCompleted_def Let_def intro!: keeps_inv inv_modify_state split: option.splits)

lemma inv_recordTaskFailed [keeps_inv]: "lifecycle_inv s \<Longrightarrow> lifecycle_inv (recordTaskFailed t u payload s)"
  by (auto simp: recordTaskFailed_def Let_def intro!: keeps_inv inv_modify_state)

lemma inv_finish_like:
  assumes "lifecycle_inv s" and "\<And>e. running u s = Some e \<Longrightarrow> active (e_state e) \<Longrightarrow>
      st_Status (e_state (f e)) \<noteq> WorkflowStatusPending \<and> st_Status (e_state (f e)) \<noteq> WorkflowStatusRolledBack"
  shows "lifecycle_inv (case running u s of None \<Rightarrow> s | Some e \<Rightarrow> PersistWorkflowLocked u (f e) s)"
  using assms inv_active [OF assms(1)] by (auto intro!: inv_Persist split: option.splits)

lemma inv_finishWorkflow [keeps_inv]: "lifecycle_inv s \<Longrightarrow> lifecycle_inv (finishWorkflow u s)"
  unfolding finishWorkflow_def by (intro inv_broadcast inv_finish_like) simp_all

lemma inv_fail_group [keeps_inv]: "lifecycle_inv s \<Longrightarrow> lifecycle_inv (fail_group u err s)"
  unfolding fail_group_def by (intro inv_broadcast inv_finish_like) simp_all

lemma inv_skip [keeps_inv]: "lifecycle_inv s \<Longrightarrow> lifecycle_inv (skip_failed_task ev u payload s)"
  unfolding skip_failed_task_def Let_def ExecuteSkip_def
  by (intro keeps_inv inv_finish_like) (auto simp: skip_entry_def active_def)

lemma inv_handleTaskFailed [keeps_inv]:
  assumes "lifecycle_inv s" and "\<not> Rollback payload"
  shows "lifecycle_inv (handleTaskFailed ev u st payload s)"
proof -
  have "lifecycle_inv (default_failure ev u payload s)"
    using assms by (auto simp: default_failure_def intro!: keeps_inv inv_emit [of "Go (JRetryTask _ _)"])
  moreover have "lifecycle_inv (ExecuteFailFast u payload s)" "lifecycle_inv (ExecuteRollback u payload s)"
    using assms(1) by (auto simp: ExecuteFailFast_def ExecuteRollback_def Let_def intro!: keeps_inv)
  ultimately show ?thesis
    using assms(1) by (auto simp: handleTaskFailed_def Let_def intro!: keeps_inv)
qed

text \<open>A rollback that is reported done for a running workflow persists it with the status it has;
  the status ROLLED_BACK would need a running entry after that.\<close>

lemma inv_handleRollbackCompleted [keeps_inv]:
  assumes "lifecycle_inv s"
  shows "lifecycle_inv (handleRollbackCompleted u payload s)"
proof (cases "running u s")
  case (Some e)
  let ?s1 = "PersistWorkflowLocked u (mark_rolled_back (tp_TaskName payload) e) s"
  have "lifecycle_inv ?s1"
    using inv_active [OF assms Some] assms by (intro inv_Persist) (auto simp: mark_rolled_back_def active_def)
  moreover have "running u (emit x ?s1) = None" for x by (simp add: wm_simps)
  ultimately show ?thesis
    using Some by (auto simp: handleRollbackCompleted_def Let_def finish_rollback_gone intro!: inv_broadcast)
qed (simp add: handleRollbackCompleted_def assms)

lemma inv_watch_event [keeps_inv]: "lifecycle_inv s \<Longrightarrow> lifecycle_inv (snd (watch_event ev u payload s))"
  by (auto simp: watch_event_def intro!: keeps_inv split: option.splits task_status.splits)

lemma inv_HandleTimeoutPolicy: "lifecycle_inv s \<Longrightarrow> lifecycle_inv (snd (HandleTimeoutPolicy u st d s))"
  by (auto simp: HandleTimeoutPolicy_def Let_def intro!: keeps_inv)

lemma inv_timeoutAfter [keeps_inv]:
  assumes "lifecycle_inv s"
  shows "lifecycle_inv (timeoutAfter ctxDone u d s)"
proof (cases "running u s")
  case (Some e)
  let ?e = "e\<lparr>e_state := (e_state e)\<lparr>st_Error := MsgTimeout d\<rparr>\<rparr>"
  have "lifecycle_inv (PersistWorkflowLocked u ?e s)"
    using inv_active [OF assms Some] assms by (intro inv_Persist) (auto simp: active_def)
  then have "lifecycle_inv (snd (HandleTimeoutPolicy u (e_state ?e) d (PersistWorkflowLocked u ?e s)))"
    by (rule inv_HandleTimeoutPolicy)
  then show ?thesis
    using Some assms by (auto simp: timeoutAfter_def Let_def intro!: keeps_inv split: prod.splits)
qed (simp add: timeoutAfter_def assms)


lemma inv_Submit [keeps_inv]:
  assumes "lifecycle_inv s"
  shows "lifecycle_inv (snd (SubmitWorkflow t w s))"
proof -
  have 1: "lifecycle_inv (set_entry (wf_UUID w) (new_entry t (nextCtx s) w) (s\<lparr>nextCtx := nextCtx s + 1\<rparr>))"
    using inv_frame [of "s\<lparr>nextCtx := nextCtx s + 1\<rparr>" s] assms
    by (intro inv_set_entry) (simp_all add: new_entry_def active_def)
  then show ?thesis
    using assms by (auto simp: SubmitWorkflow_def Let_def intro!: inv_emit split: sum.splits)
qed

lemma inv_RunWorkflow [keeps_inv]: "lifecycle_inv s \<Longrightarrow> lifecycle_inv (snd (RunWorkflow t u s))"
  by (auto simp: RunWorkflow_def intro!: keeps_inv split: option.splits)

lemma inv_submit_target [keeps_inv]: "lifecycle_inv s \<Longrightarrow> lifecycle_inv (submit_target t u s)"
  by (auto simp: submit_target_def intro!: keeps_inv split: option.splits)

lemma inv_RetryWorkflow [keeps_inv]:
  assumes "lifecycle_inv s"
  shows "lifecycle_inv (snd (RetryWorkflow t u s))"
proof -
  have "lifecycle_inv (removeFromHistoryOrder i (removeHistoryByUUIDEntry u i (deleteHistory i s)))" for i
  proof -
    obtain b where "removeHistoryByUUIDEntry u i (deleteHistory i s) = (deleteHistory i s)\<lparr>workflowHistoryByUUID := b\<rparr>"
      using removeHistory_frame by blast
    then show ?thesis
      using inv_frame [of "removeFromHistoryOrder i (removeHistoryByUUIDEntry u i (deleteHistory i s))" s] assms
      by (simp add: removeFromHistoryOrder_def deleteHistory_def)
  qed
  with assms show ?thesis by (auto simp: RetryWorkflow_def Let_def intro!: inv_Submit split: option.splits)
qed

lemma inv_RegisterWorkflow [keeps_inv]: "lifecycle_inv s \<Longrightarrow> lifecycle_inv (RegisterWorkflow w s)"
  by (subst inv_frame [of _ s]) (auto simp: RegisterWorkflow_def RegisterWorkflow_tables_def Let_def split: sum.splits)

lemma inv_TriggerWebhook [keeps_inv]: "lifecycle_inv s \<Longrightarrow> lifecycle_inv (snd (TriggerWebhook t u params s))"
  by (auto simp: TriggerWebhook_def intro!: inv_Submit split: sum.splits option.splits list.splits)

lemma inv_CancelWorkflow [keeps_inv]:
  assumes "lifecycle_inv s"
  shows "lifecycle_inv (snd (CancelWorkflow u s))"
proof (cases "running u s")
  case (Some e)
  have "lifecycle_inv (PersistWorkflowLocked u (cancelled_entry e) s)"
    using inv_active [OF assms Some] assms by (intro inv_Persist) (auto simp: cancelled_entry_def active_def)
  with Some assms show ?thesis by (auto simp: CancelWorkflow_def Let_def intro!: keeps_inv)
qed (simp add: CancelWorkflow_def assms)

lemma inv_ApproveWorkflow [keeps_inv]:
  assumes "lifecycle_inv s"
  shows "lifecycle_inv (snd (ApproveWorkflow u s))"
proof (cases "running u s")
  case (Some e)
  have "lifecycle_inv (set_entry u (e\<lparr>e_state := (e_state e)\<lparr>st_Status := WorkflowStatusRunning\<rparr>\<rparr>) s)"
    using assms by (intro inv_set_entry) (simp_all add: active_def)
  with Some assms show ?thesis by (auto simp: ApproveWorkflow_def Let_def intro!: keeps_inv inv_emit)
qed (simp add: ApproveWorkflow_def assms)

lemma inv_RejectWorkflow [keeps_inv]: "lifecycle_inv s \<Longrightarrow> lifecycle_inv (snd (RejectWorkflow ev u reason s))"
  by (auto simp: RejectWorkflow_def Let_def zero_payload_def intro!: keeps_inv split: option.splits)

lemma inv_cleanup [keeps_inv]:
  assumes "lifecycle_inv s"
  shows "lifecycle_inv (cleanupWorkflowState u s)"
proof (rule inv_leaves [OF _ assms])
  have "running v (cleanupWorkflowState u s) = (if v = u then None else running v s)" for v
    by (cases "map_of (runningEntries s) u")
       (simp_all add: cleanupWorkflowState_def cleanSnapshotThrottle_def cleanupTaskListeners_def cancel_ctx_def running_def
        delete_conv' Let_def)
  then have "grows_by [] s (cleanupWorkflowState u s)"
    by (cases "running u s")
       (simp_all add: distinct_delete grows_by_def cleanupWorkflowState_def cleanSnapshotThrottle_def cleanupTaskListeners_def cancel_ctx_def Let_def)
  then show "leaves_only lawful s (cleanupWorkflowState u s)" by (auto simp: leaves_only_def intro: exI [of _ "[]"])
qed

lemma inv_asyncInit [keeps_inv]:
  "lifecycle_inv s \<Longrightarrow> lifecycle_inv (snd (asyncInit_workflow u saved s))"
  "lifecycle_inv s \<Longrightarrow> lifecycle_inv (asyncInit_execution u created s)"
  by (auto simp: asyncInit_workflow_def asyncInit_execution_def intro!: keeps_inv inv_modify_state split: option.splits)

lemma inv_RetryTask [keeps_inv]:
  assumes "lifecycle_inv s" and "\<not> Rollback payload"
  shows "lifecycle_inv (RetryTask ev ctxDone payload s)"
proof -
  let ?u = "tp_WorkflowID payload"
  let ?s1 = "if 0 < MaxConcurrentTasks (conf s) \<or> 0 < PerWorkflowMaxConcurrency (conf s)
      then snd (incPerWfActive ?u (if 0 < MaxConcurrentTasks (conf s) then addGlobal 1 s else s)) else s"
  have "lifecycle_inv ?s1"
    using assms(1) by (subst inv_frame [of _ s]) (simp_all add: incPerWfActive_def addGlobal_def Let_def)
  with assms show ?thesis unfolding RetryTask_def Let_def by (auto intro!: keeps_inv inv_emit)
qed

lemma inv_doPush:
  "lifecycle_inv s \<Longrightarrow> lifecycle_inv (snd (doPush ev u node ups s))"
  by (auto simp: doPush_def Let_def new_payload_def zero_payload_def intro!: inv_emit split: option.splits)

lemma inv_push_or_release: "lifecycle_inv s \<Longrightarrow> lifecycle_inv (snd (push_or_release ev g u node ups s))"
  using inv_doPush [of s ev u node ups] by (auto simp: push_or_release_def intro!: keeps_inv split: prod.splits sum.splits)

lemma inv_PushTask [keeps_inv]:
  assumes inv: "lifecycle_inv s"
  shows "lifecycle_inv (snd (PushTask ev u node ups s))"
proof -
  have slots: "lifecycle_inv (snd (incPerWfActive v r)) = lifecycle_inv r" "lifecycle_inv (addGlobal d r) = lifecycle_inv r"
    "lifecycle_inv (decPerWfActive v r) = lifecycle_inv r" "lifecycle_inv (enqueuePending t v node ups pr r) = lifecycle_inv r"
    for v d t pr and r :: "'a wm_state_scheme"
    by (subst inv_frame [of _ r], simp_all add: incPerWfActive_def addGlobal_def decPerWfActive_def enqueuePending_def Let_def)+
  obtain n s1 where inc: "incPerWfActive u s = (n, s1)" by fastforce
  then have "lifecycle_inv s1" using slots(1) [of u s] inv by simp
  then show ?thesis
    using inv by (auto simp: PushTask_def Let_def inc slots intro!: inv_push_or_release)
qed

lemma inv_advance:
  "lifecycle_inv s \<Longrightarrow> lifecycle_inv (snd (advanceWorkflow t u st groups cur outs merged s))"
proof -
  assume inv: "lifecycle_inv s"
  have "lifecycle_inv (pauseForApproval t u st cur out s)" for out
    using inv by (auto simp: pauseForApproval_def active_def intro!: keeps_inv inv_set_entry split: option.splits)
  with inv show ?thesis
    by (auto simp: advanceWorkflow_def pushBranchGroups_def Let_def intro!: keeps_inv split: control.splits)
qed

lemma inv_group_completed [keeps_inv]:
  "lifecycle_inv s \<Longrightarrow> lifecycle_inv (snd (group_completed t u groups idx ups result s))"
  by (auto simp: group_completed_def intro!: keeps_inv inv_advance split: sum.splits option.splits)

lemma inv_recover [keeps_inv]:
  assumes inv: "lifecycle_inv s"
  shows "lifecycle_inv (recoverSingleWorkflow t st deltas s)"
proof -
  have entry: "lifecycle_inv (set_entry u e (s\<lparr>nextCtx := n\<rparr>))" if "st_Status (e_state e) = WorkflowStatusRunning" for u e n
    using inv inv_frame [of "s\<lparr>nextCtx := n\<rparr>" s] that by (intro inv_set_entry) (simp_all add: active_def)
  have job: "lifecycle_inv (emit (Go (JWatchWorkflowStatus c u)) r)" "lifecycle_inv (emit (Go (JTimeoutAfter c u d)) r)"
    "lifecycle_inv (emit (Go (JExecuteWorkflow u ups k)) r)" if "lifecycle_inv r" for c u d ups k and r :: "'a wm_state_scheme"
    using that by (auto intro!: inv_emit)
  obtain k ups where rp: "recovery_point (CompletedTasks (ApplyDeltas deltas st)) 0
      (TaskGroups (st_Workflow (ApplyDeltas deltas st))) [] = (k, ups)" by fastforce
  define u where "u = (if WorkflowUUID st = '''' then wf_UUID (st_Workflow st) else WorkflowUUID st)"
  have branches: "lifecycle_inv (if b then x else y)" if "b \<Longrightarrow> lifecycle_inv x" "\<not> b \<Longrightarrow> lifecycle_inv y"
    for b and x y :: "'a wm_state_scheme" using that by simp
  show ?thesis
  proof (cases "u = '''' \<or> running u s \<noteq> None")
    case True
    then show ?thesis
      unfolding recoverSingleWorkflow_def Let_def rp prod.case u_def [symmetric] using inv by auto
  next
    case False
    then have "u \<noteq> ''''" "running u s = None" by simp_all
    then show ?thesis
      unfolding recoverSingleWorkflow_def Let_def rp prod.case u_def [symmetric]
      by (simp only: if_False option.case) (intro branches job entry, simp_all)
  qed
qed

lemma inv_others [keeps_inv]:
  "lifecycle_inv s \<Longrightarrow> lifecycle_inv (registerTaskListener u task s)"
  "lifecycle_inv s \<Longrightarrow> lifecycle_inv (unregisterTaskListener u task s)"
  "lifecycle_inv s \<Longrightarrow> lifecycle_inv (report_write t ok s)"
  using inv_frame [of "registerTaskListener u task s" s] inv_frame [of "unregisterTaskListener u task s" s]
    inv_frame [of "report_write t ok s" s]
  by (auto simp: registerTaskListener_def unregisterTaskListener_def report_write_def Let_def split: option.splits)

lemma inv_load_record: "lifecycle_inv (load_record r s) = lifecycle_inv s"
  by (rule inv_frame) (cases r, simp add: load_record_def)+

lemma inv_loadHistory [keeps_inv]: "lifecycle_inv s \<Longrightarrow> lifecycle_inv (loadHistory records s)"
proof -
  have "lifecycle_inv s \<Longrightarrow> lifecycle_inv (fold load_record rs s)" for rs
    by (induction rs arbitrary: s) (simp_all add: inv_load_record)
  then show "lifecycle_inv s \<Longrightarrow> lifecycle_inv (loadHistory records s)"
    by (simp add: loadHistory_def split: option.splits)
qed

lemma not_compensating: "lifecycle_inv s \<Longrightarrow> \<not> compensating u node out s"
proof
  assume inv: "lifecycle_inv s" and "compensating u node out s"
  then obtain x where x: "x \<in> set (log s)" "case x of Go (JRollback v tasks) \<Rightarrow> v = u \<and> (node, out) \<in> set tasks | _ \<Rightarrow> False"
    unfolding compensating_def by blast
  have "lawful x" using inv x(1) by (simp add: lifecycle_inv_def)
  with x(2) show False by (cases x; simp) (simp split: job.splits)
qed

lemma sys_step_inv: "lifecycle_inv s \<Longrightarrow> lifecycle_inv (sys_step x s)"
proof (cases x)
  case (OpRetryTask ev ctxDone payload d)
  assume inv: "lifecycle_inv s"
  have "\<not> Rollback payload" if "Go (JRetryTask payload d) \<in> set (log s)"
    using inv that by (force simp: lifecycle_inv_def)
  with inv show ?thesis by (auto simp: OpRetryTask intro!: keeps_inv)
qed (auto simp: not_compensating intro!: keeps_inv)

interpretation life: component sys_step lifecycle_inv
  by unfold_locales (rule sys_step_inv)


subsection \<open>Properties of the life cycle\<close>

definition new_scheduler :: "config \<Rightarrow> sched" where
  "new_scheduler c =
     \<lparr>conf = c, log = [], globalActive = 0, perWfActive = Map.empty, pendingPQ = [], runningEntries = [],
      workflowHistory = [], workflowHistoryByUUID = Map.empty, registeredWorkflows = [], historyOrder = [],
      completedCount = 0, failedCount = 0, snapshotLastTime = Map.empty, nextCtx = 0, cancelledCtx = [],
      etm = newEventTriggerManager, taskListeners = Map.empty,
      mysqlBreaker = NewBreaker ''mysql-persist'' 5 (30 * Second) 0\<rparr>"

text \<open>C1. The life cycle of workflows, for every sequence of operations of a new scheduler. A
  workflow in the running table is RUNNING or PAUSED; a workflow leaves it with a status other
  than PENDING and ROLLED_BACK; the counters of completed and failed workflows count exactly the
  final states COMPLETED and FAILED handed to MySQL; a retry is only ever scheduled for a payload
  that may be retried and has retries left; and no compensation is ever started and no rollback
  task ever written, whatever was completed before a failure, a timeout or a cancellation.\<close>

theorem scheduler_life_cycle:
  fixes ops :: "sys_op list" and s :: sched
  assumes s: "s = fold sys_step ops (new_scheduler c)"
  shows "(\<forall>u e. running u s = Some e \<longrightarrow> st_Status (e_state e) \<in> {WorkflowStatusRunning, WorkflowStatusPaused})
     \<and> (\<forall>u w x status err st. PersistToMySQL u w x status err st \<in> set (log s) \<longrightarrow>
          status \<in> {WorkflowStatusRunning, WorkflowStatusPaused, WorkflowStatusRollingBack, WorkflowStatusCompleted, WorkflowStatusFailed})
     \<and> completedCount s = persists WorkflowStatusCompleted (log s)
     \<and> failedCount s = persists WorkflowStatusFailed (log s)
     \<and> (\<forall>p d. Go (JRetryTask p d) \<in> set (log s) \<longrightarrow> \<not> NoRetry p \<and> RetryCount p < tp_MaxRetries p)
     \<and> (\<forall>u tasks. Go (JRollback u tasks) \<notin> set (log s))
     \<and> (\<forall>key p ttl. EtcdPut key p ttl \<in> set (log s) \<longrightarrow> \<not> Rollback p)
     \<and> (\<forall>kvs ttl. EtcdBatchPut kvs ttl \<in> set (log s) \<longrightarrow> (\<forall>kv \<in> set kvs. \<not> Rollback (snd kv)))"
proof -
  have "lifecycle_inv (new_scheduler c)" by (simp add: lifecycle_inv_def new_scheduler_def running_def)
  then have inv: "lifecycle_inv s" unfolding s by (rule life.run_inv)
  have lawful: "lawful x" if "x \<in> set (log s)" for x using inv that by (simp add: lifecycle_inv_def)
  have status: "st \<in> {WorkflowStatusRunning, WorkflowStatusPaused, WorkflowStatusRollingBack, WorkflowStatusCompleted, WorkflowStatusFailed}"
    if "st \<noteq> WorkflowStatusPending" "st \<noteq> WorkflowStatusRolledBack" for st using that by (cases st) simp_all
  show ?thesis
    using inv lawful status unfolding lifecycle_inv_def active_def by (fastforce dest!: lawful)
qed


lemma demo_workflow_simps:
  "TaskGroups demo_workflow = [[named_node ''a'']]" "wf_Name demo_workflow = ''demo''" "wf_UUID demo_workflow = ''demo''"
  "ErrorPolicy demo_workflow = None" "TimeoutSec demo_workflow = 0"
  by (simp_all add: demo_workflow_def AddTaskGroup_def AddTaskNodeGroup_def NewWorkflow_def)

lemma demo_workflow_valid: "validateWorkflowTasks demo_workflow = Inr ()" "validateWorkflowName ''demo'' = Inr ()"
  unfolding validation_exact name_check_Inr
  by (simp_all add: well_formed_def demo_workflow_def AddTaskNodeGroup_def AddTaskGroup_def NewWorkflow_def named_node_def
      policy_ok_def trigger_ok_def AllTaskNodes_def node_ok_def loop_ok_def GetTaskNodeType_def resolved_name_def
      branch_nodes_def branch_list_def mapping_ok_def default_branch_ok_def name_char_def)

theorem scheduler_life_cycle_witness:
  "(\<forall>u tasks. Go (JRollback u tasks) \<notin> set (log (fold sys_step [OpSubmit 0 demo_workflow, OpCancel ''demo''] (new_scheduler demo_conf))))
   \<and> completedCount (fold sys_step [OpSubmit 0 demo_workflow, OpCancel ''demo''] (new_scheduler demo_conf))
     = persists WorkflowStatusCompleted (log (fold sys_step [OpSubmit 0 demo_workflow, OpCancel ''demo''] (new_scheduler demo_conf)))"
  using scheduler_life_cycle [OF refl, of "[OpSubmit 0 demo_workflow, OpCancel ''demo'']" demo_conf] by blast





text \<open>C13. Cancelling, as the code performs it. An active workflow leaves the running table and one
  record of it is written, with the cancellation as its error but the status it had (RUNNING or
  PAUSED), its context is cancelled and the cancellation announced; the rollback that is requested
  afterwards finds no running entry and does nothing. Any other workflow is refused and nothing
  changes.\<close>

theorem CancelWorkflow_effects:
  "case running u s of
     None \<Rightarrow> CancelWorkflow u s = (Inl (NotRunning u), s)
   | Some e \<Rightarrow>
       if active (e_state e) then
         CancelWorkflow u s = (Inr (), emit (Broadcast (ToWorkflow u) EventWorkflowCancelled) (PersistWorkflowLocked u (cancelled_entry e) s))
         \<and> running u (snd (CancelWorkflow u s)) = None
         \<and> st_Status (e_state (cancelled_entry e)) = st_Status (e_state e)
         \<and> log (snd (CancelWorkflow u s)) = log s @
             [PersistToMySQL u (st_WorkflowID (e_state e)) (ExecutionID (e_state e)) (st_Status (e_state e)) MsgCancelled
                (e_state (cancelled_entry e)),
              Broadcast (ToWorkflow u) EventWorkflowCancelled]
       else CancelWorkflow u s = (Inl (NotActive u), s)"
proof (cases "running u s")
  case (Some e)
  have "running u (emit x (PersistWorkflowLocked u e' s)) = None" for x e' by (simp add: wm_simps)
  with Some show ?thesis
    by (cases "active (e_state e)")
       (auto simp: CancelWorkflow_def active_def startSagaRollback_def Let_def wm_simps cancelled_entry_def)
qed (simp add: CancelWorkflow_def)


subsection \<open>Pausing and approving\<close>

lemma clean_output_no_markers:
  "GetApproval (NewContextFromMap (clean_output out)) = ''''"
  "GetBranch (NewContextFromMap (clean_output out)) = ''''"
  "GetSkipGroups (NewContextFromMap (clean_output out)) = 0"
  by (simp_all add: GetApproval_def GetBranch_def GetSkipGroups_def GetString_def ctx_Get_def NewContextFromMap_def clean_output_def)

lemma snapshot_keeps_pause:
  assumes "running u s = Some e"
  shows "\<exists>e'. running u (snapshotRunningWorkflow t u s) = Some e' \<and> st_Status (e_state e') = st_Status (e_state e)
     \<and> PausedTaskName (e_state e') = PausedTaskName (e_state e) \<and> PausedGroupIdx (e_state e') = PausedGroupIdx (e_state e)
     \<and> PausedTaskOutput (e_state e') = PausedTaskOutput (e_state e) \<and> st_Workflow (e_state e') = st_Workflow (e_state e)"
proof -
  have "st_Status (snd (collectTaskDeltas st)) = st_Status st" "PausedTaskName (snd (collectTaskDeltas st)) = PausedTaskName st"
    "PausedGroupIdx (snd (collectTaskDeltas st)) = PausedGroupIdx st" "PausedTaskOutput (snd (collectTaskDeltas st)) = PausedTaskOutput st"
    "st_Workflow (snd (collectTaskDeltas st)) = st_Workflow st" for st
    by (simp_all add: collectTaskDeltas_def Let_def)
  then show ?thesis using running_snapshot [of u t u s] assms by auto
qed

text \<open>C11. Pausing and approving fit together. When group \<open>idx\<close> of a running workflow asks for
  approval, and the workflow is then approved, it is RUNNING again and execution goes on exactly
  once, with the group after \<open>idx\<close> and the paused task's output without any control marker (so
  that the request for approval, a branch or a skip is not seen twice); if \<open>idx\<close> was the last
  group, the workflow is completed instead. A second approval is refused.\<close>

theorem approve_after_pause:
  assumes run: "running u s = Some e" and groups: "TaskGroups (st_Workflow (e_state e)) = groups"
    and idx: "idx < length groups"
    and paused: "s1 = pauseForApproval t u (e_state e) idx out s" and approved: "ApproveWorkflow u s1 = (r, s2)"
  shows "r = Inr ()
     \<and> (Suc idx < length groups \<longrightarrow>
          (\<exists>e2. running u s2 = Some e2 \<and> st_Status (e_state e2) = WorkflowStatusRunning)
          \<and> log s2 = log s1 @ [Broadcast (ToWorkflow u) EventWorkflowApproved,
                                  Go (JExecuteWorkflow u [clean_output out] (int idx + 1))]
          \<and> fst (ApproveWorkflow u s2) = Inl (NotPaused u WorkflowStatusRunning)
          \<and> (\<forall>gs cur. control_of gs cur [clean_output out] = CtlNext))
     \<and> (Suc idx = length groups \<longrightarrow>
          running u s2 = None \<and> completedCount s2 = completedCount s1 + 1
          \<and> fst (ApproveWorkflow u s2) = Inl (NotRunning u))"
proof -
  let ?st = "(e_state e)\<lparr>st_Status := WorkflowStatusPaused,
      PausedTaskName := findTaskNameInOutput (TaskGroups (st_Workflow (e_state e))) idx,
      PausedTaskOutput := Some out, PausedGroupIdx := int idx\<rparr>"
  have "running u (set_entry u (e\<lparr>e_state := ?st\<rparr>) s) = Some (e\<lparr>e_state := ?st\<rparr>)" by simp
  from snapshot_keeps_pause [OF this, of t] obtain e1 where e1: "running u s1 = Some e1"
    "st_Status (e_state e1) = WorkflowStatusPaused" "PausedGroupIdx (e_state e1) = int idx"
    "PausedTaskOutput (e_state e1) = Some out" "TaskGroups (st_Workflow (e_state e1)) = groups"
    using run groups by (auto simp: paused pauseForApproval_def)
  have ctl: "control_of gs cur [clean_output out] = CtlNext" for gs cur
    by (simp add: Let_def clean_output_no_markers)
  show ?thesis
  proof (cases "Suc idx = length groups")
    case True
    let ?t = "emit (Broadcast (ToWorkflow u) EventWorkflowApproved)
        (set_entry u (e1\<lparr>e_state := (e_state e1)\<lparr>st_Status := WorkflowStatusRunning\<rparr>\<rparr>) s1)"
    have "int idx = int (length groups) - 1" using True by simp
    then have "r = Inr ()" "s2 = finishWorkflow u ?t" using approved e1 by (simp_all add: ApproveWorkflow_def Let_def)
    moreover have "running u (finishWorkflow u ?t) = None" "completedCount (finishWorkflow u ?t) = completedCount s1 + 1"
      by (simp_all add: finishWorkflow_def wm_simps) (simp add: set_entry_def)
    ultimately show ?thesis using True by (simp add: ApproveWorkflow_def)
  next
    case False
    with idx have "int idx < int (length groups) - 1" by simp
    with False show ?thesis
      using approved e1 idx
      by (auto simp: ApproveWorkflow_def Let_def ctl vars_of_def simp del: control_of.simps)
        (auto simp: set_entry_def simp del: control_of.simps)
  qed
qed

theorem approve_after_pause_witness:
  "running ''w'' (snd (ApproveWorkflow ''w'' (pauseForApproval 5 ''w'' (e_state demo_active) 0 Map.empty demo_sched))) = None"
  using approve_after_pause [OF demo_sched_running refl _ refl surjective_pairing, of 0 5 Map.empty]
  by (simp add: demo_active_def pending_state_def demo_workflow_simps)

subsection \<open>What events start\<close>

text \<open>The targets of the goroutines of event chains (\<open>submit_target\<close>) in a log.\<close>

definition chained :: "effect list \<Rightarrow> uuid list" where
  "chained fs = concat (map (\<lambda>f. case f of Go (JSubmitTarget v) \<Rightarrow> [v] | _ \<Rightarrow> []) fs)"

lemma chained_simps [simp]:
  "chained (fs @ gs) = chained fs @ chained gs" "chained [] = []" "chained (Broadcast a e # fs) = chained fs"
  "chained (PersistToMySQL v k i st err w # fs) = chained fs" "chained (map (\<lambda>v. Go (JSubmitTarget v)) vs) = vs"
  by (simp_all add: chained_def comp_def)


end
