(* ===== verification/Task_Queue.thy ===== *)
theory Task_Queue
  imports Go_Heap Task_Payload
begin

text \<open>
  \<^verbatim>\<open>infra/engine/runtime/priority_queue.go\<close>: the queue in which a worker keeps the task events it
  has received. The heap and its order are the code's; the specification is the list of waiting
  events in the order of their arrival, from which the first one of the highest priority is
  taken. The one consumer of the queue blocks on a channel of capacity one (\<^verbatim>\<open>notEmpty\<close>) and on
  the worker's context; its wake-ups are steps of a relation.
\<close>

subsection \<open>Events\<close>

datatype event_type = EventPut | EventDelete

record event =
  ev_Type :: event_type
  ev_Key :: string
  ev_Value :: string
  ev_Payload :: "task_payload option"


subsection \<open>The queue\<close>

record prioritizedTask =
  pr_event :: event
  pr_priority :: int
  pr_index :: int

record priorityTaskQueue =
  tq_items :: "prioritizedTask list"
  notEmpty :: bool
  tq_closed :: bool
  nextIndex :: int

definition newPriorityTaskQueue :: priorityTaskQueue where
  "newPriorityTaskQueue = \<lparr>tq_items = [], notEmpty = False, tq_closed = False, nextIndex = 0\<rparr>"

definition tq_less :: "prioritizedTask \<Rightarrow> prioritizedTask \<Rightarrow> bool" where
  "tq_less a b \<longleftrightarrow>
     (if pr_priority a \<noteq> pr_priority b then pr_priority a > pr_priority b else pr_index a < pr_index b)"

interpretation tq: heap_order tq_less
  by unfold_locales (auto simp: tq_less_def split: if_splits)

definition Enqueue :: "event \<Rightarrow> int \<Rightarrow> priorityTaskQueue \<Rightarrow> priorityTaskQueue" where
  "Enqueue ev priority q =
     (if tq_closed q then q
      else (let idx = nextIndex q + 1
            in q\<lparr>nextIndex := idx,
                 tq_items := heap_push tq_less \<lparr>pr_event = ev, pr_priority = priority, pr_index = idx\<rparr> (tq_items q),
                 notEmpty := True\<rparr>))"

text \<open>What one look at the queue under its lock gives: the loop of \<^verbatim>\<open>Dequeue\<close> up to its \<^verbatim>\<open>select\<close>,
  and the last look after the close signal.\<close>

datatype dequeued = Dequeued event | QueueClosed | MustWait

definition dequeue_check :: "priorityTaskQueue \<Rightarrow> dequeued \<times> priorityTaskQueue" where
  "dequeue_check q =
     (if tq_closed q \<and> tq_items q = [] then (QueueClosed, q)
      else case heap_pop tq_less (tq_items q) of
        Some (item, items) \<Rightarrow> (Dequeued (pr_event item), q\<lparr>tq_items := items\<rparr>)
      | None \<Rightarrow> (MustWait, q))"

definition dequeue_closing :: "priorityTaskQueue \<Rightarrow> dequeued \<times> priorityTaskQueue" where
  "dequeue_closing q =
     (case heap_pop tq_less (tq_items q) of
        None \<Rightarrow> (QueueClosed, q\<lparr>tq_closed := True\<rparr>)
      | Some (item, items) \<Rightarrow> (Dequeued (pr_event item), q\<lparr>tq_items := items\<rparr>))"

definition tq_Close :: "priorityTaskQueue \<Rightarrow> priorityTaskQueue" where
  "tq_Close q = q\<lparr>tq_closed := True\<rparr>"

definition LenSafe :: "priorityTaskQueue \<Rightarrow> nat" where
  "LenSafe q = length (tq_items q)"


subsection \<open>The specification: first of the highest priority\<close>

type_synonym waiting = "(event \<times> int) list"

fun first_max :: "waiting \<Rightarrow> ((event \<times> int) \<times> waiting) option" where
  "first_max [] = None"
| "first_max (x # xs) =
     (case first_max xs of
        None \<Rightarrow> Some (x, [])
      | Some (y, ys) \<Rightarrow> if snd x < snd y then Some (y, x # ys) else Some (x, xs))"

datatype tq_op = TqEnqueue event int | TqDequeue | TqCloseSignal | TqClose

fun tq_run :: "tq_op list \<Rightarrow> priorityTaskQueue \<Rightarrow> dequeued list" where
  "tq_run [] q = []"
| "tq_run (TqEnqueue ev p # ops) q = tq_run ops (Enqueue ev p q)"
| "tq_run (TqDequeue # ops) q = (case dequeue_check q of (r, q') \<Rightarrow> r # tq_run ops q')"
| "tq_run (TqCloseSignal # ops) q = (case dequeue_closing q of (r, q') \<Rightarrow> r # tq_run ops q')"
| "tq_run (TqClose # ops) q = tq_run ops (tq_Close q)"

fun spec_run :: "tq_op list \<Rightarrow> bool \<Rightarrow> waiting \<Rightarrow> dequeued list" where
  "spec_run [] cl w = []"
| "spec_run (TqEnqueue ev p # ops) cl w = spec_run ops cl (if cl then w else w @ [(ev, p)])"
| "spec_run (TqDequeue # ops) cl w =
     (case first_max w of
        None \<Rightarrow> (if cl then QueueClosed else MustWait) # spec_run ops cl w
      | Some ((ev, p), w') \<Rightarrow> Dequeued ev # spec_run ops cl w')"
| "spec_run (TqCloseSignal # ops) cl w =
     (case first_max w of
        None \<Rightarrow> QueueClosed # spec_run ops True w
      | Some ((ev, p), w') \<Rightarrow> Dequeued ev # spec_run ops cl w')"
| "spec_run (TqClose # ops) cl w = spec_run ops True w"


subsection \<open>The heap implements the specification\<close>

text \<open>The abstraction: the heap's items in the order of their index.\<close>

definition tq_inv :: "priorityTaskQueue \<Rightarrow> bool" where
  "tq_inv q \<longleftrightarrow>
     is_heap tq_less (length (tq_items q)) (tq_items q)
     \<and> distinct (map pr_index (tq_items q))
     \<and> (\<forall>x \<in> set (tq_items q). pr_index x \<le> nextIndex q)"

definition entry_of :: "prioritizedTask \<Rightarrow> event \<times> int" where
  "entry_of x = (pr_event x, pr_priority x)"

definition tq_abs :: "priorityTaskQueue \<Rightarrow> waiting" where
  "tq_abs q = map entry_of (sort_key pr_index (tq_items q))"

lemma tq_inv_new: "tq_inv newPriorityTaskQueue" "tq_abs newPriorityTaskQueue = []"
  by (simp_all add: tq_inv_def tq_abs_def newPriorityTaskQueue_def is_heap_def)

lemma inj_on_index: "distinct (map pr_index xs) \<Longrightarrow> inj_on pr_index (set xs)"
  by (simp add: distinct_map)

lemma first_max_None [simp]: "first_max w = None \<longleftrightarrow> w = []"
  by (cases w) (auto split: option.splits)

lemma first_max_split:
  assumes "\<forall>y \<in> set xs. snd y < snd x" and "\<forall>y \<in> set ys. snd y \<le> snd x"
  shows "first_max (xs @ x # ys) = Some (x, xs @ ys)"
  using assms
proof (induction xs)
  case Nil
  have "\<forall>z \<in> set ys. snd z \<le> snd x \<Longrightarrow> first_max ys = Some (y, zs) \<Longrightarrow> y \<in> set ys" for y zs
    by (induction ys arbitrary: y zs) (auto split: option.splits if_splits)
  with Nil show ?case by (fastforce split: option.splits)
qed simp

lemma Enqueue_refines:
  assumes "tq_inv q"
  shows "tq_inv (Enqueue ev p q)"
    and "tq_abs (Enqueue ev p q) = (if tq_closed q then tq_abs q else tq_abs q @ [(ev, p)])"
proof -
  let ?x = "\<lparr>pr_event = ev, pr_priority = p, pr_index = nextIndex q + 1\<rparr>"
  let ?h = "heap_push tq_less ?x (tq_items q)"
  have mset: "mset ?h = mset (?x # tq_items q)" by (simp add: mset_heap_push)
  have fresh: "pr_index y < nextIndex q + 1" if "y \<in> set (tq_items q)" for y
    using assms that by (auto simp: tq_inv_def)
  have "distinct (map pr_index (?x # tq_items q))" using assms fresh by (force simp: tq_inv_def)
  then have dist: "distinct (map pr_index ?h)"
    using mset by (metis mset_map mset_eq_imp_distinct_iff)
  show "tq_inv (Enqueue ev p q)"
    using assms dist fresh tq.heap_push_is_heap [of "tq_items q" ?x]
    by (auto simp: tq_inv_def Enqueue_def Let_def less_imp_le)
  have "sort_key pr_index ?h = sort_key pr_index (tq_items q) @ [?x]"
  proof (rule sort_key_inj_key_eq)
    show "mset ?h = mset (sort_key pr_index (tq_items q) @ [?x])" using mset by simp
    show "inj_on pr_index (set ?h)" using dist by (rule inj_on_index)
    show "sorted (map pr_index (sort_key pr_index (tq_items q) @ [?x]))"
      using fresh by (auto simp: sorted_append less_imp_le)
  qed
  then show "tq_abs (Enqueue ev p q) = (if tq_closed q then tq_abs q else tq_abs q @ [(ev, p)])"
    by (simp add: tq_abs_def Enqueue_def Let_def entry_of_def)
qed

lemma pop_refines:
  assumes inv: "tq_inv q" and pop: "heap_pop tq_less (tq_items q) = Some (x, items)"
  shows "tq_inv (q\<lparr>tq_items := items\<rparr>)"
    and "first_max (tq_abs q) = Some (entry_of x, tq_abs (q\<lparr>tq_items := items\<rparr>))"
proof -
  have mset: "mset (tq_items q) = mset (x # items)" using mset_heap_pop [OF pop] by simp
  then have set: "set (tq_items q) = insert x (set items)" by (metis list.simps(15) mset_eq_setD)
  have dist: "distinct (map pr_index (x # items))"
    using inv mset by (metis tq_inv_def mset_map mset_eq_imp_distinct_iff)
  show "tq_inv (q\<lparr>tq_items := items\<rparr>)"
    using inv dist set tq.heap_pop_is_heap [OF _ pop] by (auto simp: tq_inv_def)
  let ?s = "sort_key pr_index (tq_items q)"
  have "x \<in> set ?s" using set by simp
  then obtain as bs where s: "?s = as @ x # bs" by (meson split_list)
  have srt: "sorted (map pr_index (as @ x # bs))" using sorted_sort_key [of pr_index "tq_items q"] s by simp
  have ms: "mset (as @ x # bs) = mset (x # items)" using mset by (simp flip: s)
  then have ab: "mset (as @ bs) = mset items" by simp
  have least: "\<not> tq_less y x" if "y \<in> set as \<union> set bs" for y
    using inv pop that tq.heap_pop_least [OF _ pop] set ab mset_eq_setD [OF ab] by (auto simp: tq_inv_def)
  have idx: "pr_index y \<noteq> pr_index x" if "y \<in> set as \<union> set bs" for y
    using dist that mset_eq_setD [OF ab] by (auto simp: image_iff) (metis UnI1 UnI2)+
  have "\<forall>y \<in> set as. pr_priority y < pr_priority x"
  proof
    fix y assume y: "y \<in> set as"
    then have "pr_index y < pr_index x" using srt idx [of y] by (auto simp: sorted_append order.strict_iff_order)
    then show "pr_priority y < pr_priority x" using least [of y] y by (auto simp: tq_less_def split: if_splits)
  qed
  moreover have "\<forall>y \<in> set bs. pr_priority y \<le> pr_priority x"
    using least by (force simp: tq_less_def split: if_splits)
  moreover have "sort_key pr_index items = as @ bs"
  proof (rule sort_key_inj_key_eq)
    show "mset items = mset (as @ bs)" using ab by simp
    show "inj_on pr_index (set items)" using dist by (simp add: inj_on_index)
    show "sorted (map pr_index (as @ bs))" using srt by (auto simp: sorted_append)
  qed
  ultimately show "first_max (tq_abs q) = Some (entry_of x, tq_abs (q\<lparr>tq_items := items\<rparr>))"
    using first_max_split [of "map entry_of as" "entry_of x" "map entry_of bs"]
    by (simp add: tq_abs_def s entry_of_def)
qed

lemma abs_Nil: "tq_abs q = [] \<longleftrightarrow> tq_items q = []"
  by (metis tq_abs_def map_is_Nil_conv length_0_conv length_sort)

lemma tq_abs_irrelevant [simp]:
  "tq_abs (q\<lparr>tq_closed := c\<rparr>) = tq_abs q" "tq_inv (q\<lparr>tq_closed := c\<rparr>) = tq_inv q"
  "tq_abs (q\<lparr>notEmpty := b\<rparr>) = tq_abs q" "tq_inv (q\<lparr>notEmpty := b\<rparr>) = tq_inv q"
  by (simp_all add: tq_abs_def tq_inv_def)

text \<open>C20. The worker's heap implements a stable priority queue: whatever sequence of operations
  runs on a new queue, the events it gives out are those of the specification, which keeps the
  waiting events in the order of arrival and always takes the first of the highest priority;
  a closed queue still gives out what it holds and accepts nothing more.\<close>

theorem task_queue_refines: "tq_run ops newPriorityTaskQueue = spec_run ops False []"
proof -
  have "tq_run ops q = spec_run ops (tq_closed q) (tq_abs q)" if "tq_inv q" for q
    using that
  proof (induction ops arbitrary: q)
    case (Cons op ops)
    have pop: "tq_items q \<noteq> [] \<Longrightarrow> \<exists>x items. heap_pop tq_less (tq_items q) = Some (x, items)"
      by (metis heap_pop_None_iff not_None_eq surj_pair)
    show ?case
    proof (cases op)
      case (TqEnqueue ev p)
      then show ?thesis
        using Cons.IH [OF Enqueue_refines(1) [OF Cons.prems]] Enqueue_refines(2) [OF Cons.prems]
        by (auto simp: Enqueue_def Let_def)
    next
      case TqDequeue
      show ?thesis
      proof (cases "tq_items q = []")
        case True
        then show ?thesis using Cons.IH [OF Cons.prems] abs_Nil [of q] by (simp add: TqDequeue dequeue_check_def)
      next
        case False
        with pop obtain x items where p: "heap_pop tq_less (tq_items q) = Some (x, items)" by blast
        show ?thesis
          using False Cons.IH [OF pop_refines(1) [OF Cons.prems p]] pop_refines(2) [OF Cons.prems p]
          by (simp add: TqDequeue dequeue_check_def p entry_of_def)
      qed
    next
      case TqCloseSignal
      show ?thesis
      proof (cases "tq_items q = []")
        case True
        then show ?thesis
          using Cons.IH [of "q\<lparr>tq_closed := True\<rparr>"] Cons.prems abs_Nil [of q]
          by (simp add: TqCloseSignal dequeue_closing_def)
      next
        case False
        with pop obtain x items where p: "heap_pop tq_less (tq_items q) = Some (x, items)" by blast
        show ?thesis
          using False Cons.IH [OF pop_refines(1) [OF Cons.prems p]] pop_refines(2) [OF Cons.prems p]
          by (simp add: TqCloseSignal dequeue_closing_def p entry_of_def)
      qed
    next
      case TqClose
      then show ?thesis using Cons.IH [of "q\<lparr>tq_closed := True\<rparr>"] Cons.prems by (simp add: tq_Close_def)
    qed
  qed simp
  from this [OF tq_inv_new(1)] show ?thesis by (simp add: tq_inv_new) (simp add: newPriorityTaskQueue_def)
qed


subsection \<open>No wake-up is lost\<close>

text \<open>The worker's one consumer: it is about to look at the queue, blocked in the \<^verbatim>\<open>select\<close>, or has
  left. Other goroutines enqueue and close at any moment, in particular between the consumer's
  look and its \<^verbatim>\<open>select\<close>.\<close>

datatype consumer = Looking | Blocked | Left

inductive queue_step :: "priorityTaskQueue \<times> consumer \<Rightarrow> priorityTaskQueue \<times> consumer \<Rightarrow> bool" where
  enqueue: "queue_step (q, c) (Enqueue ev p q, c)"
| close: "queue_step (q, c) (tq_Close q, c)"
| look_got: "dequeue_check q = (Dequeued ev, q') \<Longrightarrow> queue_step (q, Looking) (q', Looking)"
| look_wait: "dequeue_check q = (MustWait, q') \<Longrightarrow> queue_step (q, Looking) (q', Blocked)"
| look_closed: "dequeue_check q = (QueueClosed, q') \<Longrightarrow> queue_step (q, Looking) (q', Left)"
| notified: "notEmpty q \<Longrightarrow> queue_step (q, Blocked) (q\<lparr>notEmpty := False\<rparr>, Looking)"
| signalled_got: "dequeue_closing q = (Dequeued ev, q') \<Longrightarrow> queue_step (q, Blocked) (q', Looking)"
| signalled_end: "dequeue_closing q = (QueueClosed, q') \<Longrightarrow> queue_step (q, Blocked) (q', Left)"

inductive_cases queue_stepE: "queue_step x y"

definition wake_inv :: "priorityTaskQueue \<times> consumer \<Rightarrow> bool" where
  "wake_inv = (\<lambda>(q, c). c = Blocked \<longrightarrow> tq_items q = [] \<or> notEmpty q)"

lemma wake_inv_step: "queue_step x y \<Longrightarrow> wake_inv x \<Longrightarrow> wake_inv y"
  by (erule queue_stepE)
     (auto simp: wake_inv_def Enqueue_def Let_def tq_Close_def dequeue_check_def dequeue_closing_def
       split: option.splits if_splits)

lemma wake_inv_reachable: "queue_step\<^sup>*\<^sup>* x y \<Longrightarrow> wake_inv x \<Longrightarrow> wake_inv y"
  by (induction rule: rtranclp_induct) (auto intro: wake_inv_step)

text \<open>C21. The consumer is never left asleep with work to do: in every reachable state of the
  queue and its consumer, if an event waits in the queue and the consumer is blocked, then a
  notification is pending, so that its next step can be to look again and take the first event
  of the highest priority.\<close>

theorem no_lost_wakeup:
  assumes "queue_step\<^sup>*\<^sup>* (newPriorityTaskQueue, Looking) (q, Blocked)" and "tq_items q \<noteq> []"
  shows "\<exists>q1 ev q2. queue_step (q, Blocked) (q1, Looking) \<and> queue_step (q1, Looking) (q2, Looking)
           \<and> dequeue_check q1 = (Dequeued ev, q2) \<and> length (tq_items q2) < length (tq_items q)"
proof -
  have "wake_inv (q, Blocked)"
    using wake_inv_reachable [OF assms(1)] by (simp add: wake_inv_def)
  with assms(2) have signal: "notEmpty q" by (simp add: wake_inv_def)
  let ?q1 = "q\<lparr>notEmpty := False\<rparr>"
  obtain x items where pop: "heap_pop tq_less (tq_items ?q1) = Some (x, items)"
    using assms(2) by (metis heap_pop_None_iff not_None_eq surj_pair priorityTaskQueue.select_convs(1)
        priorityTaskQueue.surjective priorityTaskQueue.update_convs(2))
  then have "dequeue_check ?q1 = (Dequeued (pr_event x), ?q1\<lparr>tq_items := items\<rparr>)"
    using assms(2) by (simp add: dequeue_check_def)
  moreover have "length items < length (tq_items q)" using length_heap_pop [OF pop] by simp
  ultimately show ?thesis using notified [OF signal] look_got by fastforce
qed

definition demo_event :: "string \<Rightarrow> event" where
  "demo_event k = \<lparr>ev_Type = EventPut, ev_Key = k, ev_Value = '''', ev_Payload = None\<rparr>"

theorem no_lost_wakeup_witness:
  "\<exists>q1 ev q2. queue_step (Enqueue (demo_event ''k'') 3 newPriorityTaskQueue, Blocked) (q1, Looking)
     \<and> dequeue_check q1 = (Dequeued ev, q2)"
proof -
  have "queue_step (newPriorityTaskQueue, Looking) (newPriorityTaskQueue, Blocked)"
    by (rule look_wait) (simp add: dequeue_check_def newPriorityTaskQueue_def)
  then have "queue_step\<^sup>*\<^sup>* (newPriorityTaskQueue, Looking) (Enqueue (demo_event ''k'') 3 newPriorityTaskQueue, Blocked)"
    by (meson enqueue r_into_rtranclp rtranclp.rtrancl_into_rtrancl)
  moreover have "tq_items (Enqueue (demo_event ''k'') 3 newPriorityTaskQueue) \<noteq> []"
    by (simp add: Enqueue_def newPriorityTaskQueue_def Let_def)
  ultimately show ?thesis by (meson no_lost_wakeup)
qed

end
