(* ===== verification/Etcd_Store.thy ===== *)
theory Etcd_Store
  imports Task_Queue
begin

text \<open>
  \<^verbatim>\<open>infra/store/etcd/store.go\<close>: the store interface on top of the etcd client. The client
  (\<^verbatim>\<open>clientv3\<close>) is third-party code, so its calls are the fields of a record \<open>etcd\<close> that every
  operation takes; the locale \<open>etcd_client\<close> states what etcd documents of them, relative to the
  key space they act on: a call that returns an error may or may not have had its effect. The
  session lock of \<^verbatim>\<open>concurrency\<close> is a parameter of the executor (Task_Runtime).
\<close>

subsection \<open>The key space\<close>

type_synonym lease_id = int

record etcd_kv =
  kv_Value :: string
  kv_ModRevision :: int
  kv_Lease :: "lease_id option"

record etcd_db =
  db_kvs :: "string \<rightharpoonup> etcd_kv"
  db_rev :: int
  db_leases :: "lease_id set"

record key_value =
  kvp_Key :: string
  kvp_Value :: string

datatype etcd_op = OpPut string string "lease_id option" | OpGet string

record txn_response =
  txn_Succeeded :: bool
  txn_Revision :: int
  txn_Gets :: "(string \<times> etcd_kv) list list"  \<comment> \<open>the answers of the executed branch's \<^verbatim>\<open>OpGet\<close>s\<close>

record 'db etcd =
  cl_Put :: "string \<Rightarrow> string \<Rightarrow> lease_id option \<Rightarrow> 'db \<Rightarrow> bool \<times> 'db"
  cl_Get :: "string \<Rightarrow> 'db \<Rightarrow> (string \<times> etcd_kv) list option"
  cl_GetPrefix :: "string \<Rightarrow> 'db \<Rightarrow> (string \<times> etcd_kv) list option"
  cl_Delete :: "string \<Rightarrow> 'db \<Rightarrow> bool \<times> 'db"
  cl_Grant :: "int \<Rightarrow> 'db \<Rightarrow> lease_id option \<times> 'db"
  cl_Revoke :: "lease_id \<Rightarrow> 'db \<Rightarrow> bool \<times> 'db"
  cl_Txn :: "(string \<times> int) option \<Rightarrow> etcd_op list \<Rightarrow> etcd_op list \<Rightarrow> 'db \<Rightarrow> txn_response option \<times> 'db"
    \<comment> \<open>an optional comparison of one key's \<^verbatim>\<open>ModRevision\<close>, then-branch, else-branch\<close>

text \<open>What etcd documents of a call that takes effect. The puts of a transaction share one
  revision; a missing key compares as revision 0.\<close>

definition after_put :: "int \<Rightarrow> string \<Rightarrow> string \<Rightarrow> lease_id option \<Rightarrow> etcd_db \<Rightarrow> etcd_db" where
  "after_put r k v l db =
     db\<lparr>db_kvs := (db_kvs db)(k \<mapsto> \<lparr>kv_Value = v, kv_ModRevision = r, kv_Lease = l\<rparr>), db_rev := r\<rparr>"

definition after_delete :: "string \<Rightarrow> etcd_db \<Rightarrow> etcd_db" where
  "after_delete k db =
     (if db_kvs db k = None then db
      else db\<lparr>db_kvs := (db_kvs db)(k := None), db_rev := db_rev db + 1\<rparr>)"

definition after_grant :: "lease_id \<Rightarrow> etcd_db \<Rightarrow> etcd_db" where
  "after_grant l db = db\<lparr>db_leases := insert l (db_leases db)\<rparr>"

definition leased_by :: "lease_id \<Rightarrow> etcd_kv option \<Rightarrow> bool" where
  "leased_by l o' \<longleftrightarrow> (case o' of None \<Rightarrow> False | Some kv \<Rightarrow> kv_Lease kv = Some l)"

definition after_revoke :: "lease_id \<Rightarrow> etcd_db \<Rightarrow> etcd_db" where
  "after_revoke l db =
     db\<lparr>db_leases := db_leases db - {l},
        db_kvs := (\<lambda>k. if leased_by l (db_kvs db k) then None else db_kvs db k),
        db_rev := (if \<exists>k. leased_by l (db_kvs db k) then db_rev db + 1 else db_rev db)\<rparr>"

fun after_op :: "int \<Rightarrow> etcd_op \<Rightarrow> etcd_db \<Rightarrow> etcd_db" where
  "after_op r (OpPut k v l) db = after_put r k v l db"
| "after_op r (OpGet k) db = db"

definition after_ops :: "etcd_op list \<Rightarrow> etcd_db \<Rightarrow> etcd_db" where
  "after_ops ops db = fold (after_op (db_rev db + 1)) ops db"

definition found :: "string \<Rightarrow> etcd_db \<Rightarrow> (string \<times> etcd_kv) list" where
  "found k db = (case db_kvs db k of None \<Rightarrow> [] | Some kv \<Rightarrow> [(k, kv)])"

fun op_gets :: "etcd_op \<Rightarrow> etcd_db \<Rightarrow> (string \<times> etcd_kv) list list" where
  "op_gets (OpPut k v l) db = []"
| "op_gets (OpGet k) db = [found k db]"

definition cmp_holds :: "(string \<times> int) option \<Rightarrow> etcd_db \<Rightarrow> bool" where
  "cmp_holds c db =
     (case c of None \<Rightarrow> True
      | Some (k, r) \<Rightarrow> (case db_kvs db k of None \<Rightarrow> r = 0 | Some kv \<Rightarrow> kv_ModRevision kv = r))"

definition txn_branch :: "(string \<times> int) option \<Rightarrow> etcd_op list \<Rightarrow> etcd_op list \<Rightarrow> etcd_db \<Rightarrow> etcd_op list" where
  "txn_branch c thn els db = (if cmp_holds c db then thn else els)"

definition db_ok :: "etcd_db \<Rightarrow> bool" where
  "db_ok db \<longleftrightarrow> 0 \<le> db_rev db \<and>
     (\<forall>k kv. db_kvs db k = Some kv \<longrightarrow>
        0 < kv_ModRevision kv \<and> kv_ModRevision kv \<le> db_rev db
        \<and> (\<forall>l. kv_Lease kv = Some l \<longrightarrow> l \<in> db_leases db))"

text \<open>The client's contract. A call that fails may have been lost before or after it took
  effect; a granted lease is a new one; a put needs a live lease.\<close>

locale etcd_client =
  fixes client :: "'db etcd" and \<alpha> :: "'db \<Rightarrow> etcd_db"
  assumes put_law: "cl_Put client k v l d = (ok, d') \<Longrightarrow>
      (\<alpha> d' = after_put (db_rev (\<alpha> d) + 1) k v l (\<alpha> d) \<and> set_option l \<subseteq> db_leases (\<alpha> d)) \<or> (\<not> ok \<and> \<alpha> d' = \<alpha> d)"
    and get_law: "cl_Get client k d = Some kvs \<Longrightarrow> kvs = found k (\<alpha> d)"
    and prefix_law: "cl_GetPrefix client p d = Some kvs \<Longrightarrow>
      distinct (map fst kvs) \<and> (\<forall>k kv. (k, kv) \<in> set kvs \<longleftrightarrow> prefix p k \<and> db_kvs (\<alpha> d) k = Some kv)"
    and delete_law: "cl_Delete client k d = (ok, d') \<Longrightarrow>
      \<alpha> d' = after_delete k (\<alpha> d) \<or> (\<not> ok \<and> \<alpha> d' = \<alpha> d)"
    and grant_law: "cl_Grant client ttl d = (Some lid, d') \<Longrightarrow>
      lid \<notin> db_leases (\<alpha> d) \<and> \<alpha> d' = after_grant lid (\<alpha> d)"
    and grant_lost: "cl_Grant client ttl d = (None, d') \<Longrightarrow>
      \<alpha> d' = \<alpha> d \<or> (\<exists>lid. lid \<notin> db_leases (\<alpha> d) \<and> \<alpha> d' = after_grant lid (\<alpha> d))"
    and revoke_law: "cl_Revoke client lid d = (ok, d') \<Longrightarrow>
      \<alpha> d' = after_revoke lid (\<alpha> d) \<or> (\<not> ok \<and> \<alpha> d' = \<alpha> d)"
    and txn_law: "cl_Txn client c thn els d = (Some s, d') \<Longrightarrow>
      txn_Succeeded s = cmp_holds c (\<alpha> d)
      \<and> \<alpha> d' = after_ops (txn_branch c thn els (\<alpha> d)) (\<alpha> d)
      \<and> txn_Revision s = db_rev (\<alpha> d')
      \<and> txn_Gets s = concat (map (\<lambda>op. op_gets op (\<alpha> d)) (txn_branch c thn els (\<alpha> d)))"
    and txn_lost: "cl_Txn client c thn els d = (None, d') \<Longrightarrow>
      \<alpha> d' = \<alpha> d \<or> \<alpha> d' = after_ops (txn_branch c thn els (\<alpha> d)) (\<alpha> d)"
begin

lemma get_cases:
  obtains "cl_Get client k d = None"
    | "cl_Get client k d = Some []" and "db_kvs (\<alpha> d) k = None"
    | kv where "cl_Get client k d = Some [(k, kv)]" and "db_kvs (\<alpha> d) k = Some kv"
  by (cases "cl_Get client k d"; cases "db_kvs (\<alpha> d) k") (auto dest: get_law simp: found_def)

end


subsection \<open>The store\<close>

definition store_Put :: "'db etcd \<Rightarrow> string \<Rightarrow> string \<Rightarrow> 'db \<Rightarrow> bool \<times> 'db" where
  "store_Put c key val d = cl_Put c key val None d"

definition store_Delete :: "'db etcd \<Rightarrow> string \<Rightarrow> 'db \<Rightarrow> bool \<times> 'db" where
  "store_Delete c key d = cl_Delete c key d"

text \<open>An error is \<open>None\<close>; a missing key reads as the empty string.\<close>

definition store_Get :: "'db etcd \<Rightarrow> string \<Rightarrow> 'db \<Rightarrow> string option" where
  "store_Get c key d =
     (case cl_Get c key d of
        None \<Rightarrow> None
      | Some [] \<Rightarrow> Some ''''
      | Some ((_, kv) # _) \<Rightarrow> Some (kv_Value kv))"

definition taskTTL :: int where
  "taskTTL = 86400"

definition PutWithTTL :: "'db etcd \<Rightarrow> string \<Rightarrow> string \<Rightarrow> int \<Rightarrow> 'db \<Rightarrow> bool \<times> 'db" where
  "PutWithTTL c key val ttlSec d =
     (let ttlSec = (if ttlSec \<le> 0 then taskTTL else ttlSec) in
      case cl_Grant c ttlSec d of
        (None, d) \<Rightarrow> (False, d)
      | (Some lease, d) \<Rightarrow>
          (case cl_Put c key val (Some lease) d of
             (True, d) \<Rightarrow> (True, d)
           | (False, d) \<Rightarrow> (False, snd (cl_Revoke c lease d))))"

definition BatchPutWithTTL :: "'db etcd \<Rightarrow> key_value list \<Rightarrow> int \<Rightarrow> 'db \<Rightarrow> bool \<times> 'db" where
  "BatchPutWithTTL c kvs ttlSec d =
     (if kvs = [] then (True, d)
      else
        let ttlSec = (if ttlSec \<le> 0 then taskTTL else ttlSec) in
        case cl_Grant c ttlSec d of
          (None, d) \<Rightarrow> (False, d)
        | (Some lease, d) \<Rightarrow>
            (case cl_Txn c None (map (\<lambda>kv. OpPut (kvp_Key kv) (kvp_Value kv) (Some lease)) kvs) [] d of
               (Some _, d) \<Rightarrow> (True, d)
             | (None, d) \<Rightarrow> (False, snd (cl_Revoke c lease d))))"

definition store_List :: "'db etcd \<Rightarrow> string \<Rightarrow> 'db \<Rightarrow> key_value list option" where
  "store_List c pre d =
     (case cl_GetPrefix c pre d of
        None \<Rightarrow> None
      | Some kvs \<Rightarrow> Some (map (\<lambda>(k, kv). \<lparr>kvp_Key = k, kvp_Value = kv_Value kv\<rparr>) kvs))"

definition GetWithRevision :: "'db etcd \<Rightarrow> string \<Rightarrow> 'db \<Rightarrow> (string \<times> int) option" where
  "GetWithRevision c key d =
     (case cl_Get c key d of
        None \<Rightarrow> None
      | Some [] \<Rightarrow> Some ('''', 0)
      | Some ((_, kv) # _) \<Rightarrow> Some (kv_Value kv, kv_ModRevision kv))"

text \<open>An error is \<open>None\<close>; otherwise whether the write happened, and a revision.\<close>

definition CASPut :: "'db etcd \<Rightarrow> string \<Rightarrow> string \<Rightarrow> int \<Rightarrow> 'db \<Rightarrow> (bool \<times> int) option \<times> 'db" where
  "CASPut c key val expectedRevision d =
     (case cl_Txn c (Some (key, expectedRevision)) [OpPut key val None] [OpGet key] d of
        (None, d) \<Rightarrow> (None, d)
      | (Some s, d) \<Rightarrow>
          if txn_Succeeded s then (Some (True, txn_Revision s), d)
          else (case txn_Gets s of
                  ((_, kv) # _) # _ \<Rightarrow> (Some (False, kv_ModRevision kv), d)
                | _ \<Rightarrow> (Some (False, 0), d)))"

definition healthKey :: string where
  "healthKey = ''/vibeflow/health-check''"

definition Ping :: "'db etcd \<Rightarrow> 'db \<Rightarrow> bool \<times> 'db" where
  "Ping c d =
     (case cl_Put c healthKey ''1'' None d of
        (False, d) \<Rightarrow> (False, d)
      | (True, d) \<Rightarrow> (True, snd (cl_Delete c healthKey d)))"


text \<open>\<^verbatim>\<open>Serialize\<close> and \<^verbatim>\<open>Deserialize\<close> of \<^verbatim>\<open>infra/store/model.go\<close> hand the payload to
  \<^verbatim>\<open>encoding/json\<close>; a codec is what they compute. What the callers rely on is that a payload that
  is read back has the status it was written with.\<close>

record codec =
  Serialize :: "task_payload \<Rightarrow> string option"
  Deserialize :: "string \<Rightarrow> task_payload option"

definition codec_status :: "codec \<Rightarrow> bool" where
  "codec_status j \<longleftrightarrow>
     (\<forall>p v. Serialize j p = Some v \<longrightarrow> (\<exists>p'. Deserialize j v = Some p' \<and> tp_Status p' = tp_Status p))"


subsection \<open>Watching a prefix\<close>

text \<open>\<^verbatim>\<open>watchInternal\<close> forwards the client's events through the filter into a channel of bounded
  capacity, and drops an event when the channel is full. The filter may fill in the event's
  payload; \<open>None\<close> is its refusal. The consumer takes events out at any moment.\<close>

definition watchEventChanBuf :: nat where
  "watchEventChanBuf = 2048"

record watch_chan =
  wc_buffer :: "event list"
  wc_dropped :: "event list"  \<comment> \<open>the code counts them\<close>

definition new_watch :: watch_chan where
  "new_watch = \<lparr>wc_buffer = [], wc_dropped = []\<rparr>"

definition client_event :: "event_type \<Rightarrow> string \<Rightarrow> string \<Rightarrow> event" where
  "client_event ty k v = \<lparr>ev_Type = ty, ev_Key = k, ev_Value = v, ev_Payload = None\<rparr>"

definition watch_forward :: "(event \<Rightarrow> event option) option \<Rightarrow> event \<Rightarrow> watch_chan \<Rightarrow> watch_chan" where
  "watch_forward flt ev w =
     (case (case flt of None \<Rightarrow> Some ev | Some f \<Rightarrow> f ev) of
        None \<Rightarrow> w
      | Some ev \<Rightarrow>
          if length (wc_buffer w) < watchEventChanBuf
          then w\<lparr>wc_buffer := wc_buffer w @ [ev]\<rparr>
          else w\<lparr>wc_dropped := wc_dropped w @ [ev]\<rparr>)"

datatype watch_op = Arrives event | Taken

fun watch_run :: "(event \<Rightarrow> event option) option \<Rightarrow> watch_op list \<Rightarrow> watch_chan \<Rightarrow> event list \<times> watch_chan" where
  "watch_run flt [] w = ([], w)"
| "watch_run flt (Arrives ev # ops) w = watch_run flt ops (watch_forward flt ev w)"
| "watch_run flt (Taken # ops) w =
     (case wc_buffer w of
        [] \<Rightarrow> watch_run flt ops w
      | ev # evs \<Rightarrow>
          (let (out, w') = watch_run flt ops (w\<lparr>wc_buffer := evs\<rparr>) in (ev # out, w')))"

fun passed :: "(event \<Rightarrow> event option) option \<Rightarrow> watch_op list \<Rightarrow> event list" where
  "passed flt [] = []"
| "passed flt (Arrives ev # ops) =
     (case (case flt of None \<Rightarrow> Some ev | Some f \<Rightarrow> f ev) of None \<Rightarrow> passed flt ops | Some ev \<Rightarrow> ev # passed flt ops)"
| "passed flt (Taken # ops) = passed flt ops"


subsection \<open>What the store's operations do\<close>

context etcd_client
begin

lemma CASPut_cases:
  assumes "CASPut client k v r d = (res, d')"
  shows "(case res of
            None \<Rightarrow> \<alpha> d' = \<alpha> d \<or> \<alpha> d' = after_ops (txn_branch (Some (k, r)) [OpPut k v None] [OpGet k] (\<alpha> d)) (\<alpha> d)
          | Some (True, r') \<Rightarrow> cmp_holds (Some (k, r)) (\<alpha> d) \<and> r' = db_rev (\<alpha> d) + 1
              \<and> \<alpha> d' = after_put r' k v None (\<alpha> d)
          | Some (False, r') \<Rightarrow> \<not> cmp_holds (Some (k, r)) (\<alpha> d) \<and> \<alpha> d' = \<alpha> d
              \<and> r' = (case db_kvs (\<alpha> d) k of None \<Rightarrow> 0 | Some kv \<Rightarrow> kv_ModRevision kv))"
proof (cases "cl_Txn client (Some (k, r)) [OpPut k v None] [OpGet k] d")
  case (Pair resp d1)
  show ?thesis
  proof (cases resp)
    case None
    then show ?thesis using assms Pair txn_lost [of "Some (k, r)" "[OpPut k v None]" "[OpGet k]" d d1]
      by (simp add: CASPut_def)
  next
    case (Some s)
    with Pair have t: "cl_Txn client (Some (k, r)) [OpPut k v None] [OpGet k] d = (Some s, d1)" by simp
    from txn_law [OF t] show ?thesis
      using assms Pair Some
      by (cases "cmp_holds (Some (k, r)) (\<alpha> d)"; cases "db_kvs (\<alpha> d) k")
         (auto simp: CASPut_def txn_branch_def after_ops_def after_put_def found_def)
  qed
qed

lemma GetWithRevision_cases:
  assumes "GetWithRevision client k d = Some (v, r)"
  shows "(db_kvs (\<alpha> d) k = None \<and> v = '''' \<and> r = 0)
       \<or> (\<exists>kv. db_kvs (\<alpha> d) k = Some kv \<and> v = kv_Value kv \<and> r = kv_ModRevision kv)"
  using assms by (cases rule: get_cases [of k d]) (auto simp: GetWithRevision_def)

lemma batch_ops:
  "fold (after_op r) (map (\<lambda>kv. OpPut (kvp_Key kv) (kvp_Value kv) (Some l)) kvs) db =
     db\<lparr>db_kvs := db_kvs db ++
          map_of (rev (map (\<lambda>kv. (kvp_Key kv, \<lparr>kv_Value = kvp_Value kv, kv_ModRevision = r, kv_Lease = Some l\<rparr>)) kvs)),
        db_rev := (if kvs = [] then db_rev db else r)\<rparr>"
  by (induction kvs arbitrary: db) (auto simp: after_put_def map_add_upd_left)

lemma fresh_lease_revoked:
  assumes "db_ok db" and "l \<notin> db_leases db"
  shows "db_kvs (after_revoke l (after_grant l db)) = db_kvs db"
    and "db_kvs (after_revoke l (fold (after_op r) (map (\<lambda>kv. OpPut (kvp_Key kv) (kvp_Value kv) (Some l)) kvs) (after_grant l db)))
         = (\<lambda>k. if k \<in> kvp_Key ` set kvs then None else db_kvs db k)"
proof -
  have old: "\<not> leased_by l (db_kvs db k)" for k
    using assms by (auto simp: leased_by_def db_ok_def split: option.splits)
  then show "db_kvs (after_revoke l (after_grant l db)) = db_kvs db"
    by (simp add: after_revoke_def after_grant_def)
  let ?new = "rev (map (\<lambda>kv. (kvp_Key kv, \<lparr>kv_Value = kvp_Value kv, kv_ModRevision = r, kv_Lease = Some l\<rparr>)) kvs)"
  have keys: "(map_of ?new k = None) = (k \<notin> kvp_Key ` set kvs)" for k
    by (force simp: map_of_eq_None_iff)
  have leased: "leased_by l (map_of ?new k)" if "map_of ?new k \<noteq> None" for k
  proof -
    from that obtain kv where kv: "map_of ?new k = Some kv" by blast
    from map_of_SomeD [OF this] have "kv_Lease kv = Some l" by auto
    with kv show ?thesis by (simp add: leased_by_def)
  qed
  show "db_kvs (after_revoke l (fold (after_op r) (map (\<lambda>kv. OpPut (kvp_Key kv) (kvp_Value kv) (Some l)) kvs) (after_grant l db)))
         = (\<lambda>k. if k \<in> kvp_Key ` set kvs then None else db_kvs db k)"
  proof (rule ext)
    fix k
    show "db_kvs (after_revoke l (fold (after_op r) (map (\<lambda>kv. OpPut (kvp_Key kv) (kvp_Value kv) (Some l)) kvs) (after_grant l db))) k
         = (if k \<in> kvp_Key ` set kvs then None else db_kvs db k)"
      using keys [of k] leased [of k] old [of k]
      by (cases "map_of ?new k")
         (auto simp: after_revoke_def after_grant_def batch_ops map_add_def)
  qed
qed

end


subsection \<open>An etcd in memory\<close>

text \<open>A client with an explicit key space, whose calls may be lost before or after they take
  effect, as the list of faults says. It satisfies the contract; the witnesses run on it.\<close>

datatype fault = Works | LostBefore | LostAfter

record mem_etcd =
  me_kvs :: "(string \<times> etcd_kv) list"
  me_rev :: int
  me_leases :: "lease_id list"
  me_faults :: "fault list"

definition mem_db :: "mem_etcd \<Rightarrow> etcd_db" where
  "mem_db m = \<lparr>db_kvs = map_of (me_kvs m), db_rev = me_rev m, db_leases = set (me_leases m)\<rparr>"

lemma mem_db_sel [simp]:
  "db_kvs (mem_db m) = map_of (me_kvs m)" "db_rev (mem_db m) = me_rev m" "db_leases (mem_db m) = set (me_leases m)"
  by (simp_all add: mem_db_def)

definition empty_etcd :: mem_etcd where
  "empty_etcd = \<lparr>me_kvs = [], me_rev = 0, me_leases = [], me_faults = []\<rparr>"

definition next_fault :: "mem_etcd \<Rightarrow> fault" where
  "next_fault m = (case me_faults m of [] \<Rightarrow> Works | f # fs \<Rightarrow> f)"

definition mem_call :: "(mem_etcd \<Rightarrow> mem_etcd) \<Rightarrow> 'a \<Rightarrow> 'a \<Rightarrow> mem_etcd \<Rightarrow> 'a \<times> mem_etcd" where
  "mem_call f ok lost m =
     (let m' = m\<lparr>me_faults := tl (me_faults m)\<rparr> in
      case next_fault m of
        Works \<Rightarrow> (ok, f m')
      | LostBefore \<Rightarrow> (lost, m')
      | LostAfter \<Rightarrow> (lost, f m'))"

definition mem_put :: "int \<Rightarrow> string \<Rightarrow> string \<Rightarrow> lease_id option \<Rightarrow> mem_etcd \<Rightarrow> mem_etcd" where
  "mem_put r k v l m =
     m\<lparr>me_kvs := AList.update k \<lparr>kv_Value = v, kv_ModRevision = r, kv_Lease = l\<rparr> (me_kvs m), me_rev := r\<rparr>"

definition mem_delete :: "string \<Rightarrow> mem_etcd \<Rightarrow> mem_etcd" where
  "mem_delete k m =
     (if map_of (me_kvs m) k = None then m
      else m\<lparr>me_kvs := AList.delete k (me_kvs m), me_rev := me_rev m + 1\<rparr>)"

definition mem_fresh :: "mem_etcd \<Rightarrow> lease_id" where
  "mem_fresh m = fold max (me_leases m) 0 + 1"

definition mem_grant :: "lease_id \<Rightarrow> mem_etcd \<Rightarrow> mem_etcd" where
  "mem_grant l m = m\<lparr>me_leases := l # me_leases m\<rparr>"

definition mem_revoke :: "lease_id \<Rightarrow> mem_etcd \<Rightarrow> mem_etcd" where
  "mem_revoke l m =
     (let gone = map fst (filter (\<lambda>(k, kv). leased_by l (map_of (me_kvs m) k)) (me_kvs m)) in
      m\<lparr>me_leases := removeAll l (me_leases m),
        me_kvs := filter (\<lambda>(k, kv). k \<notin> set gone) (me_kvs m),
        me_rev := (if gone = [] then me_rev m else me_rev m + 1)\<rparr>)"

fun mem_op :: "int \<Rightarrow> etcd_op \<Rightarrow> mem_etcd \<Rightarrow> mem_etcd" where
  "mem_op r (OpPut k v l) m = mem_put r k v l m"
| "mem_op r (OpGet k) m = m"

definition mem_found :: "string \<Rightarrow> mem_etcd \<Rightarrow> (string \<times> etcd_kv) list" where
  "mem_found k m = found k (mem_db m)"

definition mem_txn ::
  "(string \<times> int) option \<Rightarrow> etcd_op list \<Rightarrow> etcd_op list \<Rightarrow> mem_etcd \<Rightarrow> txn_response option \<times> mem_etcd" where
  "mem_txn c thn els m =
     (let ops = txn_branch c thn els (mem_db m);
          run = fold (mem_op (me_rev m + 1)) ops;
          s = \<lparr>txn_Succeeded = cmp_holds c (mem_db m), txn_Revision = me_rev (run m),
               txn_Gets = concat (map (\<lambda>op. op_gets op (mem_db m)) ops)\<rparr>
      in mem_call run (Some s) None m)"

definition mem_client :: "mem_etcd etcd" where
  "mem_client =
     \<lparr>cl_Put = (\<lambda>k v l m.
        if set_option l \<subseteq> set (me_leases m) then mem_call (mem_put (me_rev m + 1) k v l) True False m else (False, m)),
      cl_Get = (\<lambda>k m. Some (mem_found k m)),
      cl_GetPrefix = (\<lambda>p m. Some (filter (\<lambda>(k, kv). prefix p k) (AList.clearjunk (me_kvs m)))),
      cl_Delete = (\<lambda>k m. mem_call (mem_delete k) True False m),
      cl_Grant = (\<lambda>ttl m. let l = mem_fresh m in mem_call (mem_grant l) (Some l) None m),
      cl_Revoke = (\<lambda>l m. mem_call (mem_revoke l) True False m),
      cl_Txn = mem_txn\<rparr>"

lemma mem_db_faults [simp]: "mem_db (m\<lparr>me_faults := fs\<rparr>) = mem_db m"
  by (simp add: mem_db_def)

lemma mem_call_cases:
  assumes "mem_call f ok lost m = (res, m')"
  obtains fs where "(res = ok \<and> m' = f (m\<lparr>me_faults := fs\<rparr>))
    \<or> (res = lost \<and> (m' = m\<lparr>me_faults := fs\<rparr> \<or> m' = f (m\<lparr>me_faults := fs\<rparr>)))"
  using assms that [of "tl (me_faults m)"]
  by (cases "next_fault m") (auto simp: mem_call_def Let_def)

lemma mem_put_db [simp]: "mem_db (mem_put r k v l m) = after_put r k v l (mem_db m)"
  by (auto simp: mem_put_def mem_db_def after_put_def update_conv)

lemma mem_delete_db [simp]: "mem_db (mem_delete k m) = after_delete k (mem_db m)"
  by (auto simp: mem_delete_def mem_db_def after_delete_def delete_conv)

lemma mem_grant_db [simp]: "mem_db (mem_grant l m) = after_grant l (mem_db m)"
  by (auto simp: mem_grant_def mem_db_def after_grant_def)

lemma map_of_filter_keys: "map_of (filter (\<lambda>(k, v). P k) xs) k = (if P k then map_of xs k else None)"
  by (induction xs) auto

lemma mem_revoke_db [simp]: "mem_db (mem_revoke l m) = after_revoke l (mem_db m)"
proof -
  let ?gone = "map fst (filter (\<lambda>(k, kv). leased_by l (map_of (me_kvs m) k)) (me_kvs m))"
  have gone: "k \<in> set ?gone \<longleftrightarrow> leased_by l (map_of (me_kvs m) k)" for k
    by (force simp: leased_by_def dest: map_of_SomeD split: option.splits)
  have "?gone = [] \<longleftrightarrow> (\<nexists>k. leased_by l (map_of (me_kvs m) k))"
    using gone by (metis list.set_intros(1) neq_Nil_conv set_empty2 empty_iff)
  then show ?thesis
    unfolding mem_revoke_def mem_db_def after_revoke_def Let_def
    using gone by (auto simp: map_of_filter_keys)
qed

lemma mem_ops_db: "mem_db (fold (mem_op r) ops m) = fold (after_op r) ops (mem_db m)"
proof (induction ops arbitrary: m)
  case (Cons op ops)
  then show ?case by (cases op) auto
qed simp

lemma mem_fresh_new: "mem_fresh m \<notin> set (me_leases m)"
proof -
  have "x \<le> fold max ls a" if "x \<in> set ls \<or> x \<le> a" for x a :: int and ls
    using that by (induction ls arbitrary: a) (auto simp: max_def)
  then show ?thesis unfolding mem_fresh_def by (metis add.commute less_irrefl zless_add1_eq linorder_not_le order_refl)
qed

interpretation mem: etcd_client mem_client mem_db
proof
  fix k v :: string and l :: "lease_id option" and d d' :: mem_etcd and ok :: bool
  assume "cl_Put mem_client k v l d = (ok, d')"
  then show "(mem_db d' = after_put (db_rev (mem_db d) + 1) k v l (mem_db d) \<and> set_option l \<subseteq> db_leases (mem_db d))
      \<or> (\<not> ok \<and> mem_db d' = mem_db d)"
    by (auto simp: mem_client_def split: if_splits elim!: mem_call_cases)
next
  fix k :: string and d :: mem_etcd and kvs
  assume "cl_Get mem_client k d = Some kvs"
  then show "kvs = found k (mem_db d)" by (simp add: mem_client_def mem_found_def)
next
  fix p :: string and d :: mem_etcd and kvs
  assume "cl_GetPrefix mem_client p d = Some kvs"
  then have kvs: "kvs = filter (\<lambda>(k, kv). prefix p k) (AList.clearjunk (me_kvs d))"
    by (simp add: mem_client_def)
  have "distinct (map fst kvs)" unfolding kvs by (simp add: distinct_map_filter)
  moreover have "(k, kv) \<in> set kvs \<longleftrightarrow> prefix p k \<and> db_kvs (mem_db d) k = Some kv" for k kv
    unfolding kvs
    by (simp add: map_of_clearjunk [symmetric, of "me_kvs d"] map_of_eq_Some_iff) auto
  ultimately show "distinct (map fst kvs) \<and> (\<forall>k kv. (k, kv) \<in> set kvs \<longleftrightarrow> prefix p k \<and> db_kvs (mem_db d) k = Some kv)"
    by blast
next
  fix k :: string and d d' :: mem_etcd and ok :: bool
  assume "cl_Delete mem_client k d = (ok, d')"
  then show "mem_db d' = after_delete k (mem_db d) \<or> (\<not> ok \<and> mem_db d' = mem_db d)"
    by (auto simp: mem_client_def elim!: mem_call_cases)
next
  fix ttl :: int and lid and d d' :: mem_etcd
  assume "cl_Grant mem_client ttl d = (Some lid, d')"
  then show "lid \<notin> db_leases (mem_db d) \<and> mem_db d' = after_grant lid (mem_db d)"
    using mem_fresh_new [of d] by (auto simp: mem_client_def Let_def elim!: mem_call_cases)
next
  fix ttl :: int and d d' :: mem_etcd
  assume "cl_Grant mem_client ttl d = (None, d')"
  then show "mem_db d' = mem_db d \<or> (\<exists>lid. lid \<notin> db_leases (mem_db d) \<and> mem_db d' = after_grant lid (mem_db d))"
    using mem_fresh_new [of d] by (auto simp: mem_client_def Let_def elim!: mem_call_cases)
next
  fix lid and d d' :: mem_etcd and ok :: bool
  assume "cl_Revoke mem_client lid d = (ok, d')"
  then show "mem_db d' = after_revoke lid (mem_db d) \<or> (\<not> ok \<and> mem_db d' = mem_db d)"
    by (auto simp: mem_client_def elim!: mem_call_cases)
next
  fix c thn els and d d' :: mem_etcd and s
  assume "cl_Txn mem_client c thn els d = (Some s, d')"
  then show "txn_Succeeded s = cmp_holds c (mem_db d)
      \<and> mem_db d' = after_ops (txn_branch c thn els (mem_db d)) (mem_db d)
      \<and> txn_Revision s = db_rev (mem_db d')
      \<and> txn_Gets s = concat (map (\<lambda>op. op_gets op (mem_db d)) (txn_branch c thn els (mem_db d)))"
    by (auto simp: mem_client_def mem_txn_def Let_def after_ops_def mem_ops_db
        simp del: mem_db_sel simp flip: mem_db_sel(2) elim!: mem_call_cases)
next
  fix c thn els and d d' :: mem_etcd
  assume "cl_Txn mem_client c thn els d = (None, d')"
  then show "mem_db d' = mem_db d \<or> mem_db d' = after_ops (txn_branch c thn els (mem_db d)) (mem_db d)"
    by (auto simp: mem_client_def mem_txn_def Let_def after_ops_def mem_ops_db
        simp del: mem_db_sel simp flip: mem_db_sel(2) elim!: mem_call_cases)
qed

subsection \<open>Leased writes are atomic\<close>

text \<open>The pairs a batch leaves behind: for a key that occurs twice, the last one.\<close>

definition batch_written :: "lease_id \<Rightarrow> int \<Rightarrow> key_value list \<Rightarrow> string \<rightharpoonup> etcd_kv" where
  "batch_written l r kvs =
     map_of (rev (map (\<lambda>kv. (kvp_Key kv, \<lparr>kv_Value = kvp_Value kv, kv_ModRevision = r, kv_Lease = Some l\<rparr>)) kvs))"

context etcd_client
begin

lemma batch_committed:
  "cl_Txn client None (map (\<lambda>kv. OpPut (kvp_Key kv) (kvp_Value kv) (Some l)) kvs) [] d = (Some s, d') \<Longrightarrow>
   \<alpha> d' = (\<alpha> d)\<lparr>db_kvs := db_kvs (\<alpha> d) ++ batch_written l (db_rev (\<alpha> d) + 1) kvs,
                db_rev := (if kvs = [] then db_rev (\<alpha> d) else db_rev (\<alpha> d) + 1)\<rparr>"
  by (drule txn_law) (simp add: txn_branch_def cmp_holds_def after_ops_def batch_ops batch_written_def)

lemma failed_batch_revoked:
  assumes "db_ok db" and "l \<notin> db_leases db"
    and "\<alpha> d = after_grant l db"
    and "cl_Txn client None (map (\<lambda>kv. OpPut (kvp_Key kv) (kvp_Value kv) (Some l)) kvs) [] d = (None, d1)"
    and "cl_Revoke client l d1 = (ok, d')"
  shows "db_kvs (\<alpha> d') = db_kvs db
       \<or> db_kvs (\<alpha> d') = (\<lambda>k. if k \<in> kvp_Key ` set kvs then None else db_kvs db k)
       \<or> db_kvs (\<alpha> d') = db_kvs db ++ batch_written l (db_rev db + 1) kvs"
proof -
  have grant: "db_kvs (after_grant l db) = db_kvs db" "db_rev (after_grant l db) = db_rev db"
    by (simp_all add: after_grant_def)
  from txn_lost [OF assms(4)] assms(3)
  have d1: "\<alpha> d1 = after_grant l db
      \<or> \<alpha> d1 = fold (after_op (db_rev db + 1)) (map (\<lambda>kv. OpPut (kvp_Key kv) (kvp_Value kv) (Some l)) kvs) (after_grant l db)"
    by (simp add: txn_branch_def cmp_holds_def after_ops_def grant)
  from revoke_law [OF assms(5)]
  consider "\<alpha> d' = after_revoke l (\<alpha> d1)" | "\<alpha> d' = \<alpha> d1" by blast
  then show ?thesis
  proof cases
    case 1
    from d1 show ?thesis
      by (elim disjE) (simp_all only: 1 fresh_lease_revoked [OF assms(1,2)] simp_thms)
  next
    case 2
    with d1 show ?thesis by (auto simp: batch_ops batch_written_def grant)
  qed
qed

lemma BatchPut_atomic:
  assumes "db_ok (\<alpha> d)" and "BatchPutWithTTL client kvs ttl d = (ok, d')"
  shows "if ok then \<exists>l. (kvs \<noteq> [] \<longrightarrow> l \<notin> db_leases (\<alpha> d) \<and> l \<in> db_leases (\<alpha> d'))
                      \<and> db_kvs (\<alpha> d') = db_kvs (\<alpha> d) ++ batch_written l (db_rev (\<alpha> d) + 1) kvs
         else db_kvs (\<alpha> d') = db_kvs (\<alpha> d)
            \<or> db_kvs (\<alpha> d') = (\<lambda>k. if k \<in> kvp_Key ` set kvs then None else db_kvs (\<alpha> d) k)
            \<or> (\<exists>l. l \<notin> db_leases (\<alpha> d) \<and> db_kvs (\<alpha> d') = db_kvs (\<alpha> d) ++ batch_written l (db_rev (\<alpha> d) + 1) kvs)"
proof (cases "kvs = []")
  case True
  then show ?thesis using assms by (auto simp: BatchPutWithTTL_def batch_written_def)
next
  case False
  obtain lo d1 where g: "cl_Grant client (if ttl \<le> 0 then taskTTL else ttl) d = (lo, d1)" by fastforce
  show ?thesis
  proof (cases lo)
    case None
    then show ?thesis
      using assms False g grant_lost [of "if ttl \<le> 0 then taskTTL else ttl" d d1]
      by (auto simp: BatchPutWithTTL_def Let_def after_grant_def)
  next
    case (Some l)
    note grant = grant_law [OF g [unfolded Some]]
    obtain so d2 where t: "cl_Txn client None (map (\<lambda>kv. OpPut (kvp_Key kv) (kvp_Value kv) (Some l)) kvs) [] d1 = (so, d2)"
      by fastforce
    show ?thesis
    proof (cases so)
      case (Some s)
      from batch_committed [OF t [unfolded Some]] show ?thesis
        using assms False g t \<open>lo = Some l\<close> Some grant
        by (auto simp: BatchPutWithTTL_def Let_def after_grant_def intro!: exI [of _ l])
    next
      case None
      obtain rv d3 where r: "cl_Revoke client l d2 = (rv, d3)" by fastforce
      have "ok = False" "d' = d3" using assms(2) False g t \<open>lo = Some l\<close> None r by (auto simp: BatchPutWithTTL_def Let_def)
      with failed_batch_revoked [OF assms(1) conjunct1 [OF grant] conjunct2 [OF grant] t [unfolded None] r] grant
      show ?thesis by auto
    qed
  qed
qed

end

text \<open>A batch write with a time to live is all or nothing, also when etcd fails in the middle:
  if it succeeds, exactly its keys are written, all under one fresh lease; if it reports an error,
  the key space is as before, or all its keys are gone (the lease was revoked after the write had
  happened), or all of them are written and will expire together.\<close>

theorem BatchPutWithTTL_atomic:
  assumes "etcd_client client \<alpha>" and "db_ok (\<alpha> d)"
    and "BatchPutWithTTL client kvs ttl d = (ok, d')"
  shows "if ok then \<exists>l. (kvs \<noteq> [] \<longrightarrow> l \<notin> db_leases (\<alpha> d) \<and> l \<in> db_leases (\<alpha> d'))
                      \<and> db_kvs (\<alpha> d') = db_kvs (\<alpha> d) ++ batch_written l (db_rev (\<alpha> d) + 1) kvs
         else db_kvs (\<alpha> d') = db_kvs (\<alpha> d)
            \<or> db_kvs (\<alpha> d') = (\<lambda>k. if k \<in> kvp_Key ` set kvs then None else db_kvs (\<alpha> d) k)
            \<or> (\<exists>l. l \<notin> db_leases (\<alpha> d) \<and> db_kvs (\<alpha> d') = db_kvs (\<alpha> d) ++ batch_written l (db_rev (\<alpha> d) + 1) kvs)"
  by (rule etcd_client.BatchPut_atomic [OF assms])

definition demo_batch :: "key_value list" where
  "demo_batch = [\<lparr>kvp_Key = ''a'', kvp_Value = ''1''\<rparr>, \<lparr>kvp_Key = ''b'', kvp_Value = ''2''\<rparr>]"

text \<open>The second call of the run, the transaction, takes effect but its answer is lost.\<close>

definition demo_faulty :: mem_etcd where
  "demo_faulty = empty_etcd\<lparr>me_faults := [Works, LostAfter]\<rparr>"

lemma demo_faulty_db: "db_kvs (mem_db demo_faulty) = Map.empty" "db_leases (mem_db demo_faulty) = {}"
    "db_rev (mem_db demo_faulty) = 0" "db_ok (mem_db demo_faulty)"
  by (simp_all add: demo_faulty_def empty_etcd_def db_ok_def)

theorem BatchPutWithTTL_atomic_witness:
  "fst (BatchPutWithTTL mem_client demo_batch 0 demo_faulty) = False
   \<and> (let d' = snd (BatchPutWithTTL mem_client demo_batch 0 demo_faulty) in
      db_kvs (mem_db d') = Map.empty \<or> (\<exists>l. db_kvs (mem_db d') = Map.empty ++ batch_written l 1 demo_batch))"
proof -
  obtain ok d' where run: "BatchPutWithTTL mem_client demo_batch 0 demo_faulty = (ok, d')" by fastforce
  have "fst (BatchPutWithTTL mem_client demo_batch 0 demo_faulty) = False" by code_simp
  with run have "ok = False" by simp
  with BatchPutWithTTL_atomic [OF mem.etcd_client_axioms demo_faulty_db(4) run] run show ?thesis
    unfolding Let_def demo_faulty_db by auto
qed

end
