(* ===== verification/Cas_Lock.thy ===== *)
theory Cas_Lock
  imports Etcd_Store
begin

text \<open>
  \<^verbatim>\<open>infra/engine/runtime/cas_lock.go\<close>: how a worker takes a task by optimistic locking. One
  attempt is two calls of the store, a read and a conditional write, between which anything may
  happen to the key; the loop of attempts is therefore a machine whose program counter says which
  call is next. The system of all workers interleaves their machines with the other writers of
  the key.
\<close>

subsection \<open>One worker\<close>

datatype acquire_pc =
    CasRead nat                            \<comment> \<open>about to read, in this attempt\<close>
  | CasWrite nat task_payload string int   \<comment> \<open>about to write this value at this revision\<close>
  | CasWon task_payload
  | CasLost

definition maxRetries :: nat where
  "maxRetries = 3"

definition cas_read :: "codec \<Rightarrow> 'db etcd \<Rightarrow> string \<Rightarrow> nat \<Rightarrow> 'db \<Rightarrow> acquire_pc" where
  "cas_read j c key attempt d =
     (case GetWithRevision c key d of
        None \<Rightarrow> CasLost
      | Some (val, revision) \<Rightarrow>
          if val = '''' then CasLost
          else case Deserialize j val of
            None \<Rightarrow> CasLost
          | Some payload \<Rightarrow>
              if tp_Status payload \<noteq> StatusPending then CasLost
              else let payload = payload\<lparr>tp_Status := StatusRunning\<rparr> in
                case Serialize j payload of
                  None \<Rightarrow> CasLost
                | Some newVal \<Rightarrow> CasWrite attempt payload newVal revision)"

text \<open>\<open>cancelled\<close>: the context ends during the back-off.\<close>

definition cas_write ::
  "'db etcd \<Rightarrow> string \<Rightarrow> bool \<Rightarrow> nat \<Rightarrow> task_payload \<Rightarrow> string \<Rightarrow> int \<Rightarrow> 'db \<Rightarrow> acquire_pc \<times> 'db" where
  "cas_write c key cancelled attempt payload newVal revision d =
     (case CASPut c key newVal revision d of
        (None, d) \<Rightarrow> (CasLost, d)
      | (Some (success, newRevision), d) \<Rightarrow>
          if success then (CasWon (payload\<lparr>EtcdModRevision := newRevision\<rparr>), d)
          else if attempt < maxRetries - 1 \<and> \<not> cancelled then (CasRead (attempt + 1), d)
          else (CasLost, d))"

fun cas_step :: "codec \<Rightarrow> 'db etcd \<Rightarrow> string \<Rightarrow> bool \<Rightarrow> acquire_pc \<Rightarrow> 'db \<Rightarrow> acquire_pc \<times> 'db" where
  "cas_step j c key cancelled (CasRead n) d = (cas_read j c key n d, d)"
| "cas_step j c key cancelled (CasWrite n p v r) d = cas_write c key cancelled n p v r d"
| "cas_step j c key cancelled (CasWon p) d = (CasWon p, d)"
| "cas_step j c key cancelled CasLost d = (CasLost, d)"

text \<open>The calls a machine can still make: no attempt is made after the third.\<close>

fun calls_left :: "acquire_pc \<Rightarrow> nat" where
  "calls_left (CasRead n) = 2 * (maxRetries - n) + 2"
| "calls_left (CasWrite n p v r) = 2 * (maxRetries - n) + 1"
| "calls_left (CasWon p) = 0"
| "calls_left CasLost = 0"

lemma cas_read_cases:
  "cas_read j c key n d = CasLost \<or> (\<exists>p v r. cas_read j c key n d = CasWrite n p v r)"
  by (auto simp: cas_read_def Let_def split: option.splits prod.splits)

lemma cas_step_progress:
  "calls_left pc \<noteq> 0 \<Longrightarrow> calls_left (fst (cas_step j c key cancelled pc d)) < calls_left pc"
proof (cases pc)
  case (CasRead n)
  then show ?thesis using cas_read_cases [of j c key n d] by auto
next
  case (CasWrite n p v r)
  then show ?thesis
    by (auto simp: cas_write_def maxRetries_def split: prod.splits option.splits)
qed simp_all

text \<open>The whole of \<^verbatim>\<open>tryAcquire\<close>; \<open>others n\<close> is what the other clients do to etcd before the
  machine's call number \<open>n\<close>.\<close>

function cas_loop ::
  "codec \<Rightarrow> 'db etcd \<Rightarrow> string \<Rightarrow> bool \<Rightarrow> (nat \<Rightarrow> 'db \<Rightarrow> 'db) \<Rightarrow> nat \<Rightarrow> acquire_pc \<Rightarrow> 'db \<Rightarrow> acquire_pc \<times> 'db" where
  "cas_loop j c key cancelled others n pc d =
     (if calls_left pc = 0 then (pc, d)
      else (let (pc', d') = cas_step j c key cancelled pc (others n d)
            in cas_loop j c key cancelled others (n + 1) pc' d'))"
  by pat_completeness auto
termination
  by (relation "measure (\<lambda>(j, c, key, cancelled, others, n, pc, d). calls_left pc)")
     (auto simp: cas_step_progress split_def)

declare cas_loop.simps [simp del]

definition tryAcquire ::
  "codec \<Rightarrow> 'db etcd \<Rightarrow> string \<Rightarrow> bool \<Rightarrow> (nat \<Rightarrow> 'db \<Rightarrow> 'db) \<Rightarrow> 'db \<Rightarrow> task_payload option \<times> 'db" where
  "tryAcquire j c key cancelled others d =
     (case cas_loop j c key cancelled others 0 (CasRead 0) d of
        (CasWon p, d) \<Rightarrow> (Some p, d)
      | (_, d) \<Rightarrow> (None, d))"


subsection \<open>The final status\<close>

text \<open>The result of the conditional write: a definite answer, or a conflict to look into.\<close>

definition update_write :: "codec \<Rightarrow> 'db etcd \<Rightarrow> string \<Rightarrow> task_payload \<Rightarrow> 'db \<Rightarrow> bool option \<times> 'db" where
  "update_write j c key payload d =
     (case Serialize j payload of
        None \<Rightarrow> (Some False, d)
      | Some val \<Rightarrow>
          if EtcdModRevision payload = 0 then (Some False, d)
          else case CASPut c key val (EtcdModRevision payload) d of
            (None, d) \<Rightarrow> (Some False, d)
          | (Some (success, _), d) \<Rightarrow> (if success then Some True else None, d))"

definition update_conflict :: "codec \<Rightarrow> 'db etcd \<Rightarrow> string \<Rightarrow> 'db \<Rightarrow> bool" where
  "update_conflict j c key d =
     (case GetWithRevision c key d of
        None \<Rightarrow> False
      | Some (latestVal, _) \<Rightarrow>
          if latestVal = '''' then False
          else case Deserialize j latestVal of
            None \<Rightarrow> False
          | Some latest \<Rightarrow> tp_Status latest = StatusCompleted \<or> tp_Status latest = StatusFailed)"

definition updateStatus ::
  "codec \<Rightarrow> 'db etcd \<Rightarrow> string \<Rightarrow> ('db \<Rightarrow> 'db) \<Rightarrow> task_payload \<Rightarrow> 'db \<Rightarrow> bool \<times> 'db" where
  "updateStatus j c key others payload d =
     (case update_write j c key payload d of
        (Some b, d) \<Rightarrow> (b, d)
      | (None, d) \<Rightarrow> (let d = others d in (update_conflict j c key d, d)))"


subsection \<open>All workers\<close>

text \<open>The status a stored value decodes to.\<close>

definition stored_status :: "codec \<Rightarrow> etcd_kv \<Rightarrow> task_status option" where
  "stored_status j kv = map_option tp_Status (Deserialize j (kv_Value kv))"

text \<open>What everyone else may do to the key: leave it, delete it, or overwrite it (at a new
  revision, as every etcd write) with something that is not a pending payload. That is what the
  winner's reports and the master's clean-up do; a retry of the master uses a new key.\<close>

definition keeps_taken :: "codec \<Rightarrow> string \<Rightarrow> etcd_db \<Rightarrow> etcd_db \<Rightarrow> bool" where
  "keeps_taken j key db db' \<longleftrightarrow>
     db_ok db' \<and> db_rev db \<le> db_rev db' \<and>
     (case db_kvs db' key of
        None \<Rightarrow> True
      | Some kv \<Rightarrow> db_kvs db key = Some kv
                   \<or> (db_rev db < kv_ModRevision kv \<and> stored_status j kv \<noteq> Some StatusPending))"

text \<open>The state: etcd, every worker's machine, and the workers that have won so far. A worker may
  start anew at any time, for an event that is delivered again.\<close>

inductive cas_system ::
  "codec \<Rightarrow> 'db etcd \<Rightarrow> ('db \<Rightarrow> etcd_db) \<Rightarrow> string \<Rightarrow>
   'db \<times> (nat \<Rightarrow> acquire_pc) \<times> nat list \<Rightarrow> 'db \<times> (nat \<Rightarrow> acquire_pc) \<times> nat list \<Rightarrow> bool"
  for j c \<alpha> key where
  call: "calls_left (pcs w) \<noteq> 0 \<Longrightarrow> cas_step j c key cancelled (pcs w) d = (pc', d') \<Longrightarrow>
     cas_system j c \<alpha> key (d, pcs, ws)
       (d', pcs(w := pc'), (case pc' of CasWon p \<Rightarrow> w # ws | _ \<Rightarrow> ws))"
| start: "cas_system j c \<alpha> key (d, pcs, ws) (d, pcs(w := CasRead 0), ws)"
| others: "keeps_taken j key (\<alpha> d) (\<alpha> d') \<Longrightarrow> cas_system j c \<alpha> key (d, pcs, ws) (d', pcs, ws)"

definition cas_inv :: "codec \<Rightarrow> string \<Rightarrow> etcd_db \<Rightarrow> (nat \<Rightarrow> acquire_pc) \<Rightarrow> nat list \<Rightarrow> bool" where
  "cas_inv j key db pcs ws \<longleftrightarrow>
     db_ok db \<and> length ws \<le> 1 \<and>
     (ws \<noteq> [] \<longrightarrow> (\<forall>kv. db_kvs db key = Some kv \<longrightarrow> stored_status j kv \<noteq> Some StatusPending)) \<and>
     (\<forall>w n p v r. pcs w = CasWrite n p v r \<longrightarrow>
        0 < r \<and> r \<le> db_rev db \<and> map_option tp_Status (Deserialize j v) = Some StatusRunning \<and>
        (\<forall>kv. db_kvs db key = Some kv \<longrightarrow> kv_ModRevision kv = r \<longrightarrow> stored_status j kv = Some StatusPending)) \<and>
     (\<forall>w p. pcs w = CasWon p \<longrightarrow> w \<in> set ws)"

lemma db_ok_after_put: "db_ok db \<Longrightarrow> db_ok (after_put (db_rev db + 1) k v None db)"
  by (fastforce simp: db_ok_def after_put_def)

text \<open>What a conditional write at a revision that the reader has seen does to the key.\<close>

lemma cas_write_effect:
  assumes "etcd_client client \<alpha>" and "CASPut client key v r d = (res, d')" and "0 < r"
  obtains (wrote) kv where "db_kvs (\<alpha> d) key = Some kv" and "kv_ModRevision kv = r"
      and "\<alpha> d' = after_put (db_rev (\<alpha> d) + 1) key v None (\<alpha> d)"
      and "res = None \<or> res = Some (True, db_rev (\<alpha> d) + 1)"
    | (kept) "\<alpha> d' = \<alpha> d" and "\<And>r'. res \<noteq> Some (True, r')"
  using etcd_client.CASPut_cases [OF assms(1,2)] assms(3)
  by (auto simp: cmp_holds_def txn_branch_def after_ops_def split: option.splits prod.splits bool.splits if_splits)

lemma cas_read_write:
  assumes "etcd_client client \<alpha>" and "codec_status j" and "db_ok (\<alpha> d)"
    and "cas_read j client key n d = CasWrite n' p v r"
  shows "0 < r \<and> r \<le> db_rev (\<alpha> d) \<and> map_option tp_Status (Deserialize j v) = Some StatusRunning
       \<and> (\<forall>kv. db_kvs (\<alpha> d) key = Some kv \<longrightarrow> kv_ModRevision kv = r \<longrightarrow> stored_status j kv = Some StatusPending)"
proof -
  from assms(4) obtain val q where g: "GetWithRevision client key d = Some (val, r)" "val \<noteq> ''''"
    and q: "Deserialize j val = Some q" "tp_Status q = StatusPending"
    and v: "Serialize j (q\<lparr>tp_Status := StatusRunning\<rparr>) = Some v"
    by (auto simp: cas_read_def Let_def split: option.splits prod.splits if_splits)
  from etcd_client.GetWithRevision_cases [OF assms(1) g(1)] g(2) obtain kv where
    kv: "db_kvs (\<alpha> d) key = Some kv" "val = kv_Value kv" "r = kv_ModRevision kv" by auto
  moreover have "0 < kv_ModRevision kv \<and> kv_ModRevision kv \<le> db_rev (\<alpha> d)"
    using assms(3) kv(1) by (simp add: db_ok_def)
  moreover have "map_option tp_Status (Deserialize j v) = Some StatusRunning"
    using assms(2) v by (fastforce simp: codec_status_def)
  ultimately show ?thesis using q by (simp add: stored_status_def)
qed

lemma cas_invI:
  assumes "db_ok db" and "length ws \<le> 1"
    and "\<And>kv. ws \<noteq> [] \<Longrightarrow> db_kvs db key = Some kv \<Longrightarrow> stored_status j kv \<noteq> Some StatusPending"
    and "\<And>w n p v r. pcs w = CasWrite n p v r \<Longrightarrow>
      0 < r \<and> r \<le> db_rev db \<and> map_option tp_Status (Deserialize j v) = Some StatusRunning"
    and "\<And>w n p v r kv. pcs w = CasWrite n p v r \<Longrightarrow> db_kvs db key = Some kv \<Longrightarrow> kv_ModRevision kv = r \<Longrightarrow>
      stored_status j kv = Some StatusPending"
    and "\<And>w p. pcs w = CasWon p \<Longrightarrow> w \<in> set ws"
  shows "cas_inv j key db pcs ws"
  using assms unfolding cas_inv_def by blast

lemma cas_inv_wrote:
  assumes inv: "cas_inv j key db pcs ws" and pc: "pcs w = CasWrite n p v r"
    and kv: "db_kvs db key = Some kv" "kv_ModRevision kv = r"
    and pc': "\<And>n p v r. pc' \<noteq> CasWrite n p v r"
  shows "cas_inv j key (after_put (db_rev db + 1) key v None db) (pcs(w := pc'))
           (case pc' of CasWon p \<Rightarrow> w # ws | _ \<Rightarrow> ws)"
proof -
  let ?db = "after_put (db_rev db + 1) key v None db"
  have "stored_status j kv = Some StatusPending" using inv pc kv by (simp add: cas_inv_def)
  with inv kv(1) have ws: "ws = []" by (auto simp: cas_inv_def)
  let ?ws = "case pc' of CasWon p \<Rightarrow> w # ws | _ \<Rightarrow> ws"
  show ?thesis
  proof (rule cas_invI)
    show "db_ok ?db" using inv by (simp add: cas_inv_def db_ok_after_put)
    show "length ?ws \<le> 1" using ws by (cases pc') simp_all
    have v: "map_option tp_Status (Deserialize j v) = Some StatusRunning"
      using inv pc unfolding cas_inv_def by blast
    fix kv' assume "db_kvs ?db key = Some kv'"
    with v show "stored_status j kv' \<noteq> Some StatusPending"
      by (auto simp: after_put_def stored_status_def)
  next
    fix w1 n1 p1 v1 r1 assume w1: "(pcs(w := pc')) w1 = CasWrite n1 p1 v1 r1"
    then have "pcs w1 = CasWrite n1 p1 v1 r1" using pc' by (metis fun_upd_apply)
    with inv have r1: "0 < r1" "r1 \<le> db_rev db" "map_option tp_Status (Deserialize j v1) = Some StatusRunning"
      by (simp_all add: cas_inv_def)
    then show "0 < r1 \<and> r1 \<le> db_rev ?db \<and> map_option tp_Status (Deserialize j v1) = Some StatusRunning"
      by (simp add: after_put_def)
    fix kv' assume "db_kvs ?db key = Some kv'" and "kv_ModRevision kv' = r1"
    with r1 show "stored_status j kv' = Some StatusPending" by (auto simp: after_put_def)
  next
    fix w1 q assume "(pcs(w := pc')) w1 = CasWon q"
    with inv ws show "w1 \<in> set ?ws" by (cases "w1 = w") (auto simp: cas_inv_def)
  qed
qed

lemma cas_inv_kept:
  assumes "cas_inv j key db pcs ws" and "\<And>q. pc' \<noteq> CasWon q"
    and "\<And>n p v r. pc' = CasWrite n p v r \<Longrightarrow>
      0 < r \<and> r \<le> db_rev db \<and> map_option tp_Status (Deserialize j v) = Some StatusRunning \<and>
      (\<forall>kv. db_kvs db key = Some kv \<longrightarrow> kv_ModRevision kv = r \<longrightarrow> stored_status j kv = Some StatusPending)"
  shows "cas_inv j key db (pcs(w := pc')) ws"
  using assms unfolding cas_inv_def by simp

lemma cas_inv_others:
  assumes "cas_inv j key db pcs ws" and "keeps_taken j key db db'"
  shows "cas_inv j key db' pcs ws"
proof -
  have "stored_status j kv = Some StatusPending"
    if "pcs w = CasWrite n p v r" "db_kvs db' key = Some kv" "kv_ModRevision kv = r" for w n p v r kv
    using assms that by (fastforce simp: cas_inv_def keeps_taken_def)
  moreover have "stored_status j kv \<noteq> Some StatusPending" if "ws \<noteq> []" "db_kvs db' key = Some kv" for kv
    using assms that by (auto simp: cas_inv_def keeps_taken_def)
  moreover have "r \<le> db_rev db'" if "pcs w = CasWrite n p v r" for w n p v r
    using assms that by (fastforce simp: cas_inv_def keeps_taken_def)
  ultimately show ?thesis using assms by (simp add: cas_inv_def keeps_taken_def)
qed

lemma cas_inv_step:
  assumes "etcd_client client \<alpha>" and "codec_status j"
    and "cas_system j client \<alpha> key (d, pcs, ws) (d', pcs', ws')"
    and inv: "cas_inv j key (\<alpha> d) pcs ws"
  shows "cas_inv j key (\<alpha> d') pcs' ws'"
  using assms(3)
proof cases
  case (call w cancelled pc')
  show ?thesis
  proof (cases "pcs w")
    case (CasRead n)
    then have d': "d' = d" and pc': "pc' = cas_read j client key n d" using call by auto
    have not_won: "pc' \<noteq> CasWon q" for q using cas_read_cases [of j client key n d] pc' by auto
    have "db_ok (\<alpha> d)" using inv by (simp add: cas_inv_def)
    with cas_inv_kept [OF inv not_won, of w] cas_read_write [OF assms(1,2), of d key n] pc'
    have "cas_inv j key (\<alpha> d) (pcs(w := pc')) ws" by simp
    moreover have "ws' = ws" using call not_won by (auto split: acquire_pc.splits)
    ultimately show ?thesis using call d' by simp
  next
    case (CasWrite n p v r)
    then have w: "cas_write client key cancelled n p v r d = (pc', d')" using call by simp
    obtain res d1 where cas: "CASPut client key v r d = (res, d1)" by fastforce
    have r: "0 < r" using inv CasWrite by (simp add: cas_inv_def)
    have d1: "d1 = d'" using w cas by (auto simp: cas_write_def split: option.splits prod.splits if_splits)
    have pc': "\<And>n p v r. pc' \<noteq> CasWrite n p v r"
      using w cas by (auto simp: cas_write_def split: option.splits prod.splits if_splits)
    show ?thesis
    proof (cases rule: cas_write_effect [OF assms(1) cas r])
      case (1 kv)
      with cas_inv_wrote [OF inv CasWrite 1(1,2) pc'] call d1 show ?thesis by simp
    next
      case 2
      have not_won: "pc' \<noteq> CasWon q" for q
        using w cas 2(2) by (auto simp: cas_write_def split: option.splits prod.splits if_splits)
      have "cas_inv j key (\<alpha> d) (pcs(w := pc')) ws"
        by (rule cas_inv_kept [OF inv not_won]) (use pc' in blast)
      moreover have "ws' = ws" using call not_won by (auto split: acquire_pc.splits)
      ultimately show ?thesis using call 2(1) d1 by simp
    qed
  qed (use call in auto)
next
  case (start w)
  then show ?thesis using cas_inv_kept [OF inv, of "CasRead 0" w] by simp
next
  case others
  then show ?thesis using cas_inv_others [OF inv] by simp
qed

lemma cas_inv_reachable:
  assumes "etcd_client client \<alpha>" and "codec_status j"
    and "(cas_system j client \<alpha> key)\<^sup>*\<^sup>* s s'" and "cas_inv j key (\<alpha> (fst s)) (fst (snd s)) (snd (snd s))"
  shows "cas_inv j key (\<alpha> (fst s')) (fst (snd s')) (snd (snd s'))"
  using assms(3,4)
proof (induction rule: rtranclp_induct)
  case (step s1 s2)
  then show ?case
    using cas_inv_step [OF assms(1,2), of key "fst s1" "fst (snd s1)" "snd (snd s1)" "fst s2" "fst (snd s2)" "snd (snd s2)"]
    by simp
qed

text \<open>C22. At most one worker ever takes a task: however the read and write calls of all workers
  interleave with each other, with failing calls of etcd, with repeated deliveries of the task's
  event and with the reports and deletions of others, no second conditional write succeeds as long
  as nobody writes the task's key back to PENDING.\<close>

theorem cas_single_winner:
  assumes "etcd_client client \<alpha>" and "codec_status j" and "db_ok (\<alpha> d0)"
    and "(cas_system j client \<alpha> key)\<^sup>*\<^sup>* (d0, (\<lambda>w. CasRead 0), []) (d, pcs, ws)"
  shows "length ws \<le> 1 \<and> (\<forall>w w' p p'. pcs w = CasWon p \<and> pcs w' = CasWon p' \<longrightarrow> w = w')"
proof -
  have "cas_inv j key (\<alpha> d0) (\<lambda>w. CasRead 0) []" using assms(3) by (simp add: cas_inv_def)
  with cas_inv_reachable [OF assms(1,2,4)] have "cas_inv j key (\<alpha> d) pcs ws" by simp
  then have won: "length ws \<le> 1" "\<And>w p. pcs w = CasWon p \<Longrightarrow> w \<in> set ws" by (simp_all add: cas_inv_def)
  moreover from this have "w = w'" if "w \<in> set ws" "w' \<in> set ws" for w w'
    using that won(1) by (cases ws) auto
  with won show ?thesis by blast
qed

text \<open>A codec that writes nothing but the status, and two workers that both read the pending task
  before either writes.\<close>

definition demo_codec :: codec where
  "demo_codec =
     \<lparr>Serialize = (\<lambda>p. Some (case tp_Status p of StatusPending \<Rightarrow> ''P'' | StatusRunning \<Rightarrow> ''R''
        | StatusCompleted \<Rightarrow> ''C'' | StatusFailed \<Rightarrow> ''F'' | StatusUnset \<Rightarrow> ''U'')),
      Deserialize = (\<lambda>s. if s = ''P'' then Some (zero_payload\<lparr>tp_Status := StatusPending\<rparr>)
        else if s = ''R'' then Some (zero_payload\<lparr>tp_Status := StatusRunning\<rparr>)
        else if s = ''C'' then Some (zero_payload\<lparr>tp_Status := StatusCompleted\<rparr>)
        else if s = ''F'' then Some (zero_payload\<lparr>tp_Status := StatusFailed\<rparr>)
        else if s = ''U'' then Some zero_payload else None)\<rparr>"

lemma demo_codec_status: "codec_status demo_codec"
  by (auto simp: codec_status_def demo_codec_def zero_payload_def split: task_status.splits)

definition demo_task :: mem_etcd where
  "demo_task = mem_put 1 ''k'' ''P'' None empty_etcd"

lemma demo_task_ok: "db_ok (mem_db demo_task)"
  by (simp add: demo_task_def empty_etcd_def db_ok_def mem_put_def)

definition demo_won :: mem_etcd where
  "demo_won = mem_put 2 ''k'' ''R'' None demo_task"

definition demo_running :: task_payload where
  "demo_running = zero_payload\<lparr>tp_Status := StatusRunning\<rparr>"

lemma demo_steps:
  "cas_step demo_codec mem_client ''k'' False (CasRead 0) demo_task = (CasWrite 0 demo_running ''R'' 1, demo_task)"
  "cas_step demo_codec mem_client ''k'' False (CasWrite 0 demo_running ''R'' 1) demo_task
     = (CasWon (demo_running\<lparr>EtcdModRevision := 2\<rparr>), demo_won)"
  "cas_step demo_codec mem_client ''k'' False (CasWrite 0 demo_running ''R'' 1) demo_won = (CasRead 1, demo_won)"
  "cas_step demo_codec mem_client ''k'' False (CasRead 1) demo_won = (CasLost, demo_won)"
  by (simp_all add: cas_read_def cas_write_def GetWithRevision_def CASPut_def mem_client_def mem_found_def
      found_def mem_txn_def txn_branch_def cmp_holds_def mem_call_def next_fault_def maxRetries_def
      demo_task_def demo_won_def demo_running_def demo_codec_def zero_payload_def mem_put_def empty_etcd_def)

theorem cas_single_winner_witness:
  "\<exists>pcs. (cas_system demo_codec mem_client mem_db ''k'')\<^sup>*\<^sup>* (demo_task, (\<lambda>w. CasRead 0), []) (demo_won, pcs, [0])
       \<and> pcs 1 = CasLost \<and> length [0::nat] \<le> 1"
proof -
  let ?S = "cas_system demo_codec mem_client mem_db ''k''"
  let ?w = "CasWrite 0 demo_running ''R'' 1" and ?won = "CasWon (demo_running\<lparr>EtcdModRevision := 2\<rparr>)"
  let ?p0 = "\<lambda>w::nat. CasRead 0"
  note call = cas_system.call [where cancelled = False and j = demo_codec and c = mem_client and \<alpha> = mem_db and key = "''k''"]
  have "?S (demo_task, ?p0, []) (demo_task, ?p0(0 := ?w), [])"
    using call [of ?p0 0 demo_task ?w demo_task "[]"] by (simp add: demo_steps del: cas_step.simps)
  moreover have "?S (demo_task, ?p0(0 := ?w), []) (demo_task, ?p0(0 := ?w, 1 := ?w), [])"
    using call [of "?p0(0 := ?w)" 1 demo_task ?w demo_task "[]"] by (simp add: demo_steps del: cas_step.simps)
  moreover have "?S (demo_task, ?p0(0 := ?w, 1 := ?w), []) (demo_won, ?p0(1 := ?w, 0 := ?won), [0])"
    using call [of "?p0(0 := ?w, 1 := ?w)" 0 demo_task ?won demo_won "[]"] by (simp add: demo_steps demo_steps(4) [unfolded One_nat_def] fun_upd_twist del: cas_step.simps)
  moreover have "?S (demo_won, ?p0(1 := ?w, 0 := ?won), [0]) (demo_won, ?p0(0 := ?won, 1 := CasRead 1), [0])"
    using call [of "?p0(1 := ?w, 0 := ?won)" 1 demo_won "CasRead 1" demo_won "[0]"] by (simp add: demo_steps demo_steps(4) [unfolded One_nat_def] fun_upd_twist del: cas_step.simps)
  moreover have "?S (demo_won, ?p0(0 := ?won, 1 := CasRead 1), [0]) (demo_won, ?p0(0 := ?won, 1 := CasLost), [0])"
    using call [of "?p0(0 := ?won, 1 := CasRead 1)" 1 demo_won CasLost demo_won "[0]"] by (simp add: demo_steps demo_steps(4) [unfolded One_nat_def] fun_upd_twist del: cas_step.simps)
  ultimately have "?S\<^sup>*\<^sup>* (demo_task, ?p0, []) (demo_won, ?p0(0 := ?won, 1 := CasLost), [0])"
    by (meson converse_rtranclp_into_rtranclp rtranclp.rtrancl_refl)
  moreover from cas_single_winner [OF mem.etcd_client_axioms demo_codec_status demo_task_ok this]
  have "length [0::nat] \<le> 1" ..
  ultimately show ?thesis by (intro exI [of _ "?p0(0 := ?won, 1 := CasLost)"]) simp
qed

text \<open>The winner's final status: written if the key is still as the winner left it, and otherwise
  nothing is written; then the answer says whether somebody else has finished the task.\<close>

lemma updateStatus_outcome:
  assumes "etcd_client client \<alpha>" and "0 < EtcdModRevision p" and "Serialize j p = Some v"
    and "updateStatus j client key others p d = (ok, d')"
  shows "(\<exists>kv. db_kvs (\<alpha> d) key = Some kv \<and> kv_ModRevision kv = EtcdModRevision p
            \<and> \<alpha> d' = after_put (db_rev (\<alpha> d) + 1) key v None (\<alpha> d))
       \<or> (\<not> ok \<and> \<alpha> d' = \<alpha> d)
       \<or> (\<exists>d1. \<alpha> d1 = \<alpha> d \<and> d' = others d1 \<and>
            (ok \<longrightarrow> (\<exists>kv. db_kvs (\<alpha> d') key = Some kv
                      \<and> stored_status j kv \<in> {Some StatusCompleted, Some StatusFailed})))"
proof -
  obtain res d1 where cas: "CASPut client key v (EtcdModRevision p) d = (res, d1)" by fastforce
  have up: "update_write j client key p d =
      (case res of None \<Rightarrow> (Some False, d1) | Some (success, _) \<Rightarrow> (if success then Some True else None, d1))"
    using assms(2,3) cas by (simp add: update_write_def)
  show ?thesis
  proof (cases rule: cas_write_effect [OF assms(1) cas assms(2)])
    case (1 kv)
    then have "d' = d1" using assms(4) up by (auto simp: updateStatus_def)
    with 1 show ?thesis by blast
  next
    case 2
    show ?thesis
    proof (cases res)
      case None
      then have "\<not> ok \<and> \<alpha> d' = \<alpha> d" using assms(4) up 2(1) by (auto simp: updateStatus_def)
      then show ?thesis by blast
    next
      case (Some br)
      then have "fst br = False" using 2(2) by (cases br) auto
      then have d': "d' = others d1" and ok: "ok = update_conflict j client key (others d1)"
        using assms(4) up Some by (auto simp: updateStatus_def Let_def split: prod.splits)
      have "\<exists>kv. db_kvs (\<alpha> d') key = Some kv \<and> stored_status j kv \<in> {Some StatusCompleted, Some StatusFailed}" if ok
      proof -
        from that ok d' obtain val r q where g: "GetWithRevision client key d' = Some (val, r)" "val \<noteq> ''''"
          and q: "Deserialize j val = Some q" "tp_Status q = StatusCompleted \<or> tp_Status q = StatusFailed"
          by (auto simp: update_conflict_def split: option.splits prod.splits if_splits)
        from etcd_client.GetWithRevision_cases [OF assms(1) g(1)] g(2) q show ?thesis
          by (auto simp: stored_status_def)
      qed
      with 2(1) d' show ?thesis by blast
    qed
  qed
qed

end
