(* ===== verification/Task_Registry.thy ===== *)
theory Task_Registry
  imports Task_Payload
begin

text \<open>
  \<^verbatim>\<open>domain/model/task.go\<close> and \<^verbatim>\<open>infra/engine/runtime/registry.go\<close>: errors that forbid a retry, the
  parameters a task declares, and the registry in which a worker keeps its handlers. The handlers
  themselves are the user's code and therefore functions that a registered task carries: given
  their time limit, parameters and context they return or panic, and leave a context behind.
\<close>

subsection \<open>Errors\<close>

text \<open>Error values as far as \<^verbatim>\<open>errors.Is\<close> tells them apart: the sentinel, a plain error, and what
  \<^verbatim>\<open>fmt.Errorf\<close> wraps with \<^verbatim>\<open>%w\<close>.\<close>

datatype go_error =
    ErrNoRetry
  | ErrPlain msg
  | ErrWrap msg go_error         \<comment> \<open>\<^verbatim>\<open>"<text>: %w"\<close>\<close>
  | ErrWrap2 go_error go_error      \<comment> \<open>\<^verbatim>\<open>"%w: %w"\<close>\<close>

fun error_text :: "go_error \<Rightarrow> msg" where
  "error_text ErrNoRetry = Text ''no retry''"
| "error_text (ErrPlain m) = m"
| "error_text (ErrWrap m e) = MsgJoin m (error_text e)"
| "error_text (ErrWrap2 e f) = MsgJoin (error_text e) (error_text f)"

text \<open>\<^verbatim>\<open>errors.Is\<close>: the target occurs somewhere in the tree of wrapped errors.\<close>

fun errors_Is :: "go_error \<Rightarrow> go_error \<Rightarrow> bool" where
  "errors_Is (ErrWrap s e) t \<longleftrightarrow> ErrWrap s e = t \<or> errors_Is e t"
| "errors_Is (ErrWrap2 e f) t \<longleftrightarrow> ErrWrap2 e f = t \<or> errors_Is e t \<or> errors_Is f t"
| "errors_Is e t \<longleftrightarrow> e = t"

definition WrapNoRetry :: "go_error option \<Rightarrow> go_error option" where
  "WrapNoRetry err = (case err of None \<Rightarrow> None | Some e \<Rightarrow> Some (ErrWrap2 ErrNoRetry e))"

lemma WrapNoRetry_marks: "WrapNoRetry err = Some e \<Longrightarrow> errors_Is e ErrNoRetry"
  by (auto simp: WrapNoRetry_def split: option.splits)

lemma WrapNoRetry_keeps: "errors_Is e t \<Longrightarrow> \<exists>e'. WrapNoRetry (Some e) = Some e' \<and> errors_Is e' t"
  by (simp add: WrapNoRetry_def)


subsection \<open>Tasks and their parameters\<close>

record param_option =
  po_Label :: string
  po_Value :: string

record param =
  pm_Key :: string
  pm_Label :: string
  pm_Type :: string
  pm_Required :: bool
  pm_Default :: any   \<comment> \<open>\<open>ANil\<close>: no default\<close>
  pm_Options :: "param_option list"
  pm_Placeholder :: string
  pm_Description :: string

record task_type =
  tt_Name :: string
  tt_Description :: string
  tt_Params :: "param list"

text \<open>What a handler did, and the task context it leaves behind.\<close>

datatype handler_result = Returned "go_error option" ctx | Panicked string ctx

type_synonym handler = "int option \<Rightarrow> ctx \<Rightarrow> ctx \<Rightarrow> handler_result"

record task =
  t_Name :: string
  t_Params :: "param list"
  t_Execute :: handler
  t_OnRollback :: "handler option"  \<comment> \<open>\<open>None\<close>: the task is not \<^verbatim>\<open>Rollbackable\<close>\<close>

datatype register_error =
    NameEmpty
  | ParamWithoutDefault string string string  \<comment> \<open>task, key, label\<close>
  | AlreadyRegistered string

definition check_param :: "string \<Rightarrow> param \<Rightarrow> register_error + unit" where
  "check_param name p =
     (if pm_Required p \<and> pm_Default p = ANil
      then Inl (ParamWithoutDefault name (pm_Key p) (pm_Label p)) else Inr ())"

definition ValidateTaskParams :: "task \<Rightarrow> register_error + unit" where
  "ValidateTaskParams t = check_all (check_param (t_Name t)) (t_Params t)"


subsection \<open>The registry\<close>

text \<open>\<^verbatim>\<open>range\<close> over the map of tasks visits it in a new arbitrary order every time, so the
  functions that range take the order of this visit: any permutation of the entries.\<close>

record task_registry =
  tr_tasks :: "(string \<times> task) list"

definition NewTaskRegistry :: task_registry where
  "NewTaskRegistry = \<lparr>tr_tasks = []\<rparr>"

definition Register :: "task \<Rightarrow> task_registry \<Rightarrow> register_error + task_registry" where
  "Register t r =
     (if t_Name t = '''' then Inl NameEmpty
      else bind_sum (ValidateTaskParams t) (\<lambda>_.
        if map_of (tr_tasks r) (t_Name t) \<noteq> None then Inl (AlreadyRegistered (t_Name t))
        else Inr (r\<lparr>tr_tasks := (t_Name t, t) # tr_tasks r\<rparr>)))"

definition registry_Get :: "task_registry \<Rightarrow> string \<Rightarrow> task option" where
  "registry_Get r name = map_of (tr_tasks r) name"

definition range_order :: "(string \<times> task) list \<Rightarrow> task_registry \<Rightarrow> bool" where
  "range_order visited r \<longleftrightarrow> mset visited = mset (tr_tasks r)"

definition namesLocked :: "(string \<times> task) list \<Rightarrow> string list" where
  "namesLocked visited = map fst visited"

definition typesLocked :: "(string \<times> task) list \<Rightarrow> task_type list" where
  "typesLocked visited =
     map (\<lambda>(_, t). \<lparr>tt_Name = t_Name t, tt_Description = '''', tt_Params = t_Params t\<rparr>) visited"

definition NamesAndTypes :: "(string \<times> task) list \<Rightarrow> (string \<times> task) list \<Rightarrow> string list \<times> task_type list" where
  "NamesAndTypes visited visited' = (namesLocked visited, typesLocked visited')"

text \<open>\<open>marshal\<close> is \<^verbatim>\<open>json.Marshal\<close> on the list of types, \<open>sha\<close> the hexadecimal SHA-256 digest.\<close>

definition TypesHash ::
  "(task_type list \<Rightarrow> string option) \<Rightarrow> (string \<Rightarrow> string) \<Rightarrow> (string \<times> task) list \<Rightarrow> string" where
  "TypesHash marshal sha visited =
     (let types = typesLocked visited in
      if types = [] then ''''
      else case marshal types of None \<Rightarrow> '''' | Some data \<Rightarrow> sha data)"

subsection \<open>What registration accepts\<close>

definition task_acceptable :: "task \<Rightarrow> bool" where
  "task_acceptable t \<longleftrightarrow>
     t_Name t \<noteq> '''' \<and> list_all (\<lambda>p. pm_Required p \<longrightarrow> pm_Default p \<noteq> ANil) (t_Params t)"

definition tasks_acceptable :: "task list \<Rightarrow> bool" where
  "tasks_acceptable ts \<longleftrightarrow> list_all task_acceptable ts \<and> distinct (map t_Name ts)"

lemma Register_iff:
  "Register t r = Inr r' \<longleftrightarrow> task_acceptable t \<and> t_Name t \<notin> fst ` set (tr_tasks r)
     \<and> r' = r\<lparr>tr_tasks := (t_Name t, t) # tr_tasks r\<rparr>"
  by (auto simp: Register_def ValidateTaskParams_def check_param_def task_acceptable_def bind_sum_Inr
      check_all_Inr list_all_iff map_of_eq_None_iff)

lemma Register_all_iff:
  "fold_sum Register ts r = Inr r' \<longleftrightarrow>
     tasks_acceptable ts \<and> t_Name ` set ts \<inter> fst ` set (tr_tasks r) = {}
     \<and> r' = r\<lparr>tr_tasks := rev (map (\<lambda>t. (t_Name t, t)) ts) @ tr_tasks r\<rparr>"
proof (induction ts arbitrary: r)
  case (Cons t ts)
  show ?case
    by (simp add: bind_sum_Inr Register_iff Cons.IH tasks_acceptable_def) blast
qed (auto simp: tasks_acceptable_def)

lemma map_of_rev_names:
  "distinct (map t_Name ts) \<Longrightarrow> map_of (rev (map (\<lambda>t. (t_Name t, t)) ts)) n = find (\<lambda>t. t_Name t = n) ts"
proof (induction ts)
  case (Cons t ts)
  have "find (\<lambda>t. t_Name t = n) ts = None" if "t_Name t = n"
    unfolding find_None_iff using that Cons.prems by (metis distinct.simps(2) image_eqI list.set_map list.simps(9))
  with Cons show ?case by (auto simp: map_add_def split: option.splits)
qed simp

text \<open>A worker starts exactly with the handlers it was given: registering a list of tasks one
  after the other succeeds iff all names are non-empty and distinct and every required parameter
  has a default; then the lookup of a name gives the task of that name, and in whatever order the
  registry is visited, the reported names and types are those of the given tasks, each once.\<close>

theorem registration_exact:
  "case fold_sum Register ts NewTaskRegistry of
     Inl e \<Rightarrow> \<not> tasks_acceptable ts
   | Inr r \<Rightarrow> tasks_acceptable ts
       \<and> registry_Get r = (\<lambda>n. find (\<lambda>t. t_Name t = n) ts)
       \<and> {(mset (namesLocked v), mset (typesLocked v')) | v v'. range_order v r \<and> range_order v' r}
         = {(mset (map t_Name ts),
             mset (map (\<lambda>t. \<lparr>tt_Name = t_Name t, tt_Description = '''', tt_Params = t_Params t\<rparr>) ts))}"
proof (cases "fold_sum Register ts NewTaskRegistry")
  case (Inl e)
  then show ?thesis using Register_all_iff [of ts NewTaskRegistry] by (auto simp: NewTaskRegistry_def)
next
  case (Inr r)
  then have ts: "tasks_acceptable ts" and r: "tr_tasks r = rev (map (\<lambda>t. (t_Name t, t)) ts)"
    by (auto simp: Register_all_iff NewTaskRegistry_def)
  define N where "N = mset (map t_Name ts)"
  define T where "T = mset (map (\<lambda>t. \<lparr>tt_Name = t_Name t, tt_Description = '''', tt_Params = t_Params t\<rparr>) ts)"
  have "mset (namesLocked v) = N" "mset (typesLocked v) = T" if "range_order v r" for v
    using that by (simp_all add: N_def T_def range_order_def r namesLocked_def typesLocked_def multiset.map_comp comp_def)
  moreover have "range_order (tr_tasks r) r" by (simp add: range_order_def)
  ultimately have "{(mset (namesLocked v), mset (typesLocked v')) | v v'. range_order v r \<and> range_order v' r} = {(N, T)}"
    by (intro equalityI subsetI) (blast, fastforce)
  moreover have "registry_Get r = (\<lambda>n. find (\<lambda>t. t_Name t = n) ts)"
    using ts by (simp add: registry_Get_def r map_of_rev_names tasks_acceptable_def fun_eq_iff)
  ultimately show ?thesis using ts unfolding N_def T_def by (simp only: Inr sum.case simp_thms)
qed

text \<open>The hash of the types follows the order of the visit: as soon as two visits give different
  lists of types, and neither the encoding nor the digest maps them together, the hashes differ.\<close>

lemma TypesHash_unstable:
  assumes "inj_on marshal {ts. marshal ts \<noteq> None}" and "inj sha"
    and "typesLocked v \<noteq> typesLocked v'" and "typesLocked v \<noteq> []" and "typesLocked v' \<noteq> []"
    and "marshal (typesLocked v) \<noteq> None" and "marshal (typesLocked v') \<noteq> None"
  shows "TypesHash marshal sha v \<noteq> TypesHash marshal sha v'"
proof -
  obtain a b where ab: "marshal (typesLocked v) = Some a" "marshal (typesLocked v') = Some b"
    using assms(6,7) by blast
  with assms(1,3) have "a \<noteq> b" by (auto simp: inj_on_def)
  with assms(2) ab assms(4,5) show ?thesis by (simp add: TypesHash_def inj_eq)
qed

end
