(* ===== verification/Task_Runtime.thy ===== *)
theory Task_Runtime
  imports Cas_Lock Task_Registry Circuit_Breaker "HOL-Library.Signed_Division"
begin

text \<open>
  \<^verbatim>\<open>infra/engine/runtime/reporter.go\<close> and \<^verbatim>\<open>executor.go\<close>: how a worker executes one task event.
  It takes the task (by the session lock or by the optimistic lock of Cas_Lock), runs the handler
  with panic protection, and writes the outcome back through the reporter, which retries behind
  the circuit breaker. The session lock is third-party code; its answer is an argument.
\<close>

subsection \<open>Random waits\<close>

text \<open>\<^verbatim>\<open>crypto/rand\<close> gives eight bytes, or fails and the clock stands in. The conversion to
  \<^verbatim>\<open>int64\<close> is signed, and so is Go's remainder.\<close>

datatype rand_source = RandBytes int64 | ClockNanos int

definition cryptoRandInt63n :: "rand_source \<Rightarrow> int \<Rightarrow> int" where
  "cryptoRandInt63n src n =
     (if n \<le> 0 then 0
      else case src of RandBytes b \<Rightarrow> sint b smod n | ClockNanos t \<Rightarrow> t smod n)"

definition cryptoRandIntn :: "rand_source \<Rightarrow> int \<Rightarrow> int" where
  "cryptoRandIntn src n =
     (if n \<le> 0 then 0
      else case src of RandBytes b \<Rightarrow> sint b smod n | ClockNanos t \<Rightarrow> t smod n)"

definition reportMaxRetries :: nat where "reportMaxRetries = 3"
definition reportBaseBackoff :: go_duration where "reportBaseBackoff = 500 * Millisecond"
definition reportMaxBackoff :: go_duration where "reportMaxBackoff = 5 * Second"

definition report_wait :: "rand_source \<Rightarrow> nat \<Rightarrow> go_duration" where
  "report_wait src attempt =
     (let backoff = min (reportBaseBackoff * 2 ^ attempt) reportMaxBackoff;
          jitter = cryptoRandInt63n src (backoff div 2)
      in backoff + jitter)"

text \<open>The comment promises a random number in [0, n); the conversion makes it negative half of
  the time. The waits stay positive all the same.\<close>

lemma abs_smod_less: "0 < n \<Longrightarrow> \<bar>a smod n\<bar> < n" for a n :: int
  by (simp add: signed_modulo_int_def abs_mult sgn_if)

lemma cryptoRandInt63n_bound: "0 < n \<Longrightarrow> \<bar>cryptoRandInt63n src n\<bar> < n"
  by (auto simp: cryptoRandInt63n_def abs_smod_less split: rand_source.splits)

lemma cryptoRandInt63n_negative: "cryptoRandInt63n (RandBytes (- 7)) 5 = - 2"
  by code_simp

lemma report_wait_bounds:
  "let backoff = min (reportBaseBackoff * 2 ^ attempt) reportMaxBackoff
   in backoff div 2 \<le> report_wait src attempt \<and> report_wait src attempt < 2 * backoff"
proof -
  let ?b = "min (reportBaseBackoff * 2 ^ attempt) reportMaxBackoff"
  have "(1::int) \<le> 2 ^ attempt" by simp
  then have "reportBaseBackoff * 1 \<le> reportBaseBackoff * 2 ^ attempt"
    by (intro mult_left_mono) (simp_all add: reportBaseBackoff_def go_units)
  moreover have "reportBaseBackoff \<le> reportMaxBackoff" "2 \<le> reportBaseBackoff"
    by (simp_all add: reportBaseBackoff_def reportMaxBackoff_def go_units)
  ultimately have "2 \<le> ?b" by linarith
  then have "0 < ?b div 2" by linarith
  then have "\<bar>cryptoRandInt63n src (?b div 2)\<bar> < ?b div 2" by (rule cryptoRandInt63n_bound)
  then show ?thesis by (simp add: report_wait_def Let_def) linarith
qed


subsection \<open>Reporting a status\<close>

text \<open>When the parts of a report happen, and when its context is cancelled: before an attempt, or
  during the wait after it.\<close>

record report_env =
  re_now :: go_time
  re_cancelled :: "nat \<Rightarrow> bool"
  re_cancelled_wait :: "nat \<Rightarrow> bool"

text \<open>The loop of attempts, for any write \<open>put\<close>; the heartbeat has the same loop. \<open>left\<close> of the
  \<open>tries\<close> attempts are still to come.\<close>

fun report_attempts ::
  "('db \<Rightarrow> bool \<times> 'db) \<Rightarrow> nat \<Rightarrow> report_env \<Rightarrow> nat \<Rightarrow> breaker \<Rightarrow> 'db \<Rightarrow> bool \<times> breaker \<times> 'db" where
  "report_attempts put tries re 0 b d = (False, b, d)"
| "report_attempts put tries re (Suc left) b d =
     (let attempt = tries - Suc left in
      if re_cancelled re attempt then (False, b, d)
      else case put d of
        (True, d) \<Rightarrow> (True, Success (re_now re) b, d)
      | (False, d) \<Rightarrow>
          if attempt < tries - 1
          then (if re_cancelled_wait re attempt then (False, b, d)
                else report_attempts put tries re left b d)
          else report_attempts put tries re left (Failure (re_now re) b) d)"

definition Report ::
  "codec \<Rightarrow> 'db etcd \<Rightarrow> report_env \<Rightarrow> string \<Rightarrow> task_payload \<Rightarrow> breaker \<Rightarrow> 'db \<Rightarrow> bool \<times> breaker \<times> 'db" where
  "Report j c re key payload b d =
     (case Serialize j payload of
        None \<Rightarrow> (False, b, d)
      | Some val \<Rightarrow>
          (case Allow (re_now re) b of
             (False, b) \<Rightarrow> (False, b, d)
           | (True, b) \<Rightarrow> report_attempts (store_Put c key val) reportMaxRetries re reportMaxRetries b d))"


subsection \<open>Running the handler\<close>

definition handler_outcome :: "string \<Rightarrow> handler_result \<Rightarrow> go_error option \<times> ctx" where
  "handler_outcome name res =
     (case res of Returned err taskCtx \<Rightarrow> (err, taskCtx)
      | Panicked r taskCtx \<Rightarrow> (Some (ErrPlain (MsgPanic name r)), taskCtx))"

definition run_task :: "task_registry \<Rightarrow> task_payload \<Rightarrow> ctx \<Rightarrow> go_error option \<times> ctx" where
  "run_task reg payload taskCtx =
     (case registry_Get reg (tp_TaskName payload) of
        None \<Rightarrow> (Some (ErrPlain (MsgUnregistered (tp_TaskName payload))), taskCtx)
      | Some t \<Rightarrow>
          let limit = (if 0 < tp_TimeoutSec payload then Some (tp_TimeoutSec payload) else None);
              paramCtx = NewContextWith (case tp_Params payload of None \<Rightarrow> Map.empty | Some m \<Rightarrow> m)
          in if Rollback payload
             then (case t_OnRollback t of
                     None \<Rightarrow> (Some (ErrPlain (MsgNoRollback (tp_TaskName payload))), taskCtx)
                   | Some rb \<Rightarrow> handler_outcome (tp_TaskName payload) (rb limit paramCtx taskCtx))
             else handler_outcome (tp_TaskName payload) (t_Execute t limit paramCtx taskCtx))"

definition task_context :: "task_payload \<Rightarrow> ctx" where
  "task_context payload =
     NewContextFromMap (case tp_Input payload of None \<Rightarrow> Map.empty | Some m \<Rightarrow> m)"

definition finish_payload :: "task_payload \<Rightarrow> go_error option \<times> ctx \<Rightarrow> task_payload" where
  "finish_payload payload res =
     (case res of
        (Some err, taskCtx) \<Rightarrow>
          payload\<lparr>tp_Status := StatusFailed, tp_Result := error_text err,
                  NoRetry := (errors_Is err ErrNoRetry \<or> NoRetry payload)\<rparr>
      | (None, taskCtx) \<Rightarrow>
          payload\<lparr>tp_Status := StatusCompleted, tp_Result := Text ''ok'', tp_Output := Some (GetAll taskCtx)\<rparr>)"


subsection \<open>Executing an event\<close>

datatype lock_mode = LockModeMutex | LockModeCAS

datatype executed =
    NotDecoded
  | NotLocked
  | NotReported            \<comment> \<open>the RUNNING report failed, the handler does not run\<close>
  | Executed task_payload bool  \<comment> \<open>the final payload, and whether it was written\<close>

text \<open>\<open>locked\<close> is the answer of the session lock; the reports before and after the handler have
  their own circumstances.\<close>

definition executeWithMutex ::
  "codec \<Rightarrow> 'db etcd \<Rightarrow> task_registry \<Rightarrow> bool \<Rightarrow> report_env \<Rightarrow> report_env \<Rightarrow> string \<Rightarrow> task_payload \<Rightarrow>
   breaker \<Rightarrow> 'db \<Rightarrow> executed \<times> breaker \<times> 'db" where
  "executeWithMutex j c reg locked re re' key payload b d =
     (if \<not> locked then (NotLocked, b, d)
      else
        let payload = payload\<lparr>tp_Status := StatusRunning\<rparr> in
        case Report j c re key payload b d of
          (False, b, d) \<Rightarrow> (NotReported, b, d)
        | (True, b, d) \<Rightarrow>
            let payload = finish_payload payload (run_task reg payload (task_context payload)) in
            case Report j c re' key payload b d of
              (ok, b, d) \<Rightarrow> (Executed payload ok, b, d))"

text \<open>\<open>others\<close> and \<open>others'\<close> are the other clients' steps during the two conversations with etcd,
  \<open>meanwhile\<close> those during the handler's run.\<close>

definition executeWithCAS ::
  "codec \<Rightarrow> 'db etcd \<Rightarrow> task_registry \<Rightarrow> bool \<Rightarrow> (nat \<Rightarrow> 'db \<Rightarrow> 'db) \<Rightarrow> ('db \<Rightarrow> 'db) \<Rightarrow> ('db \<Rightarrow> 'db) \<Rightarrow>
   report_env \<Rightarrow> string \<Rightarrow> breaker \<Rightarrow> 'db \<Rightarrow> executed \<times> breaker \<times> 'db" where
  "executeWithCAS j c reg cancelled others meanwhile others' re key b d =
     (case tryAcquire j c key cancelled others d of
        (None, d) \<Rightarrow> (NotLocked, b, d)
      | (Some payload, d) \<Rightarrow>
          let d = meanwhile d;
              payload = finish_payload payload (run_task reg payload (task_context payload))
          in case updateStatus j c key others' payload d of
               (True, d) \<Rightarrow> (Executed payload True, b, d)
             | (False, d) \<Rightarrow>
                 (case Report j c re key payload b d of
                    (ok, b, d) \<Rightarrow> (Executed payload ok, b, d)))"

definition event_payload :: "codec \<Rightarrow> event \<Rightarrow> task_payload option" where
  "event_payload j ev = (case ev_Payload ev of Some p \<Rightarrow> Some p | None \<Rightarrow> Deserialize j (ev_Value ev))"

definition taskLockKey :: "string \<Rightarrow> string \<Rightarrow> string" where
  "taskLockKey pre key =
     pre @ ''lock/'' @ (if prefix pre key then drop (length pre) key else key)"

definition Execute ::
  "codec \<Rightarrow> 'db etcd \<Rightarrow> task_registry \<Rightarrow> lock_mode \<Rightarrow> bool \<Rightarrow> bool \<Rightarrow> (nat \<Rightarrow> 'db \<Rightarrow> 'db) \<Rightarrow> ('db \<Rightarrow> 'db) \<Rightarrow>
   ('db \<Rightarrow> 'db) \<Rightarrow> report_env \<Rightarrow> report_env \<Rightarrow> event \<Rightarrow> breaker \<Rightarrow> 'db \<Rightarrow> executed \<times> breaker \<times> 'db" where
  "Execute j c reg mode locked cancelled others meanwhile others' re re' ev b d =
     (case event_payload j ev of
        None \<Rightarrow> (NotDecoded, b, d)
      | Some payload \<Rightarrow>
          if mode = LockModeCAS
          then executeWithCAS j c reg cancelled others meanwhile others' re' (ev_Key ev) b d
          else executeWithMutex j c reg locked re re' (ev_Key ev) payload b d)"


subsection \<open>What a report does\<close>

text \<open>The writes the loop may make: one after the other, until one is acknowledged.\<close>

fun put_tries :: "('db \<Rightarrow> bool \<times> 'db) \<Rightarrow> nat \<Rightarrow> 'db \<Rightarrow> bool \<times> 'db" where
  "put_tries put 0 d = (False, d)"
| "put_tries put (Suc n) d = (case put d of (True, d) \<Rightarrow> (True, d) | (False, d) \<Rightarrow> put_tries put n d)"

definition never_cancelled :: "report_env \<Rightarrow> bool" where
  "never_cancelled re \<longleftrightarrow> (\<forall>n. \<not> re_cancelled re n \<and> \<not> re_cancelled_wait re n)"

lemma report_attempts_spec:
  assumes "never_cancelled re" and "left \<le> tries"
  shows "report_attempts put tries re left b d =
    (case put_tries put left d of
       (True, d) \<Rightarrow> (True, Success (re_now re) b, d)
     | (False, d) \<Rightarrow> (False, if left = 0 then b else Failure (re_now re) b, d))"
  using assms(2)
proof (induction left arbitrary: d)
  case (Suc left)
  obtain ok d1 where p: "put d = (ok, d1)" by fastforce
  show ?case
  proof (cases "left = 0")
    case True
    then show ?thesis using assms(1) p by (cases ok) (simp_all add: never_cancelled_def)
  next
    case False
    then have "tries - Suc left < tries - 1" using Suc.prems by simp
    with False assms(1) p Suc.IH [of d1] Suc.prems show ?thesis
      by (cases ok) (auto simp: never_cancelled_def Let_def split: prod.splits)
  qed
qed simp

text \<open>A report that is not cancelled settles the breaker it asked for permission: it makes up
  to three puts until one is acknowledged, answers whether one was, and tells the breaker exactly
  one success or one failure, so that the breaker never stays half-open. It leaves breaker and
  store alone when the payload cannot be serialised, and the store alone when the breaker refuses.\<close>

theorem Report_settles_breaker:
  assumes "never_cancelled re"
  shows "Report j c re key payload b d =
     (case Serialize j payload of
        None \<Rightarrow> (False, b, d)
      | Some val \<Rightarrow>
          if fst (Allow (re_now re) b)
          then (let (ok, d') = put_tries (store_Put c key val) 3 d;
                    b' = snd (Allow (re_now re) b)
                in (ok, if ok then Success (re_now re) b' else Failure (re_now re) b', d'))
          else (False, b, d))
   \<and> (brk_state (fst (snd (Report j c re key payload b d))) = StateHalfOpen \<longrightarrow> brk_state b = StateHalfOpen)"
proof (cases "Serialize j payload")
  case None
  then show ?thesis by (simp add: Report_def)
next
  case (Some val)
  obtain allowed b1 where a: "Allow (re_now re) b = (allowed, b1)" by fastforce
  obtain ok d1 where p: "put_tries (store_Put c key val) 3 d = (ok, d1)" by fastforce
  have spec: "report_attempts (store_Put c key val) reportMaxRetries re reportMaxRetries b1 d =
      (if ok then (True, Success (re_now re) b1, d1) else (False, Failure (re_now re) b1, d1))"
    using report_attempts_spec [OF assms order_refl, of "store_Put c key val" reportMaxRetries b1 d] p
    by (simp add: reportMaxRetries_def)
  show ?thesis
  proof (cases allowed)
    case True
    then show ?thesis
      by (cases ok) (simp_all add: Report_def Some a spec p Success_def Failure_def Let_def)
  next
    case False
    then have "b1 = b" using a by (auto simp: Allow_def split: breaker_state.splits if_splits)
    with False show ?thesis by (simp add: Report_def Some a)
  qed
qed

definition calm_report :: report_env where
  "calm_report = \<lparr>re_now = 100 * Second, re_cancelled = (\<lambda>n. False), re_cancelled_wait = (\<lambda>n. False)\<rparr>"

theorem Report_settles_breaker_witness:
  "brk_state (fst (snd (Report demo_codec mem_client calm_report ''k'' zero_payload
      ((NewBreaker ''b'' 5 (15 * Second) 0)\<lparr>brk_state := StateOpen\<rparr>)
      (empty_etcd\<lparr>me_faults := [LostBefore, LostAfter]\<rparr>)))) = StateClosed
   \<and> fst (Report demo_codec mem_client calm_report ''k'' zero_payload
      ((NewBreaker ''b'' 5 (15 * Second) 0)\<lparr>brk_state := StateOpen\<rparr>)
      (empty_etcd\<lparr>me_faults := [LostBefore, LostAfter]\<rparr>)) = True"
proof -
  have "never_cancelled calm_report" by (simp add: never_cancelled_def calm_report_def)
  from conjunct1 [OF Report_settles_breaker [OF this, of demo_codec mem_client "''k''" zero_payload
      "(NewBreaker ''b'' 5 (15 * Second) 0)\<lparr>brk_state := StateOpen\<rparr>" "empty_etcd\<lparr>me_faults := [LostBefore, LostAfter]\<rparr>"]]
  show ?thesis
    by (simp add: demo_codec_def zero_payload_def breaker_defs calm_report_def go_units Let_def
        numeral_3_eq_3 store_Put_def mem_client_def mem_call_def next_fault_def empty_etcd_def mem_put_def)
qed

text \<open>A cancelled report leaves a breaker that it moved to half-open there. The half-open breaker
  refuses every later call until somebody reports an outcome, and only admitted calls do.\<close>

lemma cancelled_report_strands_breaker:
  assumes "re_cancelled re 0" and "Serialize j payload = Some val"
    and "brk_state b = StateOpen" and "cooldownInterval b \<le> re_now re - lastStateChange b"
  shows "brk_state (fst (snd (Report j c re key payload b d))) = StateHalfOpen
    \<and> \<not> fst (Allow now (fst (snd (Report j c re key payload b d))))"
  using assms by (simp add: Report_def Allow_def reportMaxRetries_def numeral_3_eq_3)

subsection \<open>What an execution leaves behind\<close>

context etcd_client
begin

lemma report_attempts_stored:
  "report_attempts (store_Put client key val) tries re left b d = (True, b', d') \<Longrightarrow>
   \<exists>kv. db_kvs (\<alpha> d') key = Some kv \<and> kv_Value kv = val \<and> kv_Lease kv = None"
proof (induction left arbitrary: b d)
  case (Suc left)
  obtain ok d1 where p: "store_Put client key val d = (ok, d1)" by fastforce
  then show ?case
    using Suc put_law [of key val None d ok d1]
    by (cases ok) (auto simp: store_Put_def after_put_def Let_def split: if_splits)
qed simp

lemma Report_stored:
  assumes "Report j client re key payload b d = (True, b', d')"
  shows "\<exists>kv. db_kvs (\<alpha> d') key = Some kv \<and> Serialize j payload = Some (kv_Value kv) \<and> kv_Lease kv = None"
  using assms report_attempts_stored
  by (force simp: Report_def split: option.splits prod.splits bool.splits)

end

text \<open>The handler an event asks for, and the call it gets.\<close>

definition handler_of :: "task_registry \<Rightarrow> task_payload \<Rightarrow> handler option" where
  "handler_of reg payload =
     (case registry_Get reg (tp_TaskName payload) of
        None \<Rightarrow> None
      | Some t \<Rightarrow> if Rollback payload then t_OnRollback t else Some (t_Execute t))"

definition handler_call :: "handler \<Rightarrow> task_payload \<Rightarrow> handler_result" where
  "handler_call h payload =
     h (if 0 < tp_TimeoutSec payload then Some (tp_TimeoutSec payload) else None)
       (NewContextWith (case tp_Params payload of None \<Rightarrow> Map.empty | Some m \<Rightarrow> m)) (task_context payload)"

lemma run_task_handler:
  "run_task reg payload (task_context payload) =
     (case handler_of reg payload of
        Some h \<Rightarrow> handler_outcome (tp_TaskName payload) (handler_call h payload)
      | None \<Rightarrow> (Some (ErrPlain (if registry_Get reg (tp_TaskName payload) = None
                                then MsgUnregistered (tp_TaskName payload)
                                else MsgNoRollback (tp_TaskName payload))), task_context payload))"
  by (auto simp: run_task_def handler_of_def handler_call_def Let_def split: option.splits)

lemma executeWithMutex_status:
  "executeWithMutex j c reg locked re re' key (p\<lparr>tp_Status := s\<rparr>) b d = executeWithMutex j c reg locked re re' key p b d"
  by (simp add: executeWithMutex_def)

text \<open>C24. An executed task has exactly the outcome of its handler: it is COMPLETED, with the
  handler's context as output, iff a handler for it is registered (and can roll back, if that is
  what is asked) and returns without error; a missing handler, a returned error and a panic make
  it FAILED; it must not be retried iff the error wraps the sentinel (or it already must not). If
  the final report succeeded, this payload is what etcd holds under the task's key, and no lease
  limits its life any more. The status the event was delivered with plays no role.\<close>

theorem executed_task_outcome:
  assumes "etcd_client client \<alpha>"
    and "executeWithMutex j client reg locked re re' key p b d = (Executed q ok, b', d')"
  shows "(tp_Status q = StatusCompleted \<longleftrightarrow>
            (\<exists>h c. handler_of reg p = Some h \<and> handler_call h p = Returned None c \<and> tp_Output q = Some (GetAll c)))
       \<and> tp_Status q \<in> {StatusCompleted, StatusFailed}
       \<and> (NoRetry q \<longleftrightarrow> NoRetry p \<or>
            (\<exists>h e c. handler_of reg p = Some h \<and> handler_call h p = Returned (Some e) c \<and> errors_Is e ErrNoRetry))
       \<and> (ok \<longrightarrow> (\<exists>kv. db_kvs (\<alpha> d') key = Some kv \<and> Serialize j q = Some (kv_Value kv) \<and> kv_Lease kv = None))
       \<and> executeWithMutex j client reg locked re re' key (p\<lparr>tp_Status := s\<rparr>) b d = (Executed q ok, b', d')"
proof -
  let ?p = "p\<lparr>tp_Status := StatusRunning\<rparr>"
  have same: "handler_of reg ?p = handler_of reg p" "handler_call h ?p = handler_call h p"
    "task_context ?p = task_context p" for h
    by (simp_all add: handler_of_def handler_call_def task_context_def split: option.split)
  obtain m where run: "run_task reg ?p (task_context p) =
     (case handler_of reg p of
        Some h \<Rightarrow> handler_outcome (tp_TaskName p) (handler_call h p)
      | None \<Rightarrow> (Some (ErrPlain m), task_context p))"
    using run_task_handler [of reg ?p] by (auto simp: same split: option.splits)
  from assms(2) obtain b1 d1 where q: "q = finish_payload ?p (run_task reg ?p (task_context p))"
    and rep: "Report j client re' key q b1 d1 = (ok, b', d')"
    by (auto simp: executeWithMutex_def same Let_def split: if_splits prod.splits bool.splits)
  have "tp_Status q \<in> {StatusCompleted, StatusFailed}"
    by (simp add: q finish_payload_def split: prod.splits option.splits)
  moreover have "tp_Status q = StatusCompleted \<longleftrightarrow>
      (\<exists>h c. handler_of reg p = Some h \<and> handler_call h p = Returned None c \<and> tp_Output q = Some (GetAll c))"
    by (auto simp: q finish_payload_def run handler_outcome_def
        split: prod.splits option.splits handler_result.splits)
  moreover have "NoRetry q \<longleftrightarrow> NoRetry p \<or>
      (\<exists>h e c. handler_of reg p = Some h \<and> handler_call h p = Returned (Some e) c \<and> errors_Is e ErrNoRetry)"
    by (auto simp: q finish_payload_def run handler_outcome_def
        split: prod.splits option.splits handler_result.splits)
  moreover have "ok \<longrightarrow> (\<exists>kv. db_kvs (\<alpha> d') key = Some kv \<and> Serialize j q = Some (kv_Value kv) \<and> kv_Lease kv = None)"
    using etcd_client.Report_stored [OF assms(1)] rep by auto
  moreover have "executeWithMutex j client reg locked re re' key (p\<lparr>tp_Status := s\<rparr>) b d = (Executed q ok, b', d')"
    using assms(2) by (simp only: executeWithMutex_status)
  ultimately show ?thesis by blast
qed

definition demo_handler :: handler where
  "demo_handler limit params c = Returned None (ctx_Set ''x'' (AInt 1) c)"

definition demo_registry :: task_registry where
  "demo_registry = \<lparr>tr_tasks = [(''t'', \<lparr>t_Name = ''t'', t_Params = [], t_Execute = demo_handler, t_OnRollback = None\<rparr>)]\<rparr>"

text \<open>A task that is delivered again after it has completed runs again.\<close>

theorem executed_task_outcome_witness:
  "\<exists>q b d. executeWithMutex demo_codec mem_client demo_registry True calm_report calm_report ''k''
       (zero_payload\<lparr>tp_TaskName := ''t'', tp_Status := StatusPending\<rparr>) (NewBreaker ''b'' 5 0 0) empty_etcd = (Executed q True, b, d)
     \<and> tp_Status q \<in> {StatusCompleted, StatusFailed}
     \<and> executeWithMutex demo_codec mem_client demo_registry True calm_report calm_report ''k''
       (zero_payload\<lparr>tp_TaskName := ''t'', tp_Status := StatusCompleted\<rparr>) (NewBreaker ''b'' 5 0 0) empty_etcd = (Executed q True, b, d)"
proof -
  let ?run = "executeWithMutex demo_codec mem_client demo_registry True calm_report calm_report ''k''
       (zero_payload\<lparr>tp_TaskName := ''t'', tp_Status := StatusPending\<rparr>) (NewBreaker ''b'' 5 0 0) empty_etcd"
  have "\<exists>q b d. ?run = (Executed q True, b, d)"
    by (simp add: executeWithMutex_def Report_def demo_codec_def zero_payload_def breaker_defs calm_report_def
        go_units Let_def reportMaxRetries_def numeral_3_eq_3 store_Put_def mem_client_def mem_call_def
        next_fault_def empty_etcd_def mem_put_def finish_payload_def run_task_def demo_registry_def
        registry_Get_def handler_outcome_def demo_handler_def)
  then obtain q b d where run: "?run = (Executed q True, b, d)" by blast
  note outcome = executed_task_outcome [OF mem.etcd_client_axioms run, of StatusCompleted]
  have "tp_Status q \<in> {StatusCompleted, StatusFailed}" using outcome by blast
  moreover have "executeWithMutex demo_codec mem_client demo_registry True calm_report calm_report ''k''
       (zero_payload\<lparr>tp_TaskName := ''t'', tp_Status := StatusCompleted\<rparr>) (NewBreaker ''b'' 5 0 0) empty_etcd
     = (Executed q True, b, d)"
    using outcome by simp
  ultimately show ?thesis using run by blast
qed

end
