(* ===== verification/Worker.thy ===== *)
theory Worker
  imports Task_Runtime
begin

text \<open>
  \<^verbatim>\<open>infra/engine/runtime/worker.go\<close>: the worker's main loop and its consumer. The main loop puts
  the events of the filtered watch into the priority queue; the one consumer takes them out, waits
  for a slot of the semaphore and starts a goroutine that executes the event, or puts the event
  back after a growing delay. The two loops and the running tasks interleave as the steps of a
  relation on the worker's state.
\<close>

subsection \<open>Configuration and construction\<close>

definition defaultMaxTaskConcurrency :: int where "defaultMaxTaskConcurrency = 100"
definition workerEtcdMaxFailures :: int where "workerEtcdMaxFailures = 5"
definition workerEtcdCooldown :: go_duration where "workerEtcdCooldown = 15 * Second"
definition taskAcquireTimeout :: go_duration where "taskAcquireTimeout = 15 * Second"

record worker_config =
  wc_ID :: string
  wc_HeartbeatInterval :: go_duration
  wc_MaxTaskConcurrency :: int

text \<open>Where the consumer is.\<close>

datatype consumer_pc =
    ConsLook               \<comment> \<open>about to look at the queue\<close>
  | ConsWait               \<comment> \<open>blocked in \<^verbatim>\<open>Dequeue\<close>\<close>
  | ConsAcquire event      \<comment> \<open>waiting for a slot\<close>
  | ConsBackoff event go_duration
  | ConsExited

record worker =
  wk_Conf :: worker_config
  wk_registry :: task_registry
  etcdBreaker :: breaker
  wk_free :: int              \<comment> \<open>free slots of \<^verbatim>\<open>taskSem\<close>\<close>
  taskPQ :: priorityTaskQueue
  reenqueueAttempts :: "string \<rightharpoonup> int"
  wk_running :: bool
  wk_pc :: consumer_pc
  wk_executing :: "event list"  \<comment> \<open>the goroutines that execute an event\<close>

text \<open>\<open>clock\<close> is the formatted time of day.\<close>

definition worker_id :: "string \<Rightarrow> rand_source \<Rightarrow> string \<Rightarrow> string" where
  "worker_id clock src id' =
     (if id' = '''' then ''worker-'' @ clock @ ''-'' @ int_digits (cryptoRandIntn src 10000) else id')"

definition max_concurrency :: "worker_config \<Rightarrow> int" where
  "max_concurrency cfg =
     (if wc_MaxTaskConcurrency cfg \<le> 0 then defaultMaxTaskConcurrency else wc_MaxTaskConcurrency cfg)"

definition NewWorker :: "string \<Rightarrow> rand_source \<Rightarrow> go_time \<Rightarrow> worker_config \<Rightarrow> worker" where
  "NewWorker clock src now cfg =
     \<lparr>wk_Conf = cfg\<lparr>wc_ID := worker_id clock src (wc_ID cfg)\<rparr>, wk_registry = NewTaskRegistry,
      etcdBreaker = NewBreaker ''worker-etcd'' workerEtcdMaxFailures workerEtcdCooldown now,
      wk_free = max_concurrency cfg, taskPQ = newPriorityTaskQueue, reenqueueAttempts = Map.empty,
      wk_running = False, wk_pc = ConsLook, wk_executing = []\<rparr>"

text \<open>A task that cannot be registered ends the process.\<close>

definition RegisterTask :: "task \<Rightarrow> worker \<Rightarrow> worker option" where
  "RegisterTask t w =
     (case Register t (wk_registry w) of Inl e \<Rightarrow> None | Inr r \<Rightarrow> Some (w\<lparr>wk_registry := r\<rparr>))"

definition start_worker :: "worker \<Rightarrow> worker option" where
  "start_worker w = (if wk_running w then None else Some (w\<lparr>wk_running := True\<rparr>))"


subsection \<open>The main loop\<close>

definition worker_filter :: "codec \<Rightarrow> task_registry \<Rightarrow> event \<Rightarrow> event option" where
  "worker_filter j reg ev =
     (let taskName = ExtractTaskName (ev_Value ev) in
      if taskName = '''' then None
      else if registry_Get reg taskName = None then None
      else case Deserialize j (ev_Value ev) of
        None \<Rightarrow> None
      | Some payload \<Rightarrow> Some (ev\<lparr>ev_Payload := Some payload\<rparr>))"

definition event_priority :: "event \<Rightarrow> int" where
  "event_priority ev = (case ev_Payload ev of None \<Rightarrow> 0 | Some p \<Rightarrow> tp_Priority p)"

definition receive_event :: "event \<Rightarrow> worker \<Rightarrow> worker" where
  "receive_event ev w =
     (if ev_Type ev \<noteq> EventPut then w
      else w\<lparr>taskPQ := Enqueue ev (event_priority ev) (taskPQ w)\<rparr>)"

definition stop_receiving :: "worker \<Rightarrow> worker" where
  "stop_receiving w = w\<lparr>taskPQ := tq_Close (taskPQ w), wk_running := False\<rparr>"


subsection \<open>The consumer\<close>

definition recordReenqueueAttempt :: "string \<Rightarrow> worker \<Rightarrow> int \<times> worker" where
  "recordReenqueueAttempt key w =
     (let n = (case reenqueueAttempts w key of None \<Rightarrow> 0 | Some n \<Rightarrow> n) + 1
      in (n, w\<lparr>reenqueueAttempts := (reenqueueAttempts w)(key \<mapsto> n)\<rparr>))"

definition clearReenqueueAttempt :: "string \<Rightarrow> worker \<Rightarrow> worker" where
  "clearReenqueueAttempt key w = w\<lparr>reenqueueAttempts := (reenqueueAttempts w)(key := None)\<rparr>"

text \<open>\<^verbatim>\<open>taskAcquireTimeout * (1 << attempt)\<close> in 64-bit arithmetic, capped at five minutes.\<close>

definition reenqueue_backoff :: "int \<Rightarrow> go_duration" where
  "reenqueue_backoff attempt =
     (let backoff = sint ((word_of_int taskAcquireTimeout :: int64) * push_bit (nat attempt) 1)
      in if 5 * Minute < backoff then 5 * Minute else backoff)"

text \<open>The consumer has looked: \<open>r\<close> is what the queue answered.\<close>

definition consumer_saw :: "dequeued \<times> priorityTaskQueue \<Rightarrow> worker \<Rightarrow> worker" where
  "consumer_saw r w =
     (case r of
        (Dequeued ev, q) \<Rightarrow> w\<lparr>taskPQ := q, wk_pc := ConsAcquire ev\<rparr>
      | (QueueClosed, q) \<Rightarrow> w\<lparr>taskPQ := q, wk_pc := ConsExited\<rparr>
      | (MustWait, q) \<Rightarrow> w\<lparr>taskPQ := q, wk_pc := ConsWait\<rparr>)"

definition acquire_failed :: "event \<Rightarrow> worker \<Rightarrow> worker" where
  "acquire_failed ev w =
     (let (attempt, w) = recordReenqueueAttempt (ev_Key ev) w
      in w\<lparr>wk_pc := ConsBackoff ev (reenqueue_backoff attempt)\<rparr>)"

definition reenqueue :: "event \<Rightarrow> worker \<Rightarrow> worker" where
  "reenqueue ev w =
     (let w = (if tq_closed (taskPQ w) then w
               else w\<lparr>taskPQ := Enqueue ev (event_priority ev) (taskPQ w)\<rparr>)
      in w\<lparr>wk_pc := ConsLook\<rparr>)"

definition start_execution :: "event \<Rightarrow> worker \<Rightarrow> worker" where
  "start_execution ev w =
     (let w = clearReenqueueAttempt (ev_Key ev) w
      in w\<lparr>wk_free := wk_free w - 1, wk_executing := ev # wk_executing w, wk_pc := ConsLook\<rparr>)"

definition finish_execution :: "event \<Rightarrow> worker \<Rightarrow> worker" where
  "finish_execution ev w =
     w\<lparr>wk_free := wk_free w + 1, wk_executing := remove1 ev (wk_executing w)\<rparr>"


subsection \<open>All interleavings\<close>

text \<open>The second component is what has become of the events: received, started, dropped. The
  third says whether the worker's context is cancelled.\<close>

record history =
  hs_received :: "event multiset"
  hs_started :: "event multiset"
  hs_dropped :: "event multiset"

inductive worker_step :: "worker \<times> history \<times> bool \<Rightarrow> worker \<times> history \<times> bool \<Rightarrow> bool" where
  receive: "ev_Type ev = EventPut \<Longrightarrow> \<not> tq_closed (taskPQ w) \<Longrightarrow>
     worker_step (w, h, c) (receive_event ev w, h\<lparr>hs_received := add_mset ev (hs_received h)\<rparr>, c)"
| receive_closed: "ev_Type ev = EventPut \<Longrightarrow> tq_closed (taskPQ w) \<Longrightarrow>
     worker_step (w, h, c) (receive_event ev w,
       h\<lparr>hs_received := add_mset ev (hs_received h), hs_dropped := add_mset ev (hs_dropped h)\<rparr>, c)"
| ignore: "ev_Type ev \<noteq> EventPut \<Longrightarrow> worker_step (w, h, c) (receive_event ev w, h, c)"
| cancel: "worker_step (w, h, c) (w, h, True)"
| stop: "worker_step (w, h, c) (stop_receiving w, h, c)"
| look: "wk_pc w = ConsLook \<Longrightarrow> worker_step (w, h, c) (consumer_saw (dequeue_check (taskPQ w)) w, h, c)"
| notified: "wk_pc w = ConsWait \<Longrightarrow> notEmpty (taskPQ w) \<Longrightarrow>
     worker_step (w, h, c) (w\<lparr>taskPQ := (taskPQ w)\<lparr>notEmpty := False\<rparr>, wk_pc := ConsLook\<rparr>, h, c)"
| signalled: "wk_pc w = ConsWait \<Longrightarrow>
     worker_step (w, h, True) (consumer_saw (dequeue_closing (taskPQ w)) w, h, True)"
| acquired: "wk_pc w = ConsAcquire ev \<Longrightarrow> 0 < wk_free w \<Longrightarrow>
     worker_step (w, h, c) (start_execution ev w, h\<lparr>hs_started := add_mset ev (hs_started h)\<rparr>, c)"
| not_acquired: "wk_pc w = ConsAcquire ev \<Longrightarrow> wk_free w \<le> 0 \<or> c \<Longrightarrow>
     worker_step (w, h, c) (acquire_failed ev w, h, c)"
| backed_off: "wk_pc w = ConsBackoff ev t \<Longrightarrow> \<not> tq_closed (taskPQ w) \<Longrightarrow>
     worker_step (w, h, c) (reenqueue ev w, h, c)"
| backed_off_closed: "wk_pc w = ConsBackoff ev t \<Longrightarrow> tq_closed (taskPQ w) \<Longrightarrow>
     worker_step (w, h, c) (reenqueue ev w, h\<lparr>hs_dropped := add_mset ev (hs_dropped h)\<rparr>, c)"
| leaves: "wk_pc w = ConsBackoff ev t \<Longrightarrow>
     worker_step (w, h, True) (w\<lparr>wk_pc := ConsExited\<rparr>, h\<lparr>hs_dropped := add_mset ev (hs_dropped h)\<rparr>, True)"
| finish: "ev \<in> set (wk_executing w) \<Longrightarrow> worker_step (w, h, c) (finish_execution ev w, h, c)"

inductive_cases worker_stepE: "worker_step s s'"

fun held :: "consumer_pc \<Rightarrow> event multiset" where
  "held (ConsAcquire ev) = {#ev#}"
| "held (ConsBackoff ev t) = {#ev#}"
| "held _ = {#}"

definition queued :: "worker \<Rightarrow> event multiset" where
  "queued w = image_mset pr_event (mset (tq_items (taskPQ w)))"

definition worker_inv :: "int \<Rightarrow> worker \<times> history \<times> bool \<Rightarrow> bool" where
  "worker_inv n = (\<lambda>(w, h, c).
     hs_received h = hs_started h + queued w + held (wk_pc w) + hs_dropped h
     \<and> wk_free w + int (length (wk_executing w)) = n \<and> 0 \<le> wk_free w
     \<and> mset (wk_executing w) \<subseteq># hs_started h
     \<and> (hs_dropped h \<noteq> {#} \<longrightarrow> c \<or> tq_closed (taskPQ w)))"

lemma queued_Enqueue:
  "\<not> tq_closed q \<Longrightarrow> image_mset pr_event (mset (tq_items (Enqueue ev p q))) = add_mset ev (image_mset pr_event (mset (tq_items q)))"
  by (simp add: Enqueue_def Let_def mset_heap_push)

lemma Enqueue_closed [simp]: "tq_closed (Enqueue ev p q) = tq_closed q" "tq_closed q \<Longrightarrow> Enqueue ev p q = q"
  by (simp_all add: Enqueue_def Let_def)

lemma dequeue_items:
  "dequeue_check q = (r, q') \<or> dequeue_closing q = (r, q') \<Longrightarrow>
   image_mset pr_event (mset (tq_items q)) = image_mset pr_event (mset (tq_items q')) + (case r of Dequeued ev \<Rightarrow> {#ev#} | _ \<Rightarrow> {#})
   \<and> (tq_closed q \<longrightarrow> tq_closed q')"
  by (auto simp: dequeue_check_def dequeue_closing_def mset_heap_pop split: if_splits option.splits)

lemma consumer_saw_inv:
  assumes "worker_inv n (w, h, c)" and "held (wk_pc w) = {#}"
    and "dequeue_check (taskPQ w) = r \<or> dequeue_closing (taskPQ w) = r"
  shows "worker_inv n (consumer_saw r w, h, c)"
proof -
  obtain x q where r: "r = (x, q)" by fastforce
  note items = dequeue_items [OF assms(3) [unfolded r]]
  show ?thesis
    using assms(1,2) items
    by (cases x) (auto simp: r consumer_saw_def worker_inv_def queued_def)
qed

lemma worker_inv_step:
  assumes "worker_step s s'" and "worker_inv n s"
  shows "worker_inv n s'"
  using assms
proof cases
  case (receive ev w h c)
  then show ?thesis using assms(2) by (auto simp: worker_inv_def receive_event_def queued_def queued_Enqueue)
next
  case (receive_closed ev w h c)
  then show ?thesis using assms(2) by (auto simp: worker_inv_def receive_event_def queued_def)
next
  case (ignore ev w h c)
  then show ?thesis using assms(2) by (simp add: receive_event_def)
next
  case (cancel w h c)
  then show ?thesis using assms(2) by (simp add: worker_inv_def)
next
  case (stop w h c)
  then show ?thesis using assms(2) by (simp add: worker_inv_def stop_receiving_def tq_Close_def queued_def)
next
  case (look w h c)
  then show ?thesis using assms(2) consumer_saw_inv [of n w h c] by simp
next
  case (notified w h c)
  then show ?thesis using assms(2) by (simp add: worker_inv_def queued_def)
next
  case (signalled w h)
  then show ?thesis using assms(2) consumer_saw_inv [of n w h True] by simp
next
  case (acquired w ev h c)
  then show ?thesis using assms(2)
    by (auto simp: worker_inv_def start_execution_def clearReenqueueAttempt_def queued_def Let_def)
next
  case (not_acquired w ev c h)
  then show ?thesis using assms(2)
    by (auto simp: worker_inv_def acquire_failed_def recordReenqueueAttempt_def queued_def Let_def)
next
  case (backed_off w ev t h c)
  then show ?thesis using assms(2)
    by (auto simp: worker_inv_def reenqueue_def queued_def queued_Enqueue Let_def)
next
  case (backed_off_closed w ev t h c)
  then show ?thesis using assms(2) by (auto simp: worker_inv_def reenqueue_def queued_def Let_def)
next
  case (leaves w ev t h)
  then show ?thesis using assms(2) by (auto simp: worker_inv_def queued_def)
next
  case (finish ev w h c)
  then have "mset (remove1 ev (wk_executing w)) \<subseteq># hs_started h"
    using assms(2) by (auto simp: worker_inv_def intro: subset_mset.trans [OF diff_subset_eq_self])
  moreover have "int (length (remove1 ev (wk_executing w))) = int (length (wk_executing w)) - 1"
  proof -
    have "0 < length (wk_executing w)" using finish(3) by (rule length_pos_if_in_set)
    moreover have "length (remove1 ev (wk_executing w)) = length (wk_executing w) - 1"
      using finish(3) by (simp add: length_remove1)
    ultimately show ?thesis by linarith
  qed
  ultimately show ?thesis
    using assms(2) finish by (simp add: worker_inv_def finish_execution_def queued_def)
qed

lemma worker_inv_reachable: "worker_step\<^sup>*\<^sup>* s s' \<Longrightarrow> worker_inv n s \<Longrightarrow> worker_inv n s'"
  by (induction rule: rtranclp_induct) (auto intro: worker_inv_step)

definition empty_history :: history where
  "empty_history = \<lparr>hs_received = {#}, hs_started = {#}, hs_dropped = {#}\<rparr>"

text \<open>C23. The worker loses no task: however its main loop, its consumer and its tasks interleave,
  as long as its context is not cancelled and its queue not closed, every event it has received has
  been started exactly once, or waits in the queue, or is in the consumer's hands; and at no moment
  do more tasks run than its limit allows.\<close>

theorem no_event_lost:
  assumes "worker_step\<^sup>*\<^sup>* (NewWorker clock src now cfg, empty_history, False) (w, h, c)"
  shows "hs_received h = hs_started h + queued w + held (wk_pc w) + hs_dropped h
       \<and> (hs_dropped h \<noteq> {#} \<longrightarrow> c \<or> tq_closed (taskPQ w))
       \<and> int (length (wk_executing w)) + wk_free w = max_concurrency cfg \<and> 0 \<le> wk_free w
       \<and> mset (wk_executing w) \<subseteq># hs_started h"
proof -
  have "0 < max_concurrency cfg" by (simp add: max_concurrency_def defaultMaxTaskConcurrency_def)
  then have "worker_inv (max_concurrency cfg) (NewWorker clock src now cfg, empty_history, False)"
    by (simp add: worker_inv_def NewWorker_def empty_history_def queued_def newPriorityTaskQueue_def)
  from worker_inv_reachable [OF assms this] show ?thesis by (simp add: worker_inv_def ac_simps)
qed

definition demo_config :: worker_config where
  "demo_config = \<lparr>wc_ID = ''w1'', wc_HeartbeatInterval = 5 * Second, wc_MaxTaskConcurrency = 1\<rparr>"

definition demo_worker :: worker where
  "demo_worker = NewWorker ''120000'' (ClockNanos 0) 0 demo_config"

theorem no_event_lost_witness:
  "\<exists>w h. worker_step\<^sup>*\<^sup>* (demo_worker, empty_history, False) (w, h, False)
     \<and> hs_received h = {#demo_event ''a'', demo_event ''b''#} \<and> hs_started h = {#demo_event ''a''#}
     \<and> queued w + held (wk_pc w) + hs_dropped h = {#demo_event ''b''#} \<and> int (length (wk_executing w)) + wk_free w = 1"
proof -
  let ?h1 = "empty_history\<lparr>hs_received := {#demo_event ''a''#}\<rparr>"
  let ?h2 = "?h1\<lparr>hs_started := {#demo_event ''a''#}\<rparr>"
  let ?h3 = "?h2\<lparr>hs_received := {#demo_event ''b'', demo_event ''a''#}\<rparr>"
  define w1 where "w1 = receive_event (demo_event ''a'') demo_worker"
  define w2 where "w2 = consumer_saw (dequeue_check (taskPQ w1)) w1"
  define w3 where "w3 = start_execution (demo_event ''a'') w2"
  define w4 where "w4 = receive_event (demo_event ''b'') w3"
  have put: "ev_Type (demo_event k) = EventPut" for k by (simp add: demo_event_def)
  have w1: "tq_items (taskPQ w1) = [\<lparr>pr_event = demo_event ''a'', pr_priority = 0, pr_index = 1\<rparr>]"
    "wk_pc w1 = ConsLook" "wk_free w1 = 1" "\<not> tq_closed (taskPQ w1)" "\<not> tq_closed (taskPQ demo_worker)"
    by (simp_all add: w1_def receive_event_def demo_worker_def NewWorker_def newPriorityTaskQueue_def demo_event_def
        Enqueue_def event_priority_def heap_push_single demo_config_def max_concurrency_def Let_def)
  have pc2: "wk_pc w2 = ConsAcquire (demo_event ''a'')" and free: "0 < wk_free w2" and "\<not> tq_closed (taskPQ w2)"
    by (simp_all add: w2_def w1 dequeue_check_def heap_pop_single consumer_saw_def)
  then have open3: "\<not> tq_closed (taskPQ w3)"
    by (simp add: w3_def start_execution_def clearReenqueueAttempt_def Let_def)
  have "worker_step (demo_worker, empty_history, False) (w1, ?h1, False)"
    using receive [of "demo_event ''a''" demo_worker empty_history False] put w1(5)
    by (simp add: w1_def empty_history_def)
  moreover have "worker_step (w1, ?h1, False) (w2, ?h1, False)"
    unfolding w2_def by (intro look w1(2))
  moreover have "worker_step (w2, ?h1, False) (w3, ?h2, False)"
    using acquired [of w2 _ ?h1 False, OF pc2 free] by (simp add: w3_def empty_history_def)
  moreover have "worker_step (w3, ?h2, False) (w4, ?h3, False)"
    using receive [of "demo_event ''b''" w3 ?h2 False] put open3 by (simp add: w4_def empty_history_def)
  ultimately have run: "worker_step\<^sup>*\<^sup>* (demo_worker, empty_history, False) (w4, ?h3, False)"
    by (meson converse_rtranclp_into_rtranclp rtranclp.rtrancl_refl)
  note lost = no_event_lost [OF run [unfolded demo_worker_def]]
  have "queued w4 + held (wk_pc w4) + hs_dropped ?h3 = {#demo_event ''b''#}"
    using lost by (simp add: empty_history_def ac_simps)
  moreover have "int (length (wk_executing w4)) + wk_free w4 = 1"
    using lost by (simp add: demo_config_def max_concurrency_def)
  ultimately show ?thesis
    using run by (intro exI [of _ w4] exI [of _ ?h3]) (simp add: empty_history_def add_mset_commute)
qed


subsection \<open>Delays and repeated deliveries\<close>

text \<open>The delay before an event is put back doubles up to five minutes; after thirty failures in a
  row the product leaves the 64 bits and there is no delay.\<close>

lemma reenqueue_backoff_exact:
  assumes "0 \<le> n" and "n < 30"
  shows "reenqueue_backoff n = min (taskAcquireTimeout * 2 ^ nat n) (5 * Minute)"
proof -
  have "(2::int) ^ nat n \<le> 2 ^ 29" by (rule power_increasing) (use assms in auto)
  then have bound: "taskAcquireTimeout * 2 ^ nat n < 2 ^ 63" by (simp add: taskAcquireTimeout_def go_units)
  have "(word_of_int taskAcquireTimeout :: int64) * push_bit (nat n) 1 = word_of_int (taskAcquireTimeout * 2 ^ nat n)"
    by (simp add: push_bit_eq_mult)
  moreover have "sint (word_of_int (taskAcquireTimeout * 2 ^ nat n) :: int64) = taskAcquireTimeout * 2 ^ nat n"
    by (rule int64_exact) (use bound in \<open>simp_all add: order_trans [of "- _" 0] taskAcquireTimeout_def go_units\<close>)
  ultimately show ?thesis by (simp add: reenqueue_backoff_def Let_def)
qed

lemma reenqueue_backoff_overflow: "reenqueue_backoff 30 < 0" "reenqueue_backoff 64 = 0"
  by code_simp+

text \<open>The worker watches the keys under PENDING/, but a task keeps its key when it is reported as
  RUNNING or finished, and the filter does not look at the status: what the worker writes comes
  back to it as a new event.\<close>

lemma reports_are_redelivered:
  assumes "Report j c re key p b d = (True, b', d')" and "Serialize j p = Some v"
    and "ExtractTaskName v = tp_TaskName p" and "tp_TaskName p \<noteq> ''''"
    and "registry_Get reg (tp_TaskName p) \<noteq> None" and "Deserialize j v = Some p'"
  shows "worker_filter j reg (client_event EventPut key v) = Some ((client_event EventPut key v)\<lparr>ev_Payload := Some p'\<rparr>)"
  using assms by (auto simp: worker_filter_def client_event_def Let_def)

end
