(* ===== verification/Heartbeat.thy ===== *)
theory Heartbeat
  imports Worker
begin

text \<open>
  \<^verbatim>\<open>infra/engine/runtime/heartbeat.go\<close>: the sender of a worker's heartbeats. A heartbeat carries the
  names of the worker's tasks and the hash of their definitions; the definitions themselves only
  travel with the first heartbeat and when the hash changes. Writing is the retry loop of
  Task_Runtime, with a leased put.
\<close>

record heartbeat =
  hb_WorkerID :: string
  hb_Tasks :: "string list"
  hb_TaskTypes :: "task_type list"
  hb_TaskTypesHash :: string
  hb_StartedAt :: go_time
  hb_AliveAt :: go_time

definition heartbeatMaxRetries :: nat where "heartbeatMaxRetries = 3"
definition heartbeatRetryBackoff :: go_duration where "heartbeatRetryBackoff = Second"
definition heartbeatTTLFactor :: int where "heartbeatTTLFactor = 3"

record heartbeat_sender =
  hbs_workerID :: string
  hbs_interval :: go_duration
  hbs_prefix :: string
  lastFullHash :: string

definition NewHeartbeatSender :: "string \<Rightarrow> go_duration \<Rightarrow> string \<Rightarrow> heartbeat_sender" where
  "NewHeartbeatSender workerID interval pre =
     \<lparr>hbs_workerID = workerID, hbs_interval = interval, hbs_prefix = pre, lastFullHash = ''''\<rparr>"

definition heartbeat_key :: "heartbeat_sender \<Rightarrow> string" where
  "heartbeat_key h = hbs_prefix h @ hbs_workerID h"

definition heartbeat_ttl :: "heartbeat_sender \<Rightarrow> int" where
  "heartbeat_ttl h = (hbs_interval h div Second) * heartbeatTTLFactor"

text \<open>What the registry answers when it is asked for the hash, the names, or names and types: each
  answer is one visit of the registry's map.\<close>

record registry_view =
  rv_hash :: string
  rv_names :: "string list"
  rv_full :: "string list \<times> task_type list"

definition need_full :: "bool \<Rightarrow> string \<Rightarrow> heartbeat_sender \<Rightarrow> bool" where
  "need_full forceFull currentHash h \<longleftrightarrow>
     forceFull \<or> (currentHash \<noteq> '''' \<and> currentHash \<noteq> lastFullHash h)"

definition build_heartbeat ::
  "registry_view \<Rightarrow> bool \<Rightarrow> go_time \<Rightarrow> go_time \<Rightarrow> heartbeat_sender \<Rightarrow> heartbeat \<times> heartbeat_sender" where
  "build_heartbeat v forceFull startedAt now h =
     (let currentHash = rv_hash v;
          full = need_full forceFull currentHash h;
          h' = (if full then h\<lparr>lastFullHash := currentHash\<rparr> else h);
          names = (if full then fst (rv_full v) else rv_names v);
          types = (if full then snd (rv_full v) else [])
      in (\<lparr>hb_WorkerID = hbs_workerID h, hb_Tasks = names, hb_TaskTypes = types,
           hb_TaskTypesHash = currentHash, hb_StartedAt = startedAt, hb_AliveAt = now\<rparr>, h'))"

text \<open>\<open>ser\<close> is \<^verbatim>\<open>SerializeHeartbeat\<close>. The first result is the heartbeat that was written, if one
  was.\<close>

definition heartbeat_report ::
  "(heartbeat \<Rightarrow> string option) \<Rightarrow> 'db etcd \<Rightarrow> report_env \<Rightarrow> registry_view \<Rightarrow> bool \<Rightarrow> go_time \<Rightarrow> go_time \<Rightarrow>
   heartbeat_sender \<times> breaker \<times> 'db \<Rightarrow> heartbeat option \<times> heartbeat_sender \<times> breaker \<times> 'db" where
  "heartbeat_report ser c re v forceFull startedAt now = (\<lambda>(h, b, d).
     case Allow (re_now re) b of
       (False, b) \<Rightarrow> (None, h, b, d)
     | (True, b) \<Rightarrow>
         let (payload, h) = build_heartbeat v forceFull startedAt now h in
         case ser payload of
           None \<Rightarrow> (None, h, b, d)
         | Some val \<Rightarrow>
             (case report_attempts (PutWithTTL c (heartbeat_key h) val (heartbeat_ttl h))
                     heartbeatMaxRetries re heartbeatMaxRetries b d of
                (ok, b, d) \<Rightarrow> (if ok then Some payload else None, h, b, d)))"

definition heartbeat_cleanup :: "'db etcd \<Rightarrow> heartbeat_sender \<Rightarrow> 'db \<Rightarrow> 'db" where
  "heartbeat_cleanup c h d = snd (store_Delete c (heartbeat_key h) d)"

text \<open>One tick of the loop: its circumstances and what the registry answers.\<close>

record tick =
  tk_env :: report_env
  tk_view :: registry_view
  tk_now :: go_time

fun heartbeat_ticks ::
  "(heartbeat \<Rightarrow> string option) \<Rightarrow> 'db etcd \<Rightarrow> go_time \<Rightarrow> bool \<Rightarrow> tick list \<Rightarrow>
   heartbeat_sender \<times> breaker \<times> 'db \<Rightarrow> heartbeat option list" where
  "heartbeat_ticks ser c startedAt force [] st = []"
| "heartbeat_ticks ser c startedAt force (t # ts) st =
     (let (sent, st) = heartbeat_report ser c (tk_env t) (tk_view t) force startedAt (tk_now t) st
      in sent # heartbeat_ticks ser c startedAt False ts st)"

text \<open>\<^verbatim>\<open>Start\<close>: the first heartbeat is forced to be full.\<close>

definition heartbeat_start ::
  "(heartbeat \<Rightarrow> string option) \<Rightarrow> 'db etcd \<Rightarrow> go_time \<Rightarrow> tick list \<Rightarrow>
   heartbeat_sender \<times> breaker \<times> 'db \<Rightarrow> heartbeat option list" where
  "heartbeat_start ser c startedAt ts st = heartbeat_ticks ser c startedAt True ts st"


subsection \<open>When the definitions travel\<close>

definition stable_views :: "string \<Rightarrow> tick list \<Rightarrow> bool" where
  "stable_views hash ts \<longleftrightarrow> list_all (\<lambda>t. rv_hash (tk_view t) = hash) ts"

lemma heartbeat_report_lastFullHash:
  assumes "heartbeat_report ser c re v force startedAt now (h, b, d) = (sent, h', b', d')"
  shows "(h' = h \<and> sent = None) \<or> (h' = snd (build_heartbeat v force startedAt now h)
           \<and> (sent = None \<or> sent = Some (fst (build_heartbeat v force startedAt now h))))"
  using assms by (auto simp: heartbeat_report_def split: prod.splits bool.splits option.splits if_splits)

lemma later_heartbeats_light:
  assumes "stable_views hash ts" and "lastFullHash h = hash" and "Some p \<in> set (heartbeat_ticks ser c startedAt False ts (h, b, d))"
  shows "hb_TaskTypes p = []"
  using assms
proof (induction ts arbitrary: h b d)
  case (Cons t ts)
  obtain sent h1 b1 d1 where r: "heartbeat_report ser c (tk_env t) (tk_view t) False startedAt (tk_now t) (h, b, d) = (sent, h1, b1, d1)"
    by (metis prod_cases4)
  have light: "build_heartbeat (tk_view t) False startedAt (tk_now t) h =
      (fst (build_heartbeat (tk_view t) False startedAt (tk_now t) h), h)"
    "hb_TaskTypes (fst (build_heartbeat (tk_view t) False startedAt (tk_now t) h)) = []"
    using Cons.prems by (simp_all add: build_heartbeat_def need_full_def stable_views_def Let_def)
  from heartbeat_report_lastFullHash [OF r] light(1) have "h1 = h"
    by (metis snd_conv)
  with Cons r heartbeat_report_lastFullHash [OF r] light(2) show ?case
    by (auto simp: stable_views_def)
qed simp

text \<open>If the first heartbeat was tried but not written, the definitions are never sent: the hash is
  recorded before the write.\<close>

lemma definitions_lost:
  assumes "stable_views hash (t # ts)" and "fst (Allow (re_now (tk_env t)) b)"
    and "heartbeat_report ser c (tk_env t) (tk_view t) True startedAt (tk_now t) (h, b, d) = (None, h', b', d')"
    and "Some p \<in> set (heartbeat_start ser c startedAt (t # ts) (h, b, d))"
  shows "hb_TaskTypes p = []"
proof -
  obtain b1 where "Allow (re_now (tk_env t)) b = (True, b1)" using assms(2) by (metis prod.collapse)
  then have "h' = snd (build_heartbeat (tk_view t) True startedAt (tk_now t) h)"
    using assms(3) by (auto simp: heartbeat_report_def split: prod.splits option.splits if_splits)
  then have "lastFullHash h' = hash"
    using assms(1) by (simp add: build_heartbeat_def need_full_def stable_views_def Let_def)
  moreover have "stable_views hash ts" using assms(1) by (simp add: stable_views_def)
  moreover have "Some p \<in> set (heartbeat_ticks ser c startedAt False ts (h', b', d'))"
    using assms(3,4) by (simp add: heartbeat_start_def)
  ultimately show ?thesis by (intro later_heartbeats_light)
qed

text \<open>An interval below one second makes the time to live zero, which the store replaces by a day.\<close>

lemma short_interval_ttl: "0 \<le> hbs_interval h \<Longrightarrow> hbs_interval h < Second \<Longrightarrow> heartbeat_ttl h = 0"
  by (simp add: heartbeat_ttl_def)

end
