(* ===== verification/Worker_Manager.thy ===== *)
theory Worker_Manager
  imports Heartbeat Sched_State
begin

text \<open>
  \<^verbatim>\<open>infra/engine/scheduler/worker_manager.go\<close> and \<^verbatim>\<open>backlog_metrics.go\<close>: how the master follows its
  workers by their heartbeats. One goroutine handles the heartbeat events and the periodic check
  for stale workers, so each of them is one step. The counters of living and dead workers are
  kept incrementally.
\<close>

subsection \<open>State\<close>

datatype worker_status = WorkerStatusAlive | WorkerStatusDead

record worker_state =
  ws_WorkerID :: string
  ws_Tasks :: "string list"
  ws_Status :: worker_status
  ws_StartedAt :: go_time
  ws_AliveAt :: go_time

record worker_mgr =
  wkm_workers :: "(string \<times> worker_state) list"
  taskRegistry :: "(string \<times> task_type) list"
  workerTypeHash :: "string \<rightharpoonup> string"
  aliveCount :: int
  deadCount :: int

definition NewWorkerManager :: worker_mgr where
  "NewWorkerManager =
     \<lparr>wkm_workers = [], taskRegistry = [], workerTypeHash = Map.empty, aliveCount = 0, deadCount = 0\<rparr>"

definition defaultStaleCheckIntervalSec :: int where "defaultStaleCheckIntervalSec = 15"
definition defaultHeartbeatStaleSec :: int where "defaultHeartbeatStaleSec = 15"
definition heartbeatWatchReconnectDelay :: go_duration where "heartbeatWatchReconnectDelay = 3 * Second"
definition heartbeatWatchMaxReconnectDelay :: go_duration where "heartbeatWatchMaxReconnectDelay = 30 * Second"

definition extractWorkerID :: "string \<Rightarrow> string \<Rightarrow> string" where
  "extractWorkerID key pre = (if length key \<le> length pre then '''' else drop (length pre) key)"

definition RegisterTaskType :: "task_type \<Rightarrow> worker_mgr \<Rightarrow> worker_mgr" where
  "RegisterTaskType tt m =
     (case map_of (taskRegistry m) (tt_Name tt) of
        Some existing \<Rightarrow>
          if tt_Description existing = tt_Description tt \<and> tt_Params existing = tt_Params tt then m
          else m\<lparr>taskRegistry := AList.update (tt_Name tt) tt (taskRegistry m)\<rparr>
      | None \<Rightarrow> m\<lparr>taskRegistry := AList.update (tt_Name tt) tt (taskRegistry m)\<rparr>)"


subsection \<open>Heartbeat events\<close>

definition fresh_worker :: "heartbeat \<Rightarrow> worker_state" where
  "fresh_worker hb =
     \<lparr>ws_WorkerID = hb_WorkerID hb, ws_Tasks = hb_Tasks hb, ws_Status = WorkerStatusAlive,
      ws_StartedAt = hb_StartedAt hb, ws_AliveAt = hb_AliveAt hb\<rparr>"

definition see_worker :: "heartbeat \<Rightarrow> worker_mgr \<Rightarrow> worker_mgr" where
  "see_worker hb m =
     (case map_of (wkm_workers m) (hb_WorkerID hb) of
        Some existing \<Rightarrow>
          m\<lparr>deadCount := (if ws_Status existing = WorkerStatusDead then deadCount m - 1 else deadCount m),
            wkm_workers := AList.update (hb_WorkerID hb)
              (existing\<lparr>ws_Status := WorkerStatusAlive, ws_AliveAt := hb_AliveAt hb, ws_Tasks := hb_Tasks hb\<rparr>)
              (wkm_workers m)\<rparr>
      | None \<Rightarrow>
          m\<lparr>wkm_workers := AList.update (hb_WorkerID hb) (fresh_worker hb) (wkm_workers m),
            aliveCount := aliveCount m + 1\<rparr>)"

text \<open>A missing entry of the hash table reads as the empty string.\<close>

definition learn_types :: "heartbeat \<Rightarrow> worker_mgr \<Rightarrow> worker_mgr" where
  "learn_types hb m =
     (let prevHash = (case workerTypeHash m (hb_WorkerID hb) of None \<Rightarrow> '''' | Some x \<Rightarrow> x) in
      if hb_TaskTypesHash hb \<noteq> '''' \<and> hb_TaskTypesHash hb = prevHash \<and> prevHash \<noteq> '''' then m
      else fold RegisterTaskType (hb_TaskTypes hb)
             (m\<lparr>workerTypeHash := (workerTypeHash m)(hb_WorkerID hb \<mapsto> hb_TaskTypesHash hb)\<rparr>))"

definition heartbeat_put :: "heartbeat \<Rightarrow> worker_mgr \<Rightarrow> worker_mgr" where
  "heartbeat_put hb m = learn_types hb (see_worker hb m)"

definition heartbeat_gone :: "string \<Rightarrow> string \<Rightarrow> worker_mgr \<Rightarrow> worker_mgr" where
  "heartbeat_gone pre key m =
     (let workerID = extractWorkerID key pre in
      if workerID = '''' then m
      else case map_of (wkm_workers m) workerID of
        None \<Rightarrow> m
      | Some w \<Rightarrow>
          (case ws_Status w of
             WorkerStatusAlive \<Rightarrow> m\<lparr>aliveCount := aliveCount m - 1\<rparr>
           | WorkerStatusDead \<Rightarrow> m\<lparr>deadCount := deadCount m - 1\<rparr>)
            \<lparr>wkm_workers := AList.delete workerID (wkm_workers m)\<rparr>)"

text \<open>\<open>de\<close> is \<^verbatim>\<open>DeserializeHeartbeat\<close>.\<close>

definition heartbeat_event :: "(string \<Rightarrow> heartbeat option) \<Rightarrow> string \<Rightarrow> event \<Rightarrow> worker_mgr \<Rightarrow> worker_mgr" where
  "heartbeat_event de pre ev m =
     (case ev_Type ev of
        EventPut \<Rightarrow> (case de (ev_Value ev) of None \<Rightarrow> m | Some hb \<Rightarrow> heartbeat_put hb m)
      | EventDelete \<Rightarrow> heartbeat_gone pre (ev_Key ev) m)"


subsection \<open>Stale workers\<close>

definition stale_threshold :: "int \<Rightarrow> go_duration" where
  "stale_threshold sec = (if sec \<le> 0 then defaultHeartbeatStaleSec else sec) * Second"

definition stale_ids :: "go_time \<Rightarrow> go_duration \<Rightarrow> worker_mgr \<Rightarrow> string list" where
  "stale_ids instant threshold m =
     map fst (filter (\<lambda>(k, w). ws_Status w \<noteq> WorkerStatusDead \<and> threshold < instant - ws_AliveAt w) (wkm_workers m))"

definition mark_dead :: "string \<Rightarrow> worker_mgr \<Rightarrow> worker_mgr" where
  "mark_dead k m =
     (case map_of (wkm_workers m) k of
        None \<Rightarrow> m
      | Some w \<Rightarrow>
          if ws_Status w = WorkerStatusDead then m
          else m\<lparr>wkm_workers := AList.update k (w\<lparr>ws_Status := WorkerStatusDead\<rparr>) (wkm_workers m),
                 aliveCount := aliveCount m - 1, deadCount := deadCount m + 1\<rparr>)"

definition markStaleWorkers :: "go_time \<Rightarrow> int \<Rightarrow> worker_mgr \<Rightarrow> worker_mgr" where
  "markStaleWorkers instant sec m = fold mark_dead (stale_ids instant (stale_threshold sec) m) m"


subsection \<open>The scan at the start\<close>

text \<open>The scan holds the manager's lock; \<^verbatim>\<open>RegisterTaskType\<close> takes the same lock, which is not
  reentrant, so the goroutine blocks for ever as soon as one record carries task types: \<open>None\<close>.\<close>

fun scan_workers ::
  "(string \<Rightarrow> heartbeat option) \<Rightarrow> string \<Rightarrow> key_value list \<Rightarrow> worker_mgr \<Rightarrow> worker_mgr option" where
  "scan_workers de pre [] m = Some m"
| "scan_workers de pre (kv # kvs) m =
     (case de (kvp_Value kv) of
        None \<Rightarrow> scan_workers de pre kvs m
      | Some hb \<Rightarrow>
          let workerID = extractWorkerID (kvp_Key kv) pre in
          if workerID = '''' then scan_workers de pre kvs m
          else if hb_TaskTypes hb \<noteq> [] then None
          else scan_workers de pre kvs
                 (m\<lparr>wkm_workers := AList.update workerID (fresh_worker hb) (wkm_workers m),
                    workerTypeHash := (workerTypeHash m)(workerID \<mapsto> hb_TaskTypesHash hb)\<rparr>))"

definition scanExistingWorkers ::
  "(string \<Rightarrow> heartbeat option) \<Rightarrow> 'db etcd \<Rightarrow> string \<Rightarrow> 'db \<Rightarrow> worker_mgr \<Rightarrow> worker_mgr option" where
  "scanExistingWorkers de c pre d m =
     (case store_List c pre d of
        None \<Rightarrow> Some m
      | Some kvs \<Rightarrow>
          map_option (\<lambda>m. m\<lparr>aliveCount := int (length (wkm_workers m))\<rparr>) (scan_workers de pre kvs m))"


subsection \<open>Queries and metrics\<close>

definition ListWorkers :: "worker_mgr \<Rightarrow> worker_state list" where
  "ListWorkers m = map snd (wkm_workers m)"

definition ListTaskTypes :: "worker_mgr \<Rightarrow> task_type list" where
  "ListTaskTypes m = map snd (taskRegistry m)"

definition TotalCount :: "worker_mgr \<Rightarrow> int" where
  "TotalCount m = aliveCount m + deadCount m"

record backlog_metrics =
  bm_PendingTasks :: int
  bm_ActiveTasks :: int
  bm_TotalWorkers :: int
  bm_AliveWorkers :: int
  bm_DeadWorkers :: int
  QueueDepthPerWorker :: int

definition Refresh :: "td_state \<Rightarrow> worker_mgr \<Rightarrow> backlog_metrics" where
  "Refresh s m =
     (let pend = int (PendingTaskCount s); alive = aliveCount m; dead = deadCount m
      in \<lparr>bm_PendingTasks = pend, bm_ActiveTasks = GlobalActiveCount s, bm_TotalWorkers = alive + dead,
          bm_AliveWorkers = alive, bm_DeadWorkers = dead,
          QueueDepthPerWorker = (if 0 < alive then pend div alive else pend)\<rparr>)"


subsection \<open>The counters\<close>

datatype wm_event = Beat heartbeat | Gone string string | StaleCheck go_time int

fun wm_step :: "wm_event \<Rightarrow> worker_mgr \<Rightarrow> worker_mgr" where
  "wm_step (Beat hb) m = heartbeat_put hb m"
| "wm_step (Gone pre key) m = heartbeat_gone pre key m"
| "wm_step (StaleCheck t sec) m = markStaleWorkers t sec m"

definition has_status :: "worker_status \<Rightarrow> string \<times> worker_state \<Rightarrow> bool" where
  "has_status st e \<longleftrightarrow> ws_Status (snd e) = st"

definition workers_with :: "worker_status \<Rightarrow> worker_mgr \<Rightarrow> int" where
  "workers_with st m = int (length (filter (has_status st) (wkm_workers m)))"

text \<open>How often a dead worker has come back.\<close>

fun revivals :: "wm_event list \<Rightarrow> worker_mgr \<Rightarrow> int" where
  "revivals [] m = 0"
| "revivals (e # es) m =
     (case e of
        Beat hb \<Rightarrow> (case map_of (wkm_workers m) (hb_WorkerID hb) of
                     Some w \<Rightarrow> if ws_Status w = WorkerStatusDead then 1 else 0 | None \<Rightarrow> 0)
      | _ \<Rightarrow> 0) + revivals es (wm_step e m)"

definition wm_inv :: "int \<Rightarrow> worker_mgr \<Rightarrow> bool" where
  "wm_inv r m \<longleftrightarrow> distinct (map fst (wkm_workers m))
     \<and> aliveCount m + r = workers_with WorkerStatusAlive m
     \<and> deadCount m = workers_with WorkerStatusDead m"

lemma count_update:
  assumes "distinct (map fst xs)"
  shows "int (length (filter (has_status st) (AList.update k w xs))) =
     int (length (filter (has_status st) xs)) + (if ws_Status w = st then 1 else 0)
     - (case map_of xs k of None \<Rightarrow> 0 | Some w' \<Rightarrow> if ws_Status w' = st then 1 else 0)"
  using assms by (induction xs) (auto simp: has_status_def map_of_eq_None_iff split: option.splits dest: map_of_SomeD)

lemma count_delete:
  assumes "distinct (map fst xs)"
  shows "int (length (filter (has_status st) (AList.delete k xs))) =
     int (length (filter (has_status st) xs))
     - (case map_of xs k of None \<Rightarrow> 0 | Some w' \<Rightarrow> if ws_Status w' = st then 1 else 0)"
  using assms
proof (induction xs)
  case (Cons x xs)
  have "AList.delete k xs = xs" if "k \<notin> fst ` set xs" using that by (force simp: AList.delete_eq filter_id_conv)
  with Cons show ?case
    by (cases x) (auto simp: has_status_def map_of_eq_None_iff split: option.splits)
qed simp

lemma RegisterTaskType_workers [simp]:
  "wkm_workers (RegisterTaskType tt m) = wkm_workers m" "aliveCount (RegisterTaskType tt m) = aliveCount m"
  "deadCount (RegisterTaskType tt m) = deadCount m" "workerTypeHash (RegisterTaskType tt m) = workerTypeHash m"
  by (simp_all add: RegisterTaskType_def split: option.splits)

lemma fold_RegisterTaskType_workers [simp]:
  "wkm_workers (fold RegisterTaskType tts m) = wkm_workers m" "aliveCount (fold RegisterTaskType tts m) = aliveCount m"
  "deadCount (fold RegisterTaskType tts m) = deadCount m" "workerTypeHash (fold RegisterTaskType tts m) = workerTypeHash m"
  by (induction tts arbitrary: m) simp_all

lemma wm_inv_learn [simp]: "wm_inv r (learn_types hb m) = wm_inv r m"
  by (simp add: wm_inv_def learn_types_def workers_with_def Let_def)

lemma wm_inv_see:
  "wm_inv r m \<Longrightarrow> wm_inv (r + revivals [Beat hb] m) (see_worker hb m)"
  by (auto simp: wm_inv_def see_worker_def workers_with_def count_update fresh_worker_def distinct_update
      split: option.splits) (metis worker_status.exhaust)+

lemma wm_inv_gone: "wm_inv r m \<Longrightarrow> wm_inv r (heartbeat_gone pre key m)"
  by (auto simp: wm_inv_def heartbeat_gone_def workers_with_def count_delete distinct_delete Let_def
      split: option.splits worker_status.splits)

lemma wm_inv_dead: "wm_inv r m \<Longrightarrow> wm_inv r (mark_dead k m)"
  by (auto simp: wm_inv_def mark_dead_def workers_with_def count_update distinct_update split: option.splits)
     (metis worker_status.exhaust)+

lemma wm_inv_stale: "wm_inv r m \<Longrightarrow> wm_inv r (markStaleWorkers t sec m)"
  unfolding markStaleWorkers_def by (rule fold_invariant_set [where P = "wm_inv r"]) (auto intro: wm_inv_dead)

lemma wm_inv_run: "wm_inv r m \<Longrightarrow> wm_inv (r + revivals es m) (fold wm_step es m)"
proof (induction es arbitrary: r m)
  case (Cons e es)
  show ?case
  proof (cases e)
    case (Beat hb)
    with Cons.IH [of "r + revivals [Beat hb] m" "wm_step e m"] wm_inv_see [OF Cons.prems, of hb] show ?thesis
      by (simp add: heartbeat_put_def ac_simps)
  next
    case (Gone pre key)
    with Cons.IH [OF wm_inv_gone [OF Cons.prems]] show ?thesis by simp
  next
    case (StaleCheck t sec)
    with Cons.IH [OF wm_inv_stale [OF Cons.prems]] show ?thesis by simp
  qed
qed simp

text \<open>The dead counter is exact in every run of the manager, and the counter of living workers
  is too small by the number of times a dead worker has come back: a heartbeat of a dead worker
  takes it off the dead ones but does not count it as alive again.\<close>

theorem worker_counts:
  "deadCount (fold wm_step es NewWorkerManager) = workers_with WorkerStatusDead (fold wm_step es NewWorkerManager)
   \<and> aliveCount (fold wm_step es NewWorkerManager)
     = workers_with WorkerStatusAlive (fold wm_step es NewWorkerManager) - revivals es NewWorkerManager"
proof -
  have "wm_inv 0 NewWorkerManager" by (simp add: wm_inv_def NewWorkerManager_def workers_with_def)
  from wm_inv_run [OF this, of es] show ?thesis by (simp add: wm_inv_def)
qed

text \<open>A worker that dies, comes back and dies again leaves the counter of living workers at minus
  one, and with it the total at zero, although one worker is known.\<close>

definition demo_beat :: "go_time \<Rightarrow> heartbeat" where
  "demo_beat t = \<lparr>hb_WorkerID = ''w'', hb_Tasks = [], hb_TaskTypes = [], hb_TaskTypesHash = '''',
     hb_StartedAt = 0, hb_AliveAt = t\<rparr>"

lemma flapping_worker_negative:
  "let m = fold wm_step [Beat (demo_beat 0), StaleCheck (20 * Second) 15, Beat (demo_beat (21 * Second)),
                         StaleCheck (60 * Second) 15] NewWorkerManager
   in aliveCount m = - 1 \<and> TotalCount m = 0 \<and> length (ListWorkers m) = 1"
  by (simp add: heartbeat_put_def see_worker_def learn_types_def markStaleWorkers_def stale_ids_def mark_dead_def
      stale_threshold_def NewWorkerManager_def fresh_worker_def demo_beat_def TotalCount_def ListWorkers_def
      Let_def go_units)

text \<open>After a check exactly the workers without a recent heartbeat are dead, besides those that
  were dead before.\<close>

lemma mark_dead_lookup:
  "map_of (wkm_workers (mark_dead k m)) k' =
     (if k' = k then map_option (\<lambda>w. w\<lparr>ws_Status := WorkerStatusDead\<rparr>) (map_of (wkm_workers m) k)
      else map_of (wkm_workers m) k')"
  by (auto simp: mark_dead_def update_conv split: option.splits)

lemma fold_mark_dead_lookup:
  "map_of (wkm_workers (fold mark_dead ks m)) k' =
     (if k' \<in> set ks then map_option (\<lambda>w. w\<lparr>ws_Status := WorkerStatusDead\<rparr>) (map_of (wkm_workers m) k')
      else map_of (wkm_workers m) k')"
  by (induction ks arbitrary: m) (auto simp: mark_dead_lookup option.map_comp comp_def)

lemma markStaleWorkers_exact:
  assumes "distinct (map fst (wkm_workers m))" and "map_of (wkm_workers m) k = Some w"
  shows "\<exists>w'. map_of (wkm_workers (markStaleWorkers t sec m)) k = Some w' \<and> ws_AliveAt w' = ws_AliveAt w \<and>
    (ws_Status w' = WorkerStatusAlive \<longleftrightarrow> ws_Status w = WorkerStatusAlive \<and> t - ws_AliveAt w \<le> stale_threshold sec)"
proof -
  have "k \<in> set (stale_ids t (stale_threshold sec) m) \<longleftrightarrow>
      ws_Status w \<noteq> WorkerStatusDead \<and> stale_threshold sec < t - ws_AliveAt w"
    unfolding stale_ids_def using assms(2)
    by (auto simp: image_iff map_of_eq_Some_iff [OF assms(1), symmetric] split: prod.splits)
  then show ?thesis
    using assms(2) by (cases "ws_Status w") (auto simp: markStaleWorkers_def fold_mark_dead_lookup)
qed

text \<open>The scan blocks as soon as a stored heartbeat carries task types; a heartbeat without them makes
  the restarted master believe that it knows the worker's types.\<close>

lemma scan_deadlock:
  assumes "store_List c pre d = Some kvs" and "kv \<in> set kvs" and "de (kvp_Value kv) = Some hb"
    and "extractWorkerID (kvp_Key kv) pre \<noteq> ''''" and "hb_TaskTypes hb \<noteq> []"
  shows "scanExistingWorkers de c pre d m = None"
proof -
  have "scan_workers de pre kvs m = None" for m
    using assms(2)
  proof (induction kvs arbitrary: m)
    case (Cons x kvs)
    then show ?case using assms(3-5) by (cases "x = kv") (simp_all add: Let_def split: option.split)
  qed simp
  with assms(1) show ?thesis by (simp add: scanExistingWorkers_def)
qed

lemma see_worker_types [simp]:
  "workerTypeHash (see_worker hb m) = workerTypeHash m" "taskRegistry (see_worker hb m) = taskRegistry m"
  by (simp_all add: see_worker_def split: option.split)

lemma known_hash_teaches_nothing:
  assumes "workerTypeHash m (hb_WorkerID hb) = Some (hb_TaskTypesHash hb)" and "hb_TaskTypesHash hb \<noteq> ''''"
  shows "taskRegistry (heartbeat_put hb m) = taskRegistry m"
  using assms by (simp add: heartbeat_put_def learn_types_def Let_def)

end
