(* ===== verification/Watchers.thy ===== *)
theory Watchers
  imports Etcd_Store Sched_State
begin

text \<open>
  \<^verbatim>\<open>infra/engine/scheduler/watch.go\<close>, lines 18 to 405: how task events reach the goroutine of their
  workflow. The global watch extracts the workflow's UUID and hands the event to a pool of workers;
  they decode it and send it to the workflow's channel. An event that finds the channel full for
  200 milliseconds goes to a bounded backlog, which is flushed every second.
\<close>

subsection \<open>Channels and backlog\<close>

definition workflowEventChanBuf :: nat where "workflowEventChanBuf = 4096"
definition fanOutChanBuf :: nat where "fanOutChanBuf = 8192"
definition maxBacklogSize :: nat where "maxBacklogSize = 2048"
definition backlogMaxAge :: go_duration where "backlogMaxAge = 30 * Second"

record backlog_entry =
  be_workflowUUID :: uuid
  be_payload :: task_payload
  be_addedAt :: go_time

text \<open>A channel is the list of the events in its buffer. A channel that is not in the table is
  closed, or was never made.\<close>

record watchers =
  ww_chans :: "(uuid \<times> task_payload list) list"
  ww_backlog :: "backlog_entry list"
  ww_dropped :: int

definition newWorkflowWatchers :: watchers where
  "newWorkflowWatchers = \<lparr>ww_chans = [], ww_backlog = [], ww_dropped = 0\<rparr>"

definition ww_register :: "uuid \<Rightarrow> watchers \<Rightarrow> watchers" where
  "ww_register u ww = ww\<lparr>ww_chans := AList.update u [] (ww_chans ww)\<rparr>"

definition ww_unregister :: "uuid \<Rightarrow> watchers \<Rightarrow> watchers" where
  "ww_unregister u ww = ww\<lparr>ww_chans := AList.delete u (ww_chans ww)\<rparr>"

text \<open>\<^verbatim>\<open>dispatch\<close> first looks the channel up and releases the lock, and then sends: if the
  workflow is unregistered in between, the send hits a closed channel and panics.\<close>

datatype sent = Sent | Backlogged | FinallyDropped | NoChannel | SendOnClosed

definition dispatch_backlog :: "uuid \<Rightarrow> task_payload \<Rightarrow> go_time \<Rightarrow> watchers \<Rightarrow> sent \<times> watchers" where
  "dispatch_backlog u p t ww =
     (if length (ww_backlog ww) < maxBacklogSize
      then (Backlogged, ww\<lparr>ww_backlog := ww_backlog ww @ [\<lparr>be_workflowUUID = u, be_payload = p, be_addedAt = t\<rparr>]\<rparr>)
      else (FinallyDropped, ww\<lparr>ww_dropped := ww_dropped ww + 1\<rparr>))"

definition dispatch_send :: "uuid \<Rightarrow> task_payload \<Rightarrow> go_time \<Rightarrow> watchers \<Rightarrow> sent \<times> watchers" where
  "dispatch_send u p t ww =
     (case map_of (ww_chans ww) u of
        None \<Rightarrow> (SendOnClosed, ww)
      | Some buf \<Rightarrow>
          if length buf < workflowEventChanBuf
          then (Sent, ww\<lparr>ww_chans := AList.update u (buf @ [p]) (ww_chans ww)\<rparr>)
          else dispatch_backlog u p t ww)"

definition ww_dispatch :: "uuid \<Rightarrow> task_payload \<Rightarrow> go_time \<Rightarrow> watchers \<Rightarrow> sent \<times> watchers" where
  "ww_dispatch u p t ww =
     (if map_of (ww_chans ww) u = None then (NoChannel, ww) else dispatch_send u p t ww)"

text \<open>One entry of the backlog: dropped for its age, discarded with its workflow, sent or kept.\<close>

fun flush_entries :: "go_time \<Rightarrow> backlog_entry list \<Rightarrow> watchers \<Rightarrow> backlog_entry list \<times> watchers" where
  "flush_entries t [] ww = ([], ww)"
| "flush_entries t (e # es) ww =
     (if backlogMaxAge < t - be_addedAt e then flush_entries t es (ww\<lparr>ww_dropped := ww_dropped ww + 1\<rparr>)
      else case map_of (ww_chans ww) (be_workflowUUID e) of
        None \<Rightarrow> flush_entries t es ww
      | Some buf \<Rightarrow>
          if length buf < workflowEventChanBuf
          then flush_entries t es
                 (ww\<lparr>ww_chans := AList.update (be_workflowUUID e) (buf @ [be_payload e]) (ww_chans ww)\<rparr>)
          else (let (rest, ww) = flush_entries t es ww in (e # rest, ww)))"

definition flushBacklog :: "go_time \<Rightarrow> watchers \<Rightarrow> watchers" where
  "flushBacklog t ww =
     (let (remaining, ww) = flush_entries t (ww_backlog ww) ww in ww\<lparr>ww_backlog := remaining\<rparr>)"

definition backlogLen :: "watchers \<Rightarrow> nat" where
  "backlogLen ww = length (ww_backlog ww)"

text \<open>The workflow's goroutine takes the next event.\<close>

definition ww_receive :: "uuid \<Rightarrow> watchers \<Rightarrow> (task_payload \<times> watchers) option" where
  "ww_receive u ww =
     (case map_of (ww_chans ww) u of
        Some (p # buf) \<Rightarrow> Some (p, ww\<lparr>ww_chans := AList.update u buf (ww_chans ww)\<rparr>)
      | _ \<Rightarrow> None)"


subsection \<open>From the global watch to the channels\<close>

record fanOutTask =
  fo_workflowUUID :: uuid
  fo_key :: string
  fo_value :: string

definition event_workflow :: "event \<Rightarrow> uuid" where
  "event_workflow ev =
     (case ev_Payload ev of Some p \<Rightarrow> tp_WorkflowID p | None \<Rightarrow> ExtractWorkflowUUID (ev_Value ev))"

definition fan_out :: "event \<Rightarrow> fanOutTask list \<Rightarrow> fanOutTask list" where
  "fan_out ev ch =
     (let u = event_workflow ev in
      if u = '''' then ch
      else if length ch < fanOutChanBuf
      then ch @ [\<lparr>fo_workflowUUID = u, fo_key = ev_Key ev, fo_value = ev_Value ev\<rparr>]
      else ch)"

definition fan_out_worker :: "codec \<Rightarrow> go_time \<Rightarrow> fanOutTask \<Rightarrow> watchers \<Rightarrow> sent \<times> watchers" where
  "fan_out_worker j t task ww =
     (case Deserialize j (fo_value task) of
        None \<Rightarrow> (NoChannel, ww)
      | Some p \<Rightarrow> ww_dispatch (tp_WorkflowID p) (p\<lparr>EtcdKey := fo_key task\<rparr>) t ww)"

definition watch_initialBackoff :: go_duration where "watch_initialBackoff = 2 * Second"
definition watch_maxBackoff :: go_duration where "watch_maxBackoff = 30 * Second"

definition watch_backoff :: "go_duration \<Rightarrow> go_duration" where
  "watch_backoff b = min (b * 2) watch_maxBackoff"

text \<open>The scan after a reconnect. \<open>cancelled i\<close>: the context is cancelled before record \<open>i\<close>.\<close>

definition unprocessed :: "workflow_state \<Rightarrow> string \<Rightarrow> bool" where
  "unprocessed st name \<longleftrightarrow> map_of (CompletedTasks st) name = None \<and> map_of (FailedTasks st) name = None"

fun rescan_kvs :: "codec \<Rightarrow> go_time \<Rightarrow> (nat \<Rightarrow> bool) \<Rightarrow> nat \<Rightarrow> key_value list \<Rightarrow> 'a wm_state_scheme \<Rightarrow> watchers \<Rightarrow> watchers" where
  "rescan_kvs j t cancelled i [] s ww = ww"
| "rescan_kvs j t cancelled i (kv # kvs) s ww =
     (if cancelled i then ww
      else case Deserialize j (kvp_Value kv) of
        None \<Rightarrow> rescan_kvs j t cancelled (i + 1) kvs s ww
      | Some p \<Rightarrow>
          (case running (tp_WorkflowID p) s of
             None \<Rightarrow> rescan_kvs j t cancelled (i + 1) kvs s ww
           | Some e \<Rightarrow>
               if unprocessed (e_state e) (tp_TaskName p)
               then rescan_kvs j t cancelled (i + 1) kvs s (snd (ww_dispatch (tp_WorkflowID p) p t ww))
               else rescan_kvs j t cancelled (i + 1) kvs s ww))"

definition rescanAndRedispatchTasks ::
  "codec \<Rightarrow> 'db etcd \<Rightarrow> string \<Rightarrow> 'db \<Rightarrow> go_time \<Rightarrow> (nat \<Rightarrow> bool) \<Rightarrow> 'a wm_state_scheme \<Rightarrow> watchers \<Rightarrow> watchers" where
  "rescanAndRedispatchTasks j c taskPrefix d t cancelled s ww =
     (case store_List c (pending_prefix taskPrefix) d of
        None \<Rightarrow> ww
      | Some kvs \<Rightarrow> rescan_kvs j t cancelled 0 kvs s ww)"


subsection \<open>What becomes of the events\<close>

text \<open>\<^verbatim>\<open>dropped.Swap(0)\<close> of the report every thirty seconds: what is reported, and the counter at 0.\<close>

definition report_dropped :: "watchers \<Rightarrow> int \<times> watchers" where
  "report_dropped ww = (ww_dropped ww, ww\<lparr>ww_dropped := 0\<rparr>)"

text \<open>The master's watch at run time: the fan-out channel, and the dispatches between their lookup and
  their send, each with whether the channel it found is still open. Beside the eight workers the
  rescan of the watch's own goroutine dispatches.\<close>

definition fanOutWorkers :: nat where "fanOutWorkers = 8"

record fan_run =
  wr_ww :: watchers
  wr_fan :: "fanOutTask list"
  wr_sending :: "(uuid \<times> task_payload \<times> bool) list"
  wr_panicked :: bool

definition watch_start :: fan_run where
  "watch_start = \<lparr>wr_ww = newWorkflowWatchers, wr_fan = [], wr_sending = [], wr_panicked = False\<rparr>"

text \<open>What happened so far, a ghost: an unregistered workflow takes the events of its channel with it,
  and its backlog entries at the next flush.\<close>

record traffic =
  tf_watched :: "fanOutTask multiset"
  tf_overflow :: "fanOutTask multiset"  \<comment> \<open>found the fan-out channel full\<close>
  tf_taken :: "fanOutTask multiset"
  tf_rescanned :: "task_payload multiset"
  tf_no_channel :: "task_payload multiset"
  tf_received :: "task_payload multiset"
  tf_gone :: "task_payload multiset"   \<comment> \<open>lost with an unregistered workflow\<close>
  tf_dropped :: "task_payload multiset"
  tf_reported :: int

definition no_traffic :: traffic where
  "no_traffic = \<lparr>tf_watched = {#}, tf_overflow = {#}, tf_taken = {#}, tf_rescanned = {#}, tf_no_channel = {#},
     tf_received = {#}, tf_gone = {#}, tf_dropped = {#}, tf_reported = 0\<rparr>"

definition buffered :: "watchers \<Rightarrow> task_payload multiset" where
  "buffered ww = mset (concat (map snd (ww_chans ww)))"

definition waiting_backlog :: "watchers \<Rightarrow> task_payload multiset" where
  "waiting_backlog ww = mset (map be_payload (ww_backlog ww))"

definition sending :: "fan_run \<Rightarrow> task_payload multiset" where
  "sending w = mset (map (\<lambda>(u, p, ok). p) (wr_sending w))"

definition decoded :: "codec \<Rightarrow> fanOutTask multiset \<Rightarrow> task_payload multiset" where
  "decoded j M = (\<Sum>x\<in>#M. case Deserialize j (fo_value x) of None \<Rightarrow> {#} | Some p \<Rightarrow> {#p\<lparr>EtcdKey := fo_key x\<rparr>#})"

definition old_entries :: "go_time \<Rightarrow> watchers \<Rightarrow> task_payload multiset" where
  "old_entries t ww = mset (map be_payload (filter (\<lambda>e. backlogMaxAge < t - be_addedAt e) (ww_backlog ww)))"

definition orphaned_entries :: "go_time \<Rightarrow> watchers \<Rightarrow> task_payload multiset" where
  "orphaned_entries t ww =
     mset (map be_payload (filter (\<lambda>e. \<not> backlogMaxAge < t - be_addedAt e
                                    \<and> map_of (ww_chans ww) (be_workflowUUID e) = None) (ww_backlog ww)))"

text \<open>The lookup of a dispatch.\<close>

definition dispatch_lookup :: "uuid \<Rightarrow> task_payload \<Rightarrow> fan_run \<times> traffic \<Rightarrow> fan_run \<times> traffic" where
  "dispatch_lookup u p = (\<lambda>(w, f).
     if map_of (ww_chans (wr_ww w)) u = None then (w, f\<lparr>tf_no_channel := add_mset p (tf_no_channel f)\<rparr>)
     else (w\<lparr>wr_sending := wr_sending w @ [(u, p, True)]\<rparr>, f))"

text \<open>The steps of the watch, its workers, the flush and report goroutine and the workflows' goroutines.
  A dispatch whose timer fired goes on to the backlog whatever became of the channel; one that still
  waits in its \<^verbatim>\<open>select\<close> when the channel is closed panics, and with it the master. A workflow's
  UUID is registered by one goroutine only (\<^verbatim>\<open>watchWorkflowStatus\<close> starts once per entry).\<close>

inductive ww_step :: "codec \<Rightarrow> fan_run \<times> traffic \<Rightarrow> fan_run \<times> traffic \<Rightarrow> bool" for j where
  watched: "\<not> wr_panicked w \<Longrightarrow> event_workflow ev \<noteq> '''' \<Longrightarrow>
     x = \<lparr>fo_workflowUUID = event_workflow ev, fo_key = ev_Key ev, fo_value = ev_Value ev\<rparr> \<Longrightarrow>
     ww_step j (w, f) (w\<lparr>wr_fan := fan_out ev (wr_fan w)\<rparr>,
       f\<lparr>tf_watched := add_mset x (tf_watched f),
         tf_overflow := (if length (wr_fan w) < fanOutChanBuf then tf_overflow f else add_mset x (tf_overflow f))\<rparr>)"
| taken: "\<not> wr_panicked w \<Longrightarrow> wr_fan w = x # ch \<Longrightarrow> length (wr_sending w) \<le> fanOutWorkers \<Longrightarrow>
     ww_step j (w, f) (let w' = w\<lparr>wr_fan := ch\<rparr>; f' = f\<lparr>tf_taken := add_mset x (tf_taken f)\<rparr> in
       case Deserialize j (fo_value x) of
         None \<Rightarrow> (w', f')
       | Some p \<Rightarrow> dispatch_lookup (tp_WorkflowID p) (p\<lparr>EtcdKey := fo_key x\<rparr>) (w', f'))"
| rescanned: "\<not> wr_panicked w \<Longrightarrow> length (wr_sending w) \<le> fanOutWorkers \<Longrightarrow>
     ww_step j (w, f) (dispatch_lookup (tp_WorkflowID p) p (w, f\<lparr>tf_rescanned := add_mset p (tf_rescanned f)\<rparr>))"
| send: "\<not> wr_panicked w \<Longrightarrow> wr_sending w = xs @ (u, p, True) # ys \<Longrightarrow> dispatch_send u p t (wr_ww w) = (Sent, ww') \<Longrightarrow>
     ww_step j (w, f) (w\<lparr>wr_ww := ww', wr_sending := xs @ ys\<rparr>, f)"
| timed_out: "\<not> wr_panicked w \<Longrightarrow> wr_sending w = xs @ (u, p, ok) # ys \<Longrightarrow> dispatch_backlog u p t (wr_ww w) = (r, ww') \<Longrightarrow>
     ww_step j (w, f) (w\<lparr>wr_ww := ww', wr_sending := xs @ ys\<rparr>,
       f\<lparr>tf_dropped := (if r = FinallyDropped then add_mset p (tf_dropped f) else tf_dropped f)\<rparr>)"
| send_panics: "\<not> wr_panicked w \<Longrightarrow> (u, p, False) \<in> set (wr_sending w) \<Longrightarrow>
     ww_step j (w, f) (w\<lparr>wr_panicked := True\<rparr>, f)"
| register: "\<not> wr_panicked w \<Longrightarrow> map_of (ww_chans (wr_ww w)) u = None \<Longrightarrow>
     ww_step j (w, f) (w\<lparr>wr_ww := ww_register u (wr_ww w)\<rparr>, f)"
| unregister: "\<not> wr_panicked w \<Longrightarrow> map_of (ww_chans (wr_ww w)) u = Some buf \<Longrightarrow>
     ww_step j (w, f) (w\<lparr>wr_ww := ww_unregister u (wr_ww w),
         wr_sending := map (\<lambda>(v, p, ok). (v, p, ok \<and> v \<noteq> u)) (wr_sending w)\<rparr>,
       f\<lparr>tf_gone := tf_gone f + mset buf\<rparr>)"
| flush: "\<not> wr_panicked w \<Longrightarrow>
     ww_step j (w, f) (w\<lparr>wr_ww := flushBacklog t (wr_ww w)\<rparr>,
       f\<lparr>tf_dropped := tf_dropped f + old_entries t (wr_ww w), tf_gone := tf_gone f + orphaned_entries t (wr_ww w)\<rparr>)"
| report: "\<not> wr_panicked w \<Longrightarrow> report_dropped (wr_ww w) = (n, ww') \<Longrightarrow>
     ww_step j (w, f) (w\<lparr>wr_ww := ww'\<rparr>, f\<lparr>tf_reported := tf_reported f + n\<rparr>)"
| receive: "\<not> wr_panicked w \<Longrightarrow> ww_receive u (wr_ww w) = Some (p, ww') \<Longrightarrow>
     ww_step j (w, f) (w\<lparr>wr_ww := ww'\<rparr>, f\<lparr>tf_received := add_mset p (tf_received f)\<rparr>)"

definition chan_of :: "(uuid \<times> task_payload list) list \<Rightarrow> uuid \<Rightarrow> task_payload list" where
  "chan_of xs u = (case map_of xs u of None \<Rightarrow> [] | Some buf \<Rightarrow> buf)"

definition chans_ok :: "(uuid \<times> task_payload list) list \<Rightarrow> bool" where
  "chans_ok xs \<longleftrightarrow> distinct (map fst xs) \<and> list_all (\<lambda>(u, buf). length buf \<le> workflowEventChanBuf) xs"

text \<open>The invariant, one part per loss: the fan-out channel, the payloads handed to a dispatch, the
  counter with its reports, and the bounds.\<close>

definition fan_inv :: "fan_run \<times> traffic \<Rightarrow> bool" where
  "fan_inv = (\<lambda>(w, f). tf_watched f = tf_overflow f + mset (wr_fan w) + tf_taken f \<and> length (wr_fan w) \<le> fanOutChanBuf
     \<and> length (wr_sending w) \<le> fanOutWorkers + 1 \<and> (wr_panicked w \<longrightarrow> (\<exists>u p. (u, p, False) \<in> set (wr_sending w))))"

definition watchers_ok :: "watchers \<Rightarrow> bool" where
  "watchers_ok ww \<longleftrightarrow> chans_ok (ww_chans ww) \<and> length (ww_backlog ww) \<le> maxBacklogSize"

definition payload_inv :: "codec \<Rightarrow> fan_run \<times> traffic \<Rightarrow> bool" where
  "payload_inv j = (\<lambda>(w, f). watchers_ok (wr_ww w)
     \<and> decoded j (tf_taken f) + tf_rescanned f = tf_no_channel f + sending w + buffered (wr_ww w) + waiting_backlog (wr_ww w)
         + tf_received f + tf_gone f + tf_dropped f
     \<and> ww_dropped (wr_ww w) + tf_reported f = int (size (tf_dropped f)))"

lemma mset_concat_update:
  "distinct (map fst xs) \<Longrightarrow>
   mset (concat (map snd (AList.update u b xs))) + mset (chan_of xs u) = mset (concat (map snd xs)) + mset b"
proof (induction xs)
  case (Cons x xs)
  then show ?case by (cases x) (auto simp: chan_of_def ac_simps)
qed (simp add: chan_of_def)

lemma mset_concat_delete:
  "distinct (map fst xs) \<Longrightarrow>
   mset (concat (map snd (AList.delete u xs))) + mset (chan_of xs u) = mset (concat (map snd xs))"
proof (induction xs)
  case (Cons x xs)
  have "AList.delete u xs = xs" if "u \<notin> fst ` set xs"
    using that by (force simp: AList.delete_eq filter_id_conv)
  with Cons show ?case by (cases x) (auto simp: chan_of_def ac_simps)
qed (simp add: chan_of_def)

lemma chans_ok_update: "chans_ok xs \<Longrightarrow> length b \<le> workflowEventChanBuf \<Longrightarrow> chans_ok (AList.update u b xs)"
proof -
  have "list_all P (AList.update u b xs)" if "list_all P xs" "P (u, b)" for P :: "uuid \<times> task_payload list \<Rightarrow> bool"
    using that by (induction xs) auto
  then show "chans_ok xs \<Longrightarrow> length b \<le> workflowEventChanBuf \<Longrightarrow> chans_ok (AList.update u b xs)"
    by (simp add: chans_ok_def distinct_update)
qed

lemma chans_ok_delete: "chans_ok xs \<Longrightarrow> chans_ok (AList.delete u xs)"
proof -
  have "list_all P (AList.delete u xs)" if "list_all P xs" for P :: "uuid \<times> task_payload list \<Rightarrow> bool"
    using that by (induction xs) auto
  then show "chans_ok xs \<Longrightarrow> chans_ok (AList.delete u xs)"
    by (simp add: chans_ok_def distinct_delete)
qed

lemma buffered_update:
  "chans_ok (ww_chans ww) \<Longrightarrow> map_of (ww_chans ww) u = Some buf \<Longrightarrow>
   buffered (ww\<lparr>ww_chans := AList.update u (buf @ [p]) (ww_chans ww)\<rparr>) = add_mset p (buffered ww)"
  using mset_concat_update [of "ww_chans ww" u "buf @ [p]"]
  by (simp add: buffered_def chan_of_def chans_ok_def)

lemma flush_entries_spec:
  assumes "flush_entries t es ww = (rest, ww')" and "chans_ok (ww_chans ww)"
  shows "chans_ok (ww_chans ww') \<and> ww_backlog ww' = ww_backlog ww \<and> length rest \<le> length es
    \<and> ww_dropped ww' = ww_dropped ww + int (length (filter (\<lambda>e. backlogMaxAge < t - be_addedAt e) es))
    \<and> (\<forall>u. (map_of (ww_chans ww') u = None) = (map_of (ww_chans ww) u = None))
    \<and> buffered ww' + mset (map be_payload rest)
        + mset (map be_payload (filter (\<lambda>e. backlogMaxAge < t - be_addedAt e) es))
        + mset (map be_payload (filter (\<lambda>e. \<not> backlogMaxAge < t - be_addedAt e
                  \<and> map_of (ww_chans ww) (be_workflowUUID e) = None) es))
      = buffered ww + mset (map be_payload es)"
  using assms
proof (induction t es ww arbitrary: rest ww' rule: flush_entries.induct)
  case (2 t e es ww)
  show ?case
  proof (cases "backlogMaxAge < t - be_addedAt e")
    case True
    with 2(1) [OF True] 2(5,6) show ?thesis by (simp add: buffered_def)
  next
    case young: False
    show ?thesis
    proof (cases "map_of (ww_chans ww) (be_workflowUUID e)")
      case None
      with young 2(2) [OF young None] 2(5,6) show ?thesis by simp
    next
      case (Some buf)
      show ?thesis
      proof (cases "length buf < workflowEventChanBuf")
        case True
        let ?w = "ww\<lparr>ww_chans := AList.update (be_workflowUUID e) (buf @ [be_payload e]) (ww_chans ww)\<rparr>"
        have same: "map_of (AList.update (be_workflowUUID e) (buf @ [be_payload e]) (ww_chans ww)) u = None
            \<longleftrightarrow> map_of (ww_chans ww) u = None" for u
          using Some by (simp add: update_conv')
        have "chans_ok (ww_chans ?w)" using chans_ok_update [OF 2(6), of "buf @ [be_payload e]"] True by simp
        with young 2(3) [OF young Some True, of rest ww'] 2(5) Some True buffered_update [OF 2(6) Some, of "be_payload e"]
        show ?thesis by (simp add: same)
      next
        case full: False
        obtain rest1 ww1 where r: "flush_entries t es ww = (rest1, ww1)" by fastforce
        with young 2(4) [OF young Some full r] 2(5,6) Some full show ?thesis by auto
      qed
    qed
  qed
qed simp

lemma flush_accounting:
  assumes "watchers_ok ww"
  shows "watchers_ok (flushBacklog t ww)"
    and "buffered (flushBacklog t ww) + waiting_backlog (flushBacklog t ww) + old_entries t ww + orphaned_entries t ww
      = buffered ww + waiting_backlog ww"
    and "ww_dropped (flushBacklog t ww) = ww_dropped ww + int (size (old_entries t ww))"
proof -
  obtain rest ww' where r: "flush_entries t (ww_backlog ww) ww = (rest, ww')" by fastforce
  have ok: "chans_ok (ww_chans ww)" using assms by (simp add: watchers_ok_def)
  note spec = flush_entries_spec [OF r ok]
  have parts: "buffered (flushBacklog t ww) = buffered ww'" "waiting_backlog (flushBacklog t ww) = mset (map be_payload rest)"
    by (simp_all add: flushBacklog_def r buffered_def waiting_backlog_def)
  have "size (old_entries t ww) = length (filter (\<lambda>e. backlogMaxAge < t - be_addedAt e) (ww_backlog ww))"
    by (simp only: old_entries_def size_mset length_map)
  then show "ww_dropped (flushBacklog t ww) = ww_dropped ww + int (size (old_entries t ww))"
    using spec by (simp add: flushBacklog_def r)
  show "watchers_ok (flushBacklog t ww)"
    using spec assms by (simp add: watchers_ok_def flushBacklog_def r)
  show "buffered (flushBacklog t ww) + waiting_backlog (flushBacklog t ww) + old_entries t ww + orphaned_entries t ww
      = buffered ww + waiting_backlog ww"
    using spec unfolding parts by (simp add: old_entries_def orphaned_entries_def waiting_backlog_def)
qed

lemma register_accounting:
  assumes "map_of (ww_chans ww) u = None" and "watchers_ok ww"
  shows "watchers_ok (ww_register u ww)" "buffered (ww_register u ww) = buffered ww"
    "waiting_backlog (ww_register u ww) = waiting_backlog ww" "ww_dropped (ww_register u ww) = ww_dropped ww"
  using assms mset_concat_update [of "ww_chans ww" u "[]"] chans_ok_update [of "ww_chans ww" "[]" u]
  by (simp_all add: watchers_ok_def ww_register_def buffered_def waiting_backlog_def chan_of_def chans_ok_def)

lemma unregister_accounting:
  assumes "map_of (ww_chans ww) u = Some buf" and "watchers_ok ww"
  shows "watchers_ok (ww_unregister u ww)" "buffered (ww_unregister u ww) + mset buf = buffered ww"
    "waiting_backlog (ww_unregister u ww) = waiting_backlog ww" "ww_dropped (ww_unregister u ww) = ww_dropped ww"
  using assms mset_concat_delete [of "ww_chans ww" u] chans_ok_delete [of "ww_chans ww" u]
  by (simp_all add: watchers_ok_def ww_unregister_def buffered_def waiting_backlog_def chan_of_def chans_ok_def)

lemma receive_accounting:
  assumes "ww_receive u ww = Some (p, ww')" and "watchers_ok ww"
  shows "watchers_ok ww'" "buffered ww = add_mset p (buffered ww')"
    "waiting_backlog ww' = waiting_backlog ww" "ww_dropped ww' = ww_dropped ww"
proof -
  obtain buf where u: "map_of (ww_chans ww) u = Some (p # buf)"
      and ww': "ww' = ww\<lparr>ww_chans := AList.update u buf (ww_chans ww)\<rparr>"
    using assms(1) by (auto simp: ww_receive_def split: option.splits list.splits)
  have "length (p # buf) \<le> workflowEventChanBuf"
    using assms(2) u by (auto simp: watchers_ok_def chans_ok_def list_all_iff dest: map_of_SomeD)
  then show "watchers_ok ww'" "buffered ww = add_mset p (buffered ww')"
    "waiting_backlog ww' = waiting_backlog ww" "ww_dropped ww' = ww_dropped ww"
    using assms(2) u mset_concat_update [of "ww_chans ww" u buf] chans_ok_update [of "ww_chans ww" buf u]
    by (simp_all add: ww' watchers_ok_def buffered_def waiting_backlog_def chan_of_def chans_ok_def)
qed

lemma send_accounting:
  assumes "dispatch_send u p t ww = (Sent, ww')" and "watchers_ok ww"
  shows "watchers_ok ww'" "buffered ww' = add_mset p (buffered ww)"
    "waiting_backlog ww' = waiting_backlog ww" "ww_dropped ww' = ww_dropped ww"
  using assms buffered_update [of ww u _ p] chans_ok_update [of "ww_chans ww" _ u]
  by (auto simp: dispatch_send_def dispatch_backlog_def watchers_ok_def waiting_backlog_def split: option.splits if_splits)

lemma backlog_accounting:
  assumes "dispatch_backlog u p t ww = (r, ww')" and "watchers_ok ww"
  shows "watchers_ok ww'" "buffered ww' = buffered ww"
    "waiting_backlog ww' + (if r = FinallyDropped then {#p#} else {#}) = add_mset p (waiting_backlog ww)"
    "ww_dropped ww' = ww_dropped ww + (if r = FinallyDropped then 1 else 0)"
  using assms
  by (auto simp: dispatch_backlog_def watchers_ok_def waiting_backlog_def buffered_def split: if_splits)

lemma decoded_add [simp]:
  "decoded j (add_mset x M) =
     (case Deserialize j (fo_value x) of None \<Rightarrow> {#} | Some p \<Rightarrow> {#p\<lparr>EtcdKey := fo_key x\<rparr>#}) + decoded j M"
  by (simp add: decoded_def)

lemma dispatch_lookup_accounting:
  assumes "dispatch_lookup u p (w, f) = (w', f')"
  shows "wr_ww w' = wr_ww w" "wr_fan w' = wr_fan w" "wr_panicked w' = wr_panicked w"
    "length (wr_sending w') \<le> length (wr_sending w) + 1" "set (wr_sending w) \<subseteq> set (wr_sending w')"
    "sending w' + tf_no_channel f' = add_mset p (sending w + tf_no_channel f)"
    "tf_watched f' = tf_watched f" "tf_overflow f' = tf_overflow f" "tf_taken f' = tf_taken f"
    "tf_rescanned f' = tf_rescanned f" "tf_received f' = tf_received f" "tf_gone f' = tf_gone f"
    "tf_dropped f' = tf_dropped f" "tf_reported f' = tf_reported f"
  using assms by (auto simp: dispatch_lookup_def sending_def split: if_splits)

lemma fan_inv_step:
  assumes "ww_step j x y" and "fan_inv x"
  shows "fan_inv y"
  using assms
proof cases
  case (watched w ev x f)
  then show ?thesis using assms(2) by (auto simp: fan_inv_def fan_out_def Let_def split: if_splits)
next
  case (taken w x ch f)
  let ?w = "w\<lparr>wr_fan := ch\<rparr>" and ?f = "f\<lparr>tf_taken := add_mset x (tf_taken f)\<rparr>"
  show ?thesis
  proof (cases "Deserialize j (fo_value x)")
    case None
    then show ?thesis using taken assms(2) by (auto simp: fan_inv_def)
  next
    case (Some p)
    obtain w' f' where d: "dispatch_lookup (tp_WorkflowID p) (p\<lparr>EtcdKey := fo_key x\<rparr>) (?w, ?f) = (w', f')" by fastforce
    from dispatch_lookup_accounting(1-5,7-9) [OF d] taken assms(2) Some d show ?thesis by (auto simp: fan_inv_def)
  qed
next
  case (rescanned w f p)
  obtain w' f' where d: "dispatch_lookup (tp_WorkflowID p) p (w, f\<lparr>tf_rescanned := add_mset p (tf_rescanned f)\<rparr>) = (w', f')"
    by fastforce
  from dispatch_lookup_accounting(1-5,7-9) [OF d] rescanned assms(2) d show ?thesis by (auto simp: fan_inv_def)
qed (use assms(2) in \<open>auto simp: fan_inv_def\<close>)

lemma sending_split:
  "wr_sending w = xs @ (u, p, ok) # ys \<Longrightarrow> sending w = add_mset p (sending (w\<lparr>wr_ww := ww', wr_sending := xs @ ys\<rparr>))"
  by (simp add: sending_def)

lemma sending_closed [simp]:
  "sending (w\<lparr>wr_ww := ww', wr_sending := map (\<lambda>(v, p, ok). (v, p, ok \<and> v \<noteq> u)) (wr_sending w)\<rparr>) = sending w"
  by (simp add: sending_def case_prod_unfold comp_def)

lemma sending_frame [simp]:
  "sending (w\<lparr>wr_ww := ww'\<rparr>) = sending w" "sending (w\<lparr>wr_fan := ch\<rparr>) = sending w" "sending (w\<lparr>wr_panicked := b\<rparr>) = sending w"
  by (simp_all add: sending_def)

lemma payload_inv_step:
  assumes "ww_step j x y" and "payload_inv j x"
  shows "payload_inv j y"
  using assms
proof cases
  case (watched w ev x f)
  then show ?thesis using assms(2) by (simp add: payload_inv_def)
next
  case (taken w x ch f)
  let ?w = "w\<lparr>wr_fan := ch\<rparr>" and ?f = "f\<lparr>tf_taken := add_mset x (tf_taken f)\<rparr>"
  show ?thesis
  proof (cases "Deserialize j (fo_value x)")
    case None
    then show ?thesis using taken assms(2) by (simp add: payload_inv_def)
  next
    case (Some p)
    obtain w' f' where d: "dispatch_lookup (tp_WorkflowID p) (p\<lparr>EtcdKey := fo_key x\<rparr>) (?w, ?f) = (w', f')" by fastforce
    from dispatch_lookup_accounting [OF d] taken assms(2) Some d show ?thesis by (simp add: payload_inv_def ac_simps)
  qed
next
  case (rescanned w f p)
  obtain w' f' where d: "dispatch_lookup (tp_WorkflowID p) p (w, f\<lparr>tf_rescanned := add_mset p (tf_rescanned f)\<rparr>) = (w', f')"
    by fastforce
  from dispatch_lookup_accounting [OF d] rescanned assms(2) d show ?thesis by (simp add: payload_inv_def ac_simps)
next
  case (send w xs u p ys t ww' f)
  then have "watchers_ok (wr_ww w)" using assms(2) by (simp add: payload_inv_def)
  from send_accounting [OF send(5) this] sending_split [OF send(4), of ww'] send assms(2) show ?thesis
    by (simp add: payload_inv_def ac_simps)
next
  case (timed_out w xs u p ok ys t r ww' f)
  then have "watchers_ok (wr_ww w)" using assms(2) by (simp add: payload_inv_def)
  from backlog_accounting [OF timed_out(5) this] sending_split [OF timed_out(4), of ww'] timed_out assms(2) show ?thesis
    by (cases "r = FinallyDropped") (simp_all add: payload_inv_def ac_simps)
next
  case (send_panics w u p f)
  then show ?thesis using assms(2) by (simp add: payload_inv_def)
next
  case (register w u f)
  then have "watchers_ok (wr_ww w)" using assms(2) by (simp add: payload_inv_def)
  from register_accounting [OF register(4) this] register assms(2) show ?thesis by (simp add: payload_inv_def)
next
  case (unregister w u buf f)
  then have "watchers_ok (wr_ww w)" using assms(2) by (simp add: payload_inv_def)
  note u = unregister_accounting [OF unregister(4) this]
  from u(1,3,4) u(2) [symmetric] unregister assms(2) show ?thesis by (simp add: payload_inv_def ac_simps)
next
  case (flush w f t)
  then have ok: "watchers_ok (wr_ww w)" using assms(2) by (simp add: payload_inv_def)
  have eq: "decoded j (tf_taken f) + tf_rescanned f = tf_no_channel f + sending w + (buffered (wr_ww w) + waiting_backlog (wr_ww w))
         + tf_received f + tf_gone f + tf_dropped f"
    using flush(1) assms(2) by (simp add: payload_inv_def ac_simps)
  from flush_accounting(1,3) [OF ok] eq [folded flush_accounting(2) [OF ok, of t]] flush assms(2)
  show ?thesis by (simp add: payload_inv_def ac_simps)
next
  case (report w n ww' f)
  then show ?thesis
    using assms(2) by (auto simp: payload_inv_def report_dropped_def watchers_ok_def buffered_def waiting_backlog_def)
next
  case (receive w u p ww' f)
  then have "watchers_ok (wr_ww w)" using assms(2) by (simp add: payload_inv_def)
  from receive_accounting [OF receive(4) this] receive assms(2) show ?thesis by (simp add: payload_inv_def ac_simps)
qed

lemma ww_inv_reachable:
  "(ww_step j)\<^sup>*\<^sup>* x y \<Longrightarrow> fan_inv x \<and> payload_inv j x \<Longrightarrow> fan_inv y \<and> payload_inv j y"
  by (induction rule: rtranclp_induct) (auto intro: fan_inv_step payload_inv_step)


definition demo_payload :: "string \<Rightarrow> task_payload" where
  "demo_payload name = zero_payload\<lparr>tp_WorkflowID := ''w'', tp_TaskName := name\<rparr>"


text \<open>The relation covers the operations as the code composes them: a worker that takes a task, and the
  whole of a rescan, are sequences of its steps.\<close>

lemma dispatch_steps:
  assumes "\<not> wr_panicked w" and "dispatch_lookup u p (w, f) = (w1, f1)"
  shows "\<exists>f'. (ww_step j)\<^sup>*\<^sup>* (w1, f1) (w\<lparr>wr_ww := snd (ww_dispatch u p t (wr_ww w))\<rparr>, f')"
proof (cases "map_of (ww_chans (wr_ww w)) u")
  case None
  with assms(2) show ?thesis by (auto simp: dispatch_lookup_def ww_dispatch_def)
next
  case (Some buf)
  with assms(2) have w1: "w1 = w\<lparr>wr_sending := wr_sending w @ [(u, p, True)]\<rparr>" "f1 = f" by (simp_all add: dispatch_lookup_def)
  obtain r ww' where d: "ww_dispatch u p t (wr_ww w) = (r, ww')" by fastforce
  have "\<exists>f'. ww_step j (w1, f1) (w\<lparr>wr_ww := ww'\<rparr>, f')"
  proof (cases "length buf < workflowEventChanBuf")
    case True
    with d Some have "dispatch_send u p t (wr_ww w1) = (Sent, ww')"
      by (auto simp: ww_dispatch_def dispatch_send_def w1)
    from ww_step.send [OF _ _ this, of "wr_sending w" "[]" j f1] assms(1) show ?thesis by (auto simp: w1)
  next
    case False
    with d Some have "dispatch_backlog u p t (wr_ww w1) = (r, ww')"
      by (auto simp: ww_dispatch_def dispatch_send_def w1)
    from ww_step.timed_out [OF _ _ this, of "wr_sending w" True "[]" j f1] assms(1) show ?thesis by (auto simp: w1)
  qed
  with d show ?thesis by auto
qed

lemma fan_out_worker_steps:
  assumes "\<not> wr_panicked w" and "wr_fan w = x # ch" and "length (wr_sending w) \<le> fanOutWorkers"
  shows "\<exists>f'. (ww_step j)\<^sup>*\<^sup>* (w, f) (w\<lparr>wr_fan := ch, wr_ww := snd (fan_out_worker j t x (wr_ww w))\<rparr>, f')"
proof -
  let ?w = "w\<lparr>wr_fan := ch\<rparr>" and ?f = "f\<lparr>tf_taken := add_mset x (tf_taken f)\<rparr>"
  note step = ww_step.taken [OF assms, of j f]
  show ?thesis
  proof (cases "Deserialize j (fo_value x)")
    case None
    with step show ?thesis by (auto simp: fan_out_worker_def Let_def)
  next
    case (Some p)
    obtain w1 f1 where d: "dispatch_lookup (tp_WorkflowID p) (p\<lparr>EtcdKey := fo_key x\<rparr>) (?w, ?f) = (w1, f1)" by fastforce
    with step Some have "ww_step j (w, f) (w1, f1)" by (simp add: Let_def)
    moreover have "\<not> wr_panicked ?w" using assms(1) by simp
    from dispatch_steps [OF this d, of j t] obtain f' where
      "(ww_step j)\<^sup>*\<^sup>* (w1, f1) (?w\<lparr>wr_ww := snd (ww_dispatch (tp_WorkflowID p) (p\<lparr>EtcdKey := fo_key x\<rparr>) t (wr_ww ?w))\<rparr>, f')"
      by blast
    ultimately show ?thesis using Some by (auto simp: fan_out_worker_def intro: converse_rtranclp_into_rtranclp)
  qed
qed

lemma rescan_steps:
  assumes "\<not> wr_panicked w" and "length (wr_sending w) \<le> fanOutWorkers"
  shows "\<exists>f'. (ww_step j)\<^sup>*\<^sup>* (w, f) (w\<lparr>wr_ww := rescan_kvs j t cancelled i kvs s (wr_ww w)\<rparr>, f')"
  using assms
proof (induction kvs arbitrary: i w f)
  case (Cons kv kvs)
  have go: ?case if more: "\<not> cancelled i" "Deserialize j (kvp_Value kv) = Some p" "running (tp_WorkflowID p) s = Some e"
    "unprocessed (e_state e) (tp_TaskName p)" for p e
  proof -
    let ?w = "w\<lparr>wr_ww := snd (ww_dispatch (tp_WorkflowID p) p t (wr_ww w))\<rparr>"
    obtain w1 f1 where d: "dispatch_lookup (tp_WorkflowID p) p (w, f\<lparr>tf_rescanned := add_mset p (tf_rescanned f)\<rparr>) = (w1, f1)" by fastforce
    with ww_step.rescanned [OF Cons.prems, of j f p] have "ww_step j (w, f) (w1, f1)" by simp
    moreover from dispatch_steps [OF Cons.prems(1) d, of j t] obtain f2 where "(ww_step j)\<^sup>*\<^sup>* (w1, f1) (?w, f2)" by blast
    moreover have "\<not> wr_panicked ?w" "length (wr_sending ?w) \<le> fanOutWorkers" using Cons.prems by simp_all
    from Cons.IH [OF this, of f2 "i + 1"] obtain f' where
      "(ww_step j)\<^sup>*\<^sup>* (?w, f2) (?w\<lparr>wr_ww := rescan_kvs j t cancelled (i + 1) kvs s (wr_ww ?w)\<rparr>, f')" by blast
    ultimately have "(ww_step j)\<^sup>*\<^sup>* (w, f) (?w\<lparr>wr_ww := rescan_kvs j t cancelled (i + 1) kvs s (wr_ww ?w)\<rparr>, f')" by (meson converse_rtranclp_into_rtranclp rtranclp_trans)
    with more show ?thesis by auto
  qed
  have skip: ?case if "rescan_kvs j t cancelled i (kv # kvs) s (wr_ww w) = rescan_kvs j t cancelled (i + 1) kvs s (wr_ww w)"
    using Cons.IH [OF Cons.prems, of f "i + 1"] that by simp
  have stop: ?case if "cancelled i" using that by auto
  show ?case using go skip stop by (cases "cancelled i") (auto split: option.splits simp del: ex_simps)
qed auto

text \<open>A workflow that ends between the lookup and the send of a dispatch makes the send hit a closed
  channel, which panics the master.\<close>

lemma dispatch_races_unregister:
  assumes "map_of (ww_chans ww) u = Some buf" and "distinct (map fst (ww_chans ww))"
  shows "fst (ww_dispatch u p t ww) \<noteq> NoChannel \<and> fst (dispatch_send u p t (ww_unregister u ww)) = SendOnClosed"
  using assms by (auto simp: ww_dispatch_def dispatch_send_def dispatch_backlog_def ww_unregister_def delete_conv split: if_splits)

text \<open>An event whose value is a serialised payload reaches the channel of the payload's workflow,
  with its key attached.\<close>

lemma event_reaches_workflow:
  assumes "Deserialize j (ev_Value ev) = Some p" and "event_workflow ev \<noteq> ''''" and "length ch < fanOutChanBuf"
    and "map_of (ww_chans ww) (tp_WorkflowID p) = Some buf" and "length buf < workflowEventChanBuf"
  shows "map_of (ww_chans (snd (fan_out_worker j t (last (fan_out ev ch)) ww))) (tp_WorkflowID p)
    = Some (buf @ [p\<lparr>EtcdKey := ev_Key ev\<rparr>])"
  using assms by (simp add: fan_out_def fan_out_worker_def ww_dispatch_def dispatch_send_def Let_def update_conv')


subsection \<open>The watch loop's end\<close>

text \<open>The control of \<^verbatim>\<open>globalTaskWatcher\<close>'s main loop. The \<^verbatim>\<open>break\<close> in the \<^verbatim>\<open>select\<close> of the
  retry wait only leaves the \<^verbatim>\<open>select\<close>: the loop goes on to range over the nil channel of the
  failed watch, which blocks for ever.\<close>

datatype watch_pc = WatchTop | WatchRetry | WatchReading | WatchOnNil | WatchDone

datatype watch_input =
    WatchOk                \<comment> \<open>the watch is established\<close>
  | WatchErr bool          \<comment> \<open>the watch failed; is the context cancelled?\<close>
  | RetryTimer
  | CtxDone                \<comment> \<open>the context ends during the wait\<close>
  | ChanClosed bool        \<comment> \<open>the watch's channel closes; is the context cancelled?\<close>

fun watch_loop :: "watch_input \<Rightarrow> watch_pc \<times> go_duration \<Rightarrow> watch_pc \<times> go_duration" where
  "watch_loop WatchOk (WatchTop, b) = (WatchReading, watch_initialBackoff)"
| "watch_loop (WatchErr cancelled) (WatchTop, b) = (if cancelled then WatchDone else WatchRetry, b)"
| "watch_loop RetryTimer (WatchRetry, b) = (WatchTop, watch_backoff b)"
| "watch_loop CtxDone (WatchRetry, b) = (WatchOnNil, watch_initialBackoff)"
| "watch_loop (ChanClosed cancelled) (WatchReading, b) = (if cancelled then WatchDone else WatchTop, b)"
| "watch_loop i st = st"

lemma watch_backoff_bounded:
  "b \<in> {watch_initialBackoff..watch_maxBackoff} \<Longrightarrow>
   snd (fold watch_loop is (pc, b)) \<in> {watch_initialBackoff..watch_maxBackoff}"
proof (induction "is" arbitrary: pc b)
  case (Cons i "is")
  have "watch_initialBackoff \<le> watch_maxBackoff" "0 < watch_initialBackoff"
    by (simp_all add: watch_initialBackoff_def watch_maxBackoff_def go_units)
  with Cons.prems have "snd (watch_loop i (pc, b)) \<in> {watch_initialBackoff..watch_maxBackoff}"
    by (cases "(i, (pc, b))" rule: watch_loop.cases) (auto simp: watch_backoff_def)
  with Cons.IH show ?case by (metis fold_simps(2) prod.collapse)
qed simp

lemma cancel_during_retry_hangs: "fst (fold watch_loop is (watch_loop CtxDone (WatchRetry, b))) = WatchOnNil"
proof -
  have "fst (fold watch_loop is (WatchOnNil, b')) = WatchOnNil" for b'
  proof (induction "is" arbitrary: b')
    case (Cons i "is")
    then show ?case by (cases i) simp_all
  qed simp
  then show ?thesis by simp
qed

end
