(* ===== verification/Engine_Config.thy ===== *)
theory Engine_Config
  imports Prelude Complex_Main
begin

text \<open>
  \<^verbatim>\<open>infra/config/config.go\<close>: the configuration of both programs, its defaults, loading and
  validation. Parsing YAML is the library's work (\<^verbatim>\<open>yaml.Unmarshal\<close> into a value that is already
  filled), so it is an argument \<open>yaml\<close> of \<open>Load\<close>: what it makes of a document and of the
  defaults, \<open>None\<close> for an error. The file read is \<open>None\<close> when it cannot be read.
\<close>

record mysql_config =
  my_Host :: string
  my_Port :: int
  my_User :: string
  my_Password :: string
  my_Database :: string
  my_Charset :: string
  my_MaxIdle :: int
  my_MaxOpen :: int
  my_MaxConnLifetime :: string

record logger_config =
  lg_Dir :: string
  lg_Level :: string

text \<open>\<^verbatim>\<open>SampleRate\<close> is a \<^verbatim>\<open>float64\<close>; a finite one is a rational number.\<close>

record tracing_config =
  tr_Enabled :: bool
  tr_Endpoint :: string
  tr_ServiceName :: string
  tr_SampleRate :: rat

record etcd_tls_config =
  tls_Enabled :: bool
  tls_CertFile :: string
  tls_KeyFile :: string
  tls_CAFile :: string

record etcd_config =
  et_Endpoints :: "string list"
  et_DialTimeout :: go_duration
  et_LockTTL :: int
  et_TLS :: etcd_tls_config

record prefixes_config =
  px_Tasks :: string
  px_Heartbeats :: string
  px_Workflows :: string

record ws_config =
  wsc_ReadTimeout :: go_duration
  wsc_PingInterval :: go_duration
  wsc_WriteTimeout :: go_duration
  wsc_MaxMessageSize :: int
  wsc_BroadcastBuffer :: int
  wsc_ClientBuffer :: int

record master_config =
  ms_HTTPAddr :: string
  ms_MaxConcurrentTasks :: int
  ms_PerWorkflowMaxConcurrency :: int
  ms_PendingTaskTimeout :: go_duration
  ms_ShutdownTimeout :: go_duration
  ms_ShutdownDelay :: go_duration
  ms_DefaultTaskTimeout :: go_duration
  ms_DefaultBaseBackoff :: go_duration
  ms_StaleCheckInterval :: go_duration
  ms_HeartbeatStale :: go_duration
  ms_StoreTimeout :: go_duration
  ms_MaxHistoryCache :: int
  ms_CORSMaxAge :: go_duration
  ms_WS :: ws_config

record WorkerConfig =
  wk_ID :: string
  wk_HeartbeatInterval :: go_duration
  wk_ShutdownDelay :: go_duration
  wk_MaxTaskConcurrency :: int

record app_config =
  cfg_Etcd :: etcd_config
  cfg_MySQL :: mysql_config
  cfg_Prefixes :: prefixes_config
  cfg_Master :: master_config
  cfg_Worker :: WorkerConfig
  cfg_Logger :: logger_config
  cfg_Tracing :: tracing_config

text \<open>The fields the source does not mention have Go's zero values: no TLS, no tracing.\<close>

definition DefaultConfig :: app_config where
  "DefaultConfig =
     \<lparr>cfg_Etcd = \<lparr>et_Endpoints = [''localhost:2379''], et_DialTimeout = 5 * Second, et_LockTTL = 10,
        et_TLS = \<lparr>tls_Enabled = False, tls_CertFile = '''', tls_KeyFile = '''', tls_CAFile = ''''\<rparr>\<rparr>,
      cfg_MySQL = \<lparr>my_Host = ''localhost'', my_Port = 3306, my_User = ''root'', my_Password = ''root'',
        my_Database = ''vibeflow'', my_Charset = ''utf8mb4'', my_MaxIdle = 10, my_MaxOpen = 100,
        my_MaxConnLifetime = ''1h''\<rparr>,
      cfg_Prefixes = \<lparr>px_Tasks = ''/vibeflow/tasks/'', px_Heartbeats = ''/vibeflow/heartbeats/'',
        px_Workflows = ''/vibeflow/workflows/''\<rparr>,
      cfg_Master = \<lparr>ms_HTTPAddr = '':8080'', ms_MaxConcurrentTasks = 250, ms_PerWorkflowMaxConcurrency = 100,
        ms_PendingTaskTimeout = 5 * Minute, ms_ShutdownTimeout = 5 * Second, ms_ShutdownDelay = 200 * Millisecond,
        ms_DefaultTaskTimeout = 30 * Second, ms_DefaultBaseBackoff = Second, ms_StaleCheckInterval = 15 * Second,
        ms_HeartbeatStale = 15 * Second, ms_StoreTimeout = 5 * Second, ms_MaxHistoryCache = 1000,
        ms_CORSMaxAge = 12 * (60 * Minute),
        ms_WS = \<lparr>wsc_ReadTimeout = 60 * Second, wsc_PingInterval = 30 * Second, wsc_WriteTimeout = 10 * Second,
          wsc_MaxMessageSize = 4096, wsc_BroadcastBuffer = 256, wsc_ClientBuffer = 64\<rparr>\<rparr>,
      cfg_Worker = \<lparr>wk_ID = '''', wk_HeartbeatInterval = 5 * Second, wk_ShutdownDelay = 200 * Millisecond,
        wk_MaxTaskConcurrency = 100\<rparr>,
      cfg_Logger = \<lparr>lg_Dir = ''runtime/log'', lg_Level = ''info''\<rparr>,
      cfg_Tracing = \<lparr>tr_Enabled = False, tr_Endpoint = '''', tr_ServiceName = '''', tr_SampleRate = 0\<rparr>\<rparr>"

datatype config_error =
    EtcdEndpointsEmpty | TasksPrefixEmpty | HeartbeatsPrefixEmpty | HTTPAddrEmpty
  | ReadConfig | ParseConfig | InvalidConfig config_error

definition Validate :: "app_config \<Rightarrow> config_error option" where
  "Validate c =
     (if et_Endpoints (cfg_Etcd c) = [] then Some EtcdEndpointsEmpty
      else if px_Tasks (cfg_Prefixes c) = '''' then Some TasksPrefixEmpty
      else if px_Heartbeats (cfg_Prefixes c) = '''' then Some HeartbeatsPrefixEmpty
      else if ms_HTTPAddr (cfg_Master c) = '''' then Some HTTPAddrEmpty
      else None)"

definition Load :: "(string \<Rightarrow> app_config \<Rightarrow> app_config option) \<Rightarrow> string option \<Rightarrow> config_error + app_config" where
  "Load yaml file =
     (case file of
        None \<Rightarrow> Inl ReadConfig
      | Some doc \<Rightarrow>
          (case yaml doc DefaultConfig of
             None \<Rightarrow> Inl ParseConfig
           | Some cfg \<Rightarrow> (case Validate cfg of Some err \<Rightarrow> Inl (InvalidConfig err) | None \<Rightarrow> Inr cfg)))"

text \<open>What validation asks for, as one condition.\<close>

definition config_complete :: "app_config \<Rightarrow> bool" where
  "config_complete c \<longleftrightarrow> et_Endpoints (cfg_Etcd c) \<noteq> [] \<and> px_Tasks (cfg_Prefixes c) \<noteq> ''''
     \<and> px_Heartbeats (cfg_Prefixes c) \<noteq> '''' \<and> ms_HTTPAddr (cfg_Master c) \<noteq> ''''"

lemma Validate_complete: "Validate c = None \<longleftrightarrow> config_complete c"
  by (simp add: Validate_def config_complete_def)

lemma DefaultConfig_complete: "Validate DefaultConfig = None"
  by (simp add: Validate_def DefaultConfig_def)

lemma Load_complete:
  "Load yaml file = Inr cfg \<longleftrightarrow> (\<exists>doc. file = Some doc \<and> yaml doc DefaultConfig = Some cfg \<and> config_complete cfg)"
  by (auto simp: Load_def Validate_complete [symmetric] split: option.splits)

text \<open>Every setting outside those four is accepted as it is, negative limits and time-outs included.\<close>

lemma Load_accepts_any_limit:
  assumes "yaml doc DefaultConfig = Some (DefaultConfig\<lparr>cfg_Master := (cfg_Master DefaultConfig)\<lparr>ms_MaxConcurrentTasks := n,
      ms_HeartbeatStale := d\<rparr>\<rparr>)"
  shows "Load yaml (Some doc) = Inr (DefaultConfig\<lparr>cfg_Master := (cfg_Master DefaultConfig)\<lparr>ms_MaxConcurrentTasks := n,
      ms_HeartbeatStale := d\<rparr>\<rparr>)"
  using assms by (simp add: Load_complete config_complete_def) (simp add: DefaultConfig_def)

end
