(* ===== verification/Ws_Bus.thy ===== *)
theory Ws_Bus
  imports Engine_Config "HOL-Library.Sublist"
begin

text \<open>
  \<^verbatim>\<open>infra/ws/bus.go\<close>: the hub that pushes events to the browsers. First its operations as functions
  on the hub; then the hub with its goroutines, the two broadcast consumers, the registration loop
  and the clients' write pumps, as a step relation: a locked section, a channel operation or a
  \<^verbatim>\<open>select\<close> is one step, and any goroutine may move between two steps.

  A client is the address of its \<^verbatim>\<open>WSClient\<close>; \<open>client_obj\<close> is the heap. The web socket itself and
  its time-outs are outside, so is the encoding: a broadcast gets the encoded message or, when
  \<^verbatim>\<open>json.Marshal\<close> fails, \<open>None\<close>.
\<close>

subsection \<open>State\<close>

record ws_client =
  cl_workflow :: string
  cl_send :: "string list"
  cl_cap :: nat
  cl_closed :: bool

record routed_message =
  rm_data :: string
  rm_workflow :: string

datatype ws_chan = ChGlobal | ChWorkflow

record ws_hub =
  hub_clients :: "nat list"
  workflowClients :: "string \<rightharpoonup> nat list"
  channel :: "ws_chan \<Rightarrow> routed_message list"
  broadcastCap :: nat
  client_obj :: "nat \<Rightarrow> ws_client"

definition defaultBroadcastBuffer :: int where
  "defaultBroadcastBuffer = 256"

definition defaultClientBuffer :: int where
  "defaultClientBuffer = 64"

definition NewWSEvent :: "ws_config \<Rightarrow> ws_hub" where
  "NewWSEvent wsCfg =
     \<lparr>hub_clients = [], workflowClients = Map.empty, channel = (\<lambda>_. []),
      broadcastCap = nat (if wsc_BroadcastBuffer wsCfg \<le> 0 then defaultBroadcastBuffer else wsc_BroadcastBuffer wsCfg),
      client_obj = (\<lambda>_. \<lparr>cl_workflow = '''', cl_send = [], cl_cap = 0, cl_closed = False\<rparr>)\<rparr>"


subsection \<open>Clients come and go\<close>

definition set_obj :: "nat \<Rightarrow> ws_client \<Rightarrow> ws_hub \<Rightarrow> ws_hub" where
  "set_obj c o' h = h\<lparr>client_obj := (client_obj h)(c := o')\<rparr>"

definition closeSend :: "nat \<Rightarrow> ws_hub \<Rightarrow> ws_hub" where
  "closeSend c h = set_obj c ((client_obj h c)\<lparr>cl_closed := True\<rparr>) h"

text \<open>\<^verbatim>\<open>e.workflowClients[workflow]\<close>: a missing set reads as the empty one.\<close>

definition subscribers :: "string \<Rightarrow> ws_hub \<Rightarrow> nat list" where
  "subscribers workflow h = (case workflowClients h workflow of None \<Rightarrow> [] | Some cs \<Rightarrow> cs)"

definition register_client :: "nat \<Rightarrow> ws_hub \<Rightarrow> ws_hub" where
  "register_client c h =
     (let w = cl_workflow (client_obj h c); wc = workflowClients h
      in h\<lparr>hub_clients := List.insert c (hub_clients h),
           workflowClients := (if w = '''' then wc
             else wc(w \<mapsto> List.insert c (subscribers w h)))\<rparr>)"

definition delete_client :: "nat \<Rightarrow> ws_hub \<Rightarrow> ws_hub" where
  "delete_client c h =
     (let w = cl_workflow (client_obj h c); wc = workflowClients h;
          rest = removeAll c (subscribers w h)
      in h\<lparr>hub_clients := removeAll c (hub_clients h),
           workflowClients := (if w = '''' then wc else wc(w := (if rest = [] then None else Some rest)))\<rparr>)"

definition unregister_client :: "nat \<Rightarrow> ws_hub \<Rightarrow> ws_hub" where
  "unregister_client c h =
     (if c \<in> set (hub_clients h) then closeSend c (delete_client c h) else h)"

text \<open>\<^verbatim>\<open>ServeWS\<close> up to the start of the pumps, for a new client object at address \<open>c\<close>.\<close>

definition ServeWS :: "ws_config \<Rightarrow> nat \<Rightarrow> string \<Rightarrow> ws_hub \<Rightarrow> ws_hub" where
  "ServeWS wsCfg c workflow h =
     (let clientBuf = (if wsc_ClientBuffer wsCfg \<le> 0 then defaultClientBuffer else wsc_ClientBuffer wsCfg)
      in register_client c
           (set_obj c \<lparr>cl_workflow = workflow, cl_send = [], cl_cap = nat clientBuf, cl_closed = False\<rparr> h))"

text \<open>What a write pump finds in the client's channel.\<close>

datatype pump = WriteText string | WriteClose | PumpWaits

definition writePump :: "nat \<Rightarrow> ws_hub \<Rightarrow> pump \<times> ws_hub" where
  "writePump c h =
     (case cl_send (client_obj h c) of
        m # ms \<Rightarrow> (WriteText m, set_obj c ((client_obj h c)\<lparr>cl_send := ms\<rparr>) h)
      | [] \<Rightarrow> (if cl_closed (client_obj h c) then WriteClose else PumpWaits, h))"


subsection \<open>Sending to clients\<close>

text \<open>The \<^verbatim>\<open>select\<close> of \<^verbatim>\<open>sendToClient\<close>: a send on a closed channel panics, with or without a default.\<close>

datatype send_outcome = Sent | ChannelFull | SendPanic

definition try_send :: "nat \<Rightarrow> string \<Rightarrow> ws_hub \<Rightarrow> send_outcome \<times> ws_hub" where
  "try_send c data h =
     (let cl = client_obj h c in
      if cl_closed cl then (SendPanic, h)
      else if length (cl_send cl) < cl_cap cl then (Sent, set_obj c (cl\<lparr>cl_send := cl_send cl @ [data]\<rparr>) h)
      else (ChannelFull, h))"

definition drop_client :: "nat \<Rightarrow> ws_hub \<Rightarrow> ws_hub" where
  "drop_client c h =
     (if c \<in> set (hub_clients h) then closeSend c (delete_client c h) else h)"

text \<open>\<open>None\<close> is the panic.\<close>

definition sendToClient :: "nat \<Rightarrow> string \<Rightarrow> ws_hub \<Rightarrow> ws_hub option" where
  "sendToClient c data h =
     (case try_send c data h of
        (Sent, h') \<Rightarrow> Some h'
      | (ChannelFull, h') \<Rightarrow> Some (drop_client c h')
      | (SendPanic, _) \<Rightarrow> None)"

fun send_list :: "nat list \<Rightarrow> string \<Rightarrow> ws_hub \<Rightarrow> ws_hub option" where
  "send_list [] data h = Some h"
| "send_list (c # cs) data h = (case sendToClient c data h of None \<Rightarrow> None | Some h' \<Rightarrow> send_list cs data h')"

text \<open>The clients a consumer copies under the lock; then it sends to them without the lock. Here
  nothing comes in between.\<close>

definition copy_targets :: "ws_chan \<Rightarrow> routed_message \<Rightarrow> ws_hub \<Rightarrow> nat list" where
  "copy_targets ch m h =
     (case ch of ChGlobal \<Rightarrow> hub_clients h | ChWorkflow \<Rightarrow> subscribers (rm_workflow m) h)"

definition sendToAllLocked :: "string \<Rightarrow> ws_hub \<Rightarrow> ws_hub option" where
  "sendToAllLocked data h = send_list (hub_clients h) data h"

definition sendToWorkflowLocked :: "string \<Rightarrow> string \<Rightarrow> ws_hub \<Rightarrow> ws_hub option" where
  "sendToWorkflowLocked workflow data h =
     send_list (subscribers workflow h) data h"


subsection \<open>Broadcasting\<close>

definition has_room :: "ws_chan \<Rightarrow> ws_hub \<Rightarrow> bool" where
  "has_room ch h \<longleftrightarrow> length (channel h ch) < broadcastCap h"

definition push_message :: "ws_chan \<Rightarrow> routed_message \<Rightarrow> ws_hub \<Rightarrow> ws_hub" where
  "push_message ch m h = h\<lparr>channel := (channel h)(ch := channel h ch @ [m])\<rparr>"

definition broadcastToChannel :: "ws_chan \<Rightarrow> string option \<Rightarrow> string \<Rightarrow> ws_hub \<Rightarrow> ws_hub" where
  "broadcastToChannel ch encoded workflow h =
     (case encoded of
        None \<Rightarrow> h
      | Some data \<Rightarrow>
          if has_room ch h then push_message ch \<lparr>rm_data = data, rm_workflow = workflow\<rparr> h else h)"

text \<open>With a deadline: \<open>None\<close> while the call blocks. When both cases of the \<^verbatim>\<open>select\<close> are ready Go takes
  either one; \<open>prefer_send\<close> is its choice.\<close>

definition broadcastToChannelCtx ::
  "ws_chan \<Rightarrow> string option \<Rightarrow> string \<Rightarrow> bool \<Rightarrow> bool \<Rightarrow> ws_hub \<Rightarrow> ws_hub option" where
  "broadcastToChannelCtx ch encoded workflow expired prefer_send h =
     (case encoded of
        None \<Rightarrow> Some h
      | Some data \<Rightarrow>
          if has_room ch h \<and> (prefer_send \<or> \<not> expired)
          then Some (push_message ch \<lparr>rm_data = data, rm_workflow = workflow\<rparr> h)
          else if expired then Some h else None)"

definition ws_Broadcast :: "string option \<Rightarrow> ws_hub \<Rightarrow> ws_hub" where
  "ws_Broadcast msg h = broadcastToChannel ChGlobal msg '''' h"

definition BroadcastToWorkflow :: "string \<Rightarrow> string option \<Rightarrow> ws_hub \<Rightarrow> ws_hub" where
  "BroadcastToWorkflow workflow msg h = broadcastToChannel ChWorkflow msg workflow h"

definition channel_for :: "string \<Rightarrow> ws_chan" where
  "channel_for workflow = (if workflow = '''' then ChGlobal else ChWorkflow)"

definition BroadcastCtxToWorkflow :: "string \<Rightarrow> string option \<Rightarrow> bool \<Rightarrow> bool \<Rightarrow> ws_hub \<Rightarrow> ws_hub option" where
  "BroadcastCtxToWorkflow workflow msg expired prefer_send h =
     broadcastToChannelCtx (channel_for workflow) msg workflow expired prefer_send h"

definition BroadcastCtx :: "string option \<Rightarrow> bool \<Rightarrow> bool \<Rightarrow> ws_hub \<Rightarrow> ws_hub option" where
  "BroadcastCtx msg expired prefer_send h = BroadcastCtxToWorkflow '''' msg expired prefer_send h"

definition broadcastNonBlock :: "string option \<Rightarrow> string \<Rightarrow> ws_hub \<Rightarrow> ws_hub" where
  "broadcastNonBlock msg workflow h = broadcastToChannel (channel_for workflow) msg workflow h"


subsection \<open>The hub with its goroutines\<close>

text \<open>Where a consumer is: waiting, holding a message, sending the copy's remaining clients, or about
  to drop a client that was full.\<close>

datatype consumer =
    CIdle
  | CTaken routed_message
  | CSend routed_message "nat list"
  | CDrop routed_message nat "nat list"

text \<open>\<open>consumed\<close>, \<open>delivered\<close> and \<open>written\<close> record the past: the messages each consumer has taken, those
  put into each client's channel and the texts its write pump has sent.\<close>

record ws_system =
  sys_hub :: ws_hub
  consumer_at :: "ws_chan \<Rightarrow> consumer"
  sys_panic :: bool
  next_client :: nat
  consumed :: "ws_chan \<Rightarrow> routed_message list"
  delivered :: "nat \<Rightarrow> (ws_chan \<times> routed_message) list"
  written :: "nat \<Rightarrow> string list"

definition ws_init :: "ws_config \<Rightarrow> ws_system" where
  "ws_init wsCfg =
     \<lparr>sys_hub = NewWSEvent wsCfg, consumer_at = (\<lambda>_. CIdle), sys_panic = False, next_client = 0,
      consumed = (\<lambda>_. []), delivered = (\<lambda>_. []), written = (\<lambda>_. [])\<rparr>"

inductive ws_step :: "ws_config \<Rightarrow> ws_system \<Rightarrow> ws_system \<Rightarrow> bool" for wsCfg where
  serve: "\<not> sys_panic s \<Longrightarrow>
     ws_step wsCfg s (s\<lparr>sys_hub := ServeWS wsCfg (next_client s) w (sys_hub s), next_client := next_client s + 1\<rparr>)"
| leave: "\<not> sys_panic s \<Longrightarrow> c < next_client s \<Longrightarrow>
     ws_step wsCfg s (s\<lparr>sys_hub := unregister_client c (sys_hub s)\<rparr>)"
| post: "\<not> sys_panic s \<Longrightarrow> ch = ChGlobal \<longrightarrow> w = '''' \<Longrightarrow>
     ws_step wsCfg s (s\<lparr>sys_hub := broadcastToChannel ch msg w (sys_hub s)\<rparr>)"
| post_ctx: "\<not> sys_panic s \<Longrightarrow> BroadcastCtxToWorkflow w msg expired prefer_send (sys_hub s) = Some h \<Longrightarrow>
     ws_step wsCfg s (s\<lparr>sys_hub := h\<rparr>)"
| take: "\<not> sys_panic s \<Longrightarrow> consumer_at s ch = CIdle \<Longrightarrow> channel (sys_hub s) ch = m # ms \<Longrightarrow>
     ws_step wsCfg s (s\<lparr>sys_hub := (sys_hub s)\<lparr>channel := (channel (sys_hub s))(ch := ms)\<rparr>,
       consumer_at := (consumer_at s)(ch := CTaken m),
       consumed := (consumed s)(ch := consumed s ch @ [m])\<rparr>)"
| copy: "\<not> sys_panic s \<Longrightarrow> consumer_at s ch = CTaken m \<Longrightarrow>
     ws_step wsCfg s (s\<lparr>consumer_at := (consumer_at s)(ch := CSend m (copy_targets ch m (sys_hub s)))\<rparr>)"
| send: "\<not> sys_panic s \<Longrightarrow> consumer_at s ch = CSend m (c # cs) \<Longrightarrow>
     try_send c (rm_data m) (sys_hub s) = (Sent, h) \<Longrightarrow>
     ws_step wsCfg s (s\<lparr>sys_hub := h, consumer_at := (consumer_at s)(ch := CSend m cs),
       delivered := (delivered s)(c := delivered s c @ [(ch, m)])\<rparr>)"
| full: "\<not> sys_panic s \<Longrightarrow> consumer_at s ch = CSend m (c # cs) \<Longrightarrow>
     try_send c (rm_data m) (sys_hub s) = (ChannelFull, h) \<Longrightarrow>
     ws_step wsCfg s (s\<lparr>sys_hub := h, consumer_at := (consumer_at s)(ch := CDrop m c cs)\<rparr>)"
| panic: "\<not> sys_panic s \<Longrightarrow> consumer_at s ch = CSend m (c # cs) \<Longrightarrow>
     try_send c (rm_data m) (sys_hub s) = (SendPanic, h) \<Longrightarrow>
     ws_step wsCfg s (s\<lparr>sys_panic := True\<rparr>)"
| drop: "\<not> sys_panic s \<Longrightarrow> consumer_at s ch = CDrop m c cs \<Longrightarrow>
     ws_step wsCfg s (s\<lparr>sys_hub := drop_client c (sys_hub s), consumer_at := (consumer_at s)(ch := CSend m cs)\<rparr>)"
| finish: "\<not> sys_panic s \<Longrightarrow> consumer_at s ch = CSend m [] \<Longrightarrow>
     ws_step wsCfg s (s\<lparr>consumer_at := (consumer_at s)(ch := CIdle)\<rparr>)"
| pump: "\<not> sys_panic s \<Longrightarrow> writePump c (sys_hub s) = (WriteText d, h) \<Longrightarrow>
     ws_step wsCfg s (s\<lparr>sys_hub := h, written := (written s)(c := written s c @ [d])\<rparr>)"

inductive ws_reach :: "ws_config \<Rightarrow> ws_system \<Rightarrow> bool" for wsCfg where
  start: "ws_reach wsCfg (ws_init wsCfg)"
| next_step: "ws_reach wsCfg s \<Longrightarrow> ws_step wsCfg s s' \<Longrightarrow> ws_reach wsCfg s'"

subsection \<open>The registry and its index\<close>

definition index_exact :: "ws_hub \<Rightarrow> bool" where
  "index_exact h \<longleftrightarrow>
     (\<forall>w. workflowClients h w \<noteq> Some [] \<and> distinct (subscribers w h)
        \<and> set (subscribers w h) = (if w = '''' then {} else {c \<in> set (hub_clients h). cl_workflow (client_obj h c) = w}))"

text \<open>\<open>n\<close>: the addresses below it are allocated.\<close>

definition hub_ok :: "nat \<Rightarrow> ws_hub \<Rightarrow> bool" where
  "hub_ok n h \<longleftrightarrow>
     distinct (hub_clients h) \<and> index_exact h
     \<and> (\<forall>c \<in> set (hub_clients h). c < n \<and> \<not> cl_closed (client_obj h c))
     \<and> (\<forall>c < n. length (cl_send (client_obj h c)) \<le> cl_cap (client_obj h c))
     \<and> 0 < broadcastCap h \<and> (\<forall>ch. length (channel h ch) \<le> broadcastCap h)"

named_theorems hub_simps \<comment> \<open>what the operations do to each field\<close>

lemma set_obj_sel [hub_simps]:
  "hub_clients (set_obj c o' h) = hub_clients h" "workflowClients (set_obj c o' h) = workflowClients h"
  "channel (set_obj c o' h) = channel h" "broadcastCap (set_obj c o' h) = broadcastCap h"
  "client_obj (set_obj c o' h) = (client_obj h)(c := o')" "subscribers w (set_obj c o' h) = subscribers w h"
  by (simp_all add: set_obj_def subscribers_def)

lemma delete_client_sel [hub_simps]:
  "hub_clients (delete_client c h) = removeAll c (hub_clients h)"
  "channel (delete_client c h) = channel h" "broadcastCap (delete_client c h) = broadcastCap h"
  "client_obj (delete_client c h) = client_obj h"
  by (simp_all add: delete_client_def Let_def)

lemma index_cong:
  assumes "index_exact h" and "hub_clients h' = hub_clients h" and "workflowClients h' = workflowClients h"
    and "\<forall>c \<in> set (hub_clients h). cl_workflow (client_obj h' c) = cl_workflow (client_obj h c)"
  shows "index_exact h'"
  using assms by (auto simp: index_exact_def subscribers_def)

lemma delete_index:
  assumes "index_exact h"
  shows "index_exact (delete_client c h)"
proof -
  let ?w = "cl_workflow (client_obj h c)"
  have subs: "subscribers w (delete_client c h) = (if w = ?w \<and> w \<noteq> '''' then removeAll c (subscribers w h) else subscribers w h)" for w
    by (auto simp: delete_client_def subscribers_def Let_def)
  have kept: "workflowClients (delete_client c h) w \<noteq> Some []" for w
    using assms by (auto simp: delete_client_def index_exact_def Let_def)
  from assms kept show ?thesis
    unfolding index_exact_def subs by (auto simp: hub_simps distinct_removeAll split: if_splits)
qed

lemma drop_client_ok:
  assumes "hub_ok n h"
  shows "hub_ok n (drop_client c h)"
proof -
  have "index_exact (closeSend c (delete_client c h))"
    using delete_index [of h c] assms
    by (rule_tac index_cong) (auto simp: closeSend_def hub_simps hub_ok_def)
  with assms show ?thesis
    by (auto simp: drop_client_def closeSend_def hub_simps hub_ok_def distinct_removeAll)
qed

lemma unregister_is_drop: "unregister_client c h = drop_client c h"
  by (simp add: unregister_client_def drop_client_def)

lemma ServeWS_index:
  assumes "index_exact h" and "c \<notin> set (hub_clients h)"
  shows "index_exact (ServeWS wsCfg c w h)"
proof -
  define h0 where "h0 = set_obj c \<lparr>cl_workflow = w, cl_send = [],
     cl_cap = nat (if wsc_ClientBuffer wsCfg \<le> 0 then defaultClientBuffer else wsc_ClientBuffer wsCfg), cl_closed = False\<rparr> h"
  have h0: "hub_clients h0 = hub_clients h" "workflowClients h0 = workflowClients h" "cl_workflow (client_obj h0 c) = w"
    "c' \<noteq> c \<Longrightarrow> client_obj h0 c' = client_obj h c'" for c'
    by (simp_all add: h0_def hub_simps)
  have serve: "ServeWS wsCfg c w h = register_client c h0" by (simp add: ServeWS_def h0_def Let_def)
  have subs: "subscribers v (register_client c h0) = (if v = w \<and> v \<noteq> '''' then List.insert c (subscribers v h) else subscribers v h)" for v
    by (auto simp: register_client_def subscribers_def Let_def h0)
  have kept: "workflowClients (register_client c h0) v \<noteq> Some []" for v
    using assms by (auto simp: register_client_def index_exact_def Let_def h0 List.insert_def)
  have reg: "hub_clients (register_client c h0) = List.insert c (hub_clients h)"
    "client_obj (register_client c h0) = client_obj h0"
    by (simp_all add: register_client_def Let_def h0)
  show ?thesis
    unfolding serve index_exact_def subs reg
  proof (intro allI conjI)
    fix v
    show "workflowClients (register_client c h0) v \<noteq> Some []" by (rule kept)
    show "distinct (if v = w \<and> v \<noteq> '''' then List.insert c (subscribers v h) else subscribers v h)"
      using assms by (simp add: index_exact_def distinct_insert)
    have "{c' \<in> set (hub_clients h). cl_workflow (client_obj h0 c') = v}
        = {c' \<in> set (hub_clients h). cl_workflow (client_obj h c') = v}"
      using h0(4) assms(2) by metis
    moreover have "set (subscribers v h) = (if v = '''' then {} else {c' \<in> set (hub_clients h). cl_workflow (client_obj h c') = v})"
      using assms(1) by (simp add: index_exact_def)
    ultimately show "set (if v = w \<and> v \<noteq> '''' then List.insert c (subscribers v h) else subscribers v h)
        = (if v = '''' then {} else {c' \<in> set (List.insert c (hub_clients h)). cl_workflow (client_obj h0 c') = v})"
      using h0(3) by auto
  qed
qed

lemma ServeWS_sel [hub_simps]:
  "hub_clients (ServeWS wsCfg c w h) = List.insert c (hub_clients h)"
  "channel (ServeWS wsCfg c w h) = channel h" "broadcastCap (ServeWS wsCfg c w h) = broadcastCap h"
  "client_obj (ServeWS wsCfg c w h) = (client_obj h)(c := \<lparr>cl_workflow = w, cl_send = [],
     cl_cap = nat (if wsc_ClientBuffer wsCfg \<le> 0 then defaultClientBuffer else wsc_ClientBuffer wsCfg), cl_closed = False\<rparr>)"
  by (simp_all add: ServeWS_def register_client_def hub_simps Let_def)

lemma ServeWS_ok: "hub_ok n h \<Longrightarrow> hub_ok (n + 1) (ServeWS wsCfg n w h)"
  using ServeWS_index [of h n wsCfg w]
  by (auto simp: hub_ok_def hub_simps distinct_insert less_Suc_eq)

subsection \<open>What the system preserves\<close>

fun carries :: "consumer \<Rightarrow> routed_message option" where
  "carries CIdle = None"
| "carries (CTaken m) = Some m"
| "carries (CSend m cs) = Some m"
| "carries (CDrop m c cs) = Some m"

fun waiting :: "consumer \<Rightarrow> nat list" where
  "waiting (CSend m cs) = cs"
| "waiting (CDrop m c cs) = cs"
| "waiting _ = []"

text \<open>Whether the consumer may still send the message it carries to client \<open>c\<close>.\<close>

definition may_send :: "consumer \<Rightarrow> nat \<Rightarrow> bool" where
  "may_send k c \<longleftrightarrow> c \<in> set (waiting k) \<or> (\<exists>m. k = CTaken m)"

lemma may_send_simps [simp]:
  "\<not> may_send CIdle c" "may_send (CTaken m) c"
  "may_send (CSend m cs) c \<longleftrightarrow> c \<in> set cs" "may_send (CDrop m d cs) c \<longleftrightarrow> c \<in> set cs"
  by (simp_all add: may_send_def)

definition got :: "ws_system \<Rightarrow> nat \<Rightarrow> ws_chan \<Rightarrow> routed_message list" where
  "got s c ch = map snd (filter (\<lambda>(k, _). k = ch) (delivered s c))"

definition consumer_ok :: "ws_system \<Rightarrow> ws_chan \<Rightarrow> bool" where
  "consumer_ok s ch \<longleftrightarrow>
     (let k = consumer_at s ch in
      (\<forall>m. carries k = Some m \<longrightarrow> consumed s ch \<noteq> [] \<and> last (consumed s ch) = m
         \<and> (\<forall>c \<in> set (waiting k). c < next_client s \<and> (ch = ChWorkflow \<longrightarrow> cl_workflow (client_obj (sys_hub s) c) = rm_workflow m)))
      \<and> distinct (waiting k))"

definition in_order :: "ws_system \<Rightarrow> nat \<Rightarrow> ws_chan \<Rightarrow> bool" where
  "in_order s c ch \<longleftrightarrow>
     subseq (got s c ch) (if may_send (consumer_at s ch) c then butlast (consumed s ch) else consumed s ch)"

definition client_ok :: "ws_system \<Rightarrow> nat \<Rightarrow> bool" where
  "client_ok s c \<longleftrightarrow>
     written s c @ cl_send (client_obj (sys_hub s) c) = map (rm_data \<circ> snd) (delivered s c)
     \<and> (next_client s \<le> c \<longrightarrow> delivered s c = [])
     \<and> (\<forall>m. (ChWorkflow, m) \<in> set (delivered s c) \<longrightarrow> rm_workflow m = cl_workflow (client_obj (sys_hub s) c))"

definition ws_inv :: "ws_system \<Rightarrow> bool" where
  "ws_inv s \<longleftrightarrow> hub_ok (next_client s) (sys_hub s)
     \<and> (\<forall>ch. consumer_ok s ch) \<and> (\<forall>c ch. in_order s c ch) \<and> (\<forall>c. client_ok s c)"

lemma subseq_butlast: "subseq xs (butlast ys) \<Longrightarrow> subseq xs ys"
  by (metis append_butlast_last_id butlast.simps(1) subseq_rev_drop_many)

lemma subseq_last: "subseq xs (butlast ys) \<Longrightarrow> ys \<noteq> [] \<Longrightarrow> subseq (xs @ [last ys]) ys"
  by (metis append_butlast_last_id subseq_append_iff subseq_order.order_refl)

lemma in_order_mono:
  assumes "in_order s c ch" and "got s' c ch = got s c ch" and "consumed s' ch = consumed s ch"
    and "may_send (consumer_at s' ch) c \<Longrightarrow> may_send (consumer_at s ch) c"
  shows "in_order s' c ch"
  using assms by (auto simp: in_order_def intro: subseq_butlast split: if_splits)

text \<open>A step that changes only the hub.\<close>

lemma hub_change_inv:
  assumes "ws_inv s" and "hub_ok n h" and "next_client s \<le> n"
    and "\<And>c. c < next_client s \<Longrightarrow> cl_workflow (client_obj h c) = cl_workflow (client_obj (sys_hub s) c)"
    and "\<And>c. cl_send (client_obj h c) = cl_send (client_obj (sys_hub s) c)"
  shows "ws_inv (s\<lparr>sys_hub := h, next_client := n\<rparr>)"
proof -
  let ?s = "s\<lparr>sys_hub := h, next_client := n\<rparr>"
  have "consumer_ok ?s ch" for ch
    using assms(1,3,4) by (fastforce simp: ws_inv_def consumer_ok_def Let_def)
  moreover have "in_order ?s c ch" for c ch
    by (rule in_order_mono [of s]) (use assms(1) in \<open>auto simp: ws_inv_def got_def\<close>)
  moreover have "client_ok ?s c" for c
  proof -
    have "client_ok s c" using assms(1) by (simp add: ws_inv_def)
    then show ?thesis using assms(3-5) by (cases "c < next_client s") (auto simp: client_ok_def)
  qed
  ultimately show ?thesis using assms(2) by (simp add: ws_inv_def)
qed

lemma hub_change_inv':
  assumes "ws_inv s" and "hub_ok (next_client s) h"
    and "\<And>c. cl_workflow (client_obj h c) = cl_workflow (client_obj (sys_hub s) c)"
    and "\<And>c. cl_send (client_obj h c) = cl_send (client_obj (sys_hub s) c)"
  shows "ws_inv (s\<lparr>sys_hub := h\<rparr>)"
  using hub_change_inv [of s "next_client s" h] assms by simp

text \<open>A step that moves one consumer on without sending.\<close>

lemma consumer_change_inv:
  assumes "ws_inv s" and "\<And>m. carries k = Some m \<Longrightarrow> carries (consumer_at s ch) = Some m"
    and "\<And>c m. c \<in> set (waiting k) \<Longrightarrow> carries k = Some m \<Longrightarrow>
      c < next_client s \<and> (ch = ChWorkflow \<longrightarrow> cl_workflow (client_obj (sys_hub s) c) = rm_workflow m)"
    and "distinct (waiting k)" and "\<And>c. may_send k c \<Longrightarrow> may_send (consumer_at s ch) c"
  shows "ws_inv (s\<lparr>consumer_at := (consumer_at s)(ch := k)\<rparr>)"
proof -
  let ?s = "s\<lparr>consumer_at := (consumer_at s)(ch := k)\<rparr>"
  have "consumer_ok ?s ch'" for ch'
    using assms(1-4) by (cases "ch' = ch") (auto simp: ws_inv_def consumer_ok_def Let_def)
  moreover have "in_order ?s c ch'" for c ch'
    by (rule in_order_mono [of s]) (use assms(1,5) in \<open>auto simp: ws_inv_def got_def split: if_splits\<close>)
  moreover have "client_ok ?s c" for c
    using assms(1) by (simp add: ws_inv_def client_ok_def)
  ultimately show ?thesis using assms(1) by (simp add: ws_inv_def)
qed

lemma try_send_cases:
  assumes "try_send c d h = (r, h')"
  shows "r = Sent \<Longrightarrow> h' = set_obj c ((client_obj h c)\<lparr>cl_send := cl_send (client_obj h c) @ [d]\<rparr>) h
            \<and> length (cl_send (client_obj h c)) < cl_cap (client_obj h c)"
    and "r = ChannelFull \<Longrightarrow> h' = h"
    and "r = SendPanic \<Longrightarrow> h' = h \<and> cl_closed (client_obj h c)"
proof -
  note run = assms [unfolded try_send_def Let_def]
  show "r = Sent \<Longrightarrow> h' = set_obj c ((client_obj h c)\<lparr>cl_send := cl_send (client_obj h c) @ [d]\<rparr>) h
      \<and> length (cl_send (client_obj h c)) < cl_cap (client_obj h c)"
    using run by (simp split: if_splits)
  show "r = ChannelFull \<Longrightarrow> h' = h" using run by (simp split: if_splits)
  show "r = SendPanic \<Longrightarrow> h' = h \<and> cl_closed (client_obj h c)" using run by (simp split: if_splits)
qed

lemma set_send_ok:
  assumes ok: "hub_ok n h" and room: "c < n \<Longrightarrow> length q \<le> cl_cap (client_obj h c)"
  shows "hub_ok n (set_obj c ((client_obj h c)\<lparr>cl_send := q\<rparr>) h)"
proof -
  have "index_exact h" using ok by (simp add: hub_ok_def)
  then have "index_exact (set_obj c ((client_obj h c)\<lparr>cl_send := q\<rparr>) h)"
    by (rule index_cong) (simp_all add: hub_simps)
  with ok room show ?thesis by (simp add: hub_ok_def hub_simps)
qed

lemma channel_ok:
  assumes "hub_ok n h" and "\<And>ch. length (q ch) \<le> broadcastCap h"
  shows "hub_ok n (h\<lparr>channel := q\<rparr>)"
  using assms by (simp add: hub_ok_def index_exact_def subscribers_def)

lemma push_message_ok: "hub_ok n h \<Longrightarrow> has_room ch h \<Longrightarrow> hub_ok n (push_message ch m h)"
  unfolding push_message_def by (rule channel_ok) (auto simp: hub_ok_def has_room_def)

lemma broadcast_ok:
  assumes "hub_ok n h"
  shows "hub_ok n (broadcastToChannel ch msg w h)"
    and "BroadcastCtxToWorkflow w msg expired prefer_send h = Some h' \<Longrightarrow> hub_ok n h'"
  using assms
  by (auto simp: broadcastToChannel_def BroadcastCtxToWorkflow_def broadcastToChannelCtx_def push_message_ok
      split: option.splits if_splits)

lemma broadcast_objects [hub_simps]:
  "client_obj (broadcastToChannel ch msg w h) = client_obj h"
  "BroadcastCtxToWorkflow w msg expired prefer_send h = Some h' \<Longrightarrow> client_obj h' = client_obj h"
  by (auto simp: broadcastToChannel_def BroadcastCtxToWorkflow_def broadcastToChannelCtx_def push_message_def
      split: option.splits if_splits)

lemma drop_objects [hub_simps]:
  "cl_send (client_obj (drop_client c h) c') = cl_send (client_obj h c')"
  "cl_workflow (client_obj (drop_client c h) c') = cl_workflow (client_obj h c')"
  by (auto simp: drop_client_def closeSend_def hub_simps)

lemma send_inv:
  assumes inv: "ws_inv s" and at: "consumer_at s ch = CSend m (c # cs)"
    and sent: "try_send c (rm_data m) (sys_hub s) = (Sent, h)"
  shows "ws_inv (s\<lparr>sys_hub := h, consumer_at := (consumer_at s)(ch := CSend m cs),
     delivered := (delivered s)(c := delivered s c @ [(ch, m)])\<rparr>)" (is "ws_inv ?s")
proof -
  let ?o = "client_obj (sys_hub s) c"
  from try_send_cases(1) [OF sent] have h: "h = set_obj c (?o\<lparr>cl_send := cl_send ?o @ [rm_data m]\<rparr>) (sys_hub s)"
    and room: "length (cl_send ?o) < cl_cap ?o" by simp_all
  from inv have hub: "hub_ok (next_client s) (sys_hub s)" and k: "consumer_ok s ch'" and o': "in_order s c' ch'"
    and cl: "client_ok s c'" for ch' c' by (simp_all add: ws_inv_def)
  from k [of ch] at have c: "c < next_client s" "consumed s ch \<noteq> []" "last (consumed s ch) = m" "c \<notin> set cs"
    "ch = ChWorkflow \<Longrightarrow> cl_workflow ?o = rm_workflow m"
    by (simp_all add: consumer_ok_def)
  have wf: "cl_workflow (client_obj h c') = cl_workflow (client_obj (sys_hub s) c')" for c'
    by (simp add: h hub_simps)
  have "hub_ok (next_client s) h"
    unfolding h using room by (intro set_send_ok hub) simp
  moreover have "consumer_ok ?s ch'" for ch'
    using k [of ch'] at by (cases "ch' = ch") (auto simp: consumer_ok_def Let_def wf)
  moreover have "in_order ?s c' ch'" for c' ch'
  proof (cases "c' = c \<and> ch' = ch")
    case True
    have "subseq (got s c ch) (butlast (consumed s ch))" using o' [of c ch] at by (simp add: in_order_def)
    from subseq_last [OF this c(2)] True c(3,4) show ?thesis by (simp add: in_order_def got_def)
  next
    case False
    show ?thesis
      by (rule in_order_mono [of s]) (use False o' at in \<open>auto simp: got_def split: if_splits\<close>)
  qed
  moreover have "client_ok ?s c'" for c'
    using cl [of c'] c(1,5) by (auto simp: client_ok_def wf) (auto simp: h hub_simps)
  ultimately show ?thesis by (simp add: ws_inv_def)
qed

lemma take_inv:
  assumes inv: "ws_inv s" and at: "consumer_at s ch = CIdle" and msgs: "channel (sys_hub s) ch = m # ms"
  shows "ws_inv (s\<lparr>sys_hub := (sys_hub s)\<lparr>channel := (channel (sys_hub s))(ch := ms)\<rparr>,
     consumer_at := (consumer_at s)(ch := CTaken m), consumed := (consumed s)(ch := consumed s ch @ [m])\<rparr>)" (is "ws_inv ?s")
proof -
  from inv have hub: "hub_ok (next_client s) (sys_hub s)" and k: "consumer_ok s ch'" and o': "in_order s c' ch'"
    and cl: "client_ok s c'" for ch' c' by (simp_all add: ws_inv_def)
  have "hub_ok (next_client s) ((sys_hub s)\<lparr>channel := (channel (sys_hub s))(ch := ms)\<rparr>)"
    using hub msgs by (intro channel_ok hub) (auto simp: hub_ok_def, metis Suc_leD length_Cons)
  moreover have "consumer_ok ?s ch'" for ch'
    using k [of ch'] by (cases "ch' = ch") (auto simp: consumer_ok_def Let_def)
  moreover have "in_order ?s c' ch'" for c' ch'
    using o' [of c' ch'] at by (cases "ch' = ch") (auto simp: in_order_def got_def)
  moreover have "client_ok ?s c'" for c'
    using cl [of c'] by (simp add: client_ok_def)
  ultimately show ?thesis by (simp add: ws_inv_def)
qed

lemma pump_inv:
  assumes inv: "ws_inv s" and pump: "writePump c (sys_hub s) = (WriteText d, h)"
  shows "ws_inv (s\<lparr>sys_hub := h, written := (written s)(c := written s c @ [d])\<rparr>)" (is "ws_inv ?s")
proof -
  let ?o = "client_obj (sys_hub s) c"
  from pump obtain q where q: "cl_send ?o = d # q" and h: "h = set_obj c (?o\<lparr>cl_send := q\<rparr>) (sys_hub s)"
    by (auto simp: writePump_def split: list.splits if_splits)
  from inv have hub: "hub_ok (next_client s) (sys_hub s)" and k: "consumer_ok s ch'" and o': "in_order s c' ch'"
    and cl: "client_ok s c'" for ch' c' by (simp_all add: ws_inv_def)
  have wf: "cl_workflow (client_obj h c') = cl_workflow (client_obj (sys_hub s) c')" for c'
    by (simp add: h hub_simps)
  have "hub_ok (next_client s) h"
    unfolding h using hub q by (intro set_send_ok hub) (auto simp: hub_ok_def)
  moreover have "consumer_ok ?s ch'" for ch'
    using k [of ch'] by (auto simp: consumer_ok_def Let_def wf)
  moreover have "in_order ?s c' ch'" for c' ch'
    by (rule in_order_mono [of s]) (use o' in \<open>auto simp: got_def\<close>)
  moreover have "client_ok ?s c'" for c'
    using cl [of c'] q by (auto simp: client_ok_def wf) (auto simp: h hub_simps)
  ultimately show ?thesis by (simp add: ws_inv_def)
qed

lemma copy_targets_fresh:
  assumes "hub_ok n h"
  shows "distinct (copy_targets ch m h)"
    and "c \<in> set (copy_targets ch m h) \<Longrightarrow> c < n \<and> (ch = ChWorkflow \<longrightarrow> cl_workflow (client_obj h c) = rm_workflow m)"
  using assms by (cases ch; auto simp: copy_targets_def hub_ok_def index_exact_def split: if_splits)+

lemma panic_inv: "ws_inv (s\<lparr>sys_panic := True\<rparr>) = ws_inv s"
  by (simp add: ws_inv_def consumer_ok_def in_order_def client_ok_def got_def)

lemma ws_step_inv:
  assumes "ws_step wsCfg s s'" and "ws_inv s"
  shows "ws_inv s'"
  using assms
proof (induction rule: ws_step.induct)
  case (serve s w)
  then show ?case
    using ServeWS_ok [of "next_client s" "sys_hub s" wsCfg w]
    by (intro hub_change_inv [of s "next_client s + 1"]) (auto simp: ws_inv_def hub_simps client_ok_def)
next
  case (leave s c)
  then show ?case
    unfolding unregister_is_drop by (intro hub_change_inv') (auto simp: ws_inv_def hub_simps drop_client_ok)
next
  case (post s ch w msg)
  then show ?case by (intro hub_change_inv') (auto simp: ws_inv_def hub_simps broadcast_ok)
next
  case (post_ctx s w msg expired prefer_send h)
  then show ?case using broadcast_objects(2) [OF post_ctx(2)] broadcast_ok(2) [OF _ post_ctx(2)]
    by (intro hub_change_inv') (auto simp: ws_inv_def)
next
  case (take s ch m ms)
  then show ?case by (intro take_inv)
next
  case (copy s ch m)
  then show ?case using copy_targets_fresh [of "next_client s" "sys_hub s"]
    by (intro consumer_change_inv) (auto simp: ws_inv_def)
next
  case (send s ch m c cs h)
  then show ?case by (intro send_inv)
next
  case (full s ch m c cs h)
  then have h: "h = sys_hub s" using try_send_cases(2) [OF full(3)] by simp
  have "consumer_ok s ch" using full by (simp add: ws_inv_def)
  then have "ws_inv (s\<lparr>consumer_at := (consumer_at s)(ch := CDrop m c cs)\<rparr>)"
    using full by (intro consumer_change_inv) (auto simp: consumer_ok_def)
  then show ?case by (simp add: h)
next
  case (panic s ch m c cs h)
  then show ?case by (simp add: panic_inv)
next
  case (drop s ch m c cs)
  have "consumer_ok s ch" using drop by (simp add: ws_inv_def)
  then have "ws_inv (s\<lparr>consumer_at := (consumer_at s)(ch := CSend m cs)\<rparr>)"
    using drop by (intro consumer_change_inv) (auto simp: consumer_ok_def)
  then have "ws_inv ((s\<lparr>consumer_at := (consumer_at s)(ch := CSend m cs)\<rparr>)\<lparr>sys_hub := drop_client c (sys_hub s)\<rparr>)"
    by (intro hub_change_inv') (auto simp: ws_inv_def hub_simps drop_client_ok)
  moreover have "s\<lparr>consumer_at := k, sys_hub := h\<rparr> = s\<lparr>sys_hub := h, consumer_at := k\<rparr>" for k h by simp
  ultimately show ?case by simp
next
  case (finish s ch m)
  then show ?case by (intro consumer_change_inv) auto
next
  case (pump s c d h)
  then show ?case by (intro pump_inv)
qed

lemma ws_init_inv: "ws_inv (ws_init wsCfg)"
  by (auto simp: ws_inv_def ws_init_def NewWSEvent_def hub_ok_def index_exact_def subscribers_def consumer_ok_def
      in_order_def got_def client_ok_def defaultBroadcastBuffer_def)

lemma ws_reach_inv: "ws_reach wsCfg s \<Longrightarrow> ws_inv s"
  by (induction rule: ws_reach.induct) (auto intro: ws_init_inv ws_step_inv)

subsection \<open>One broadcast without interference\<close>

definition has_space :: "ws_hub \<Rightarrow> nat \<Rightarrow> bool" where
  "has_space h c \<longleftrightarrow> length (cl_send (client_obj h c)) < cl_cap (client_obj h c)"

lemma sendToClient_open:
  assumes ok: "hub_ok n h" and c: "c \<in> set (hub_clients h)"
  shows "sendToClient c d h =
     Some (if has_space h c then set_obj c ((client_obj h c)\<lparr>cl_send := cl_send (client_obj h c) @ [d]\<rparr>) h else drop_client c h)"
proof -
  have "\<not> cl_closed (client_obj h c)" using ok c by (simp add: hub_ok_def)
  then show ?thesis by (simp add: sendToClient_def try_send_def has_space_def Let_def)
qed

lemma send_list_effect:
  assumes "hub_ok n h" and "distinct cs" and "set cs \<subseteq> set (hub_clients h)"
  shows "\<exists>h'. send_list cs d h = Some h' \<and> hub_ok n h'
     \<and> hub_clients h' = filter (\<lambda>c. c \<in> set cs \<longrightarrow> has_space h c) (hub_clients h)
     \<and> (\<forall>c. cl_send (client_obj h' c) = cl_send (client_obj h c) @ (if c \<in> set cs \<and> has_space h c then [d] else []))
     \<and> (\<forall>c. cl_closed (client_obj h' c) = (cl_closed (client_obj h c) \<or> c \<in> set cs \<and> \<not> has_space h c))"
  using assms
proof (induction cs arbitrary: h)
  case (Cons c cs)
  let ?sent = "set_obj c ((client_obj h c)\<lparr>cl_send := cl_send (client_obj h c) @ [d]\<rparr>) h"
  define h1 where "h1 = (if has_space h c then ?sent else drop_client c h)"
  have c: "c \<in> set (hub_clients h)" "c \<notin> set cs" "distinct cs" "set cs \<subseteq> set (hub_clients h)" using Cons.prems by auto
  have step: "sendToClient c d h = Some h1"
    unfolding h1_def by (rule sendToClient_open [OF Cons.prems(1) c(1)])
  have ok1: "hub_ok n h1"
    using set_send_ok [OF Cons.prems(1), of c "cl_send (client_obj h c) @ [d]"] drop_client_ok [OF Cons.prems(1), of c]
    by (auto simp: h1_def has_space_def)
  have clients1: "hub_clients h1 = filter (\<lambda>c'. c' = c \<longrightarrow> has_space h c) (hub_clients h)"
    using c(1) by (auto simp: h1_def hub_simps drop_client_def closeSend_def removeAll_filter_not_eq intro!: filter_cong)
  have send1: "cl_send (client_obj h1 c') = cl_send (client_obj h c') @ (if c' = c \<and> has_space h c then [d] else [])" for c'
    by (simp add: h1_def hub_simps)
  have closed1: "cl_closed (client_obj h1 c') = (cl_closed (client_obj h c') \<or> c' = c \<and> \<not> has_space h c)" for c'
    using c(1) by (simp add: h1_def hub_simps drop_client_def closeSend_def)
  have space1: "has_space h1 c' = has_space h c'" if "c' \<noteq> c" for c'
    using that by (simp add: h1_def has_space_def hub_simps drop_client_def closeSend_def)
  have sub1: "set cs \<subseteq> set (hub_clients h1)" using c by (auto simp: clients1)
  from Cons.IH [OF ok1 c(3) sub1] obtain h' where h': "send_list cs d h1 = Some h'" "hub_ok n h'"
    "hub_clients h' = filter (\<lambda>c. c \<in> set cs \<longrightarrow> has_space h1 c) (hub_clients h1)"
    "\<And>c. cl_send (client_obj h' c) = cl_send (client_obj h1 c) @ (if c \<in> set cs \<and> has_space h1 c then [d] else [])"
    "\<And>c. cl_closed (client_obj h' c) = (cl_closed (client_obj h1 c) \<or> c \<in> set cs \<and> \<not> has_space h1 c)" by blast
  have "hub_clients h' = filter (\<lambda>c'. c' \<in> set (c # cs) \<longrightarrow> has_space h c') (hub_clients h)"
  proof -
    have "(c' \<in> set cs \<longrightarrow> has_space h1 c') \<and> (c' = c \<longrightarrow> has_space h c) \<longleftrightarrow> (c' \<in> set (c # cs) \<longrightarrow> has_space h c')" for c'
      using c(2) space1 [of c'] by (cases "c' = c") auto
    then show ?thesis unfolding h'(3) clients1 filter_filter by (intro filter_cong) auto
  qed
  moreover have "cl_send (client_obj h' c') = cl_send (client_obj h c') @ (if c' \<in> set (c # cs) \<and> has_space h c' then [d] else [])" for c'
    using c(2) space1 [of c'] by (cases "c' = c") (simp_all add: h'(4) send1)
  moreover have "cl_closed (client_obj h' c') = (cl_closed (client_obj h c') \<or> c' \<in> set (c # cs) \<and> \<not> has_space h c')" for c'
    using c(2) space1 [of c'] by (cases "c' = c") (simp_all add: h'(5) closed1)
  ultimately show ?case using step h'(1,2) by auto
qed simp

text \<open>The client a workflow page opens also gets every global message.\<close>

lemma subscribed_client_gets_global:
  assumes "hub_ok n h" and "c \<in> set (hub_clients h)" and "cl_workflow (client_obj h c) = ''w''" and "has_space h c"
  shows "\<exists>h'. sendToAllLocked d h = Some h' \<and> cl_send (client_obj h' c) = cl_send (client_obj h c) @ [d]"
proof -
  have "distinct (hub_clients h)" using assms(1) by (simp add: hub_ok_def)
  from send_list_effect [OF assms(1) this order.refl, of d] assms(2,4) show ?thesis
    by (auto simp: sendToAllLocked_def)
qed

text \<open>A workflow broadcast that nothing interrupts reaches exactly the clients of that workflow:
  in a hub whose registry and index agree, every client subscribed to the workflow whose channel
  has room gets the message at the end of its channel, every one whose channel is full is removed
  and its channel closed, nobody else is affected, nothing panics, and registry and index agree
  afterwards.\<close>

theorem workflow_broadcast_effect:
  assumes "hub_ok n h" and "w \<noteq> ''''"
  shows "\<exists>h'. sendToWorkflowLocked w d h = Some h' \<and> hub_ok n h'
     \<and> (\<forall>c. c \<in> set (hub_clients h') \<longleftrightarrow> c \<in> set (hub_clients h) \<and> (cl_workflow (client_obj h c) = w \<longrightarrow> has_space h c))
     \<and> (\<forall>c \<in> set (hub_clients h'). cl_send (client_obj h' c)
           = cl_send (client_obj h c) @ (if cl_workflow (client_obj h c) = w then [d] else []))
     \<and> (\<forall>c \<in> set (hub_clients h). cl_closed (client_obj h' c) \<longleftrightarrow> c \<notin> set (hub_clients h'))"
proof -
  have subs: "distinct (subscribers w h)"
    "set (subscribers w h) = {c \<in> set (hub_clients h). cl_workflow (client_obj h c) = w}"
    using assms by (simp_all add: hub_ok_def index_exact_def)
  then have "set (subscribers w h) \<subseteq> set (hub_clients h)" by auto
  from send_list_effect [OF assms(1) subs(1) this, of d] obtain h' where h': "send_list (subscribers w h) d h = Some h'" "hub_ok n h'"
    "hub_clients h' = filter (\<lambda>c. c \<in> set (subscribers w h) \<longrightarrow> has_space h c) (hub_clients h)"
    "\<And>c. cl_send (client_obj h' c) = cl_send (client_obj h c) @ (if c \<in> set (subscribers w h) \<and> has_space h c then [d] else [])"
    "\<And>c. cl_closed (client_obj h' c) = (cl_closed (client_obj h c) \<or> c \<in> set (subscribers w h) \<and> \<not> has_space h c)" by blast
  have open_before: "\<not> cl_closed (client_obj h c)" if "c \<in> set (hub_clients h)" for c
    using assms(1) that by (simp add: hub_ok_def)
  show ?thesis
    by (rule exI [of _ h']) (use h' subs(2) open_before in \<open>auto simp: sendToWorkflowLocked_def\<close>)
qed

definition demo_hub :: ws_hub where
  "demo_hub = ServeWS (ms_WS (cfg_Master DefaultConfig)) 1 '''' (ServeWS (ms_WS (cfg_Master DefaultConfig)) 0 ''w''
     (NewWSEvent (ms_WS (cfg_Master DefaultConfig))))"

lemma NewWSEvent_ok: "hub_ok 0 (NewWSEvent wsCfg)"
  using ws_init_inv [of wsCfg] by (simp add: ws_inv_def ws_init_def)

theorem workflow_broadcast_effect_witness:
  "\<exists>h'. sendToWorkflowLocked ''w'' ''x'' demo_hub = Some h' \<and> hub_ok 2 h'
     \<and> cl_send (client_obj h' 0) = [''x''] \<and> cl_send (client_obj h' 1) = [] \<and> 0 \<in> set (hub_clients h')"
proof -
  have ok: "hub_ok 2 demo_hub"
    unfolding demo_hub_def using ServeWS_ok [OF ServeWS_ok [OF NewWSEvent_ok]] by (simp add: numeral_2_eq_2)
  have c: "hub_clients demo_hub = [1, 0]" "cl_workflow (client_obj demo_hub 0) = ''w''" "cl_workflow (client_obj demo_hub 1) = ''''"
    "cl_send (client_obj demo_hub 0) = []" "cl_send (client_obj demo_hub 1) = []" "has_space demo_hub 0"
    by (simp_all add: demo_hub_def hub_simps NewWSEvent_def has_space_def DefaultConfig_def List.insert_def)
  from workflow_broadcast_effect [OF ok, of "''w''" "''x''"] c show ?thesis by auto
qed


subsection \<open>What clients receive\<close>


text \<open>A run: a browser connects, a message is posted, taken and its targets copied; the browser
  leaves; the consumer sends.\<close>

definition demo_ws :: ws_config where
  "demo_ws = ms_WS (cfg_Master DefaultConfig)"

lemma before_the_race:
  "\<exists>s. ws_reach wsCfg s \<and> \<not> sys_panic s \<and> next_client s = 1 \<and> 0 \<in> set (hub_clients (sys_hub s))
     \<and> consumer_at s ChGlobal = CSend \<lparr>rm_data = ''x'', rm_workflow = ''''\<rparr> [0]
     \<and> consumed s ChGlobal = [\<lparr>rm_data = ''x'', rm_workflow = ''''\<rparr>]"
proof -
  let ?m = "\<lparr>rm_data = ''x'', rm_workflow = ''''\<rparr>"
  define s1 where "s1 = (ws_init wsCfg)\<lparr>sys_hub := ServeWS wsCfg 0 '''' (NewWSEvent wsCfg), next_client := 1\<rparr>"
  have r1: "ws_reach wsCfg s1"
    using next_step [OF start ws_step.serve, of wsCfg "''''"] by (simp add: s1_def ws_init_def)
  have s1: "\<not> sys_panic s1" "consumer_at s1 ChGlobal = CIdle" "consumed s1 ChGlobal = []" "next_client s1 = 1"
    "channel (sys_hub s1) ChGlobal = []" "hub_clients (sys_hub s1) = [0]" "has_room ChGlobal (sys_hub s1)"
    by (simp_all add: s1_def ws_init_def hub_simps NewWSEvent_def has_room_def defaultBroadcastBuffer_def)
  define s2 where "s2 = s1\<lparr>sys_hub := broadcastToChannel ChGlobal (Some ''x'') '''' (sys_hub s1)\<rparr>"
  have r2: "ws_reach wsCfg s2" unfolding s2_def by (rule next_step [OF r1 ws_step.post]) (use s1 in simp_all)
  have s2: "\<not> sys_panic s2" "consumer_at s2 ChGlobal = CIdle" "consumed s2 ChGlobal = []" "next_client s2 = 1"
    "channel (sys_hub s2) ChGlobal = [?m]" "hub_clients (sys_hub s2) = [0]"
    using s1 by (simp_all add: s2_def broadcastToChannel_def push_message_def)
  define s3 where "s3 = s2\<lparr>sys_hub := (sys_hub s2)\<lparr>channel := (channel (sys_hub s2))(ChGlobal := [])\<rparr>,
     consumer_at := (consumer_at s2)(ChGlobal := CTaken ?m), consumed := (consumed s2)(ChGlobal := consumed s2 ChGlobal @ [?m])\<rparr>"
  have r3: "ws_reach wsCfg s3" unfolding s3_def by (rule next_step [OF r2 ws_step.take]) (use s2 in simp_all)
  have s3: "\<not> sys_panic s3" "consumer_at s3 ChGlobal = CTaken ?m" "consumed s3 ChGlobal = [?m]" "next_client s3 = 1"
    "hub_clients (sys_hub s3) = [0]"
    using s2 by (simp_all add: s3_def)
  let ?s4 = "s3\<lparr>consumer_at := (consumer_at s3)(ChGlobal := CSend ?m (copy_targets ChGlobal ?m (sys_hub s3)))\<rparr>"
  have "ws_reach wsCfg ?s4"
    by (rule next_step [OF r3 ws_step.copy]) (use s3 in simp_all)
  with s3 show ?thesis by (intro exI [of _ ?s4]) (simp add: copy_targets_def)
qed


text \<open>C30. The master can crash when a browser disconnects. The hub's goroutines can reach a send on a
  closed channel, which panics, from the start and under every configuration; and that is only ever
  possible for a client that was removed between the moment a consumer copied the targets under the
  lock and its send without the lock.\<close>

theorem ws_send_on_closed:
  "(\<exists>s. ws_reach wsCfg s \<and> sys_panic s)
   \<and> \<not> (\<exists>s s'. ws_reach wsCfg s \<and> ws_step wsCfg s s' \<and> sys_panic s'
        \<and> \<not> (\<exists>ch m c cs. consumer_at s ch = CSend m (c # cs) \<and> c \<notin> set (hub_clients (sys_hub s))))"
proof
  from before_the_race [of wsCfg] obtain s m where s: "ws_reach wsCfg s" "\<not> sys_panic s" "next_client s = 1"
    "0 \<in> set (hub_clients (sys_hub s))" "consumer_at s ChGlobal = CSend m [0]" by blast
  let ?s = "s\<lparr>sys_hub := unregister_client 0 (sys_hub s)\<rparr>"
  have "ws_reach wsCfg ?s" by (rule next_step [OF s(1) ws_step.leave]) (use s in simp_all)
  moreover have "try_send 0 (rm_data m) (sys_hub ?s) = (SendPanic, sys_hub ?s)"
    using s(4) by (simp add: unregister_client_def closeSend_def try_send_def hub_simps)
  ultimately have "ws_reach wsCfg (?s\<lparr>sys_panic := True\<rparr>)"
    by (intro next_step [OF _ ws_step.panic]) (use s in auto)
  then show "\<exists>s. ws_reach wsCfg s \<and> sys_panic s" by fastforce
  show "\<not> (\<exists>s s'. ws_reach wsCfg s \<and> ws_step wsCfg s s' \<and> sys_panic s'
      \<and> \<not> (\<exists>ch m c cs. consumer_at s ch = CSend m (c # cs) \<and> c \<notin> set (hub_clients (sys_hub s))))"
  proof safe
    fix s s' assume r: "ws_reach wsCfg s" and st: "ws_step wsCfg s s'" and p: "sys_panic s'"
      and no: "\<nexists>ch m c cs. consumer_at s ch = CSend m (c # cs) \<and> c \<notin> set (hub_clients (sys_hub s))"
    from ws_reach_inv [OF r] have ok: "hub_ok (next_client s) (sys_hub s)" by (simp add: ws_inv_def)
    from st p show False
    proof (cases rule: ws_step.cases)
      case (panic ch m c cs h)
      then have "cl_closed (client_obj (sys_hub s) c)" using try_send_cases(3) [OF panic(4)] by simp
      with no panic(3) ok show False by (auto simp: hub_ok_def)
    qed simp_all
  qed
qed

end
