(* ===== verification/History_Store.thy ===== *)
theory History_Store
  imports Task_Payload
begin

text \<open>
  \<^verbatim>\<open>infra/store/mysql/history.go\<close>: the history of workflows in MySQL. GORM and the database are
  third-party code, so the calls they answer are the fields of a record \<open>gorm\<close> that every operation
  takes, and the locale \<open>history_db\<close> states what is documented of them, relative to the tables
  behind the connection: a statement that reports an error may have been executed, a transaction
  that is rolled back leaves nothing, a unique index admits no second row. Statements of other
  connections do not come in between.

  JSON (\<^verbatim>\<open>encoding/json\<close>) is modelled where the code depends on its shape, for the recorded deltas: a
  text is the value it denotes, or not JSON at all. How a map of parameters is encoded is an
  argument.
\<close>

subsection \<open>JSON texts\<close>

datatype json = JNull | JBool bool | JNum string | JStr string | JArr "json list" | JObj "(string \<times> json) list"

datatype json_text = JsonText json | NotJson string

text \<open>A Go slice that may be nil; \<^verbatim>\<open>append\<close> of nothing leaves it as it is.\<close>

type_synonym 'a slice = "'a list option"

definition slice_list :: "'a slice \<Rightarrow> 'a list" where
  "slice_list xs = (case xs of None \<Rightarrow> [] | Some ys \<Rightarrow> ys)"

definition slice_append :: "'a slice \<Rightarrow> 'a list \<Rightarrow> 'a slice" where
  "slice_append xs ys = (if ys = [] then xs else Some (slice_list xs @ ys))"

lemma slice_simps [simp]:
  "slice_list None = []" "slice_list (Some ys) = ys" "slice_list (slice_append xs ys) = slice_list xs @ ys"
  by (simp_all add: slice_list_def slice_append_def)

text \<open>\<^verbatim>\<open>json.Unmarshal\<close> into a nil \<^verbatim>\<open>[]json.RawMessage\<close>: \<open>None\<close> is the error, \<^verbatim>\<open>null\<close> leaves the slice nil.
  \<^verbatim>\<open>json.Marshal\<close> of such a slice fails on an element that is not JSON.\<close>

definition raw_array :: "json_text \<Rightarrow> json_text slice option" where
  "raw_array t =
     (case t of
        JsonText (JArr vs) \<Rightarrow> Some (Some (map JsonText vs))
      | JsonText JNull \<Rightarrow> Some None
      | _ \<Rightarrow> None)"

fun text_value :: "json_text \<Rightarrow> json option" where
  "text_value (JsonText v) = Some v"
| "text_value (NotJson s) = None"

definition marshal_raws :: "json_text slice \<Rightarrow> json_text option" where
  "marshal_raws rs =
     (case rs of
        None \<Rightarrow> Some (JsonText JNull)
      | Some ts \<Rightarrow> map_option (\<lambda>vs. JsonText (JArr vs)) (those (map text_value ts)))"


subsection \<open>Tables\<close>

text \<open>The models; time stamps that GORM fills in by itself are left out.\<close>

record VibeflowWorkflow =
  wr_ID :: nat
  wr_UUID :: uuid
  wr_Name :: string
  wr_Status :: string
  wr_Trigger :: string
  wr_CronExpr :: string
  wr_TimeoutSec :: int
  wr_TaskTimeoutSec :: int
  wr_MaxRetries :: int
  wr_BaseBackoff :: int

record VibeflowWorkflowTask =
  wt_ID :: nat
  wt_WorkflowID :: nat
  wt_Name :: string
  wt_Params :: json_text
  wt_SortOrder :: nat

record VibeflowExecution =
  ex_ID :: nat
  ex_WorkflowID :: nat
  ex_Data :: json_text
  ex_Status :: string
  ex_Error :: string
  ex_StartedAt :: go_time

record VibeflowExecutionTask =
  xt_ID :: nat
  xt_ExecutionID :: nat
  xt_WorkflowID :: nat
  xt_WorkflowTaskID :: nat
  xt_TaskName :: string
  xt_Status :: string
  xt_Params :: json_text
  xt_Output :: json_text
  xt_Error :: string
  xt_RetryCount :: int
  xt_MaxRetries :: int

record VibeflowTaskDelta =
  dl_ID :: nat
  dl_ExecutionID :: nat
  dl_Data :: json_text

text \<open>The tables in the order of their primary keys.\<close>

record tables =
  t_workflows :: "VibeflowWorkflow list"
  t_tasks :: "VibeflowWorkflowTask list"
  t_executions :: "VibeflowExecution list"
  t_exec_tasks :: "VibeflowExecutionTask list"
  t_deltas :: "VibeflowTaskDelta list"

record TaskDef =
  tdef_Name :: string
  tdef_Params :: "vars option"

text \<open>The arguments of \<^verbatim>\<open>SaveWorkflowDef\<close>, and a loaded definition.\<close>

record def_args =
  da_UUID :: uuid
  da_Name :: string
  da_Tasks :: "TaskDef list"
  da_TimeoutSec :: int
  da_TaskTimeoutSec :: int
  da_MaxRetries :: int
  da_BaseBackoff :: int
  da_Trigger :: string
  da_CronExpr :: string

record WorkflowDefRecord =
  dr_ID :: nat
  dr_Name :: string
  dr_Tasks :: "TaskDef list"
  dr_TimeoutSec :: int
  dr_TaskTimeoutSec :: int
  dr_MaxRetries :: int
  dr_BaseBackoff :: int
  dr_Trigger :: string
  dr_CronExpr :: string

record ExecutionRecord =
  er_ExecutionID :: nat
  er_UUID :: uuid
  er_Name :: string
  er_Data :: json_text


subsection \<open>What the code asks of the database\<close>

text \<open>A created row gets its key from the database; the key it carries here is ignored.\<close>

datatype statement =
    CreateWorkflow VibeflowWorkflow
  | CreateTask VibeflowWorkflowTask
  | CreateExecutionRow VibeflowExecution
  | CreateExecutionTask VibeflowExecutionTask
  | CreateDelta VibeflowTaskDelta
  | UpdateDefinition nat def_args
  | SetStatus nat string
  | SetExecution nat json_text string string
  | DeleteTasks nat

record 'db gorm =
  g_Exec :: "statement \<Rightarrow> 'db \<Rightarrow> nat option \<times> 'db"      \<comment> \<open>the key of a created row, or an error\<close>
  g_Begin :: "'db \<Rightarrow> 'db"                              \<comment> \<open>the tables as the transaction sees them\<close>
  g_Commit :: "'db \<Rightarrow> 'db \<Rightarrow> bool \<times> 'db"               \<comment> \<open>outside, transaction\<close>
  g_Rollback :: "'db \<Rightarrow> 'db \<Rightarrow> 'db"
  g_FirstByUUID :: "uuid \<Rightarrow> 'db \<Rightarrow> VibeflowWorkflow option option"   \<comment> \<open>an error, not found, or the row\<close>
  g_ByStatus :: "string \<Rightarrow> 'db \<Rightarrow> VibeflowWorkflow list option"
  g_AllTasks :: "'db \<Rightarrow> VibeflowWorkflowTask list option"
  g_TasksIn :: "nat list \<Rightarrow> 'db \<Rightarrow> VibeflowWorkflowTask list option"
  g_TaskID :: "nat \<Rightarrow> string \<Rightarrow> 'db \<Rightarrow> nat option"
  g_CountExecutions :: "'db \<Rightarrow> int option"
  g_Executions :: "int \<Rightarrow> int \<Rightarrow> 'db \<Rightarrow> (VibeflowExecution \<times> VibeflowWorkflow option) list option"
  g_LatestExecution :: "uuid \<Rightarrow> 'db \<Rightarrow> (VibeflowExecution \<times> VibeflowWorkflow option) option option"
  g_ExecutionsByStatus :: "string \<Rightarrow> 'db \<Rightarrow> (VibeflowExecution \<times> VibeflowWorkflow option) list option"
  g_Deltas :: "nat \<Rightarrow> 'db \<Rightarrow> VibeflowTaskDelta list option"
  g_DeltasIn :: "nat list \<Rightarrow> 'db \<Rightarrow> VibeflowTaskDelta list option"

text \<open>The store: the connection and the cache of task identifiers.\<close>

record 'db history_store =
  hs_db :: 'db
  taskIDCache :: "string \<rightharpoonup> nat"

definition WorkflowStatusPENDING :: string where "WorkflowStatusPENDING = ''PENDING''"

definition WorkflowStatusRUNNING :: string where "WorkflowStatusRUNNING = ''RUNNING''"

definition taskIDCacheKey :: "nat \<Rightarrow> string \<Rightarrow> string" where
  "taskIDCacheKey workflowID taskName = nat_digits workflowID @ '':'' @ taskName"

definition buildTaskIDCache :: "'db gorm \<Rightarrow> 'db \<Rightarrow> (string \<rightharpoonup> nat) option" where
  "buildTaskIDCache g d =
     (case g_AllTasks g d of
        None \<Rightarrow> None
      | Some tasks \<Rightarrow>
          Some (fold (\<lambda>t cache. cache(taskIDCacheKey (wt_WorkflowID t) (wt_Name t) \<mapsto> wt_ID t)) tasks Map.empty))"

text \<open>\<open>migrated\<close>: whether \<^verbatim>\<open>AutoMigrate\<close> succeeded.\<close>

definition NewHistoryStore :: "'db gorm \<Rightarrow> bool \<Rightarrow> 'db \<Rightarrow> 'db history_store option" where
  "NewHistoryStore g migrated d =
     (if \<not> migrated then None
      else case buildTaskIDCache g d of None \<Rightarrow> None | Some cache \<Rightarrow> Some \<lparr>hs_db = d, taskIDCache = cache\<rparr>)"


subsection \<open>Workflow definitions\<close>

text \<open>The loop over the tasks inside a transaction: whether it went through, the transaction, the cache.
  \<open>marshal\<close> is \<^verbatim>\<open>json.Marshal\<close> of the parameters.\<close>

fun create_tasks ::
  "'db gorm \<Rightarrow> (vars option \<Rightarrow> json_text option) \<Rightarrow> nat \<Rightarrow> nat \<Rightarrow> TaskDef list \<Rightarrow> 'db \<Rightarrow> (string \<rightharpoonup> nat)
     \<Rightarrow> bool \<times> 'db \<times> (string \<rightharpoonup> nat)" where
  "create_tasks g marshal wid i [] tx cache = (True, tx, cache)"
| "create_tasks g marshal wid i (t # ts) tx cache =
     (case marshal (tdef_Params t) of
        None \<Rightarrow> (False, tx, cache)
      | Some params \<Rightarrow>
          (case g_Exec g (CreateTask \<lparr>wt_ID = 0, wt_WorkflowID = wid, wt_Name = tdef_Name t, wt_Params = params, wt_SortOrder = i\<rparr>) tx of
             (None, tx) \<Rightarrow> (False, tx, cache)
           | (Some tid, tx) \<Rightarrow> create_tasks g marshal wid (i + 1) ts tx (cache(taskIDCacheKey wid (tdef_Name t) \<mapsto> tid))))"

definition definition_row :: "def_args \<Rightarrow> VibeflowWorkflow" where
  "definition_row a =
     \<lparr>wr_ID = 0, wr_UUID = da_UUID a, wr_Name = da_Name a, wr_Status = WorkflowStatusPENDING, wr_Trigger = da_Trigger a,
      wr_CronExpr = da_CronExpr a, wr_TimeoutSec = da_TimeoutSec a, wr_TaskTimeoutSec = da_TaskTimeoutSec a,
      wr_MaxRetries = da_MaxRetries a, wr_BaseBackoff = da_BaseBackoff a\<rparr>"

text \<open>The end of both operations: roll back, or commit.\<close>

definition end_transaction ::
  "'db gorm \<Rightarrow> nat \<Rightarrow> bool \<times> 'db \<times> (string \<rightharpoonup> nat) \<Rightarrow> 'db history_store \<Rightarrow> nat option \<times> 'db history_store" where
  "end_transaction g wid = (\<lambda>(ok, tx, cache) s.
     if \<not> ok then (None, \<lparr>hs_db = g_Rollback g (hs_db s) tx, taskIDCache = cache\<rparr>)
     else case g_Commit g (hs_db s) tx of
            (False, d) \<Rightarrow> (None, \<lparr>hs_db = d, taskIDCache = cache\<rparr>)
          | (True, d) \<Rightarrow> (Some wid, \<lparr>hs_db = d, taskIDCache = cache\<rparr>))"

definition SaveWorkflowDef ::
  "'db gorm \<Rightarrow> (vars option \<Rightarrow> json_text option) \<Rightarrow> def_args \<Rightarrow> 'db history_store \<Rightarrow> nat option \<times> 'db history_store" where
  "SaveWorkflowDef g marshal a s =
     (case g_Exec g (CreateWorkflow (definition_row a)) (g_Begin g (hs_db s)) of
        (None, tx) \<Rightarrow> (None, s\<lparr>hs_db := g_Rollback g (hs_db s) tx\<rparr>)
      | (Some wid, tx) \<Rightarrow> end_transaction g wid (create_tasks g marshal wid 0 (da_Tasks a) tx (taskIDCache s)) s)"

definition UpsertWorkflowDef ::
  "'db gorm \<Rightarrow> (vars option \<Rightarrow> json_text option) \<Rightarrow> def_args \<Rightarrow> 'db history_store \<Rightarrow> nat option \<times> 'db history_store" where
  "UpsertWorkflowDef g marshal a s =
     (case g_FirstByUUID g (da_UUID a) (hs_db s) of
        None \<Rightarrow> (None, s)
      | Some None \<Rightarrow> SaveWorkflowDef g marshal a s
      | Some (Some existing) \<Rightarrow>
          (case g_Exec g (UpdateDefinition (wr_ID existing) a) (g_Begin g (hs_db s)) of
             (None, tx) \<Rightarrow> (None, s\<lparr>hs_db := g_Rollback g (hs_db s) tx\<rparr>)
           | (Some _, tx) \<Rightarrow>
               (case g_Exec g (DeleteTasks (wr_ID existing)) tx of
                  (None, tx) \<Rightarrow> (None, s\<lparr>hs_db := g_Rollback g (hs_db s) tx\<rparr>)
                | (Some _, tx) \<Rightarrow>
                    end_transaction g (wr_ID existing)
                      (create_tasks g marshal (wr_ID existing) 0 (da_Tasks a) tx (taskIDCache s)) s)))"

text \<open>\<open>unmarshal\<close> decodes a task's parameters; an empty column is not decoded.\<close>

fun load_tasks :: "(json_text \<Rightarrow> vars option option) \<Rightarrow> VibeflowWorkflowTask list \<Rightarrow> TaskDef list option" where
  "load_tasks unmarshal [] = Some []"
| "load_tasks unmarshal (t # ts) =
     (case (if wt_Params t = NotJson '''' then Some None else unmarshal (wt_Params t)) of
        None \<Rightarrow> None
      | Some params \<Rightarrow> map_option (\<lambda>ds. \<lparr>tdef_Name = wt_Name t, tdef_Params = params\<rparr> # ds) (load_tasks unmarshal ts))"

definition LoadWorkflowDefs ::
  "'db gorm \<Rightarrow> (json_text \<Rightarrow> vars option option) \<Rightarrow> 'db \<Rightarrow> WorkflowDefRecord list option" where
  "LoadWorkflowDefs g unmarshal d =
     (case g_ByStatus g WorkflowStatusPENDING d of
        None \<Rightarrow> None
      | Some [] \<Rightarrow> Some []
      | Some wfs \<Rightarrow>
          (case g_TasksIn g (map wr_ID wfs) d of
             None \<Rightarrow> None
           | Some allTasks \<Rightarrow>
               those (map (\<lambda>wf. map_option
                   (\<lambda>ts. \<lparr>dr_ID = wr_ID wf, dr_Name = wr_Name wf, dr_Tasks = ts, dr_TimeoutSec = wr_TimeoutSec wf,
                          dr_TaskTimeoutSec = wr_TaskTimeoutSec wf, dr_MaxRetries = wr_MaxRetries wf,
                          dr_BaseBackoff = wr_BaseBackoff wf, dr_Trigger = wr_Trigger wf, dr_CronExpr = wr_CronExpr wf\<rparr>)
                   (load_tasks unmarshal (filter (\<lambda>t. wt_WorkflowID t = wr_ID wf) allTasks))) wfs)))"


subsection \<open>Executions\<close>

definition CreateExecution ::
  "'db gorm \<Rightarrow> nat \<Rightarrow> json_text \<Rightarrow> string \<Rightarrow> go_time \<Rightarrow> string \<Rightarrow> 'db \<Rightarrow> nat option \<times> 'db" where
  "CreateExecution g workflowID data status startedAt errMsg d =
     g_Exec g (CreateExecutionRow \<lparr>ex_ID = 0, ex_WorkflowID = workflowID, ex_Data = data, ex_Status = status,
       ex_Error = errMsg, ex_StartedAt = startedAt\<rparr>) d"

definition UpdateWorkflowStatus :: "'db gorm \<Rightarrow> nat \<Rightarrow> string \<Rightarrow> 'db \<Rightarrow> bool \<times> 'db" where
  "UpdateWorkflowStatus g workflowID status d =
     (case g_Exec g (SetStatus workflowID status) d of (r, d) \<Rightarrow> (r \<noteq> None, d))"

definition UpdateExecution :: "'db gorm \<Rightarrow> nat \<Rightarrow> json_text \<Rightarrow> string \<Rightarrow> string \<Rightarrow> 'db \<Rightarrow> bool \<times> 'db" where
  "UpdateExecution g executionID data status errMsg d =
     (case g_Exec g (SetExecution executionID data status errMsg) d of (r, d) \<Rightarrow> (r \<noteq> None, d))"

text \<open>Parameters or outputs that cannot be encoded, and nil ones, are stored as the empty string.\<close>

definition text_or_empty :: "(vars option \<Rightarrow> json_text option) \<Rightarrow> vars option \<Rightarrow> json_text" where
  "text_or_empty marshal v =
     (if v = None then NotJson '''' else case marshal v of None \<Rightarrow> NotJson '''' | Some t \<Rightarrow> t)"

datatype save_task_error = TaskIDQueryFailed | TaskDefMissing | TaskInsertFailed

definition SaveTask ::
  "'db gorm \<Rightarrow> (vars option \<Rightarrow> json_text option) \<Rightarrow> nat \<Rightarrow> nat \<Rightarrow> string \<Rightarrow> string \<Rightarrow> vars option \<Rightarrow> vars option
     \<Rightarrow> string \<Rightarrow> int \<Rightarrow> int \<Rightarrow> 'db history_store \<Rightarrow> (save_task_error + unit) \<times> 'db history_store" where
  "SaveTask g marshal executionID workflowID taskName status params out errMsg retryCount maxRetries s =
     (let key = taskIDCacheKey workflowID taskName;
          create = (\<lambda>tid s.
            (case g_Exec g (CreateExecutionTask \<lparr>xt_ID = 0, xt_ExecutionID = executionID, xt_WorkflowID = workflowID,
                   xt_WorkflowTaskID = tid, xt_TaskName = taskName, xt_Status = status,
                   xt_Params = text_or_empty marshal params, xt_Output = text_or_empty marshal out, xt_Error = errMsg,
                   xt_RetryCount = retryCount, xt_MaxRetries = maxRetries\<rparr>) (hs_db s) of
               (None, d) \<Rightarrow> (Inl TaskInsertFailed, s\<lparr>hs_db := d\<rparr>)
             | (Some _, d) \<Rightarrow> (Inr (), s\<lparr>hs_db := d\<rparr>)))
      in case taskIDCache s key of
           Some tid \<Rightarrow> create tid s
         | None \<Rightarrow>
             (case g_TaskID g workflowID taskName (hs_db s) of
                None \<Rightarrow> (Inl TaskIDQueryFailed, s)
              | Some queriedID \<Rightarrow>
                  if queriedID = 0 then (Inl TaskDefMissing, s)
                  else create queriedID (s\<lparr>taskIDCache := (taskIDCache s)(key \<mapsto> queriedID)\<rparr>)))"

text \<open>A left join without a match leaves the workflow's columns empty.\<close>

definition to_record :: "VibeflowExecution \<times> VibeflowWorkflow option \<Rightarrow> ExecutionRecord" where
  "to_record = (\<lambda>(ex, wf).
     \<lparr>er_ExecutionID = ex_ID ex,
      er_UUID = (case wf of None \<Rightarrow> '''' | Some w \<Rightarrow> wr_UUID w),
      er_Name = (case wf of None \<Rightarrow> '''' | Some w \<Rightarrow> wr_Name w),
      er_Data = ex_Data ex\<rparr>)"

definition LoadExecutions :: "'db gorm \<Rightarrow> int \<Rightarrow> int \<Rightarrow> 'db \<Rightarrow> (ExecutionRecord list \<times> int) option" where
  "LoadExecutions g offset limit d =
     (case g_CountExecutions g d of
        None \<Rightarrow> None
      | Some tot \<Rightarrow>
          (case g_Executions g offset limit d of
             None \<Rightarrow> None
           | Some records \<Rightarrow> Some (map to_record records, tot)))"

definition GetExecutionByUUID :: "'db gorm \<Rightarrow> uuid \<Rightarrow> 'db \<Rightarrow> ExecutionRecord option option" where
  "GetExecutionByUUID g u d =
     (case g_LatestExecution g u d of
        None \<Rightarrow> None
      | Some None \<Rightarrow> Some None
      | Some (Some rec) \<Rightarrow> Some (Some (to_record rec)))"

definition LoadRunningExecutions :: "'db gorm \<Rightarrow> 'db \<Rightarrow> ExecutionRecord list option" where
  "LoadRunningExecutions g d = map_option (map to_record) (g_ExecutionsByStatus g WorkflowStatusRUNNING d)"


subsection \<open>Task deltas\<close>

definition SaveTaskDeltas :: "'db gorm \<Rightarrow> nat \<Rightarrow> json_text \<Rightarrow> 'db \<Rightarrow> bool \<times> 'db" where
  "SaveTaskDeltas g executionID deltas d =
     (case g_Exec g (CreateDelta \<lparr>dl_ID = 0, dl_ExecutionID = executionID, dl_Data = deltas\<rparr>) d of (r, d) \<Rightarrow> (r \<noteq> None, d))"

definition gather_row :: "VibeflowTaskDelta \<Rightarrow> json_text slice \<Rightarrow> json_text slice" where
  "gather_row r allDeltas =
     (case raw_array (dl_Data r) of
        None \<Rightarrow> slice_append allDeltas [dl_Data r]
      | Some batch \<Rightarrow> slice_append allDeltas (slice_list batch))"

datatype load_deltas_error = DeltaQueryFailed | DeltaMarshalFailed

text \<open>\<open>Inr None\<close> is a nil result without an error.\<close>

definition LoadTaskDeltas :: "'db gorm \<Rightarrow> nat \<Rightarrow> 'db \<Rightarrow> load_deltas_error + json_text option" where
  "LoadTaskDeltas g executionID d =
     (case g_Deltas g executionID d of
        None \<Rightarrow> Inl DeltaQueryFailed
      | Some records \<Rightarrow>
          if records = [] then Inr None
          else (case marshal_raws (fold gather_row records None) of
                  None \<Rightarrow> Inl DeltaMarshalFailed
                | Some result \<Rightarrow> Inr (Some result)))"

definition store_merged :: "nat \<Rightarrow> json_text slice \<Rightarrow> (nat \<rightharpoonup> json_text) \<Rightarrow> (nat \<rightharpoonup> json_text)" where
  "store_merged k ts result = (case marshal_raws ts of None \<Rightarrow> result | Some merged \<Rightarrow> result(k \<mapsto> merged))"

definition batch_row :: "VibeflowTaskDelta \<Rightarrow> (nat \<rightharpoonup> json_text) \<Rightarrow> (nat \<rightharpoonup> json_text)" where
  "batch_row r result =
     (let k = dl_ExecutionID r in
      case raw_array (dl_Data r) of
        None \<Rightarrow>
          (case result k of
             None \<Rightarrow> store_merged k (Some [dl_Data r]) result
           | Some existing \<Rightarrow>
               (case raw_array existing of
                  None \<Rightarrow> result
                | Some existingArr \<Rightarrow> store_merged k (slice_append existingArr [dl_Data r]) result))
      | Some batch \<Rightarrow>
          (case result k of
             None \<Rightarrow> store_merged k batch result
           | Some existing \<Rightarrow>
               (case raw_array existing of
                  None \<Rightarrow> result
                | Some existingArr \<Rightarrow> store_merged k (slice_append existingArr (slice_list batch)) result)))"

text \<open>\<open>None\<close> is the error, \<open>Some None\<close> a nil map.\<close>

definition BatchLoadTaskDeltas :: "'db gorm \<Rightarrow> nat list \<Rightarrow> 'db \<Rightarrow> (nat \<rightharpoonup> json_text) option option" where
  "BatchLoadTaskDeltas g executionIDs d =
     (if executionIDs = [] then Some None
      else case g_DeltasIn g executionIDs d of
             None \<Rightarrow> None
           | Some records \<Rightarrow> if records = [] then Some None else Some (Some (fold batch_row records Map.empty)))"

subsection \<open>What is documented of the database\<close>

text \<open>The effect of a statement on the tables, \<open>i\<close> being the key of a created row.\<close>

definition after_definition :: "nat \<Rightarrow> def_args \<Rightarrow> VibeflowWorkflow \<Rightarrow> VibeflowWorkflow" where
  "after_definition k a r =
     (if wr_ID r = k then r\<lparr>wr_Name := da_Name a, wr_TimeoutSec := da_TimeoutSec a, wr_TaskTimeoutSec := da_TaskTimeoutSec a,
        wr_MaxRetries := da_MaxRetries a, wr_BaseBackoff := da_BaseBackoff a, wr_Trigger := da_Trigger a,
        wr_CronExpr := da_CronExpr a\<rparr> else r)"

fun after_statement :: "statement \<Rightarrow> nat \<Rightarrow> tables \<Rightarrow> tables" where
  "after_statement (CreateWorkflow r) i T = T\<lparr>t_workflows := t_workflows T @ [r\<lparr>wr_ID := i\<rparr>]\<rparr>"
| "after_statement (CreateTask r) i T = T\<lparr>t_tasks := t_tasks T @ [r\<lparr>wt_ID := i\<rparr>]\<rparr>"
| "after_statement (CreateExecutionRow r) i T = T\<lparr>t_executions := t_executions T @ [r\<lparr>ex_ID := i\<rparr>]\<rparr>"
| "after_statement (CreateExecutionTask r) i T = T\<lparr>t_exec_tasks := t_exec_tasks T @ [r\<lparr>xt_ID := i\<rparr>]\<rparr>"
| "after_statement (CreateDelta r) i T = T\<lparr>t_deltas := t_deltas T @ [r\<lparr>dl_ID := i\<rparr>]\<rparr>"
| "after_statement (UpdateDefinition k a) i T = T\<lparr>t_workflows := map (after_definition k a) (t_workflows T)\<rparr>"
| "after_statement (SetStatus k st) i T =
     T\<lparr>t_workflows := map (\<lambda>r. if wr_ID r = k then r\<lparr>wr_Status := st\<rparr> else r) (t_workflows T)\<rparr>"
| "after_statement (SetExecution k data st err) i T =
     T\<lparr>t_executions := map (\<lambda>r. if ex_ID r = k then r\<lparr>ex_Data := data, ex_Status := st, ex_Error := err\<rparr> else r) (t_executions T)\<rparr>"
| "after_statement (DeleteTasks k) i T = T\<lparr>t_tasks := filter (\<lambda>t. wt_WorkflowID t \<noteq> k) (t_tasks T)\<rparr>"

text \<open>Keys count up from 1; the unique indexes are those the models declare (\<^verbatim>\<open>uuid\<close> of a workflow,
  workflow and name of a task).\<close>

fun admits :: "statement \<Rightarrow> nat \<Rightarrow> tables \<Rightarrow> bool" where
  "admits (CreateWorkflow r) i T \<longleftrightarrow> 0 < i \<and> (\<forall>x \<in> set (t_workflows T). wr_ID x < i \<and> wr_UUID x \<noteq> wr_UUID r)"
| "admits (CreateTask r) i T \<longleftrightarrow> 0 < i \<and> (\<forall>x \<in> set (t_tasks T). wt_ID x < i \<and> (wt_WorkflowID x, wt_Name x) \<noteq> (wt_WorkflowID r, wt_Name r))"
| "admits (CreateExecutionRow r) i T \<longleftrightarrow> 0 < i \<and> (\<forall>x \<in> set (t_executions T). ex_ID x < i)"
| "admits (CreateExecutionTask r) i T \<longleftrightarrow> 0 < i \<and> (\<forall>x \<in> set (t_exec_tasks T). xt_ID x < i)"
| "admits (CreateDelta r) i T \<longleftrightarrow> 0 < i \<and> (\<forall>x \<in> set (t_deltas T). dl_ID x < i)"
| "admits _ i T \<longleftrightarrow> True"

definition joined :: "tables \<Rightarrow> VibeflowExecution \<Rightarrow> VibeflowExecution \<times> VibeflowWorkflow option" where
  "joined T ex = (ex, find (\<lambda>w. wr_ID w = ex_WorkflowID ex) (t_workflows T))"

locale history_db =
  fixes g :: "'db gorm" and \<alpha> :: "'db \<Rightarrow> tables"
  assumes exec_law: "g_Exec g st d = (Some i, d') \<Longrightarrow> admits st i (\<alpha> d) \<and> \<alpha> d' = after_statement st i (\<alpha> d)"
    and exec_lost: "g_Exec g st d = (None, d') \<Longrightarrow>
      \<alpha> d' = \<alpha> d \<or> (\<exists>i. admits st i (\<alpha> d) \<and> \<alpha> d' = after_statement st i (\<alpha> d))"
    and begin_law: "\<alpha> (g_Begin g d) = \<alpha> d"
    and commit_law: "g_Commit g d tx = (ok, d') \<Longrightarrow> \<alpha> d' = \<alpha> tx \<or> \<not> ok \<and> \<alpha> d' = \<alpha> d"
    and rollback_law: "\<alpha> (g_Rollback g d tx) = \<alpha> d"
    and first_law: "g_FirstByUUID g u d = Some r \<Longrightarrow> r = find (\<lambda>w. wr_UUID w = u) (t_workflows (\<alpha> d))"
    and by_status_law: "g_ByStatus g status d = Some ws \<Longrightarrow> mset ws = mset (filter (\<lambda>w. wr_Status w = status) (t_workflows (\<alpha> d)))"
    and all_tasks_law: "g_AllTasks g d = Some ts \<Longrightarrow> mset ts = mset (t_tasks (\<alpha> d))"
    and tasks_in_law: "g_TasksIn g ks d = Some ts \<Longrightarrow>
      mset ts = mset (filter (\<lambda>t. wt_WorkflowID t \<in> set ks) (t_tasks (\<alpha> d)))
      \<and> sorted_wrt (\<lambda>x y. wt_WorkflowID x < wt_WorkflowID y \<or> wt_WorkflowID x = wt_WorkflowID y \<and> wt_SortOrder x \<le> wt_SortOrder y) ts"
    and task_id_law: "g_TaskID g k n d = Some i \<Longrightarrow>
      i = (case find (\<lambda>t. wt_WorkflowID t = k \<and> wt_Name t = n) (t_tasks (\<alpha> d)) of None \<Rightarrow> 0 | Some t \<Rightarrow> wt_ID t)"
    and count_law: "g_CountExecutions g d = Some cnt \<Longrightarrow> cnt = int (length (t_executions (\<alpha> d)))"
    and executions_law: "g_Executions g off lim d = Some rs \<Longrightarrow> 0 \<le> off \<Longrightarrow> 0 \<le> lim \<Longrightarrow>
      rs = map (joined (\<alpha> d)) (take (nat lim) (drop (nat off) (rev (t_executions (\<alpha> d)))))"
    and latest_law: "g_LatestExecution g u d = Some latest \<Longrightarrow>
      latest = find (\<lambda>(_, w). case w of None \<Rightarrow> False | Some w' \<Rightarrow> wr_UUID w' = u) (map (joined (\<alpha> d)) (rev (t_executions (\<alpha> d))))"
    and running_law: "g_ExecutionsByStatus g status d = Some rs \<Longrightarrow>
      rs = map (joined (\<alpha> d)) (filter (\<lambda>ex. ex_Status ex = status) (t_executions (\<alpha> d)))"
    and deltas_law: "g_Deltas g k d = Some ds \<Longrightarrow> ds = filter (\<lambda>r. dl_ExecutionID r = k) (t_deltas (\<alpha> d))"
    and deltas_in_law: "g_DeltasIn g ks d = Some ds \<Longrightarrow>
      ds = sort_key dl_ExecutionID (filter (\<lambda>r. dl_ExecutionID r \<in> set ks) (t_deltas (\<alpha> d)))"


subsection \<open>A database in memory\<close>

text \<open>Tables as they are, with the next keys; \<open>md_fail\<close> says which statements fail.\<close>

record mem_history =
  md_tables :: tables
  md_next :: nat
  md_fail :: "statement \<Rightarrow> bool"

fun admits_unique :: "statement \<Rightarrow> tables \<Rightarrow> bool" where
  "admits_unique (CreateWorkflow r) T = list_all (\<lambda>x. wr_UUID x \<noteq> wr_UUID r) (t_workflows T)"
| "admits_unique (CreateTask r) T = list_all (\<lambda>x. (wt_WorkflowID x, wt_Name x) \<noteq> (wt_WorkflowID r, wt_Name r)) (t_tasks T)"
| "admits_unique _ T = True"

definition key_bound :: "tables \<Rightarrow> nat" where
  "key_bound T = Suc (Max (set (0 # map wr_ID (t_workflows T) @ map wt_ID (t_tasks T) @ map ex_ID (t_executions T)
     @ map xt_ID (t_exec_tasks T) @ map dl_ID (t_deltas T))))"

definition mem_exec :: "statement \<Rightarrow> mem_history \<Rightarrow> nat option \<times> mem_history" where
  "mem_exec st d =
     (let T = md_tables d; i = max (md_next d) (key_bound T) in
      if md_fail d st \<or> \<not> admits_unique st T then (None, d)
      else (Some i, d\<lparr>md_tables := after_statement st i T, md_next := i + 1\<rparr>))"

definition mem_gorm :: "mem_history gorm" where
  "mem_gorm =
     \<lparr>g_Exec = mem_exec, g_Begin = (\<lambda>d. d), g_Commit = (\<lambda>d tx. (True, tx)), g_Rollback = (\<lambda>d tx. d\<lparr>md_next := md_next tx\<rparr>),
      g_FirstByUUID = (\<lambda>u d. Some (find (\<lambda>w. wr_UUID w = u) (t_workflows (md_tables d)))),
      g_ByStatus = (\<lambda>st d. Some (filter (\<lambda>w. wr_Status w = st) (t_workflows (md_tables d)))),
      g_AllTasks = (\<lambda>d. Some (t_tasks (md_tables d))),
      g_TasksIn = (\<lambda>ks d. Some (sort_key wt_WorkflowID (sort_key wt_SortOrder
         (filter (\<lambda>t. wt_WorkflowID t \<in> set ks) (t_tasks (md_tables d)))))),
      g_TaskID = (\<lambda>k n d. Some (case find (\<lambda>t. wt_WorkflowID t = k \<and> wt_Name t = n) (t_tasks (md_tables d)) of
         None \<Rightarrow> 0 | Some t \<Rightarrow> wt_ID t)),
      g_CountExecutions = (\<lambda>d. Some (int (length (t_executions (md_tables d))))),
      g_Executions = (\<lambda>off lim d. Some (map (joined (md_tables d)) (take (nat lim) (drop (nat off) (rev (t_executions (md_tables d))))))),
      g_LatestExecution = (\<lambda>u d. Some (find (\<lambda>(_, w). case w of None \<Rightarrow> False | Some w' \<Rightarrow> wr_UUID w' = u)
         (map (joined (md_tables d)) (rev (t_executions (md_tables d)))))),
      g_ExecutionsByStatus = (\<lambda>st d. Some (map (joined (md_tables d)) (filter (\<lambda>ex. ex_Status ex = st) (t_executions (md_tables d))))),
      g_Deltas = (\<lambda>k d. Some (filter (\<lambda>r. dl_ExecutionID r = k) (t_deltas (md_tables d)))),
      g_DeltasIn = (\<lambda>ks d. Some (sort_key dl_ExecutionID (filter (\<lambda>r. dl_ExecutionID r \<in> set ks) (t_deltas (md_tables d)))))\<rparr>"

lemma key_bound_fresh:
  "x \<in> set (t_workflows T) \<Longrightarrow> wr_ID x < key_bound T" "y \<in> set (t_tasks T) \<Longrightarrow> wt_ID y < key_bound T"
  "z \<in> set (t_executions T) \<Longrightarrow> ex_ID z < key_bound T" "v \<in> set (t_exec_tasks T) \<Longrightarrow> xt_ID v < key_bound T"
  "u \<in> set (t_deltas T) \<Longrightarrow> dl_ID u < key_bound T" "0 < key_bound T"
  unfolding key_bound_def by (auto simp: less_Suc_eq_le intro!: Max_ge)

lemma mem_admits: "admits_unique st T \<Longrightarrow> admits st (max n (key_bound T)) T"
  using key_bound_fresh [where T = T] by (cases st) (auto simp: list_all_iff less_max_iff_disj)

lemma sorted_twice:
  "sorted_wrt (\<lambda>x y. f x < f y \<or> f x = f y \<and> h x \<le> h y) (sort_key f (sort_key h xs))"
  for f h :: "'a \<Rightarrow> nat"
proof -
  have "sorted_wrt (\<lambda>x y. f x < f y \<or> f x = f y \<and> h x \<le> h y) ys"
    if "sorted (map f ys)" and "\<And>k. sorted (map h (filter (\<lambda>x. f x = k) ys))" for ys
    using that
  proof (induction ys)
    case (Cons y ys)
    have tail: "sorted (map h (filter (\<lambda>x. f x = k) ys))" for k
      using Cons.prems(2) [of k] by (auto split: if_splits)
    have "f y < f z \<or> f y = f z \<and> h y \<le> h z" if "z \<in> set ys" for z
      using Cons.prems(1) Cons.prems(2) [of "f y"] that by (cases "f z = f y") auto
    with Cons.IH Cons.prems(1) tail show ?case by simp
  qed simp
  moreover have "filter (\<lambda>x. f x = k) (sort_key f ys) = filter (\<lambda>x. f x = k) ys" for k and ys :: "'a list"
    by (rule sort_key_stable)
  ultimately show ?thesis by (simp add: sorted_filter)
qed

interpretation mem: history_db mem_gorm md_tables
proof
  show "g_Exec mem_gorm st d = (Some i, d') \<Longrightarrow> admits st i (md_tables d) \<and> md_tables d' = after_statement st i (md_tables d)"
    for st d i d'
    using mem_admits by (auto simp: mem_gorm_def mem_exec_def Let_def split: if_splits)
  show "g_Exec mem_gorm st d = (None, d') \<Longrightarrow>
      md_tables d' = md_tables d \<or> (\<exists>i. admits st i (md_tables d) \<and> md_tables d' = after_statement st i (md_tables d))"
    for st d d'
    by (simp add: mem_gorm_def mem_exec_def Let_def split: if_splits)
qed (simp_all add: mem_gorm_def sorted_twice mset_filter)

subsection \<open>Deltas: one by one and in bulk\<close>

text \<open>What a stored text holds for the reader of an array: its elements, or itself when it is no array.\<close>

definition row_items :: "json_text \<Rightarrow> json_text list" where
  "row_items t = (case raw_array t of None \<Rightarrow> [t] | Some batch \<Rightarrow> slice_list batch)"

definition valid_text :: "json_text \<Rightarrow> bool" where
  "valid_text t \<longleftrightarrow> text_value t \<noteq> None"

lemma valid_text_iff: "valid_text t \<longleftrightarrow> (\<exists>v. t = JsonText v)"
  by (cases t) (auto simp: valid_text_def)

lemma row_items_valid: "valid_text t \<Longrightarrow> x \<in> set (row_items t) \<Longrightarrow> valid_text x"
  by (auto simp: row_items_def raw_array_def valid_text_iff split: json_text.splits json.splits)

lemma gather_row_items: "slice_list (gather_row r acc) = slice_list acc @ row_items (dl_Data r)"
  by (simp add: gather_row_def row_items_def split: option.splits)

lemma gather_items:
  "slice_list (fold gather_row rs acc) = slice_list acc @ concat (map (\<lambda>r. row_items (dl_Data r)) rs)"
  by (induction rs arbitrary: acc) (simp_all add: gather_row_items)

lemma those_values: "\<forall>x \<in> set ts. valid_text x \<Longrightarrow> \<exists>vs. those (map text_value ts) = Some vs \<and> map JsonText vs = ts"
  by (induction ts) (auto simp: valid_text_iff)

text \<open>Encoding and decoding a slice of valid elements gives its elements back; nil comes back as nil.\<close>

lemma marshal_round_trip:
  assumes "\<forall>x \<in> set (slice_list ts). valid_text x"
  shows "\<exists>t. marshal_raws ts = Some t \<and> raw_array t = Some ts \<and> row_items t = slice_list ts"
proof (cases ts)
  case (Some xs)
  with assms those_values [of xs] show ?thesis by (auto simp: marshal_raws_def raw_array_def row_items_def)
qed (simp add: marshal_raws_def raw_array_def row_items_def)

definition rows_of :: "nat \<Rightarrow> VibeflowTaskDelta list \<Rightarrow> VibeflowTaskDelta list" where
  "rows_of k rs = filter (\<lambda>r. dl_ExecutionID r = k) rs"

definition holds_items :: "json_text option \<Rightarrow> VibeflowTaskDelta list \<Rightarrow> bool" where
  "holds_items o' rs \<longleftrightarrow>
     (case o' of None \<Rightarrow> rs = []
      | Some t \<Rightarrow> rs \<noteq> [] \<and> raw_array t \<noteq> None \<and> row_items t = concat (map (\<lambda>r. row_items (dl_Data r)) rs))"

lemma batch_row_other: "k \<noteq> dl_ExecutionID r \<Longrightarrow> batch_row r m k = m k"
  by (simp add: batch_row_def store_merged_def Let_def split: option.splits)

lemma store_merged_items:
  assumes "\<forall>x \<in> set (slice_list ts). valid_text x"
  shows "\<exists>t. store_merged k ts m k = Some t \<and> raw_array t = Some ts \<and> row_items t = slice_list ts"
  using marshal_round_trip [OF assms] by (auto simp: store_merged_def)

lemma raw_array_valid: "raw_array t = Some ts \<Longrightarrow> \<forall>x \<in> set (slice_list ts). valid_text x"
  by (auto simp: raw_array_def valid_text_iff split: json_text.splits json.splits)

lemma batch_row_step:
  assumes m: "holds_items (m k) rs" and r: "dl_ExecutionID r = k" "valid_text (dl_Data r)"
  shows "holds_items (batch_row r m k) (rs @ [r])"
proof -
  have it: "\<forall>x \<in> set (row_items (dl_Data r)). valid_text x" using r(2) row_items_valid by blast
  show ?thesis
  proof (cases "m k")
    case None
    define ts where "ts = (case raw_array (dl_Data r) of None \<Rightarrow> Some [dl_Data r] | Some b \<Rightarrow> b)"
    have ts: "slice_list ts = row_items (dl_Data r)" by (simp add: ts_def row_items_def split: option.splits)
    with it have valid: "\<forall>x \<in> set (slice_list ts). valid_text x" by simp
    have "batch_row r m = store_merged k ts m"
      using None r(1) by (simp add: batch_row_def ts_def split: option.splits)
    with store_merged_items [OF valid, of k m] ts m None show ?thesis by (auto simp: holds_items_def)
  next
    case (Some t)
    with m obtain arr where arr: "raw_array t = Some arr" and items: "row_items t = slice_list arr"
      by (auto simp: holds_items_def row_items_def)
    define ts where "ts = slice_append arr (row_items (dl_Data r))"
    have ts: "slice_list ts = row_items t @ row_items (dl_Data r)" by (simp add: ts_def items)
    have valid: "\<forall>x \<in> set (slice_list ts). valid_text x"
      using it raw_array_valid [OF arr] by (auto simp: ts items)
    have "batch_row r m = store_merged k ts m"
      using Some arr r(1) by (simp add: batch_row_def ts_def row_items_def split: option.splits)
    with store_merged_items [OF valid, of k m] ts m Some show ?thesis by (auto simp: holds_items_def)
  qed
qed

lemma batch_rows:
  assumes "\<forall>r \<in> set rs. valid_text (dl_Data r)" and "holds_items (m k) rs0"
  shows "holds_items (fold batch_row rs m k) (rs0 @ rows_of k rs)"
  using assms
proof (induction rs arbitrary: m rs0)
  case (Cons r rs)
  have r: "valid_text (dl_Data r)" and rs: "\<forall>r \<in> set rs. valid_text (dl_Data r)" using Cons.prems by auto
  show ?case
  proof (cases "dl_ExecutionID r = k")
    case True
    have "holds_items (batch_row r m k) (rs0 @ [r])" by (rule batch_row_step) (use Cons.prems(2) True r in auto)
    from Cons.IH [where m = "batch_row r m", OF rs this] True show ?thesis by (simp add: rows_of_def)
  next
    case False
    have "holds_items (batch_row r m k) rs0" using False Cons.prems(2) by (simp add: batch_row_other)
    from Cons.IH [where m = "batch_row r m", OF rs this] False show ?thesis by (simp add: rows_of_def)
  qed
qed (simp add: rows_of_def)

lemma rows_of_sorted: "rows_of k (sort_key dl_ExecutionID rs) = rows_of k rs"
  unfolding rows_of_def by (rule sort_key_stable)

lemma rows_of_in: "k \<in> set ks \<Longrightarrow> rows_of k (filter (\<lambda>r. dl_ExecutionID r \<in> set ks) rs) = rows_of k rs"
  unfolding rows_of_def filter_filter by (rule filter_cong) auto

text \<open>C26. Loading the deltas of many executions in one query gives for each of them what loading it
  alone gives. For a database whose deltas are valid JSON and two queries that succeed: an
  execution is missing from the bulk result exactly if its own result is nil, and otherwise both
  texts hold the same elements in the same order, those of all its rows.\<close>

theorem BatchLoad_agrees:
  assumes db: "history_db g \<alpha>" and valid: "\<forall>r \<in> set (t_deltas (\<alpha> d)). valid_text (dl_Data r)"
    and k: "k \<in> set ks" and batch: "BatchLoadTaskDeltas g ks d = Some loaded"
    and single: "g_Deltas g k d \<noteq> None"
  shows "\<exists>raw. LoadTaskDeltas g k d = Inr raw
     \<and> (case (case loaded of None \<Rightarrow> None | Some m \<Rightarrow> m k) of
          None \<Rightarrow> raw = None
        | Some t \<Rightarrow> (\<exists>t'. raw = Some t' \<and> row_items t = row_items t'
            \<and> row_items t = concat (map (\<lambda>r. row_items (dl_Data r)) (rows_of k (t_deltas (\<alpha> d))))))"
proof -
  let ?rows = "rows_of k (t_deltas (\<alpha> d))"
  obtain rs where rs: "g_Deltas g k d = Some rs" using single by blast
  then have rows: "rs = ?rows" using history_db.deltas_law [OF db] by (simp add: rows_of_def)
  have vrows: "\<forall>x \<in> set (slice_list (fold gather_row rs None)). valid_text x"
    using valid row_items_valid by (auto simp: gather_items rows rows_of_def)
  from marshal_round_trip [OF vrows] obtain t' where t': "marshal_raws (fold gather_row rs None) = Some t'"
    "row_items t' = concat (map (\<lambda>r. row_items (dl_Data r)) ?rows)"
    by (auto simp: gather_items rows)
  have load: "LoadTaskDeltas g k d = Inr (if ?rows = [] then None else Some t')"
    using rs t'(1) by (simp add: LoadTaskDeltas_def rows)
  obtain bs where bs: "g_DeltasIn g ks d = Some bs" and loaded: "loaded = (if bs = [] then None else Some (fold batch_row bs Map.empty))"
    using batch k by (auto simp: BatchLoadTaskDeltas_def split: if_splits option.splits)
  have bsort: "bs = sort_key dl_ExecutionID (filter (\<lambda>r. dl_ExecutionID r \<in> set ks) (t_deltas (\<alpha> d)))"
    by (rule history_db.deltas_in_law [OF db bs])
  then have brows: "rows_of k bs = ?rows" using k by (simp add: rows_of_sorted rows_of_in)
  have bvalid: "\<forall>r \<in> set bs. valid_text (dl_Data r)" using valid bsort by auto
  have "holds_items (fold batch_row bs Map.empty k) ([] @ rows_of k bs)"
    by (rule batch_rows [OF bvalid]) (simp add: holds_items_def)
  then have held: "holds_items (case loaded of None \<Rightarrow> None | Some m \<Rightarrow> m k) ?rows"
    using brows by (cases "bs = []") (simp_all add: loaded)
  show ?thesis
    using held load t'(2) by (auto simp: holds_items_def split: option.splits)
qed

text \<open>With a row that is not JSON the two differ: alone the load fails, in bulk the row is left out.\<close>

lemma invalid_delta_differs:
  "marshal_raws (fold gather_row [\<lparr>dl_ID = 1, dl_ExecutionID = 1, dl_Data = NotJson ''x''\<rparr>] None) = None"
  "fold batch_row [\<lparr>dl_ID = 1, dl_ExecutionID = 1, dl_Data = NotJson ''x''\<rparr>] Map.empty = Map.empty"
  by (simp_all add: gather_row_def raw_array_def slice_append_def marshal_raws_def batch_row_def store_merged_def)

definition demo_delta :: "nat \<Rightarrow> nat \<Rightarrow> json \<Rightarrow> VibeflowTaskDelta" where
  "demo_delta i k v = \<lparr>dl_ID = i, dl_ExecutionID = k, dl_Data = JsonText v\<rparr>"

definition demo_history :: mem_history where
  "demo_history =
     \<lparr>md_tables = \<lparr>t_workflows = [], t_tasks = [], t_executions = [], t_exec_tasks = [],
        t_deltas = [demo_delta 1 7 (JArr [JStr ''a'']), demo_delta 2 8 (JArr []), demo_delta 3 7 (JArr [JStr ''b''])]\<rparr>,
      md_next = 4, md_fail = (\<lambda>_. False)\<rparr>"

theorem BatchLoad_agrees_witness:
  "\<exists>m t. BatchLoadTaskDeltas mem_gorm [8, 7] demo_history = Some (Some m) \<and> m 7 = Some t
     \<and> row_items t = [JsonText (JStr ''a''), JsonText (JStr ''b'')]"
proof -
  have run: "\<exists>m. BatchLoadTaskDeltas mem_gorm [8, 7] demo_history = Some (Some m) \<and> m 7 \<noteq> None"
    by (simp add: BatchLoadTaskDeltas_def mem_gorm_def demo_history_def demo_delta_def insort_key_def batch_row_def raw_array_def
        store_merged_def marshal_raws_def slice_append_def)
  then obtain m t where m: "BatchLoadTaskDeltas mem_gorm [8, 7] demo_history = Some (Some m)" "m 7 = Some t" by blast
  have valid: "\<forall>r \<in> set (t_deltas (md_tables demo_history)). valid_text (dl_Data r)" and q: "g_Deltas mem_gorm 7 demo_history \<noteq> None"
    by (simp_all add: demo_history_def demo_delta_def mem_gorm_def valid_text_def)
  have items: "concat (map (\<lambda>r. row_items (dl_Data r)) (rows_of 7 (t_deltas (md_tables demo_history)))) = [JsonText (JStr ''a''), JsonText (JStr ''b'')]"
    by (simp add: demo_history_def demo_delta_def rows_of_def row_items_def raw_array_def)
  from BatchLoad_agrees [OF mem.history_db_axioms valid _ m(1) q] m(2) items have "row_items t = [JsonText (JStr ''a''), JsonText (JStr ''b'')]"
    by auto
  with m show ?thesis by blast
qed


subsection \<open>Saving a definition is all or nothing\<close>

definition task_rows ::
  "(vars option \<Rightarrow> json_text option) \<Rightarrow> nat \<Rightarrow> nat \<Rightarrow> TaskDef list \<Rightarrow> VibeflowWorkflowTask list \<Rightarrow> bool" where
  "task_rows marshal wid i ts rows \<longleftrightarrow>
     list_all2 (\<lambda>(k, t) r. wt_WorkflowID r = wid \<and> wt_Name r = tdef_Name t \<and> wt_SortOrder r = k
       \<and> marshal (tdef_Params t) = Some (wt_Params r)) (enumerate i ts) rows"

definition def_written :: "(vars option \<Rightarrow> json_text option) \<Rightarrow> def_args \<Rightarrow> nat \<Rightarrow> tables \<Rightarrow> tables \<Rightarrow> bool" where
  "def_written marshal a wid T T' \<longleftrightarrow>
     (\<exists>rows. task_rows marshal wid 0 (da_Tasks a) rows
        \<and> T' = T\<lparr>t_workflows := t_workflows T @ [(definition_row a)\<lparr>wr_ID := wid\<rparr>], t_tasks := t_tasks T @ rows\<rparr>)"

definition uuid_taken :: "uuid \<Rightarrow> tables \<Rightarrow> bool" where
  "uuid_taken u T \<longleftrightarrow> (\<exists>w \<in> set (t_workflows T). wr_UUID w = u)"

context history_db
begin

lemma create_tasks_rows:
  assumes "create_tasks g marshal wid i ts tx cache = (True, tx', cache')"
  shows "\<exists>rows. task_rows marshal wid i ts rows \<and> \<alpha> tx' = (\<alpha> tx)\<lparr>t_tasks := t_tasks (\<alpha> tx) @ rows\<rparr>"
  using assms
proof (induction ts arbitrary: i tx cache)
  case Nil
  then show ?case by (auto simp: task_rows_def)
next
  case (Cons t ts)
  obtain params where p: "marshal (tdef_Params t) = Some params"
    using Cons.prems by (cases "marshal (tdef_Params t)") auto
  let ?row = "\<lparr>wt_ID = 0, wt_WorkflowID = wid, wt_Name = tdef_Name t, wt_Params = params, wt_SortOrder = i\<rparr>"
  obtain r tx1 where x: "g_Exec g (CreateTask ?row) tx = (r, tx1)" by fastforce
  with Cons.prems p obtain tid where r: "r = Some tid" by (cases r) auto
  from exec_law [of "CreateTask ?row" tx tid tx1] x r
  have a1: "\<alpha> tx1 = (\<alpha> tx)\<lparr>t_tasks := t_tasks (\<alpha> tx) @ [?row\<lparr>wt_ID := tid\<rparr>]\<rparr>" by simp
  from Cons.prems p x r have "create_tasks g marshal wid (i + 1) ts tx1 (cache(taskIDCacheKey wid (tdef_Name t) \<mapsto> tid)) = (True, tx', cache')"
    by simp
  from Cons.IH [OF this] obtain rows where rows: "task_rows marshal wid (i + 1) ts rows"
    "\<alpha> tx' = (\<alpha> tx1)\<lparr>t_tasks := t_tasks (\<alpha> tx1) @ rows\<rparr>" by blast
  show ?case
    by (rule exI [of _ "?row\<lparr>wt_ID := tid\<rparr> # rows"]) (use rows p in \<open>simp add: task_rows_def a1\<close>)
qed

lemma end_transaction_cases:
  assumes "end_transaction g wid (ok, tx, cache) s = (res, s')"
  shows "(\<not> ok \<longrightarrow> res = None \<and> \<alpha> (hs_db s') = \<alpha> (hs_db s))
    \<and> (ok \<longrightarrow> (res = Some wid \<and> \<alpha> (hs_db s') = \<alpha> tx)
        \<or> (res = None \<and> (\<alpha> (hs_db s') = \<alpha> (hs_db s) \<or> \<alpha> (hs_db s') = \<alpha> tx)))"
  using assms commit_law [of "hs_db s" tx] rollback_law
  by (auto simp: end_transaction_def split: prod.splits bool.splits if_splits)

lemma SaveWorkflowDef_cases:
  assumes run: "SaveWorkflowDef g marshal a s = (res, s')"
  shows "(case res of
            Some wid \<Rightarrow> \<not> uuid_taken (da_UUID a) (\<alpha> (hs_db s)) \<and> def_written marshal a wid (\<alpha> (hs_db s)) (\<alpha> (hs_db s'))
          | None \<Rightarrow> \<alpha> (hs_db s') = \<alpha> (hs_db s)
              \<or> \<not> uuid_taken (da_UUID a) (\<alpha> (hs_db s)) \<and> (\<exists>wid. def_written marshal a wid (\<alpha> (hs_db s)) (\<alpha> (hs_db s'))))"
proof -
  let ?T = "\<alpha> (hs_db s)"
  obtain r tx where x: "g_Exec g (CreateWorkflow (definition_row a)) (g_Begin g (hs_db s)) = (r, tx)" by fastforce
  show ?thesis
  proof (cases r)
    case None
    with run x have "res = None" "s' = s\<lparr>hs_db := g_Rollback g (hs_db s) tx\<rparr>" by (simp_all add: SaveWorkflowDef_def)
    then show ?thesis by (simp add: rollback_law)
  next
    case (Some wid)
    from exec_law [of "CreateWorkflow (definition_row a)"] x Some begin_law
    have free: "\<not> uuid_taken (da_UUID a) ?T" and tx: "\<alpha> tx = ?T\<lparr>t_workflows := t_workflows ?T @ [(definition_row a)\<lparr>wr_ID := wid\<rparr>]\<rparr>"
      by (fastforce simp: uuid_taken_def definition_row_def)+
    obtain ok tx' cache' where c: "create_tasks g marshal wid 0 (da_Tasks a) tx (taskIDCache s) = (ok, tx', cache')"
      by (metis prod_cases3)
    have e: "end_transaction g wid (ok, tx', cache') s = (res, s')"
      using run x Some c by (simp add: SaveWorkflowDef_def)
    have "def_written marshal a wid ?T (\<alpha> tx')" if ok: ok
    proof -
      from c ok have "create_tasks g marshal wid 0 (da_Tasks a) tx (taskIDCache s) = (True, tx', cache')" by simp
      from create_tasks_rows [OF this] tx show ?thesis by (auto simp: def_written_def)
    qed
    with end_transaction_cases [OF e] free show ?thesis by (cases ok) auto
  qed
qed

end

text \<open>C25. Saving a definition is all or nothing, and a UUID is saved once. Whatever statement fails: if an
  identifier is returned, the UUID was free, and the tables have exactly one workflow row and the
  rows of its tasks more, numbered in order; if an error is returned, the tables are as before, or
  (the answer to the commit was lost) the definition is stored completely. A UUID that the
  workflow table already has always gives an error and no change.\<close>

theorem SaveWorkflowDef_atomic:
  assumes db: "history_db g \<alpha>" and run: "SaveWorkflowDef g marshal a s = (res, s')"
  shows "(\<forall>wid. res = Some wid \<longrightarrow> def_written marshal a wid (\<alpha> (hs_db s)) (\<alpha> (hs_db s')))
     \<and> (res = None \<longrightarrow> \<alpha> (hs_db s') = \<alpha> (hs_db s) \<or> (\<exists>wid. def_written marshal a wid (\<alpha> (hs_db s)) (\<alpha> (hs_db s'))))
     \<and> (uuid_taken (da_UUID a) (\<alpha> (hs_db s)) \<longrightarrow> res = None \<and> \<alpha> (hs_db s') = \<alpha> (hs_db s))"
  using history_db.SaveWorkflowDef_cases [OF db run] by (auto split: option.splits)

definition demo_args :: def_args where
  "demo_args = \<lparr>da_UUID = ''w'', da_Name = ''demo'', da_Tasks = [\<lparr>tdef_Name = ''a'', tdef_Params = None\<rparr>, \<lparr>tdef_Name = ''b'', tdef_Params = None\<rparr>],
     da_TimeoutSec = 0, da_TaskTimeoutSec = 0, da_MaxRetries = 0, da_BaseBackoff = 0, da_Trigger = ''manual'', da_CronExpr = ''''\<rparr>"

definition demo_marshal :: "vars option \<Rightarrow> json_text option" where
  "demo_marshal v = Some (JsonText JNull)"

definition demo_store :: "mem_history history_store" where
  "demo_store = \<lparr>hs_db = demo_history, taskIDCache = Map.empty\<rparr>"

lemmas mem_run = mem_gorm_def mem_exec_def Let_def demo_store_def demo_history_def demo_args_def demo_marshal_def key_bound_def
  demo_delta_def definition_row_def end_transaction_def

theorem SaveWorkflowDef_atomic_witness:
  "\<exists>wid s'. SaveWorkflowDef mem_gorm demo_marshal demo_args demo_store = (Some wid, s')
     \<and> def_written demo_marshal demo_args wid (md_tables demo_history) (md_tables (hs_db s'))"
proof -
  have "fst (SaveWorkflowDef mem_gorm demo_marshal demo_args demo_store) \<noteq> None"
    by (simp add: SaveWorkflowDef_def mem_run)
  then obtain wid s' where r: "SaveWorkflowDef mem_gorm demo_marshal demo_args demo_store = (Some wid, s')"
    by (metis prod.collapse option.exhaust)
  from SaveWorkflowDef_atomic [OF mem.history_db_axioms r] have "def_written demo_marshal demo_args wid (md_tables demo_history) (md_tables (hs_db s'))"
    by (simp add: demo_store_def)
  with r show ?thesis by blast
qed

subsection \<open>The cache of task identifiers\<close>

lemma nat_digits_range: "c \<in> set (nat_digits n) \<Longrightarrow> 48 \<le> (of_char c :: nat) \<and> (of_char c :: nat) < 58"
proof (induction n rule: nat_digits.induct)
  case (1 n)
  have d: "48 \<le> (of_char (char_of (48 + k :: nat)) :: nat) \<and> (of_char (char_of (48 + k :: nat)) :: nat) < 58" if "k < 10" for k
    using that by (simp add: of_char_mod_256)
  show ?case using 1 d [of n] d [of "n mod 10"] by (subst (asm) (2) nat_digits.simps) (auto split: if_splits)
qed

lemma nat_digits_value: "fold (\<lambda>c acc. 10 * acc + (of_char c - 48)) (nat_digits n) 0 = n"
proof (induction n rule: nat_digits.induct)
  case (1 n)
  have d: "(of_char (char_of (48 + k :: nat)) :: nat) = 48 + k" if "k < 10" for k
    using that by (simp add: of_char_mod_256)
  show ?case using 1 d [of n] d [of "n mod 10"] by (subst nat_digits.simps) simp
qed

lemma taskIDCacheKey_inject: "taskIDCacheKey k n = taskIDCacheKey k' n' \<longleftrightarrow> k = k' \<and> n = n'"
proof
  have pre: "takeWhile (\<lambda>c. c \<noteq> CHR '':'') (taskIDCacheKey k n) = nat_digits k" for k n
  proof -
    have "c \<noteq> CHR '':''" if "c \<in> set (nat_digits k)" for c
      using nat_digits_range [OF that] by auto
    then show ?thesis by (simp add: taskIDCacheKey_def takeWhile_append)
  qed
  assume eq: "taskIDCacheKey k n = taskIDCacheKey k' n'"
  then have "nat_digits k = nat_digits k'" by (metis pre)
  then have "k = k'" by (metis nat_digits_value)
  with eq show "k = k' \<and> n = n'" by (simp add: taskIDCacheKey_def)
qed simp

definition task_known :: "nat \<Rightarrow> string \<Rightarrow> nat \<Rightarrow> tables \<Rightarrow> bool" where
  "task_known wid n i T \<longleftrightarrow> (\<exists>t \<in> set (t_tasks T). wt_ID t = i \<and> wt_WorkflowID t = wid \<and> wt_Name t = n)"

text \<open>The cache agrees with the task table, but for the workflows of \<open>X\<close>.\<close>

definition cache_ok :: "nat set \<Rightarrow> (string \<rightharpoonup> nat) \<Rightarrow> tables \<Rightarrow> bool" where
  "cache_ok X cache T \<longleftrightarrow> (\<forall>wid n i. wid \<notin> X \<longrightarrow> cache (taskIDCacheKey wid n) = Some i \<longrightarrow> task_known wid n i T)"

text \<open>The store from its start on, with the workflows that an update of their definition or a failed
  transaction touched: every other operation may come at any moment, and every statement may fail.\<close>

definition cache_changed :: "'db history_store \<Rightarrow> 'db history_store \<Rightarrow> nat set" where
  "cache_changed s s' = {wid. \<exists>n. taskIDCache s' (taskIDCacheKey wid n) \<noteq> taskIDCache s (taskIDCacheKey wid n)}"

definition updated_workflow :: "'db gorm \<Rightarrow> def_args \<Rightarrow> 'db history_store \<Rightarrow> nat set" where
  "updated_workflow g a s = (case g_FirstByUUID g (da_UUID a) (hs_db s) of Some (Some w) \<Rightarrow> {wr_ID w} | _ \<Rightarrow> {})"

fun leaves_tasks :: "statement \<Rightarrow> bool" where
  "leaves_tasks (CreateTask _) = False"
| "leaves_tasks (DeleteTasks _) = False"
| "leaves_tasks _ = True"

inductive store_run :: "'db gorm \<Rightarrow> nat set \<Rightarrow> 'db history_store \<Rightarrow> bool" for g where
  opened: "NewHistoryStore g migrated d = Some s \<Longrightarrow> store_run g {} s"
| saved_definition: "store_run g X s \<Longrightarrow> SaveWorkflowDef g marshal a s = (r, s') \<Longrightarrow>
    store_run g (X \<union> (if r = None then cache_changed s s' else {})) s'"
| updated_definition: "store_run g X s \<Longrightarrow> UpsertWorkflowDef g marshal a s = (r, s') \<Longrightarrow>
    store_run g (X \<union> updated_workflow g a s \<union> (if r = None then cache_changed s s' else {})) s'"
| saved_task: "store_run g X s \<Longrightarrow> SaveTask g marshal eid wid n st ps out err rc mr s = (res, s') \<Longrightarrow> store_run g X s'"
| other_statement: "store_run g X s \<Longrightarrow> leaves_tasks stm \<Longrightarrow> g_Exec g stm (hs_db s) = (r, d) \<Longrightarrow>
    store_run g X (s\<lparr>hs_db := d\<rparr>)"

context history_db
begin

lemma NewHistoryStore_cache:
  assumes "NewHistoryStore g migrated d = Some s"
  shows "cache_ok {} (taskIDCache s) (\<alpha> (hs_db s))"
proof -
  obtain ts where ts: "g_AllTasks g d = Some ts"
    and s: "s = \<lparr>hs_db = d, taskIDCache = fold (\<lambda>t cache. cache(taskIDCacheKey (wt_WorkflowID t) (wt_Name t) \<mapsto> wt_ID t)) ts Map.empty\<rparr>"
    using assms by (auto simp: NewHistoryStore_def buildTaskIDCache_def split: if_splits option.splits)
  have "\<exists>t \<in> set us \<union> set ts'. wt_ID t = i \<and> wt_WorkflowID t = wid \<and> wt_Name t = n"
    if "fold (\<lambda>t cache. cache(taskIDCacheKey (wt_WorkflowID t) (wt_Name t) \<mapsto> wt_ID t)) ts' c (taskIDCacheKey wid n) = Some i"
      and "\<And>wid n i. c (taskIDCacheKey wid n) = Some i \<Longrightarrow> \<exists>t \<in> set us. wt_ID t = i \<and> wt_WorkflowID t = wid \<and> wt_Name t = n"
    for ts' us :: "VibeflowWorkflowTask list" and c wid n i
    using that
  proof (induction ts' arbitrary: us c)
    case (Cons t ts')
    have "\<exists>t' \<in> set (t # us). wt_ID t' = i \<and> wt_WorkflowID t' = wid \<and> wt_Name t' = n"
      if "(c(taskIDCacheKey (wt_WorkflowID t) (wt_Name t) \<mapsto> wt_ID t)) (taskIDCacheKey wid n) = Some i" for wid n i
      using that Cons.prems(2) by (auto simp: taskIDCacheKey_inject split: if_splits)
    from Cons.IH [OF _ this] Cons.prems(1) show ?case by auto
  qed auto
  from this [where us = "[]" and ts' = ts and c = Map.empty] show ?thesis
    using mset_eq_setD [OF all_tasks_law [OF ts]] by (auto simp: cache_ok_def task_known_def s)
qed

lemma find_known: "find (\<lambda>t. wt_WorkflowID t = wid \<and> wt_Name t = n) (t_tasks T) = Some t \<Longrightarrow> task_known wid n (wt_ID t) T"
  by (auto simp: task_known_def find_Some_iff)

lemma SaveTask_cases:
  assumes run: "SaveTask g marshal eid wid n st ps out err rc mr s = (res, s')"
    and ok: "cache_ok X (taskIDCache s) (\<alpha> (hs_db s))"
  shows "cache_ok X (taskIDCache s') (\<alpha> (hs_db s'))
     \<and> (wid \<notin> X \<longrightarrow> res = Inr () \<longrightarrow> (\<exists>row. \<alpha> (hs_db s') = (\<alpha> (hs_db s))\<lparr>t_exec_tasks := t_exec_tasks (\<alpha> (hs_db s)) @ [row]\<rparr>
          \<and> xt_TaskName row = n \<and> xt_WorkflowID row = wid \<and> xt_ExecutionID row = eid \<and> task_known wid n (xt_WorkflowTaskID row) (\<alpha> (hs_db s))))
     \<and> (res = Inl TaskDefMissing \<and> (\<forall>t \<in> set (t_tasks (\<alpha> (hs_db s))). 0 < wt_ID t)
          \<longrightarrow> \<not> (\<exists>t \<in> set (t_tasks (\<alpha> (hs_db s))). wt_WorkflowID t = wid \<and> wt_Name t = n))"

proof -
  let ?T = "\<alpha> (hs_db s)"
  define row where "row tid = \<lparr>xt_ID = 0, xt_ExecutionID = eid, xt_WorkflowID = wid, xt_WorkflowTaskID = tid, xt_TaskName = n, xt_Status = st,
     xt_Params = text_or_empty marshal ps, xt_Output = text_or_empty marshal out, xt_Error = err, xt_RetryCount = rc, xt_MaxRetries = mr\<rparr>" for tid
  define create where "create tid s1 = (case g_Exec g (CreateExecutionTask (row tid)) (hs_db s1) of
     (None, d) \<Rightarrow> (Inl TaskInsertFailed, s1\<lparr>hs_db := d\<rparr>) | (Some _, d) \<Rightarrow> (Inr (), s1\<lparr>hs_db := d\<rparr>))"
    for tid and s1 :: "'db history_store"
  have created: ?thesis
    if c: "create tid s1 = (res, s')" and s1: "hs_db s1 = hs_db s" and known: "wid \<notin> X \<Longrightarrow> task_known wid n tid ?T"
      and ok1: "cache_ok X (taskIDCache s1) ?T" for tid s1
  proof -
    obtain r d where x: "g_Exec g (CreateExecutionTask (row tid)) (hs_db s) = (r, d)" by fastforce
    have s': "s' = s1\<lparr>hs_db := d\<rparr>" and res: "res = (if r = None then Inl TaskInsertFailed else Inr ())"
      using c x by (auto simp: create_def s1 split: option.splits)
    have grow: "\<alpha> d = ?T \<or> (\<exists>i. \<alpha> d = ?T\<lparr>t_exec_tasks := t_exec_tasks ?T @ [(row tid)\<lparr>xt_ID := i\<rparr>]\<rparr>)"
      using exec_lost [of "CreateExecutionTask (row tid)" "hs_db s" d] exec_law [of "CreateExecutionTask (row tid)" "hs_db s" _ d] x
      by (cases r) auto
    have "t_tasks (\<alpha> d) = t_tasks ?T" using grow by auto
    then have "cache_ok X (taskIDCache s') (\<alpha> (hs_db s'))" using ok1 by (simp add: cache_ok_def task_known_def s')
    moreover have "\<exists>i. \<alpha> d = ?T\<lparr>t_exec_tasks := t_exec_tasks ?T @ [(row tid)\<lparr>xt_ID := i\<rparr>]\<rparr>" if "res = Inr ()"
      using that res exec_law [of "CreateExecutionTask (row tid)" "hs_db s" _ d] x by (cases r) auto
    ultimately show ?thesis using known res by (auto simp: s' row_def split: if_splits)
  qed
  show ?thesis
  proof (cases "taskIDCache s (taskIDCacheKey wid n)")
    case (Some tid)
    then have "create tid s = (res, s')" using run by (simp add: SaveTask_def Let_def create_def row_def)
    moreover have "task_known wid n tid ?T" if "wid \<notin> X" using ok Some that by (auto simp: cache_ok_def)
    ultimately show ?thesis using created ok by blast
  next
    case None
    note miss = None
    show ?thesis
    proof (cases "g_TaskID g wid n (hs_db s)")
      case None
      with miss run ok show ?thesis by (auto simp: SaveTask_def Let_def)
    next
      case (Some i)
      note i = task_id_law [OF Some]
      show ?thesis
      proof (cases "i = 0")
        case True
        then have out: "res = Inl TaskDefMissing" "s' = s" using miss Some run by (simp_all add: SaveTask_def Let_def)
        have "\<not> (\<exists>t \<in> set (t_tasks ?T). wt_WorkflowID t = wid \<and> wt_Name t = n)" if pos: "\<forall>t \<in> set (t_tasks ?T). 0 < wt_ID t"
        proof (cases "find (\<lambda>t. wt_WorkflowID t = wid \<and> wt_Name t = n) (t_tasks ?T)")
          case None
          then show ?thesis by (auto simp: find_None_iff)
        next
          case (Some t)
          then have "wt_ID t = 0" using i True by simp
          with find_known [OF Some] pos show ?thesis by (fastforce simp: task_known_def)
        qed
        then show ?thesis unfolding out using ok by simp
      next
        case False
        then have known: "task_known wid n i ?T" using i find_known by (auto split: option.splits)
        let ?s1 = "s\<lparr>taskIDCache := (taskIDCache s)(taskIDCacheKey wid n \<mapsto> i)\<rparr>"
        have "create i ?s1 = (res, s')" using run miss Some False by (simp add: SaveTask_def Let_def create_def row_def)
        moreover have "cache_ok X (taskIDCache ?s1) ?T"
          using ok known by (auto simp: cache_ok_def taskIDCacheKey_inject)
        moreover have "hs_db ?s1 = hs_db s" by simp
        ultimately show ?thesis using known by (intro created [of i ?s1])
      qed
    qed
  qed
qed

lemma create_tasks_cache:
  assumes "create_tasks g marshal wid i ts tx cache = (ok, tx', cache')"
  shows "set (t_tasks (\<alpha> tx)) \<subseteq> set (t_tasks (\<alpha> tx'))"
    and "cache' (taskIDCacheKey w n) = cache (taskIDCacheKey w n)
      \<or> w = wid \<and> (\<exists>k. cache' (taskIDCacheKey w n) = Some k \<and> task_known wid n k (\<alpha> tx'))"
proof -
  have "set (t_tasks (\<alpha> tx)) \<subseteq> set (t_tasks (\<alpha> tx')) \<and> (cache' (taskIDCacheKey w n) = cache (taskIDCacheKey w n)
      \<or> w = wid \<and> (\<exists>k. cache' (taskIDCacheKey w n) = Some k \<and> task_known wid n k (\<alpha> tx')))"
    using assms
  proof (induction ts arbitrary: i tx cache)
    case (Cons t ts)
    show ?case
    proof (cases "marshal (tdef_Params t)")
      case (Some params)
      let ?st = "CreateTask \<lparr>wt_ID = 0, wt_WorkflowID = wid, wt_Name = tdef_Name t, wt_Params = params, wt_SortOrder = i\<rparr>"
      obtain r tx1 where x: "g_Exec g ?st tx = (r, tx1)" by fastforce
      have sub: "set (t_tasks (\<alpha> tx)) \<subseteq> set (t_tasks (\<alpha> tx1))"
        using exec_lost [of ?st tx tx1] exec_law [of ?st tx _ tx1] x by (cases r) auto
      show ?thesis
      proof (cases r)
        case None
        with Cons.prems Some x sub show ?thesis by simp
      next
        case (Some tid)
        then have known: "task_known wid (tdef_Name t) tid (\<alpha> tx1)"
          using exec_law [of ?st tx tid tx1] x by (auto simp: task_known_def)
        from Cons.prems \<open>marshal _ = _\<close> x Some
        have rest: "create_tasks g marshal wid (i + 1) ts tx1 (cache(taskIDCacheKey wid (tdef_Name t) \<mapsto> tid)) = (ok, tx', cache')"
          by simp
        from Cons.IH [OF this] have sub': "set (t_tasks (\<alpha> tx1)) \<subseteq> set (t_tasks (\<alpha> tx'))" by blast
        have "task_known wid (tdef_Name t) tid (\<alpha> tx')" using known sub' by (auto simp: task_known_def)
        with Cons.IH [OF rest] sub sub' show ?thesis by (auto simp: taskIDCacheKey_inject split: if_splits)
      qed
    qed (use Cons.prems in simp)
  qed simp
  then show "set (t_tasks (\<alpha> tx)) \<subseteq> set (t_tasks (\<alpha> tx'))"
    and "cache' (taskIDCacheKey w n) = cache (taskIDCacheKey w n)
      \<or> w = wid \<and> (\<exists>k. cache' (taskIDCacheKey w n) = Some k \<and> task_known wid n k (\<alpha> tx'))" by blast+
qed

text \<open>One argument for both transactions: what follows the loop keeps the agreement outside \<open>X\<close> and, when
  it fails, outside what the loop cached.\<close>

lemma end_transaction_cache:
  assumes e: "end_transaction g wid (create_tasks g marshal wid 0 ts tx (taskIDCache s)) s = (r, s')"
    and ok: "cache_ok X (taskIDCache s) (\<alpha> (hs_db s))"
    and kept: "\<And>t. t \<in> set (t_tasks (\<alpha> (hs_db s))) \<Longrightarrow> wt_WorkflowID t \<notin> X \<Longrightarrow> t \<in> set (t_tasks (\<alpha> tx))"
  shows "cache_ok (X \<union> (if r = None then cache_changed s s' else {})) (taskIDCache s') (\<alpha> (hs_db s'))"
proof -
  obtain b tx' cache' where c: "create_tasks g marshal wid 0 ts tx (taskIDCache s) = (b, tx', cache')"
    by (cases "create_tasks g marshal wid 0 ts tx (taskIDCache s)") auto
  from e [unfolded c] have cache: "taskIDCache s' = cache'"
    by (auto simp: end_transaction_def split: if_splits prod.splits bool.splits)
  note db = end_transaction_cases [OF e [unfolded c]]
  note grow = create_tasks_cache [OF c]
  have old: "task_known w n k (\<alpha> (hs_db s'))"
    if "taskIDCache s (taskIDCacheKey w n) = Some k" "w \<notin> X" for w n k
  proof -
    from ok that have "task_known w n k (\<alpha> (hs_db s))" by (simp add: cache_ok_def)
    moreover from this kept that grow(1) have "task_known w n k (\<alpha> tx')" by (auto simp: task_known_def)
    ultimately show ?thesis using db by auto
  qed
  have "task_known w n k (\<alpha> (hs_db s'))"
    if x: "taskIDCache s' (taskIDCacheKey w n) = Some k" "w \<notin> X" "r = None \<Longrightarrow> w \<notin> cache_changed s s'" for w n k
  proof (cases "taskIDCache s' (taskIDCacheKey w n) = taskIDCache s (taskIDCacheKey w n)")
    case True
    with x old show ?thesis by simp
  next
    case False
    with x(3) have "r \<noteq> None" by (auto simp: cache_changed_def)
    with db have "\<alpha> (hs_db s') = \<alpha> tx'" by auto
    with grow(2) [of w n] False x(1) show ?thesis by (auto simp: cache)
  qed
  then show ?thesis by (auto simp: cache_ok_def)
qed

lemma SaveWorkflowDef_cache:
  assumes run: "SaveWorkflowDef g marshal a s = (r, s')" and ok: "cache_ok X (taskIDCache s) (\<alpha> (hs_db s))"
  shows "cache_ok (X \<union> (if r = None then cache_changed s s' else {})) (taskIDCache s') (\<alpha> (hs_db s'))"
proof -
  obtain q tx where x: "g_Exec g (CreateWorkflow (definition_row a)) (g_Begin g (hs_db s)) = (q, tx)" by fastforce
  show ?thesis
  proof (cases q)
    case None
    with run x have "taskIDCache s' = taskIDCache s" "\<alpha> (hs_db s') = \<alpha> (hs_db s)"
      by (auto simp: SaveWorkflowDef_def rollback_law)
    with ok show ?thesis by (auto simp: cache_ok_def)
  next
    case (Some wid)
    with run x have e: "end_transaction g wid (create_tasks g marshal wid 0 (da_Tasks a) tx (taskIDCache s)) s = (r, s')"
      by (simp add: SaveWorkflowDef_def)
    have "t_tasks (\<alpha> tx) = t_tasks (\<alpha> (hs_db s))"
      using exec_law [of _ _ wid tx] x Some by (simp add: begin_law)
    then show ?thesis by (intro end_transaction_cache [OF e ok]) simp
  qed
qed

lemma UpsertWorkflowDef_cache:
  assumes run: "UpsertWorkflowDef g marshal a s = (r, s')" and ok: "cache_ok X (taskIDCache s) (\<alpha> (hs_db s))"
  shows "cache_ok (X \<union> updated_workflow g a s \<union> (if r = None then cache_changed s s' else {})) (taskIDCache s') (\<alpha> (hs_db s'))"
proof (cases "g_FirstByUUID g (da_UUID a) (hs_db s)")
  case None
  with run ok show ?thesis by (auto simp: UpsertWorkflowDef_def cache_ok_def)
next
  case (Some found)
  note first = Some
  show ?thesis
  proof (cases found)
    case None
    with first run have "SaveWorkflowDef g marshal a s = (r, s')" by (simp add: UpsertWorkflowDef_def)
    from SaveWorkflowDef_cache [OF this ok] show ?thesis by (auto simp: cache_ok_def)
  next
    case (Some w)
    let ?X = "X \<union> {wr_ID w}"
    from ok have ok': "cache_ok ?X (taskIDCache s) (\<alpha> (hs_db s))" by (auto simp: cache_ok_def)
    have up: "updated_workflow g a s = {wr_ID w}" using first Some by (simp add: updated_workflow_def)
    have undone: "taskIDCache s' = taskIDCache s \<Longrightarrow> \<alpha> (hs_db s') = \<alpha> (hs_db s) \<Longrightarrow> ?thesis"
      using ok by (auto simp: cache_ok_def)
    obtain q1 tx1 where x1: "g_Exec g (UpdateDefinition (wr_ID w) a) (g_Begin g (hs_db s)) = (q1, tx1)" by fastforce
    obtain q2 tx2 where x2: "g_Exec g (DeleteTasks (wr_ID w)) tx1 = (q2, tx2)" by fastforce
    note step = run [unfolded UpsertWorkflowDef_def first Some option.case x1 prod.case]
    show ?thesis
    proof (cases "q1 = None \<or> q2 = None")
      case True
      with step x2 have "taskIDCache s' = taskIDCache s" "\<alpha> (hs_db s') = \<alpha> (hs_db s)"
        by (auto simp: rollback_law split: option.splits)
      then show ?thesis by (rule undone)
    next
      case False
      then obtain i1 i2 where q: "q1 = Some i1" "q2 = Some i2" by auto
      with step x2 have e: "end_transaction g (wr_ID w) (create_tasks g marshal (wr_ID w) 0 (da_Tasks a) tx2 (taskIDCache s)) s = (r, s')"
        by simp
      have "t_tasks (\<alpha> tx2) = filter (\<lambda>t. wt_WorkflowID t \<noteq> wr_ID w) (t_tasks (\<alpha> (hs_db s)))"
        using exec_law [of _ _ i1 tx1] exec_law [of _ _ i2 tx2] x1 x2 q by (simp add: begin_law)
      then show ?thesis unfolding up by (intro end_transaction_cache [OF e ok']) auto
    qed
  qed
qed

lemma other_statement_tasks:
  assumes "g_Exec g stm d = (r, d')" and "leaves_tasks stm"
  shows "t_tasks (\<alpha> d') = t_tasks (\<alpha> d)"
proof -
  have "\<alpha> d' = \<alpha> d \<or> (\<exists>i. \<alpha> d' = after_statement stm i (\<alpha> d))"
    using exec_lost [of stm d d'] exec_law [of stm d _ d'] assms(1) by (cases r) auto
  with assms(2) show ?thesis by (cases stm) auto
qed

lemma store_run_cache: "store_run g X s \<Longrightarrow> cache_ok X (taskIDCache s) (\<alpha> (hs_db s))"
proof (induction rule: store_run.induct)
  case (opened migrated d s)
  then show ?case by (rule NewHistoryStore_cache)
next
  case (saved_definition X s marshal a r s')
  then show ?case by (intro SaveWorkflowDef_cache)
next
  case (updated_definition X s marshal a r s')
  then show ?case by (intro UpsertWorkflowDef_cache)
next
  case (saved_task X s marshal eid wid n st ps out err rc mr res s')
  from SaveTask_cases [OF saved_task(2,3)] show ?case by blast
next
  case (other_statement X s stm r d)
  from other_statement_tasks [OF this(3,2)] other_statement(4) show ?case by (simp add: cache_ok_def task_known_def)
qed

end

text \<open>C27. Recorded task executions point to the definition they belong to. Take a store at any moment
  after its start, whatever was saved, updated or recorded since and whichever of those statements
  failed. Recording a task of a workflow whose definition was not updated in place and whose tasks no
  failed transaction put into the cache: when it succeeds, exactly one row is added, and the task it
  references is in the task table with the same workflow and name; a definition is reported missing
  only if the table has none. For the other workflows, \<open>X\<close>, it does not hold
  (\<open>Upsert_leaves_stale_ids\<close>, \<open>rolled_back_tasks_cached\<close>).\<close>

theorem SaveTask_references:
  assumes db: "history_db g \<alpha>" and before: "store_run g X s" and wid: "wid \<notin> X"
    and run: "SaveTask g marshal eid wid n st ps out err rc mr s = (res, s')"
  shows "(res = Inr () \<longrightarrow> (\<exists>row. \<alpha> (hs_db s') = (\<alpha> (hs_db s))\<lparr>t_exec_tasks := t_exec_tasks (\<alpha> (hs_db s)) @ [row]\<rparr>
          \<and> xt_TaskName row = n \<and> xt_WorkflowID row = wid \<and> xt_ExecutionID row = eid \<and> task_known wid n (xt_WorkflowTaskID row) (\<alpha> (hs_db s))))
     \<and> (res = Inl TaskDefMissing \<and> (\<forall>t \<in> set (t_tasks (\<alpha> (hs_db s))). 0 < wt_ID t)
          \<longrightarrow> \<not> (\<exists>t \<in> set (t_tasks (\<alpha> (hs_db s))). wt_WorkflowID t = wid \<and> wt_Name t = n))"
  using history_db.SaveTask_cases [OF db run history_db.store_run_cache [OF db before]] wid by blast

definition demo_saved :: "mem_history history_store" where
  "demo_saved = snd (SaveWorkflowDef mem_gorm demo_marshal demo_args demo_store)"

lemma demo_saved_tables:
  "t_tasks (md_tables (hs_db demo_saved)) = [\<lparr>wt_ID = 5, wt_WorkflowID = 4, wt_Name = ''a'', wt_Params = JsonText JNull, wt_SortOrder = 0\<rparr>,
     \<lparr>wt_ID = 6, wt_WorkflowID = 4, wt_Name = ''b'', wt_Params = JsonText JNull, wt_SortOrder = 1\<rparr>]"
  "map wr_UUID (t_workflows (md_tables (hs_db demo_saved))) = [''w'']"
  "md_fail (hs_db demo_saved) = (\<lambda>_. False)" "t_exec_tasks (md_tables (hs_db demo_saved)) = []"
  by (simp_all add: demo_saved_def SaveWorkflowDef_def mem_run)

theorem SaveTask_references_witness:
  "\<exists>row s'. SaveTask mem_gorm demo_marshal 1 4 ''b'' ''COMPLETED'' None None '''' 0 0 demo_saved = (Inr (), s')
     \<and> t_exec_tasks (md_tables (hs_db s')) = [row] \<and> task_known 4 ''b'' (xt_WorkflowTaskID row) (md_tables (hs_db demo_saved))"
proof -
  have "NewHistoryStore mem_gorm True (hs_db demo_store) = Some \<lparr>hs_db = hs_db demo_store, taskIDCache = Map.empty\<rparr>"
    by (simp add: NewHistoryStore_def buildTaskIDCache_def demo_store_def demo_history_def mem_gorm_def)
  then have "store_run mem_gorm {} demo_store" using store_run.opened by (fastforce simp: demo_store_def)
  moreover have w: "SaveWorkflowDef mem_gorm demo_marshal demo_args demo_store = (Some 4, demo_saved)"
    unfolding demo_saved_def by (simp add: SaveWorkflowDef_def mem_run)
  ultimately have run: "store_run mem_gorm {} demo_saved" using store_run.saved_definition by fastforce
  have "fst (SaveTask mem_gorm demo_marshal 1 4 ''b'' ''COMPLETED'' None None '''' 0 0 demo_saved) = Inr ()"
    by (simp add: SaveTask_def demo_saved_def SaveWorkflowDef_def mem_run)
  then obtain s' where r: "SaveTask mem_gorm demo_marshal 1 4 ''b'' ''COMPLETED'' None None '''' 0 0 demo_saved = (Inr (), s')"
    by (metis prod.collapse)
  from SaveTask_references [OF mem.history_db_axioms run _ r] r show ?thesis
    by (auto simp: demo_saved_tables)
qed

text \<open>An update of a definition deletes its old tasks but keeps their identifiers in the cache: a task
  that the new definition does not have is still recorded, with an identifier no row has.\<close>

lemma Upsert_leaves_stale_ids:
  "\<exists>s1 s2 row. UpsertWorkflowDef mem_gorm demo_marshal (demo_args\<lparr>da_Tasks := []\<rparr>) demo_saved = (Some 4, s1)
     \<and> SaveTask mem_gorm demo_marshal 1 4 ''b'' ''COMPLETED'' None None '''' 0 0 s1 = (Inr (), s2)
     \<and> t_exec_tasks (md_tables (hs_db s2)) = [row] \<and> \<not> task_known 4 ''b'' (xt_WorkflowTaskID row) (md_tables (hs_db s2))"
  by (simp add: UpsertWorkflowDef_def SaveTask_def task_known_def demo_saved_def SaveWorkflowDef_def mem_run after_definition_def)

text \<open>When the transaction is rolled back, what it put into the cache stays.\<close>

lemma rolled_back_tasks_cached:
  assumes "md_fail (hs_db s) = (\<lambda>st. case st of CreateTask t \<Rightarrow> wt_SortOrder t = 1 | _ \<Rightarrow> False)"
    and "t_workflows (md_tables (hs_db s)) = []" and "t_tasks (md_tables (hs_db s)) = []"
  shows "\<exists>s'. SaveWorkflowDef mem_gorm demo_marshal demo_args s = (None, s')
     \<and> md_tables (hs_db s') = md_tables (hs_db s) \<and> (\<exists>wid. taskIDCache s' (taskIDCacheKey wid ''a'') \<noteq> None)"
  using assms by (auto simp: SaveWorkflowDef_def mem_gorm_def mem_exec_def demo_args_def demo_marshal_def definition_row_def end_transaction_def Let_def)


subsection \<open>Queries\<close>

context history_db
begin

lemma running_records:
  assumes "LoadRunningExecutions g d = Some rs"
  shows "map er_ExecutionID rs = map ex_ID (filter (\<lambda>ex. ex_Status ex = WorkflowStatusRUNNING) (t_executions (\<alpha> d)))"
    and "map er_Data rs = map ex_Data (filter (\<lambda>ex. ex_Status ex = WorkflowStatusRUNNING) (t_executions (\<alpha> d)))"
proof -
  obtain xs where xs: "g_ExecutionsByStatus g WorkflowStatusRUNNING d = Some xs" "rs = map to_record xs"
    using assms by (auto simp: LoadRunningExecutions_def)
  note run = running_law [OF xs(1)]
  show "map er_ExecutionID rs = map ex_ID (filter (\<lambda>ex. ex_Status ex = WorkflowStatusRUNNING) (t_executions (\<alpha> d)))"
    "map er_Data rs = map ex_Data (filter (\<lambda>ex. ex_Status ex = WorkflowStatusRUNNING) (t_executions (\<alpha> d)))"
    by (simp_all add: xs(2) run to_record_def joined_def comp_def)
qed

text \<open>Pages of the executions: newest first, and the offset of page \<open>n\<close> skips the pages before it.\<close>

lemma pages_of_executions:
  assumes "LoadExecutions g off lim d = Some (rs, tot)" and "0 \<le> off" and "0 \<le> lim"
  shows "map er_ExecutionID rs = take (nat lim) (drop (nat off) (rev (map ex_ID (t_executions (\<alpha> d)))))"
    and "tot = int (length (t_executions (\<alpha> d)))"
proof -
  obtain xs where xs: "g_Executions g off lim d = Some xs" "rs = map to_record xs" "g_CountExecutions g d = Some tot"
    using assms(1) by (auto simp: LoadExecutions_def split: option.splits)
  show "map er_ExecutionID rs = take (nat lim) (drop (nat off) (rev (map ex_ID (t_executions (\<alpha> d)))))"
    using executions_law [OF xs(1) assms(2,3)] by (simp add: xs(2) to_record_def joined_def comp_def take_map drop_map rev_map)
  show "tot = int (length (t_executions (\<alpha> d)))" by (rule count_law [OF xs(3)])
qed

text \<open>An execution that is created as running is the last of those recovery loads, with its data.\<close>

lemma running_after_create:
  assumes "CreateExecution g wid data status t err d = (Some eid, d')" and "status = WorkflowStatusRUNNING"
    and "LoadRunningExecutions g d' = Some rs"
  shows "er_ExecutionID (last rs) = eid \<and> er_Data (last rs) = data \<and> rs \<noteq> []"
proof -
  have t: "t_executions (\<alpha> d') = t_executions (\<alpha> d) @ [\<lparr>ex_ID = eid, ex_WorkflowID = wid, ex_Data = data, ex_Status = status,
      ex_Error = err, ex_StartedAt = t\<rparr>]"
    using exec_law [OF assms(1) [unfolded CreateExecution_def]] by simp
  from running_records [OF assms(3)] t assms(2)
  have "map er_ExecutionID rs = map ex_ID (filter (\<lambda>ex. ex_Status ex = WorkflowStatusRUNNING) (t_executions (\<alpha> d))) @ [eid]"
    "map er_Data rs = map ex_Data (filter (\<lambda>ex. ex_Status ex = WorkflowStatusRUNNING) (t_executions (\<alpha> d))) @ [data]" by simp_all
  then show ?thesis by (metis (no_types, lifting) append_is_Nil_conv last_map last_snoc list.map_disc_iff not_Cons_self2)
qed

end

end
