(* ===== verification/Recovery.thy ===== *)
theory Recovery
  imports Lifecycle History_Store Etcd_Store
begin

text \<open>
  The master's start-up and the registration of workflows composed with the store they work on
  (\<^verbatim>\<open>repository.go\<close>, \<^verbatim>\<open>workflow_manager.go\<close> with \<^verbatim>\<open>mysql/history.go\<close>): what the incremental snapshots
  look like as JSON and what recovery reads back, and which answers \<^verbatim>\<open>asyncInitMySQL\<close> gets.

  A map of task outputs is encoded and decoded by the arguments \<open>enc\<close> and \<open>dec\<close>, a state by
  \<open>dec_state\<close>; \<open>txt\<close> gives the text of a message the engine formatted and \<open>clock\<close> that of a time.
\<close>

subsection \<open>Deltas and snapshots as JSON\<close>

definition action_name :: "delta_action \<Rightarrow> string" where
  "action_name a =
     (case a of DeltaCompleted \<Rightarrow> ''completed'' | DeltaFailed \<Rightarrow> ''failed'' | DeltaRolledBack \<Rightarrow> ''rolled_back''
      | DeltaOther s \<Rightarrow> s)"

definition action_of :: "string \<Rightarrow> delta_action" where
  "action_of s =
     (if s = ''completed'' then DeltaCompleted else if s = ''failed'' then DeltaFailed
      else if s = ''rolled_back'' then DeltaRolledBack else DeltaOther s)"

text \<open>\<^verbatim>\<open>omitempty\<close> leaves out an empty map, string or slice.\<close>

definition delta_json :: "(vars \<Rightarrow> json) \<Rightarrow> (msg \<Rightarrow> string) \<Rightarrow> task_delta \<Rightarrow> json" where
  "delta_json enc txt d =
     JObj ([(''task_name'', JStr (td_TaskName d)), (''action'', JStr (action_name (td_Action d)))]
       @ (case td_Output d of None \<Rightarrow> [] | Some m \<Rightarrow> if m = Map.empty then [] else [(''output'', enc m)])
       @ (if txt (td_Result d) = '''' then [] else [(''result'', JStr (txt (td_Result d)))]))"

definition wf_status_name :: "workflow_status \<Rightarrow> string" where
  "wf_status_name st =
     (case st of WorkflowStatusPending \<Rightarrow> ''PENDING'' | WorkflowStatusRunning \<Rightarrow> ''RUNNING''
      | WorkflowStatusPaused \<Rightarrow> ''PAUSED'' | WorkflowStatusCompleted \<Rightarrow> ''COMPLETED'' | WorkflowStatusFailed \<Rightarrow> ''FAILED''
      | WorkflowStatusRollingBack \<Rightarrow> ''ROLLING_BACK'' | WorkflowStatusRolledBack \<Rightarrow> ''ROLLED_BACK'')"

definition snapshot_json :: "(vars \<Rightarrow> json) \<Rightarrow> (msg \<Rightarrow> string) \<Rightarrow> (go_time \<Rightarrow> string) \<Rightarrow> workflow_snapshot \<Rightarrow> json" where
  "snapshot_json enc txt clock sn =
     JObj ([(''workflow_uuid'', JStr (snap_WorkflowUUID sn)), (''execution_id'', JNum (nat_digits (snap_ExecutionID sn))),
            (''status'', JStr (wf_status_name (snap_Status sn)))]
       @ (if ChangedTasks sn = [] then [] else [(''changed_tasks'', JArr (map (delta_json enc txt) (ChangedTasks sn)))])
       @ (if txt (snap_Error sn) = '''' then [] else [(''error'', JStr (txt (snap_Error sn)))])
       @ [(''updated_at'', JStr (clock (snap_UpdatedAt sn)))])"

text \<open>Decoding a \<^verbatim>\<open>TaskDelta\<close>: the members are taken in their order, a name matches a field up to
  (ASCII) case, unknown members are skipped, \<^verbatim>\<open>null\<close> changes nothing, another type is an error.\<close>

definition lower_char :: "char \<Rightarrow> char" where
  "lower_char c = (let n = (of_char c :: nat) in if 65 \<le> n \<and> n \<le> 90 then char_of (n + 32) else c)"

definition names_field :: "string \<Rightarrow> string \<Rightarrow> bool" where
  "names_field field key \<longleftrightarrow> map lower_char key = field"

definition set_member :: "(json \<Rightarrow> vars option) \<Rightarrow> string \<times> json \<Rightarrow> task_delta \<Rightarrow> task_delta option" where
  "set_member dec = (\<lambda>(key, v) d.
     if names_field ''task_name'' key then
       (case v of JStr s \<Rightarrow> Some (d\<lparr>td_TaskName := s\<rparr>) | JNull \<Rightarrow> Some d | _ \<Rightarrow> None)
     else if names_field ''action'' key then
       (case v of JStr s \<Rightarrow> Some (d\<lparr>td_Action := action_of s\<rparr>) | JNull \<Rightarrow> Some d | _ \<Rightarrow> None)
     else if names_field ''output'' key then
       (case v of JNull \<Rightarrow> Some (d\<lparr>td_Output := None\<rparr>)
        | JObj kvs \<Rightarrow> map_option (\<lambda>m. d\<lparr>td_Output := Some m\<rparr>) (dec v) | _ \<Rightarrow> None)
     else if names_field ''result'' key then
       (case v of JStr s \<Rightarrow> Some (d\<lparr>td_Result := Text s\<rparr>) | JNull \<Rightarrow> Some d | _ \<Rightarrow> None)
     else Some d)"

fun set_members :: "(json \<Rightarrow> vars option) \<Rightarrow> (string \<times> json) list \<Rightarrow> task_delta \<Rightarrow> task_delta option" where
  "set_members dec [] d = Some d"
| "set_members dec (kv # kvs) d = (case set_member dec kv d of None \<Rightarrow> None | Some d' \<Rightarrow> set_members dec kvs d')"

definition zero_delta :: task_delta where
  "zero_delta = \<lparr>td_TaskName = '''', td_Action = DeltaOther '''', td_Output = None, td_Result = NoMsg\<rparr>"

definition decode_delta :: "(json \<Rightarrow> vars option) \<Rightarrow> json \<Rightarrow> task_delta option" where
  "decode_delta dec v =
     (case v of JObj kvs \<Rightarrow> set_members dec kvs zero_delta | JNull \<Rightarrow> Some zero_delta | _ \<Rightarrow> None)"

definition decode_deltas :: "(json \<Rightarrow> vars option) \<Rightarrow> json_text \<Rightarrow> task_delta list option" where
  "decode_deltas dec t =
     (case t of
        JsonText (JArr vs) \<Rightarrow> those (map (decode_delta dec) vs)
      | JsonText JNull \<Rightarrow> Some []
      | _ \<Rightarrow> None)"

text \<open>The write that \<^verbatim>\<open>snapshotRunningWorkflow\<close> starts (\<open>JSaveTaskDeltas\<close>).\<close>

definition save_snapshot ::
  "'db gorm \<Rightarrow> (vars \<Rightarrow> json) \<Rightarrow> (msg \<Rightarrow> string) \<Rightarrow> (go_time \<Rightarrow> string) \<Rightarrow> nat \<Rightarrow> workflow_snapshot \<Rightarrow> 'db \<Rightarrow> bool \<times> 'db" where
  "save_snapshot g enc txt clock execID sn d = SaveTaskDeltas g execID (JsonText (snapshot_json enc txt clock sn)) d"


subsection \<open>Recovery\<close>

definition load_deltas :: "'db gorm \<Rightarrow> (json \<Rightarrow> vars option) \<Rightarrow> nat \<Rightarrow> 'db \<Rightarrow> task_delta list" where
  "load_deltas g dec execID d =
     (case LoadTaskDeltas g execID d of
        Inl _ \<Rightarrow> []
      | Inr None \<Rightarrow> []
      | Inr (Some raw) \<Rightarrow> (case decode_deltas dec raw of None \<Rightarrow> [] | Some ds \<Rightarrow> ds))"

definition applyDeltasToState ::
  "'db gorm \<Rightarrow> (json \<Rightarrow> vars option) \<Rightarrow> nat \<Rightarrow> 'db \<Rightarrow> workflow_state \<Rightarrow> workflow_state" where
  "applyDeltasToState g dec execID d st = ApplyDeltas (load_deltas g dec execID d) st"

text \<open>The names of the workflow's tasks that etcd holds as PENDING.\<close>

definition scanEtcdPendingTasks :: "'e etcd \<Rightarrow> codec \<Rightarrow> string \<Rightarrow> uuid \<Rightarrow> 'e \<Rightarrow> string list" where
  "scanEtcdPendingTasks c j pfx u d =
     (case store_List c (pending_prefix pfx @ u @ ''/'') d of
        None \<Rightarrow> []
      | Some kvs \<Rightarrow> List.map_filter (\<lambda>kv. map_option tp_TaskName (Deserialize j (kvp_Value kv))) kvs)"

text \<open>The deltas one record is recovered with: from the bulk result, or loaded alone when there is none.\<close>

definition recovery_deltas ::
  "'db gorm \<Rightarrow> (json \<Rightarrow> vars option) \<Rightarrow> (nat \<rightharpoonup> json_text) option \<Rightarrow> nat \<Rightarrow> 'db \<Rightarrow> task_delta list" where
  "recovery_deltas g dec allDeltas execID d =
     (case allDeltas of
        None \<Rightarrow> load_deltas g dec execID d
      | Some m \<Rightarrow>
          (case m execID of
             None \<Rightarrow> []
           | Some raw \<Rightarrow> (case decode_deltas dec raw of None \<Rightarrow> [] | Some ds \<Rightarrow> ds)))"

definition recover_record ::
  "'db gorm \<Rightarrow> (json \<Rightarrow> vars option) \<Rightarrow> (json_text \<Rightarrow> workflow_state option) \<Rightarrow> go_time \<Rightarrow> (nat \<rightharpoonup> json_text) option
     \<Rightarrow> 'db \<Rightarrow> ExecutionRecord \<Rightarrow> 'a wm_state_scheme \<Rightarrow> 'a wm_state_scheme" where
  "recover_record g dec dec_state t allDeltas d rec s =
     (case dec_state (er_Data rec) of
        None \<Rightarrow> s
      | Some st \<Rightarrow> recoverSingleWorkflow t st (recovery_deltas g dec allDeltas (er_ExecutionID rec) d) s)"

text \<open>The goroutines that recover the records run in parallel; each enters its workflow in one critical
  section, and \<open>order\<close> is the order in which they do.\<close>

definition recoverRunningWorkflows ::
  "'db gorm \<Rightarrow> (json \<Rightarrow> vars option) \<Rightarrow> (json_text \<Rightarrow> workflow_state option) \<Rightarrow> go_time
     \<Rightarrow> (ExecutionRecord list \<Rightarrow> ExecutionRecord list) \<Rightarrow> 'db \<Rightarrow> 'a wm_state_scheme \<Rightarrow> 'a wm_state_scheme" where
  "recoverRunningWorkflows g dec dec_state t order d s =
     (if \<not> HasHistoryStore (conf s) then s
      else case LoadRunningExecutions g d of
        None \<Rightarrow> s
      | Some records \<Rightarrow>
          if records = [] then s
          else (let allDeltas = (case BatchLoadTaskDeltas g (map er_ExecutionID records) d of None \<Rightarrow> None | Some loaded \<Rightarrow> loaded)
                in fold (recover_record g dec dec_state t allDeltas d) (order records) s))"


subsection \<open>What recovery reads of a snapshot\<close>

text \<open>Deltas that are stored as an array of deltas come back.\<close>

lemma action_of_name: "(\<forall>s. a = DeltaOther s \<longrightarrow> s \<notin> {''completed'', ''failed'', ''rolled_back''}) \<Longrightarrow> action_of (action_name a) = a"
  by (cases a) (auto simp: action_of_def action_name_def)

lemma delta_json_round_trip:
  assumes "\<And>m. m \<noteq> Map.empty \<Longrightarrow> (\<exists>kvs. enc m = JObj kvs) \<and> dec (enc m) = Some m"
    and "td_Action d \<in> {DeltaCompleted, DeltaFailed, DeltaRolledBack}" and "td_Output d \<noteq> Some Map.empty"
    and "td_Result d = Text r" and "\<And>s. txt (Text s) = s"
  shows "decode_delta dec (delta_json enc txt d) = Some d"
proof -
  have fields: "names_field ''task_name'' ''task_name''" "names_field ''action'' ''action''" "names_field ''output'' ''output''"
    "names_field ''result'' ''result''" "\<not> names_field ''task_name'' ''action''" "\<not> names_field ''task_name'' ''output''"
    "\<not> names_field ''task_name'' ''result''" "\<not> names_field ''action'' ''output''" "\<not> names_field ''action'' ''result''"
    "\<not> names_field ''output'' ''result''"
    by code_simp+
  have act: "action_of (action_name (td_Action d)) = td_Action d" using assms(2) by (intro action_of_name) auto
  show ?thesis
    using assms act
    by (cases d; cases "td_Output d")
       (fastforce simp: decode_delta_def delta_json_def set_member_def fields zero_delta_def split: option.splits if_splits)+
qed

lemma snapshot_decodes_to_nothing: "decode_delta dec (snapshot_json enc txt clock sn) = Some zero_delta"
proof -
  have other: "set_member dec (k, v) d = Some d" if "k \<in> {''workflow_uuid'', ''execution_id'', ''status'', ''changed_tasks'', ''error'', ''updated_at''}" for k v d
  proof -
    have "\<not> names_field f k" if "f \<in> {''task_name'', ''action'', ''output'', ''result''}" for f
      using \<open>k \<in> _\<close> that by (elim insertE emptyE; simp) code_simp+
    then show ?thesis by (simp add: set_member_def)
  qed
  show ?thesis by (simp add: decode_delta_def snapshot_json_def other)
qed

text \<open>Every delta row is a snapshot, as the only caller of \<^verbatim>\<open>SaveTaskDeltas\<close> writes them.\<close>

definition only_snapshots :: "tables \<Rightarrow> bool" where
  "only_snapshots T \<longleftrightarrow> (\<forall>r \<in> set (t_deltas T). \<exists>enc txt clock sn. dl_Data r = JsonText (snapshot_json enc txt clock sn))"

lemma save_snapshot_only:
  assumes db: "history_db g \<alpha>" and "only_snapshots (\<alpha> d)" and "save_snapshot g enc txt clock eid sn d = (ok, d')"
  shows "only_snapshots (\<alpha> d')"
proof -
  obtain r where r: "g_Exec g (CreateDelta \<lparr>dl_ID = 0, dl_ExecutionID = eid, dl_Data = JsonText (snapshot_json enc txt clock sn)\<rparr>) d = (r, d')"
    using assms(3) by (auto simp: save_snapshot_def SaveTaskDeltas_def split: prod.splits)
  have "\<alpha> d' = \<alpha> d \<or> (\<exists>i. t_deltas (\<alpha> d') = t_deltas (\<alpha> d) @
      [\<lparr>dl_ID = i, dl_ExecutionID = eid, dl_Data = JsonText (snapshot_json enc txt clock sn)\<rparr>])"
    using history_db.exec_law [OF db] history_db.exec_lost [OF db] r by (cases r) fastforce+
  with assms(2) show ?thesis by (auto simp: only_snapshots_def) (intro exI, rule refl)
qed

lemma snapshot_items: "dl_Data r = JsonText (snapshot_json enc txt clock sn) \<Longrightarrow> row_items (dl_Data r) = [dl_Data r]"
  by (simp add: row_items_def raw_array_def snapshot_json_def)

text \<open>A delta that recovery can get from such rows changes nothing.\<close>

definition harmless :: "task_delta list \<Rightarrow> bool" where
  "harmless ds \<longleftrightarrow> (\<forall>d \<in> set ds. d = zero_delta)"

lemma harmless_apply: "harmless ds \<Longrightarrow> ApplyDeltas ds st = st"
  unfolding ApplyDeltas_def harmless_def
  by (induction ds arbitrary: st) (simp_all add: apply_delta_def zero_delta_def)

lemma harmless_decode:
  assumes "\<forall>x \<in> set (row_items t). \<exists>enc txt clock sn. x = JsonText (snapshot_json enc txt clock sn)"
    and "decode_deltas dec t = Some ds"
  shows "harmless ds"
proof -
  have arr: "harmless ds" if "those (map (decode_delta dec) vs) = Some ds"
    and "\<forall>v \<in> set vs. \<exists>enc txt clock sn. JsonText v = JsonText (snapshot_json enc txt clock sn)" for vs ds
    using that
  proof (induction vs arbitrary: ds)
    case (Cons v vs)
    from Cons.prems(2) obtain enc tx clock sn where v: "v = snapshot_json enc tx clock sn" by auto
    from Cons.prems(1) snapshot_decodes_to_nothing [of dec enc tx clock sn] obtain ds' where
      "those (map (decode_delta dec) vs) = Some ds'" "ds = zero_delta # ds'" by (auto simp: v)
    with Cons.IH Cons.prems(2) show ?case by (auto simp: harmless_def)
  qed (simp add: harmless_def)
  show ?thesis
  proof (cases t)
    case (JsonText v)
    show ?thesis
    proof (cases v)
      case (JArr vs)
      with JsonText assms show ?thesis by (intro arr [of vs]) (auto simp: decode_deltas_def row_items_def raw_array_def)
    qed (use JsonText assms(2) in \<open>auto simp: decode_deltas_def harmless_def\<close>)
  qed (use assms(2) in \<open>auto simp: decode_deltas_def\<close>)
qed

lemma snapshots_of_rows:
  assumes "only_snapshots T" and "set rs \<subseteq> set (t_deltas T)"
  shows "\<forall>x \<in> set (concat (map (\<lambda>r. row_items (dl_Data r)) rs)). \<exists>enc txt clock sn. x = JsonText (snapshot_json enc txt clock sn)"
proof
  fix x assume "x \<in> set (concat (map (\<lambda>r. row_items (dl_Data r)) rs))"
  then obtain r where r: "r \<in> set (t_deltas T)" "x \<in> set (row_items (dl_Data r))" using assms(2) by auto
  with assms(1) obtain enc tx clock sn where sn: "dl_Data r = JsonText (snapshot_json enc tx clock sn)" by (auto simp: only_snapshots_def)
  with r(2) snapshot_items [OF sn] show "\<exists>enc txt clock sn. x = JsonText (snapshot_json enc txt clock sn)" by auto
qed

lemma only_snapshots_valid: "only_snapshots T \<Longrightarrow> \<forall>r \<in> set (t_deltas T). valid_text (dl_Data r)"
  by (force simp: only_snapshots_def valid_text_def)

lemma load_deltas_harmless:
  assumes db: "history_db g \<alpha>" and only: "only_snapshots (\<alpha> d)"
  shows "harmless (load_deltas g dec k d)"
proof (cases "LoadTaskDeltas g k d")
  case (Inr raw)
  show ?thesis
  proof (cases raw)
    case (Some t)
    obtain rs where rs: "g_Deltas g k d = Some rs" "marshal_raws (fold gather_row rs None) = Some t"
      using Inr Some by (auto simp: LoadTaskDeltas_def split: option.splits if_splits)
    have sub: "set rs \<subseteq> set (t_deltas (\<alpha> d))" using history_db.deltas_law [OF db rs(1)] by auto
    note snaps = snapshots_of_rows [OF only sub]
    then have "\<forall>x \<in> set (slice_list (fold gather_row rs None)). valid_text x"
      by (force simp: gather_items valid_text_def)
    from marshal_round_trip [OF this] rs(2) have "row_items t = concat (map (\<lambda>r. row_items (dl_Data r)) rs)"
      by (simp add: gather_items)
    with snaps have "\<forall>x \<in> set (row_items t). \<exists>enc txt clock sn. x = JsonText (snapshot_json enc txt clock sn)" by simp
    from harmless_decode [OF this] Inr Some show ?thesis
      by (cases "decode_deltas dec t") (simp_all add: load_deltas_def harmless_def [of "[]"])
  qed (use Inr in \<open>simp add: load_deltas_def harmless_def\<close>)
qed (simp add: load_deltas_def harmless_def)

lemma batch_deltas_harmless:
  assumes db: "history_db g \<alpha>" and only: "only_snapshots (\<alpha> d)" and b: "BatchLoadTaskDeltas g ks d = Some (Some m)"
  shows "harmless (recovery_deltas g dec (Some m) k d)"
proof (cases "m k")
  case (Some t)
  obtain bs where bs: "g_DeltasIn g ks d = Some bs" "m = fold batch_row bs Map.empty"
    using b by (auto simp: BatchLoadTaskDeltas_def split: if_splits option.splits)
  have sub: "set bs \<subseteq> set (t_deltas (\<alpha> d))" using history_db.deltas_in_law [OF db bs(1)] by auto
  then have valid: "\<forall>r \<in> set bs. valid_text (dl_Data r)" using only_snapshots_valid [OF only] by blast
  have "holds_items (fold batch_row bs Map.empty k) ([] @ rows_of k bs)"
    by (rule batch_rows [OF valid]) (simp add: holds_items_def)
  with Some bs(2) have "row_items t = concat (map (\<lambda>r. row_items (dl_Data r)) (rows_of k bs))"
    by (simp add: holds_items_def)
  moreover have "set (rows_of k bs) \<subseteq> set (t_deltas (\<alpha> d))" using sub by (auto simp: rows_of_def)
  ultimately have "\<forall>x \<in> set (row_items t). \<exists>enc txt clock sn. x = JsonText (snapshot_json enc txt clock sn)"
    using snapshots_of_rows [OF only] by simp
  from harmless_decode [OF this] Some show ?thesis
    by (cases "decode_deltas dec t") (simp_all add: recovery_deltas_def harmless_def [of "[]"])
qed (simp add: recovery_deltas_def harmless_def)


definition demo_snapshot :: workflow_snapshot where
  "demo_snapshot =
     \<lparr>snap_WorkflowUUID = ''demo'', snap_ExecutionID = 2, snap_Status = WorkflowStatusRunning,
      ChangedTasks = [\<lparr>td_TaskName = ''a'', td_Action = DeltaCompleted, td_Output = None, td_Result = NoMsg\<rparr>],
      snap_Error = NoMsg, snap_UpdatedAt = 0\<rparr>"

definition demo_crashed :: mem_history where
  "demo_crashed = demo_history\<lparr>md_tables := (md_tables demo_history)
     \<lparr>t_executions := [\<lparr>ex_ID = 2, ex_WorkflowID = 1, ex_Data = JsonText JNull, ex_Status = WorkflowStatusRUNNING, ex_Error = '''', ex_StartedAt = 0\<rparr>],
      t_deltas := [\<lparr>dl_ID = 3, dl_ExecutionID = 2,
        dl_Data = JsonText (snapshot_json (\<lambda>_. JNull) (\<lambda>_. '''') (\<lambda>_. '''') demo_snapshot)\<rparr>]\<rparr>\<rparr>"

definition demo_restarted :: sched where
  "demo_restarted = demo_sched\<lparr>conf := (conf demo_sched)\<lparr>HasHistoryStore := True\<rparr>\<rparr>"



subsection \<open>Starting a workflow whose definition is stored\<close>

definition buildTaskDefs :: "string list \<Rightarrow> TaskDef list" where
  "buildTaskDefs taskNames = map (\<lambda>n. \<lparr>tdef_Name = n, tdef_Params = None\<rparr>) taskNames"

text \<open>The arguments with which \<^verbatim>\<open>RegisterWorkflow\<close>, \<^verbatim>\<open>SaveWorkflow\<close> and \<^verbatim>\<open>asyncInitMySQL\<close> call the store.\<close>

definition store_args :: "workflow \<Rightarrow> def_args" where
  "store_args w =
     \<lparr>da_UUID = wf_UUID w, da_Name = wf_Name w, da_Tasks = buildTaskDefs (AllTaskNames w), da_TimeoutSec = TimeoutSec w,
      da_TaskTimeoutSec = TaskTimeoutSec w, da_MaxRetries = wf_MaxRetries w, da_BaseBackoff = wf_BaseBackoff w,
      da_Trigger = Trigger w, da_CronExpr = CronExpr w\<rparr>"

context history_db
begin

lemma def_written_takes: "def_written marshal a wid T T' \<Longrightarrow> uuid_taken (da_UUID a) T'"
  by (auto simp: def_written_def uuid_taken_def definition_row_def)

lemma after_statement_keeps_uuid: "uuid_taken u T \<Longrightarrow> uuid_taken u (after_statement st i T)"
proof -
  have taken: "uuid_taken u T \<longleftrightarrow> u \<in> set (map wr_UUID (t_workflows T))" for T by (auto simp: uuid_taken_def)
  show "uuid_taken u T \<Longrightarrow> uuid_taken u (after_statement st i T)"
    unfolding taken by (cases st) (simp_all add: after_definition_def image_image if_distrib [of wr_UUID], blast+)
qed

text \<open>No statement of the store frees a UUID.\<close>

lemma exec_keeps_uuid: "g_Exec g st d = (r, d') \<Longrightarrow> uuid_taken u (\<alpha> d) \<Longrightarrow> uuid_taken u (\<alpha> d')"
  using exec_law [of st d _ d'] exec_lost [of st d d'] after_statement_keeps_uuid by (cases r) metis+

lemma create_tasks_keeps_uuid:
  "create_tasks g marshal wid i ts tx cache = (ok, tx', cache') \<Longrightarrow> uuid_taken u (\<alpha> tx) \<Longrightarrow> uuid_taken u (\<alpha> tx')"
proof (induction ts arbitrary: i tx cache)
  case (Cons t ts)
  then show ?case by (auto dest: exec_keeps_uuid split: option.splits prod.splits)
qed simp

lemma Upsert_takes_uuid:
  assumes run: "UpsertWorkflowDef g marshal a s = (Some wid, s')"
  shows "uuid_taken (da_UUID a) (\<alpha> (hs_db s'))"
proof -
  obtain r where r: "g_FirstByUUID g (da_UUID a) (hs_db s) = Some r"
    using run by (auto simp: UpsertWorkflowDef_def split: option.splits)
  show ?thesis
  proof (cases r)
    case None
    with run r have "SaveWorkflowDef g marshal a s = (Some wid, s')" by (simp add: UpsertWorkflowDef_def)
    from SaveWorkflowDef_cases [OF this] def_written_takes show ?thesis by auto
  next
    case (Some ex)
    have "uuid_taken (da_UUID a) (\<alpha> (g_Begin g (hs_db s)))"
      using first_law [OF r] Some by (fastforce simp: begin_law uuid_taken_def find_Some_iff dest!: sym [of "Some ex"])
    moreover obtain r1 tx1 where u: "g_Exec g (UpdateDefinition (wr_ID ex) a) (g_Begin g (hs_db s)) = (r1, tx1)" by fastforce
    ultimately have t1: "uuid_taken (da_UUID a) (\<alpha> tx1)" by (blast intro: exec_keeps_uuid)
    obtain r2 tx2 where d: "g_Exec g (DeleteTasks (wr_ID ex)) tx1 = (r2, tx2)" by fastforce
    then have t2: "uuid_taken (da_UUID a) (\<alpha> tx2)" using t1 by (blast intro: exec_keeps_uuid)
    obtain ok tx3 cache where c: "create_tasks g marshal (wr_ID ex) 0 (da_Tasks a) tx2 (taskIDCache s) = (ok, tx3, cache)"
      by (metis prod_cases3)
    have t3: "uuid_taken (da_UUID a) (\<alpha> tx3)" by (rule create_tasks_keeps_uuid [OF c t2])
    have "end_transaction g (wr_ID ex) (ok, tx3, cache) s = (Some wid, s')"
      using run r Some u d c by (auto simp: UpsertWorkflowDef_def split: option.splits)
    from end_transaction_cases [OF this] t3 show ?thesis by auto
  qed
qed

end

text \<open>A workflow whose definition is already stored cannot run beside MySQL. Registering a
  workflow stores its UUID (\<open>Upsert_takes_uuid\<close>) and no statement frees it. Once it is stored, the
  save with which every start of this workflow begins fails and changes nothing; the start-up then
  takes the workflow out of the running table, whatever it has done so far: it is neither completed
  nor failed, nothing is broadcast or written, and no other workflow is affected.\<close>

theorem stored_definition_cannot_run:
  assumes db: "history_db g \<alpha>" and taken: "uuid_taken (wf_UUID w) (\<alpha> (hs_db hs))"
    and save: "SaveWorkflowDef g marshal (store_args w) hs = (saved, hs')"
  shows "saved = None \<and> \<alpha> (hs_db hs') = \<alpha> (hs_db hs)
     \<and> (let s' = asyncInitMySQL (wf_UUID w) saved created s in
          running (wf_UUID w) s' = None \<and> log s' = log s \<and> workflowHistory s' = workflowHistory s
          \<and> running (wf_UUID v) s' = (if wf_UUID v = wf_UUID w then None else running (wf_UUID v) s))"
proof -
  have none: "saved = None" "\<alpha> (hs_db hs') = \<alpha> (hs_db hs)"
    using history_db.SaveWorkflowDef_cases [OF db save] taken by (auto simp: store_args_def split: option.splits)
  show ?thesis
    by (cases "running (wf_UUID w) s")
       (simp_all add: none asyncInitMySQL_def asyncInit_workflow_def cleanupWorkflowState_def cleanSnapshotThrottle_def
         cleanupTaskListeners_def cancel_ctx_def running_def Let_def delete_conv')
qed

theorem stored_definition_cannot_run_witness:
  "\<exists>hs'. SaveWorkflowDef mem_gorm demo_marshal (store_args (demo_serial\<lparr>wf_UUID := ''w''\<rparr>)) demo_saved = (None, hs')
     \<and> running ''w'' (asyncInitMySQL ''w'' None (Some 1) demo_sched) = None"
proof -
  obtain r hs' where r: "SaveWorkflowDef mem_gorm demo_marshal (store_args (demo_serial\<lparr>wf_UUID := ''w''\<rparr>)) demo_saved = (r, hs')"
    by fastforce
  have taken: "uuid_taken (wf_UUID (demo_serial\<lparr>wf_UUID := ''w''\<rparr>)) (md_tables (hs_db demo_saved))"
    using demo_saved_tables(2) by (auto simp: uuid_taken_def)
  from stored_definition_cannot_run [OF mem.history_db_axioms taken r, of "Some 1" demo_sched] r show ?thesis
    by (auto simp: Let_def)
qed

end
