(* ===== verification/Http_Handlers.thy ===== *)
theory Http_Handlers
  imports Recovery Worker_Manager
begin

text \<open>
  The REST interface (\<^verbatim>\<open>transport/http/handlers\<close>, the routes of \<^verbatim>\<open>transport/http/server\<close>). A handler is a
  function from a request to a response and the master's new state. What \<^verbatim>\<open>gin\<close> binds from the
  request is its argument: \<open>Inl\<close> the error, \<open>Inr\<close> the bound structure; the record \<open>http_env\<close> holds the
  other answers of the outside (time, new UUIDs, the cron parser, pings, history queries).
\<close>

subsection \<open>Requests and responses\<close>

type_synonym 'a bound = "string + 'a"

record create_request =
  cr_Name :: string
  cr_TaskGroups :: task_groups
  cr_Trigger :: string
  cr_CronExpr :: string
  cr_TimeoutSec :: "int option"
  cr_TaskTimeoutSec :: "int option"
  cr_MaxRetries :: "int option"
  cr_BaseBackoff :: "int option"
  cr_ErrorPolicy :: "error_policy option"

datatype http_error =
    ErrBinding string            \<comment> \<open>the request does not bind\<close>
  | ErrMissing                   \<comment> \<open>no name or no task groups\<close>
  | ErrEngine lifecycle_error
  | ErrStore
  | ErrNoWorkflow
  | ErrNoHistory

record dashboard_stats =
  ds_RunningCount :: int
  ds_PausedCount :: int
  ds_CompletedCount :: int
  ds_FailedCount :: int
  ds_AliveWorkers :: int
  ds_TotalWorkers :: int
  ds_Running :: "workflow_state list"
  ds_Workers :: "worker_state list"

record history_page =
  hp_List :: "workflow_state list"
  hp_Total :: int
  hp_Page :: int
  hp_PageSize :: int

text \<open>The messages of \<^verbatim>\<open>MessageResponse\<close>.\<close>

datatype notice = Cancelled | Approved | Rejected

datatype resp_data =
    NoData
  | DWorkflow uuid string
  | DName uuid
  | DMessage notice
  | DState workflow_state
  | DStates "workflow_state list"
  | DPage history_page
  | DDashboard dashboard_stats
  | DMetrics backlog_metrics
  | DTaskTypes "task_type list"
  | DWorkers "worker_state list"
  | DListeners "event_listener list"

record component_health =
  ch_OK :: bool
  ch_Latency :: "go_duration option"
  ch_Error :: "string option"

record db_stats =
  OpenConnections :: int
  InUse :: int
  Idle :: int
  MaxOpenConnections :: int

record mysql_health = component_health +
  mh_Stats :: "db_stats option"

record queue_health =
  qh_OK :: bool
  qh_PendingTasks :: int
  qh_ActiveTasks :: int
  qh_QueueDepthPerWorker :: int

record health_status =
  hs_Status :: string
  hs_Etcd :: component_health
  hs_MySQL :: mysql_health
  hs_Queue :: queue_health

text \<open>\<^verbatim>\<open>Response{Code, Msg, Data}\<close>, the health report, or the empty answer of \<^verbatim>\<open>gin.Recovery\<close>.\<close>

datatype body =
    Envelope int "http_error option" resp_data
  | HealthBody health_status
  | EmptyBody

type_synonym response = "nat \<times> body"

abbreviation StatusOK :: nat where "StatusOK \<equiv> 200"
abbreviation StatusCreated :: nat where "StatusCreated \<equiv> 201"
abbreviation StatusBadRequest :: nat where "StatusBadRequest \<equiv> 400"
abbreviation StatusNotFound :: nat where "StatusNotFound \<equiv> 404"
abbreviation StatusInternalServerError :: nat where "StatusInternalServerError \<equiv> 500"
abbreviation StatusServiceUnavailable :: nat where "StatusServiceUnavailable \<equiv> 503"

definition reply :: "nat \<Rightarrow> resp_data \<Rightarrow> response" where
  "reply status d = (status, Envelope 0 None d)"

definition refuse :: "nat \<Rightarrow> http_error \<Rightarrow> response" where
  "refuse status e = (status, Envelope 1 (Some e) NoData)"


subsection \<open>The master behind the handlers\<close>

text \<open>\<open>ms_cron\<close>: the workflows whose submission is registered with the cron library.\<close>

record 'db master =
  ms_sched :: sched
  ms_workers :: worker_mgr
  ms_history :: "'db history_store"
  ms_cron :: "workflow list"

record http_env =
  he_env :: env
  he_uuid :: uuid                             \<comment> \<open>the next new UUID\<close>
  he_cron :: "string \<Rightarrow> bool"                 \<comment> \<open>does the cron library accept the expression\<close>
  he_load :: "uuid \<Rightarrow> workflow_state option"   \<comment> \<open>the latest stored execution\<close>
  he_page :: "int \<Rightarrow> int \<Rightarrow> (workflow_state option list \<times> int) option"
  he_etcd_ping :: "go_duration \<times> string option"
  he_mysql_ping :: "go_duration \<times> string option"
  he_mysql_stats :: db_stats

text \<open>A handler that runs one operation of the scheduler and answers with its outcome. A panic of
  the operation is caught by \<^verbatim>\<open>gin.Recovery\<close>.\<close>

definition engine_reply :: "nat \<Rightarrow> resp_data \<Rightarrow> lifecycle_error + unit \<Rightarrow> response" where
  "engine_reply status d r =
     (case r of
        Inl IndexPanic \<Rightarrow> (StatusInternalServerError, EmptyBody)
      | Inl e \<Rightarrow> refuse StatusBadRequest (ErrEngine e)
      | Inr _ \<Rightarrow> reply status d)"

definition run_engine ::
  "nat \<Rightarrow> resp_data \<Rightarrow> (sched \<Rightarrow> (lifecycle_error + unit) \<times> sched) \<Rightarrow> 'db master \<Rightarrow> response \<times> 'db master" where
  "run_engine status d f m =
     (case f (ms_sched m) of (r, s') \<Rightarrow> (engine_reply status d r, m\<lparr>ms_sched := s'\<rparr>))"


subsection \<open>Workflows (\<^verbatim>\<open>workflows.go\<close>)\<close>

text \<open>The workflow of a request: what the request leaves out is the zero value.\<close>

definition requested_workflow :: "create_request \<Rightarrow> uuid \<Rightarrow> workflow" where
  "requested_workflow req u =
     \<lparr>wf_UUID = u, wf_Name = cr_Name req, TaskGroups = cr_TaskGroups req,
      Trigger = (if cr_Trigger req = TriggerCron then TriggerCron else TriggerManual),
      CronExpr = (if cr_Trigger req = TriggerCron then cr_CronExpr req else ''''), EventTrigger = None,
      TimeoutSec = (case cr_TimeoutSec req of None \<Rightarrow> 0 | Some n \<Rightarrow> n),
      TaskTimeoutSec = (case cr_TaskTimeoutSec req of None \<Rightarrow> 0 | Some n \<Rightarrow> n),
      wf_MaxRetries = (case cr_MaxRetries req of None \<Rightarrow> 0 | Some n \<Rightarrow> n),
      wf_BaseBackoff = (case cr_BaseBackoff req of None \<Rightarrow> 0 | Some n \<Rightarrow> n),
      wf_Priority = 0, ErrorPolicy = cr_ErrorPolicy req\<rparr>"

text \<open>\<^verbatim>\<open>WorkflowManager.SaveWorkflow\<close>: without MySQL there is nothing to write.\<close>

definition SaveWorkflow ::
  "'db gorm \<Rightarrow> (vars option \<Rightarrow> json_text option) \<Rightarrow> config \<Rightarrow> workflow \<Rightarrow> 'db history_store \<Rightarrow> bool \<times> 'db history_store" where
  "SaveWorkflow g marshal c w hs =
     (if HasHistoryStore c then (case SaveWorkflowDef g marshal (store_args w) hs of (r, hs') \<Rightarrow> (r \<noteq> None, hs'))
      else (True, hs))"

definition schedule_cron :: "http_env \<Rightarrow> workflow \<Rightarrow> 'db master \<Rightarrow> response \<times> 'db master" where
  "schedule_cron he w m =
     (case ScheduleCronWorkflow (he_cron he) w of
        Inl e \<Rightarrow> (refuse StatusBadRequest (ErrEngine e), m)
      | Inr w' \<Rightarrow> (reply StatusCreated (DWorkflow (wf_UUID w) (wf_Name w)), m\<lparr>ms_cron := ms_cron m @ [w']\<rparr>))"

definition Http_CreateWorkflow ::
  "'db gorm \<Rightarrow> (vars option \<Rightarrow> json_text option) \<Rightarrow> http_env \<Rightarrow> create_request bound \<Rightarrow> 'db master
     \<Rightarrow> response \<times> 'db master" where
  "Http_CreateWorkflow g marshal he breq m =
     (case breq of
        Inl err \<Rightarrow> (refuse StatusBadRequest (ErrBinding err), m)
      | Inr req \<Rightarrow>
          if cr_Name req = '''' \<or> cr_TaskGroups req = [] then (refuse StatusBadRequest ErrMissing, m)
          else
            (let w = requested_workflow req (he_uuid he) in
             if Trigger w = TriggerCron then
               (case SaveWorkflow g marshal (conf (ms_sched m)) w (ms_history m) of
                  (False, hs) \<Rightarrow> (refuse StatusBadRequest ErrStore, m\<lparr>ms_history := hs\<rparr>)
                | (True, hs) \<Rightarrow> schedule_cron he w (m\<lparr>ms_history := hs\<rparr>))
             else run_engine StatusCreated (DWorkflow (wf_UUID w) (wf_Name w)) (SubmitWorkflow (now (he_env he)) w) m))"

definition list_workflows :: "workflow_state list \<Rightarrow> workflow_state list \<Rightarrow> workflow_state list" where
  "list_workflows active_states pend =
     (let seen = set (map (wf_UUID \<circ> st_Workflow) active_states)
      in active_states @ filter (\<lambda>st. wf_UUID (st_Workflow st) \<notin> seen) pend)"

definition Http_ListWorkflows :: "'db master \<Rightarrow> response" where
  "Http_ListWorkflows m =
     reply StatusOK (DStates (list_workflows (ListWorkflowStates (ms_sched m)) (ListWorkflowDefs (ms_sched m))))"

definition find_workflow :: "(uuid \<Rightarrow> workflow_state option) \<Rightarrow> uuid \<Rightarrow> sched \<Rightarrow> workflow_state option" where
  "find_workflow load u s =
     (case GetWorkflowState u s of
        Some st \<Rightarrow> Some st
      | None \<Rightarrow>
          (case GetRegisteredWorkflow u s of
             Some w \<Rightarrow> Some ((pending_state w)\<lparr>WorkflowUUID := wf_UUID w\<rparr>)
           | None \<Rightarrow> GetHistory load u s))"

definition Http_GetWorkflow :: "http_env \<Rightarrow> uuid \<Rightarrow> 'db master \<Rightarrow> response" where
  "Http_GetWorkflow he u m =
     (case find_workflow (he_load he) u (ms_sched m) of
        None \<Rightarrow> refuse StatusNotFound ErrNoWorkflow
      | Some st \<Rightarrow> reply StatusOK (DState st))"

definition Http_CancelWorkflow :: "uuid \<Rightarrow> 'db master \<Rightarrow> response \<times> 'db master" where
  "Http_CancelWorkflow u = run_engine StatusOK (DMessage Cancelled) (CancelWorkflow u)"

definition Http_RetryWorkflow :: "http_env \<Rightarrow> uuid \<Rightarrow> 'db master \<Rightarrow> response \<times> 'db master" where
  "Http_RetryWorkflow he u = run_engine StatusCreated (DName u) (RetryWorkflow (now (he_env he)) u)"

definition Http_RunWorkflow :: "http_env \<Rightarrow> uuid \<Rightarrow> 'db master \<Rightarrow> response \<times> 'db master" where
  "Http_RunWorkflow he u = run_engine StatusCreated (DName u) (RunWorkflow (now (he_env he)) u)"

definition Http_ApproveWorkflow :: "uuid \<Rightarrow> 'db master \<Rightarrow> response \<times> 'db master" where
  "Http_ApproveWorkflow u = run_engine StatusOK (DMessage Approved) (ApproveWorkflow u)"

text \<open>The reason is optional: a body that does not bind leaves what was bound of it.\<close>

definition Http_RejectWorkflow :: "http_env \<Rightarrow> uuid \<Rightarrow> string \<Rightarrow> 'db master \<Rightarrow> response \<times> 'db master" where
  "Http_RejectWorkflow he u reason = run_engine StatusOK (DMessage Rejected) (RejectWorkflow (he_env he) u reason)"


subsection \<open>Web hooks, history, workers (\<^verbatim>\<open>webhook.go\<close>, \<^verbatim>\<open>history.go\<close>, \<^verbatim>\<open>workers.go\<close>, \<^verbatim>\<open>tasks.go\<close>)\<close>

definition Http_TriggerWebhook :: "http_env \<Rightarrow> uuid \<Rightarrow> vars \<Rightarrow> 'db master \<Rightarrow> response \<times> 'db master" where
  "Http_TriggerWebhook he u payload = run_engine StatusCreated (DName u) (TriggerWebhook (now (he_env he)) u payload)"

definition Http_ListWebhookWorkflows :: "'db master \<Rightarrow> response" where
  "Http_ListWebhookWorkflows m = reply StatusOK (DListeners (ListWebhookWorkflows (etm (ms_sched m))))"

definition Http_ListHistory :: "'db master \<Rightarrow> response" where
  "Http_ListHistory m = reply StatusOK (DStates (ListHistory (ms_sched m)))"

abbreviation maxPageSize :: int where "maxPageSize \<equiv> 100"

definition page_of :: "int \<times> int \<Rightarrow> int \<times> int" where
  "page_of = (\<lambda>(page, n).
     (if page = 0 then 1 else page,
      let n1 = (if n = 0 then 10 else n) in if maxPageSize < n1 then maxPageSize else n1))"

definition Http_ListHistoryPaged :: "http_env \<Rightarrow> (int \<times> int) bound \<Rightarrow> 'db master \<Rightarrow> response" where
  "Http_ListHistoryPaged he breq m =
     (case breq of
        Inl err \<Rightarrow> refuse StatusBadRequest (ErrBinding err)
      | Inr req \<Rightarrow>
          (case page_of req of (page, pageSize) \<Rightarrow>
             (case ListHistoryPaged (he_page he) page pageSize (ms_sched m) of (l, tot) \<Rightarrow>
                reply StatusOK (DPage \<lparr>hp_List = l, hp_Total = tot, hp_Page = page, hp_PageSize = pageSize\<rparr>))))"

definition Http_GetHistory :: "http_env \<Rightarrow> uuid \<Rightarrow> 'db master \<Rightarrow> response" where
  "Http_GetHistory he u m =
     (case GetHistory (he_load he) u (ms_sched m) of
        None \<Rightarrow> refuse StatusNotFound ErrNoHistory
      | Some st \<Rightarrow> reply StatusOK (DState st))"

definition Http_ListWorkers :: "'db master \<Rightarrow> response" where
  "Http_ListWorkers m = reply StatusOK (DWorkers (ListWorkers (ms_workers m)))"

definition Http_ListTaskTypes :: "'db master \<Rightarrow> response" where
  "Http_ListTaskTypes m = reply StatusOK (DTaskTypes (ListTaskTypes (ms_workers m)))"

definition GetBacklogMetrics :: "'db master \<Rightarrow> backlog_metrics" where
  "GetBacklogMetrics m = Refresh (td_state.truncate (ms_sched m)) (ms_workers m)"

definition Http_Metrics :: "'db master \<Rightarrow> response" where
  "Http_Metrics m = reply StatusOK (DMetrics (GetBacklogMetrics m))"


subsection \<open>Dashboard and health (\<^verbatim>\<open>dashboard.go\<close>, \<^verbatim>\<open>health.go\<close>)\<close>

definition DashboardAPI :: "'db master \<Rightarrow> response" where
  "DashboardAPI m =
     (let workflows = ListWorkflowStates (ms_sched m); workers = ListWorkers (ms_workers m)
      in reply StatusOK (DDashboard
           \<lparr>ds_RunningCount = int (length (filter (\<lambda>st. st_Status st = WorkflowStatusRunning) workflows)),
            ds_PausedCount = int (length (filter (\<lambda>st. st_Status st = WorkflowStatusPaused) workflows)),
            ds_CompletedCount = completedCount (ms_sched m), ds_FailedCount = failedCount (ms_sched m),
            ds_AliveWorkers = int (length (filter (\<lambda>w. ws_Status w = WorkerStatusAlive) workers)),
            ds_TotalWorkers = int (length workers), ds_Running = workflows, ds_Workers = workers\<rparr>))"

definition checkEtcd :: "go_duration \<times> string option \<Rightarrow> component_health" where
  "checkEtcd ping =
     (case ping of (latency, err) \<Rightarrow> \<lparr>ch_OK = err = None, ch_Latency = Some latency, ch_Error = err\<rparr>)"

definition checkMySQL :: "bool \<Rightarrow> go_duration \<times> string option \<Rightarrow> db_stats \<Rightarrow> mysql_health" where
  "checkMySQL configured ping stats =
     (if \<not> configured then
        \<lparr>ch_OK = True, ch_Latency = None, ch_Error = Some ''mysql not configured'', mh_Stats = None\<rparr>
      else case ping of
          (latency, Some err) \<Rightarrow> \<lparr>ch_OK = False, ch_Latency = Some latency, ch_Error = Some err, mh_Stats = None\<rparr>
        | (latency, None) \<Rightarrow> \<lparr>ch_OK = True, ch_Latency = Some latency, ch_Error = None, mh_Stats = Some stats\<rparr>)"

definition checkQueue :: "'db master \<Rightarrow> queue_health" where
  "checkQueue m =
     (let b = GetBacklogMetrics m
      in \<lparr>qh_OK = True, qh_PendingTasks = bm_PendingTasks b, qh_ActiveTasks = bm_ActiveTasks b,
          qh_QueueDepthPerWorker = QueueDepthPerWorker b\<rparr>)"

definition Health :: "http_env \<Rightarrow> 'db master \<Rightarrow> response" where
  "Health he m =
     (let etcd = checkEtcd (he_etcd_ping he);
          mysql = checkMySQL (HasHistoryStore (conf (ms_sched m))) (he_mysql_ping he) (he_mysql_stats he);
          overallOK = (ch_OK etcd \<and> ch_OK mysql)
      in (if overallOK then StatusOK else StatusServiceUnavailable,
          HealthBody \<lparr>hs_Status = (if overallOK then ''ok'' else ''unhealthy''), hs_Etcd = etcd, hs_MySQL = mysql,
                      hs_Queue = checkQueue m\<rparr>))"

subsection \<open>The routes (\<^verbatim>\<open>server.go\<close>)\<close>

text \<open>The requests of the API with what is bound from them: the UUID of the path, the query, the body.\<close>

datatype api_request =
    GetHealth
  | GetMetrics
  | GetDashboard
  | GetTasks
  | GetWorkers
  | PostWorkflow "create_request bound"
  | GetWorkflows
  | GetWorkflow "uuid bound"
  | DeleteWorkflow "uuid bound"
  | PostRetry "uuid bound"
  | PostRun "uuid bound"
  | PostApprove "uuid bound"
  | PostReject "uuid bound" string
  | GetHistories
  | GetHistoriesPaged "(int \<times> int) bound"
  | GetHistoryOf "uuid bound"
  | PostWebhook "uuid bound" vars
  | GetWebhooks

definition with_uuid :: "uuid bound \<Rightarrow> (uuid \<Rightarrow> 'db master \<Rightarrow> response \<times> 'db master) \<Rightarrow> 'db master \<Rightarrow> response \<times> 'db master" where
  "with_uuid bu h m = (case bu of Inl err \<Rightarrow> (refuse StatusBadRequest (ErrBinding err), m) | Inr u \<Rightarrow> h u m)"

fun serve ::
  "'db gorm \<Rightarrow> (vars option \<Rightarrow> json_text option) \<Rightarrow> http_env \<Rightarrow> api_request \<Rightarrow> 'db master \<Rightarrow> response \<times> 'db master" where
  "serve g marshal he GetHealth m = (Health he m, m)"
| "serve g marshal he GetMetrics m = (Http_Metrics m, m)"
| "serve g marshal he GetDashboard m = (DashboardAPI m, m)"
| "serve g marshal he GetTasks m = (Http_ListTaskTypes m, m)"
| "serve g marshal he GetWorkers m = (Http_ListWorkers m, m)"
| "serve g marshal he (PostWorkflow req) m = Http_CreateWorkflow g marshal he req m"
| "serve g marshal he GetWorkflows m = (Http_ListWorkflows m, m)"
| "serve g marshal he (GetWorkflow bu) m = with_uuid bu (\<lambda>u m. (Http_GetWorkflow he u m, m)) m"
| "serve g marshal he (DeleteWorkflow bu) m = with_uuid bu Http_CancelWorkflow m"
| "serve g marshal he (PostRetry bu) m = with_uuid bu (Http_RetryWorkflow he) m"
| "serve g marshal he (PostRun bu) m = with_uuid bu (Http_RunWorkflow he) m"
| "serve g marshal he (PostApprove bu) m = with_uuid bu Http_ApproveWorkflow m"
| "serve g marshal he (PostReject bu reason) m = with_uuid bu (\<lambda>u. Http_RejectWorkflow he u reason) m"
| "serve g marshal he GetHistories m = (Http_ListHistory m, m)"
| "serve g marshal he (GetHistoriesPaged req) m = (Http_ListHistoryPaged he req m, m)"
| "serve g marshal he (GetHistoryOf bu) m = with_uuid bu (\<lambda>u m. (Http_GetHistory he u m, m)) m"
| "serve g marshal he (PostWebhook bu payload) m = with_uuid bu (\<lambda>u. Http_TriggerWebhook he u payload) m"
| "serve g marshal he GetWebhooks m = (Http_ListWebhookWorkflows m, m)"


lemmas handler_defs = run_engine_def Http_CancelWorkflow_def Http_RetryWorkflow_def Http_RunWorkflow_def
  Http_ApproveWorkflow_def Http_RejectWorkflow_def Http_TriggerWebhook_def Http_CreateWorkflow_def schedule_cron_def
  with_uuid_def


subsection \<open>A request is at most one operation of the scheduler\<close>

text \<open>The operation a request asks for.\<close>

fun asked :: "http_env \<Rightarrow> api_request \<Rightarrow> sys_op option" where
  "asked he (PostWorkflow (Inr req)) =
     (if cr_Name req = '''' \<or> cr_TaskGroups req = [] \<or> cr_Trigger req = TriggerCron then None
      else Some (OpSubmit (now (he_env he)) (requested_workflow req (he_uuid he))))"
| "asked he (DeleteWorkflow (Inr u)) = Some (OpCancel u)"
| "asked he (PostRetry (Inr u)) = Some (OpRetryWorkflow (now (he_env he)) u)"
| "asked he (PostRun (Inr u)) = Some (OpRun (now (he_env he)) u)"
| "asked he (PostApprove (Inr u)) = Some (OpApprove u)"
| "asked he (PostReject (Inr u) reason) = Some (OpReject (he_env he) u reason)"
| "asked he (PostWebhook (Inr u) payload) = Some (OpWebhook (now (he_env he)) u payload)"
| "asked he _ = None"

lemma requested_trigger: "Trigger (requested_workflow req u) = TriggerCron \<longleftrightarrow> cr_Trigger req = TriggerCron"
  by (simp add: requested_workflow_def)

lemma run_engine_sched: "ms_sched (snd (run_engine status d f m)) = snd (f (ms_sched m))"
  by (simp add: run_engine_def split: prod.splits)

lemma run_engine_rest:
  "ms_workers (snd (run_engine status d f m)) = ms_workers m" "ms_history (snd (run_engine status d f m)) = ms_history m"
  "ms_cron (snd (run_engine status d f m)) = ms_cron m"
  by (simp_all add: run_engine_def split: prod.splits)

lemma serve_sched:
  "ms_sched (snd (serve g marshal he rq m)) = (case asked he rq of None \<Rightarrow> ms_sched m | Some x \<Rightarrow> sys_step x (ms_sched m))"
proof (cases rq)
  case (PostWorkflow req)
  then show ?thesis
    by (cases req) (auto simp: Http_CreateWorkflow_def Let_def run_engine_sched requested_trigger schedule_cron_def
        split: sum.splits prod.splits bool.splits)
next
  case (DeleteWorkflow bu) then show ?thesis by (cases bu) (simp_all add: with_uuid_def Http_CancelWorkflow_def run_engine_sched)
next
  case (PostRetry bu) then show ?thesis by (cases bu) (simp_all add: with_uuid_def Http_RetryWorkflow_def run_engine_sched)
next
  case (PostRun bu) then show ?thesis by (cases bu) (simp_all add: with_uuid_def Http_RunWorkflow_def run_engine_sched)
next
  case (PostApprove bu) then show ?thesis by (cases bu) (simp_all add: with_uuid_def Http_ApproveWorkflow_def run_engine_sched)
next
  case (PostReject bu reason) then show ?thesis by (cases bu) (simp_all add: with_uuid_def Http_RejectWorkflow_def run_engine_sched)
next
  case (PostWebhook bu payload) then show ?thesis by (cases bu) (simp_all add: with_uuid_def Http_TriggerWebhook_def run_engine_sched)
qed (auto simp: with_uuid_def split: sum.splits)

subsection \<open>Answers\<close>

definition is_success :: "response \<Rightarrow> bool" where
  "is_success r \<longleftrightarrow> fst r = StatusOK \<or> fst r = StatusCreated"

text \<open>The operations a request may run leave the scheduler as it is when they refuse; retrying may
  take the workflow out of the history before its submission is refused.\<close>

lemma Submit_refuses: "fst (SubmitWorkflow t w s) = Inl e \<Longrightarrow> snd (SubmitWorkflow t w s) = s"
  by (auto simp: SubmitWorkflow_def Let_def split: sum.splits if_splits)

lemma Run_refuses: "fst (RunWorkflow t u s) = Inl e \<Longrightarrow> snd (RunWorkflow t u s) = s"
  by (auto simp: RunWorkflow_def dest: Submit_refuses split: option.splits if_splits)

lemma Cancel_refuses: "fst (CancelWorkflow u s) = Inl e \<Longrightarrow> snd (CancelWorkflow u s) = s"
  by (auto simp: CancelWorkflow_def Let_def split: option.splits if_splits)

lemma Approve_refuses: "fst (ApproveWorkflow u s) = Inl e \<Longrightarrow> snd (ApproveWorkflow u s) = s"
  by (auto simp: ApproveWorkflow_def Let_def split: option.splits if_splits)

lemma Reject_refuses: "fst (RejectWorkflow ev u reason s) = Inl e \<Longrightarrow> snd (RejectWorkflow ev u reason s) = s"
  by (auto simp: RejectWorkflow_def Let_def split: option.splits if_splits)

lemma Webhook_refuses: "fst (TriggerWebhook t u payload s) = Inl e \<Longrightarrow> snd (TriggerWebhook t u payload s) = s"
  by (auto simp: TriggerWebhook_def dest: Submit_refuses split: sum.splits option.splits list.splits if_splits)



lemma is_success_simps [simp]:
  "is_success (reply StatusOK d)" "is_success (reply StatusCreated d)"
  "\<not> is_success (refuse StatusBadRequest e)" "\<not> is_success (refuse StatusNotFound e)"
  "\<not> is_success (StatusInternalServerError, b)"
  by (simp_all add: is_success_def reply_def refuse_def)

lemma run_engine_answer:
  assumes "status \<in> {StatusOK, StatusCreated}"
  shows "is_success (fst (run_engine status d f m)) \<longleftrightarrow> (\<exists>x. fst (f (ms_sched m)) = Inr x)"
  using assms by (cases "fst (f (ms_sched m))") (auto simp: run_engine_def engine_reply_def split: prod.splits lifecycle_error.splits)

lemma run_engine_refused:
  assumes "\<And>s e. fst (f s) = Inl e \<Longrightarrow> snd (f s) = s"
    and "\<not> is_success (fst (run_engine status d f m))" and "status \<in> {StatusOK, StatusCreated}"
  shows "snd (run_engine status d f m) = m"
proof -
  obtain e where "fst (f (ms_sched m)) = Inl e"
    using assms(2) run_engine_answer [OF assms(3), of d f m] by (cases "fst (f (ms_sched m))") auto
  from assms(1) [OF this] have "snd (f (ms_sched m)) = ms_sched m" .
  then show ?thesis by (cases m) (auto simp: run_engine_def split: prod.splits)
qed

lemmas refused =
  run_engine_refused [where f = "SubmitWorkflow t w" for t w, OF Submit_refuses]
  run_engine_refused [where f = "RunWorkflow t u" for t u, OF Run_refuses]
  run_engine_refused [where f = "CancelWorkflow u" for u, OF Cancel_refuses]
  run_engine_refused [where f = "ApproveWorkflow u" for u, OF Approve_refuses]
  run_engine_refused [where f = "RejectWorkflow ev u reason" for ev u reason, OF Reject_refuses]
  run_engine_refused [where f = "TriggerWebhook t u payload" for t u payload, OF Webhook_refuses]

fun is_retry :: "api_request \<Rightarrow> bool" where
  "is_retry (PostRetry bu) = True"
| "is_retry _ = False"

text \<open>A creation with a cron trigger stores the definition before the expression is looked at.\<close>

fun cron_request :: "api_request \<Rightarrow> create_request option" where
  "cron_request (PostWorkflow (Inr req)) =
     (if cr_Name req = '''' \<or> cr_TaskGroups req = [] \<or> cr_Trigger req \<noteq> TriggerCron then None else Some req)"
| "cron_request _ = None"

lemma serve_refused:
  assumes "\<not> is_success (fst (serve g marshal he rq m))" and "\<not> is_retry rq"
  shows "snd (serve g marshal he rq m) = (case cron_request rq of None \<Rightarrow> m
     | Some req \<Rightarrow> m\<lparr>ms_history := snd (SaveWorkflow g marshal (conf (ms_sched m)) (requested_workflow req (he_uuid he)) (ms_history m))\<rparr>)"
proof (cases rq)
  case (PostWorkflow req)
  then show ?thesis
    using assms
    by (cases req) (auto simp: Http_CreateWorkflow_def Let_def schedule_cron_def refused requested_trigger
        split: sum.splits prod.splits bool.splits if_splits)
next
  case (DeleteWorkflow bu)
  then show ?thesis using assms by (cases bu) (simp_all add: with_uuid_def Http_CancelWorkflow_def refused)
next
  case (PostRun bu)
  then show ?thesis using assms by (cases bu) (simp_all add: with_uuid_def Http_RunWorkflow_def refused)
next
  case (PostApprove bu)
  then show ?thesis using assms by (cases bu) (simp_all add: with_uuid_def Http_ApproveWorkflow_def refused)
next
  case (PostReject bu reason)
  then show ?thesis using assms by (cases bu) (simp_all add: with_uuid_def Http_RejectWorkflow_def refused)
next
  case (PostWebhook bu payload)
  then show ?thesis using assms by (cases bu) (simp_all add: with_uuid_def Http_TriggerWebhook_def refused)
qed (use assms(2) in \<open>auto simp: with_uuid_def split: sum.splits\<close>)

text \<open>A refused retry may have taken the latest execution out of the cached history.\<close>

definition history_forgotten :: "uuid \<Rightarrow> nat \<Rightarrow> sched \<Rightarrow> sched" where
  "history_forgotten u i s = removeFromHistoryOrder i (removeHistoryByUUIDEntry u i (deleteHistory i s))"

lemma Retry_refuses:
  "fst (RetryWorkflow t u s) = Inl e \<Longrightarrow> snd (RetryWorkflow t u s) = s \<or> (\<exists>i. snd (RetryWorkflow t u s) = history_forgotten u i s)"
  by (auto simp: RetryWorkflow_def Let_def history_forgotten_def dest: Submit_refuses split: option.splits if_splits)

lemma retry_refused:
  assumes "\<not> is_success (fst (serve g marshal he (PostRetry bu) m))"
  shows "snd (serve g marshal he (PostRetry bu) m) = m
    \<or> (\<exists>u i. bu = Inr u \<and> snd (serve g marshal he (PostRetry bu) m) = m\<lparr>ms_sched := history_forgotten u i (ms_sched m)\<rparr>)"
proof (cases bu)
  case (Inr u)
  let ?f = "RetryWorkflow (now (he_env he)) u"
  have no: "\<not> is_success (fst (run_engine 201 (DName u) ?f m))"
    using assms Inr by (simp add: with_uuid_def Http_RetryWorkflow_def)
  then obtain e where "fst (?f (ms_sched m)) = Inl e"
    using run_engine_answer [of 201 "DName u" ?f m] by (cases "fst (?f (ms_sched m))") auto
  from Retry_refuses [OF this] show ?thesis using Inr
    by (cases m) (auto simp: with_uuid_def Http_RetryWorkflow_def run_engine_def split: prod.splits)
qed (simp add: with_uuid_def)


subsection \<open>The master under requests\<close>

text \<open>Requests, the scheduler's own operations and worker events in any order.\<close>

datatype master_event = Request http_env api_request | Engine sys_op | Workers wm_event

fun master_step ::
  "'db gorm \<Rightarrow> (vars option \<Rightarrow> json_text option) \<Rightarrow> master_event \<Rightarrow> 'db master \<Rightarrow> 'db master" where
  "master_step g marshal (Request he rq) m = snd (serve g marshal he rq m)"
| "master_step g marshal (Engine x) m = m\<lparr>ms_sched := sys_step x (ms_sched m)\<rparr>"
| "master_step g marshal (Workers e) m = m\<lparr>ms_workers := wm_step e (ms_workers m)\<rparr>"

definition new_master :: "config \<Rightarrow> 'db history_store \<Rightarrow> 'db master" where
  "new_master c hs = \<lparr>ms_sched = new_scheduler c, ms_workers = NewWorkerManager, ms_history = hs, ms_cron = []\<rparr>"

fun worker_events :: "master_event list \<Rightarrow> wm_event list" where
  "worker_events [] = []"
| "worker_events (Workers e # es) = e # worker_events es"
| "worker_events (_ # es) = worker_events es"

lemma serve_workers: "ms_workers (snd (serve g marshal he rq m)) = ms_workers m"
proof (cases rq)
  case (PostWorkflow req)
  then show ?thesis
    by (cases req) (auto simp: Http_CreateWorkflow_def Let_def schedule_cron_def run_engine_rest
        split: sum.splits prod.splits bool.splits)
qed (auto simp: handler_defs split: sum.splits prod.splits)

lemma master_run:
  "ms_workers (fold (master_step g marshal) es m) = fold wm_step (worker_events es) (ms_workers m)"
  "lifecycle_inv (ms_sched m) \<Longrightarrow> lifecycle_inv (ms_sched (fold (master_step g marshal) es m))"
proof (induction es arbitrary: m)
  case (Cons e es)
  { case 1 show ?case using Cons.IH(1) by (cases e) (simp_all add: serve_workers) }
  { case 2
    have "lifecycle_inv (ms_sched (master_step g marshal e m))"
      using 2 by (cases e) (auto simp: serve_sched sys_step_inv split: option.splits)
    then show ?case using Cons.IH(2) by simp }
qed simp_all

subsection \<open>Properties of the interface\<close>


lemma running_all_active:
  assumes "lifecycle_inv s" and "st \<in> set (ListWorkflowStates s)"
  shows "active st"
proof -
  obtain u e where e: "(u, e) \<in> set (runningEntries s)" "st = e_state e" using assms(2) by (auto simp: ListWorkflowStates_def)
  then have "running u s = Some e" using assms(1) by (simp add: running_def lifecycle_inv_def)
  then show ?thesis using assms(1) e(2) by (simp add: lifecycle_inv_def)
qed

lemma count_partition:
  "\<forall>x \<in> set xs. P x \<or> Q x \<Longrightarrow> \<forall>x \<in> set xs. \<not> (P x \<and> Q x) \<Longrightarrow> length (filter P xs) + length (filter Q xs) = length xs"
  by (induction xs) auto

lemma workers_with_ListWorkers:
  "workers_with st m = int (length (filter (\<lambda>w. ws_Status w = st) (ListWorkers m)))"
  by (simp add: workers_with_def ListWorkers_def filter_map comp_def has_status_def [abs_def])

text \<open>C35. What the dashboard shows, after any requests, scheduler operations and worker events on a
  new master: the running and the paused workflows are all the workflows listed; the completed and
  failed ones are those handed to MySQL with that status; and the number of living workers is
  counted from the list, so it exceeds the one of the metrics end point (and of the health check)
  by the number of times a dead worker came back.\<close>

theorem dashboard_exact:
  assumes m: "m = fold (master_step g marshal) es (new_master c hs)"
  shows "\<exists>d. DashboardAPI m = (200, Envelope 0 None (DDashboard d))
     \<and> ds_RunningCount d + ds_PausedCount d = int (length (ds_Running d))
     \<and> ds_CompletedCount d = persists WorkflowStatusCompleted (log (ms_sched m))
     \<and> ds_FailedCount d = persists WorkflowStatusFailed (log (ms_sched m))
     \<and> ds_TotalWorkers d = int (length (ds_Workers d))
     \<and> ds_AliveWorkers d = bm_AliveWorkers (GetBacklogMetrics m) + revivals (worker_events es) NewWorkerManager"
proof -
  have "lifecycle_inv (new_scheduler c)" by (simp add: lifecycle_inv_def new_scheduler_def running_def)
  then have "lifecycle_inv (ms_sched (new_master c hs))" by (simp add: new_master_def)
  then have inv: "lifecycle_inv (ms_sched m)" unfolding m by (rule master_run(2))
  have "wm_inv 0 NewWorkerManager" by (simp add: wm_inv_def NewWorkerManager_def workers_with_def)
  from wm_inv_run [OF this] have "wm_inv (revivals (worker_events es) NewWorkerManager) (ms_workers m)"
    by (simp add: m master_run(1)) (simp add: new_master_def)
  then have alive: "int (length (filter (\<lambda>w. ws_Status w = WorkerStatusAlive) (ListWorkers (ms_workers m))))
      = aliveCount (ms_workers m) + revivals (worker_events es) NewWorkerManager"
    by (simp add: wm_inv_def workers_with_ListWorkers)
  have "length (filter (\<lambda>st. st_Status st = WorkflowStatusRunning) (ListWorkflowStates (ms_sched m)))
      + length (filter (\<lambda>st. st_Status st = WorkflowStatusPaused) (ListWorkflowStates (ms_sched m)))
      = length (ListWorkflowStates (ms_sched m))"
    using running_all_active [OF inv] by (intro count_partition) (auto simp: active_def)
  then show ?thesis
    using inv alive by (simp add: DashboardAPI_def reply_def Let_def GetBacklogMetrics_def Refresh_def lifecycle_inv_def)
qed

text \<open>The pages of the history. For any request that binds (\<^verbatim>\<open>gin\<close> lets through a page and a size
  that are absent or at least one) and a store that, asked for a non-negative offset and a positive
  limit, keeps to the limit: the page shown is at least one and the one asked for, its size lies
  between one and 100 and is the one asked for up to 100, and no more workflows than that are listed.\<close>

theorem history_page_bounds:
  assumes "req = (p, n)" and "0 \<le> p" and "0 \<le> n"
    and "\<And>offset limit records tot. 0 \<le> offset \<Longrightarrow> 0 < limit \<Longrightarrow> he_page he offset limit = Some (records, tot)
           \<Longrightarrow> int (length records) \<le> limit"
  shows "\<exists>pg. Http_ListHistoryPaged he (Inr req) m = (200, Envelope 0 None (DPage pg))
     \<and> 1 \<le> hp_Page pg \<and> 1 \<le> hp_PageSize pg \<and> hp_PageSize pg \<le> 100
     \<and> int (length (hp_List pg)) \<le> hp_PageSize pg
     \<and> (p \<noteq> 0 \<longrightarrow> hp_Page pg = p) \<and> (n \<noteq> 0 \<and> n \<le> 100 \<longrightarrow> hp_PageSize pg = n)"
proof -
  obtain page k where pk: "page_of req = (page, k)" by fastforce
  then have page: "1 \<le> page" "1 \<le> k" "k \<le> 100" "p \<noteq> 0 \<longrightarrow> page = p" "n \<noteq> 0 \<and> n \<le> 100 \<longrightarrow> k = n"
    using assms(1-3) by (auto simp: page_of_def Let_def split: if_splits)
  obtain l tot where lt: "ListHistoryPaged (he_page he) page k (ms_sched m) = (l, tot)" by fastforce
  have off: "0 \<le> (page - 1) * k" using page by simp
  have "int (length l) \<le> k"
  proof (cases "if HasHistoryStore (conf (ms_sched m)) then he_page he ((page - 1) * k) k else None")
    case None
    then show ?thesis using lt page off
      by (auto simp: ListHistoryPaged_def Let_def split: if_splits)
  next
    case (Some rt)
    then obtain records where r: "he_page he ((page - 1) * k) k = Some (records, tot)" "l = List.map_filter id records"
      using lt page by (cases rt) (auto simp: ListHistoryPaged_def Let_def split: if_splits)
    have "length (List.map_filter id records) \<le> length records"
      by (simp add: List.map_filter_def)
    moreover have "int (length records) \<le> k" using assms(4) [OF off _ r(1)] page(2) by simp
    ultimately show ?thesis by (simp add: r(2))
  qed
  then show ?thesis using page by (simp add: Http_ListHistoryPaged_def pk lt reply_def)
qed

definition demo_request :: create_request where
  "demo_request = \<lparr>cr_Name = ''demo'', cr_TaskGroups = [[named_node ''a'']], cr_Trigger = ''manual'', cr_CronExpr = '''',
     cr_TimeoutSec = None, cr_TaskTimeoutSec = None, cr_MaxRetries = None, cr_BaseBackoff = None, cr_ErrorPolicy = None\<rparr>"

definition demo_http :: http_env where
  "demo_http = \<lparr>he_env = demo_env, he_uuid = ''x'', he_cron = (\<lambda>_. True), he_load = Map.empty,
     he_page = (\<lambda>offset limit. if limit = 10 then Some ([Some (pending_state demo_workflow)], 1) else None),
     he_etcd_ping = (0, None), he_mysql_ping = (0, None),
     he_mysql_stats = \<lparr>OpenConnections = 1, InUse = 0, Idle = 1, MaxOpenConnections = 10\<rparr>\<rparr>"

abbreviation demo_master :: "mem_history master" where
  "demo_master \<equiv> new_master (demo_conf\<lparr>HasHistoryStore := True\<rparr>) demo_store"

lemma new_scheduler_tables:
  "running u (new_scheduler c) = None" "GetRegisteredWorkflow u (new_scheduler c) = None" "conf (new_scheduler c) = c"
  by (simp_all add: new_scheduler_def running_def GetRegisteredWorkflow_def)


theorem dashboard_exact_witness:
  "\<exists>d. DashboardAPI (fold (master_step mem_gorm demo_marshal)
          [Workers (Beat (demo_beat 0)), Request demo_http (PostWorkflow (Inr demo_request)), Engine (OpCancel ''x'')] demo_master)
        = (200, Envelope 0 None (DDashboard d))
     \<and> ds_RunningCount d + ds_PausedCount d = int (length (ds_Running d))"
  using dashboard_exact [OF refl, of mem_gorm demo_marshal
      "[Workers (Beat (demo_beat 0)), Request demo_http (PostWorkflow (Inr demo_request)), Engine (OpCancel ''x'')]"
      "demo_conf\<lparr>HasHistoryStore := True\<rparr>" demo_store]
  by blast

theorem history_page_bounds_witness:
  "\<exists>pg. Http_ListHistoryPaged demo_http (Inr (0, 0)) demo_master = (200, Envelope 0 None (DPage pg))
     \<and> int (length (hp_List pg)) \<le> hp_PageSize pg \<and> hp_PageSize pg \<le> 100"
proof -
  have "\<exists>pg. Http_ListHistoryPaged demo_http (Inr (0, 0)) demo_master = (200, Envelope 0 None (DPage pg))
     \<and> 1 \<le> hp_Page pg \<and> 1 \<le> hp_PageSize pg \<and> hp_PageSize pg \<le> 100
     \<and> int (length (hp_List pg)) \<le> hp_PageSize pg
     \<and> ((0 :: int) \<noteq> 0 \<longrightarrow> hp_Page pg = 0) \<and> ((0 :: int) \<noteq> 0 \<and> (0 :: int) \<le> 100 \<longrightarrow> hp_PageSize pg = 0)"
    by (rule history_page_bounds [OF refl]) (auto simp: demo_http_def split: if_splits)
  then show ?thesis by blast
qed

text \<open>C33. Creating a workflow over the API. A request that binds, with a name, groups and a trigger
  other than \<^verbatim>\<open>cron\<close> (\<^verbatim>\<open>event\<close> included) is answered with 201 exactly when its name and its tasks are
  valid; it then runs at once under the new UUID with the name, groups, limits and policy of the
  request (zero where it has none), but as a manual workflow: without an event trigger and without a
  priority, whatever the request says of them. Neither the tables of registered workflows and web
  hooks nor MySQL and the cron jobs change, and a refused request changes nothing.\<close>

theorem CreateWorkflow_starts_it:
  assumes name: "cr_Name req \<noteq> ''''" and groups: "cr_TaskGroups req \<noteq> []" and trigger: "cr_Trigger req \<noteq> TriggerCron"
    and run: "Http_CreateWorkflow g marshal he (Inr req) m = ((status, b), m')"
  shows "(status = 201 \<longleftrightarrow> validateWorkflowName (cr_Name req) = Inr ()
             \<and> validateWorkflowTasks (requested_workflow req (he_uuid he)) = Inr ())
     \<and> (status = 201 \<longrightarrow>
          b = Envelope 0 None (DWorkflow (he_uuid he) (cr_Name req))
          \<and> running (he_uuid he) (ms_sched m')
              = Some (new_entry (now (he_env he)) (nextCtx (ms_sched m)) (requested_workflow req (he_uuid he)))
          \<and> Trigger (requested_workflow req (he_uuid he)) = TriggerManual
          \<and> EventTrigger (requested_workflow req (he_uuid he)) = None \<and> wf_Priority (requested_workflow req (he_uuid he)) = 0
          \<and> Go (JExecuteWorkflow (he_uuid he) [] 0) \<in> set (log (ms_sched m')))
     \<and> (status \<noteq> 201 \<longrightarrow> status = 400 \<and> m' = m)
     \<and> registeredWorkflows (ms_sched m') = registeredWorkflows (ms_sched m) \<and> etm (ms_sched m') = etm (ms_sched m)
     \<and> ms_history m' = ms_history m \<and> ms_cron m' = ms_cron m"
proof -
  let ?w = "requested_workflow req (he_uuid he)" and ?t = "now (he_env he)" and ?s = "ms_sched m"
  have w: "wf_Name ?w = cr_Name req" "TaskGroups ?w = cr_TaskGroups req" "wf_UUID ?w = he_uuid he"
    by (simp_all add: requested_workflow_def)
  have eng: "run_engine 201 (DWorkflow (he_uuid he) (cr_Name req)) (SubmitWorkflow ?t ?w) m = ((status, b), m')"
    using run name groups trigger by (simp add: Http_CreateWorkflow_def requested_trigger Let_def w)
  show ?thesis
  proof (cases "validateWorkflowName (cr_Name req) = Inr () \<and> validateWorkflowTasks ?w = Inr ()")
    case True
    then have "fst (SubmitWorkflow ?t ?w ?s) = Inr ()" by (simp add: SubmitWorkflow_def w groups Let_def)
    moreover have "running (he_uuid he) (snd (SubmitWorkflow ?t ?w ?s)) = Some (new_entry ?t (nextCtx ?s) ?w)"
      "registeredWorkflows (snd (SubmitWorkflow ?t ?w ?s)) = registeredWorkflows ?s"
      "etm (snd (SubmitWorkflow ?t ?w ?s)) = etm ?s"
      "Go (JExecuteWorkflow (he_uuid he) [] 0) \<in> set (log (snd (SubmitWorkflow ?t ?w ?s)))"
      using True by (auto simp: SubmitWorkflow_def w groups Let_def) (simp_all add: set_entry_def emit_def)
    ultimately show ?thesis using eng True trigger
      by (auto simp: run_engine_def engine_reply_def reply_def requested_workflow_def split: prod.splits)
  next
    case False
    then obtain e where e: "SubmitWorkflow ?t ?w ?s = (Inl e, ?s)" "e \<noteq> IndexPanic"
      by (fastforce simp: SubmitWorkflow_def w groups split: sum.splits)
    have same: "m\<lparr>ms_sched := ?s\<rparr> = m" by simp
    show ?thesis using eng False e(2)
      by (auto simp: run_engine_def e(1) engine_reply_def refuse_def same split: lifecycle_error.splits)
  qed
qed

theorem CreateWorkflow_starts_it_witness:
  "\<exists>b m'. Http_CreateWorkflow mem_gorm demo_marshal demo_http (Inr (demo_request\<lparr>cr_Trigger := ''event''\<rparr>)) demo_master = ((201, b), m')
     \<and> running ''x'' (ms_sched m') \<noteq> None"
proof -
  let ?req = "demo_request\<lparr>cr_Trigger := ''event''\<rparr>"
  obtain status b m' where r: "Http_CreateWorkflow mem_gorm demo_marshal demo_http (Inr ?req) demo_master = ((status, b), m')"
    by (metis surj_pair)
  have "validateWorkflowName (cr_Name ?req) = Inr ()" "validateWorkflowTasks (requested_workflow ?req (he_uuid demo_http)) = Inr ()"
    unfolding validation_exact name_check_Inr
    by (simp_all add: well_formed_def demo_request_def requested_workflow_def named_node_def
      policy_ok_def trigger_ok_def AllTaskNodes_def node_ok_def loop_ok_def GetTaskNodeType_def resolved_name_def
      branch_nodes_def branch_list_def mapping_ok_def default_branch_ok_def name_char_def)
  with CreateWorkflow_starts_it [OF _ _ _ r] r show ?thesis
    by (auto simp: demo_request_def demo_http_def)
qed

text \<open>Listing workflows. If the UUIDs are unique in the running table and among the registered
  definitions, then every UUID of either is listed exactly once and no other is, the running
  workflows come first and in their actual state, and of a workflow that is both running and
  registered it is the running state that is shown.\<close>

theorem ListWorkflows_exact:
  assumes "distinct (map (wf_UUID \<circ> st_Workflow) active_states)" and "distinct (map (wf_UUID \<circ> st_Workflow) pend)"
  shows "distinct (map (wf_UUID \<circ> st_Workflow) (list_workflows active_states pend))
     \<and> (wf_UUID \<circ> st_Workflow) ` set (list_workflows active_states pend) = (wf_UUID \<circ> st_Workflow) ` (set active_states \<union> set pend)
     \<and> take (length active_states) (list_workflows active_states pend) = active_states
     \<and> (\<forall>st \<in> set (list_workflows active_states pend).
          wf_UUID (st_Workflow st) \<in> (wf_UUID \<circ> st_Workflow) ` set active_states \<longrightarrow> st \<in> set active_states)"
proof -
  let ?id = "wf_UUID \<circ> st_Workflow"
  let ?rest = "filter (\<lambda>st. ?id st \<notin> ?id ` set active_states) pend"
  have l: "list_workflows active_states pend = active_states @ ?rest" by (simp add: list_workflows_def comp_def)
  have rest: "?id ` set ?rest = ?id ` set pend - ?id ` set active_states" by auto
  have "distinct (map ?id ?rest)" using assms(2) by (rule distinct_map_filter)
  have ids: "?id ` set (active_states @ ?rest) = ?id ` (set active_states \<union> set pend)"
    unfolding set_append image_Un rest by blast
  have first: "st \<in> set active_states" if "st \<in> set (active_states @ ?rest)" "?id st \<in> ?id ` set active_states" for st
    using that by (simp del: comp_apply)
  have once: "distinct (map ?id (active_states @ ?rest))"
    unfolding map_append distinct_append set_map rest using assms(1) \<open>distinct (map ?id ?rest)\<close> by blast
  show ?thesis unfolding l
  proof (intro conjI ballI impI)
    fix st assume "st \<in> set (active_states @ ?rest)" "wf_UUID (st_Workflow st) \<in> ?id ` set active_states"
    then show "st \<in> set active_states" using first [of st] by (simp only: comp_apply)
  qed (rule once, rule ids, simp)
qed

theorem ListWorkflows_exact_witness:
  "map (wf_UUID \<circ> st_Workflow) (list_workflows [e_state (new_entry 7 0 demo_workflow)]
       [pending_state demo_workflow, pending_state (demo_workflow\<lparr>wf_UUID := ''v''\<rparr>)]) = [''demo'', ''v'']
   \<and> take 1 (list_workflows [e_state (new_entry 7 0 demo_workflow)]
       [pending_state demo_workflow, pending_state (demo_workflow\<lparr>wf_UUID := ''v''\<rparr>)]) = [e_state (new_entry 7 0 demo_workflow)]"
  using ListWorkflows_exact [of "[e_state (new_entry 7 0 demo_workflow)]"
      "[pending_state demo_workflow, pending_state (demo_workflow\<lparr>wf_UUID := ''v''\<rparr>)]"]
  by (simp add: list_workflows_def demo_workflow_simps new_entry_def pending_state_def)

context history_db
begin

lemma statements_keep_uuid: "uuid_taken u (\<alpha> d) \<Longrightarrow> uuid_taken u (\<alpha> (fold (\<lambda>st d. snd (g_Exec g st d)) sts d))"
proof (induction sts arbitrary: d)
  case (Cons st sts)
  obtain r d' where x: "g_Exec g st d = (r, d')" by fastforce
  from Cons.IH [OF exec_keeps_uuid [OF x Cons.prems]] show ?case by (simp add: x)
qed simp

end

text \<open>C34. A cron workflow created over the API beside MySQL. Such a request is answered with 201 only
  after the definition was stored and the expression accepted; the scheduler does not change, so the
  UUID of the answer is found only if it was known before. When the expression fires later (after
  whatever statements on the database), the submission starts the executor and the start-up in
  MySQL; the stored definition cannot be saved again, and whatever the executor did until then
  (\<open>s2\<close>), the start-up takes the workflow out of the running table without a record, a broadcast or
  an error, and an executor that begins afterwards finds nothing to run.\<close>

theorem cron_start_up_undone:
  fixes m m' :: "'db master" and s s2 :: sched
  assumes db: "history_db g \<alpha>" and cron: "cr_Trigger req = TriggerCron" and mysql: "HasHistoryStore (conf (ms_sched m))"
    and run: "Http_CreateWorkflow g marshal he (Inr req) m = ((201, b), m')"
    and later: "d = fold (\<lambda>st d. snd (g_Exec g st d)) sts (hs_db (ms_history m'))"
    and w: "w = requested_workflow req (he_uuid he)"
    and save: "SaveWorkflowDef g marshal (store_args w) ((ms_history m')\<lparr>hs_db := d\<rparr>) = (saved, hs)"
  shows "ms_sched m' = ms_sched m \<and> ms_cron m' = ms_cron m @ [w]
     \<and> find_workflow load (wf_UUID w) (ms_sched m') = find_workflow load (wf_UUID w) (ms_sched m)
     \<and> (fst (SubmitWorkflow t w s) = Inr () \<and> HasHistoryStore (conf s) \<longrightarrow>
          {Go (JAsyncInitMySQL w t), Go (JExecuteWorkflow (wf_UUID w) [] 0)} \<subseteq> set (log (snd (SubmitWorkflow t w s))))
     \<and> saved = None
     \<and> (let s3 = asyncInitMySQL (wf_UUID w) saved created s2
        in running (wf_UUID w) s3 = None \<and> log s3 = log s2 \<and> workflowHistory s3 = workflowHistory s2
           \<and> ExecuteWorkflow exec (wf_UUID w) ups startIdx s3 = Some s3)"
proof -
  have trig: "Trigger w = TriggerCron" using cron by (simp add: w requested_trigger)
  obtain r hs1 where saved1: "SaveWorkflowDef g marshal (store_args w) (ms_history m) = (r, hs1)" by fastforce
  have ok: "r \<noteq> None" and m': "m' = m\<lparr>ms_history := hs1, ms_cron := ms_cron m @ [w]\<rparr>"
    using run mysql trig saved1
    by (cases r; auto simp: Http_CreateWorkflow_def w [symmetric] Let_def SaveWorkflow_def schedule_cron_def
        ScheduleCronWorkflow_def refuse_def split: if_splits)+
  then have "uuid_taken (da_UUID (store_args w)) (\<alpha> (hs_db hs1))"
    using history_db.SaveWorkflowDef_cases [OF db saved1] history_db.def_written_takes [OF db] by auto
  then have "uuid_taken (wf_UUID w) (\<alpha> d)"
    using history_db.statements_keep_uuid [OF db] by (simp add: later m' store_args_def)
  then have taken: "uuid_taken (wf_UUID w) (\<alpha> (hs_db ((ms_history m')\<lparr>hs_db := d\<rparr>)))" by simp
  from stored_definition_cannot_run [OF db taken save, where v = w and created = created and s = s2]
  have start: "saved = None \<and> running (wf_UUID w) (asyncInitMySQL (wf_UUID w) saved created s2) = None
      \<and> log (asyncInitMySQL (wf_UUID w) saved created s2) = log s2
      \<and> workflowHistory (asyncInitMySQL (wf_UUID w) saved created s2) = workflowHistory s2" unfolding Let_def by blast
  then have "ExecuteWorkflow exec (wf_UUID w) ups startIdx (asyncInitMySQL (wf_UUID w) saved created s2)
      = Some (asyncInitMySQL (wf_UUID w) saved created s2)"
    by (elim conjE) (simp add: ExecuteWorkflow_def GetWorkflowState_def)
  moreover have "{Go (JAsyncInitMySQL w t), Go (JExecuteWorkflow (wf_UUID w) [] 0)} \<subseteq> set (log (snd (SubmitWorkflow t w s)))"
    if "fst (SubmitWorkflow t w s) = Inr ()" "HasHistoryStore (conf s)"
    using that by (auto simp: SubmitWorkflow_def Let_def split: sum.splits if_splits)
  moreover have "ms_sched m' = ms_sched m" "ms_cron m' = ms_cron m @ [w]" by (simp_all add: m')
  moreover have "find_workflow load (wf_UUID w) (ms_sched m') = find_workflow load (wf_UUID w) (ms_sched m)" by (simp add: m')
  ultimately show ?thesis unfolding Let_def using start by blast
qed

lemma demo_cron_created:
  "\<exists>b m'. Http_CreateWorkflow mem_gorm demo_marshal demo_http
      (Inr (demo_request\<lparr>cr_Trigger := TriggerCron, cr_CronExpr := ''0 0 8 * * *''\<rparr>)) demo_master = ((201, b), m')"
proof -
  let ?w = "requested_workflow (demo_request\<lparr>cr_Trigger := TriggerCron, cr_CronExpr := ''0 0 8 * * *''\<rparr>) ''x''"
  have args: "store_args ?w = demo_args\<lparr>da_UUID := ''x'', da_Tasks := [\<lparr>tdef_Name = ''a'', tdef_Params = None\<rparr>],
      da_Trigger := ''cron'', da_CronExpr := ''0 0 8 * * *''\<rparr>"
    by (simp add: store_args_def requested_workflow_def demo_request_def buildTaskDefs_def demo_args_def
        AllTaskNames_def node_names_def GetTaskNodeType_def named_node_def branch_nodes_def branch_list_def)
  have "fst (SaveWorkflowDef mem_gorm demo_marshal (store_args ?w) demo_store) \<noteq> None"
    by (simp add: args SaveWorkflowDef_def mem_run)
  then obtain i hs where "SaveWorkflowDef mem_gorm demo_marshal (store_args ?w) demo_store = (Some i, hs)"
    by (metis not_None_eq prod.collapse)
  then show ?thesis
    by (simp add: Http_CreateWorkflow_def demo_http_def demo_request_def requested_trigger Let_def SaveWorkflow_def new_master_def
        new_scheduler_tables schedule_cron_def ScheduleCronWorkflow_def reply_def)
       (simp add: requested_workflow_def)
qed

theorem cron_start_up_undone_witness:
  "\<exists>b m' hs. Http_CreateWorkflow mem_gorm demo_marshal demo_http
      (Inr (demo_request\<lparr>cr_Trigger := TriggerCron, cr_CronExpr := ''0 0 8 * * *''\<rparr>)) demo_master = ((201, b), m')
     \<and> SaveWorkflowDef mem_gorm demo_marshal
         (store_args (requested_workflow (demo_request\<lparr>cr_Trigger := TriggerCron, cr_CronExpr := ''0 0 8 * * *''\<rparr>) ''x''))
         (ms_history m') = (None, hs)"
proof -
  let ?req = "demo_request\<lparr>cr_Trigger := TriggerCron, cr_CronExpr := ''0 0 8 * * *''\<rparr>"
  obtain b m' where c: "Http_CreateWorkflow mem_gorm demo_marshal demo_http (Inr ?req) demo_master = ((201, b), m')"
    using demo_cron_created by blast
  obtain saved hs where v: "SaveWorkflowDef mem_gorm demo_marshal (store_args (requested_workflow ?req (he_uuid demo_http)))
      ((ms_history m')\<lparr>hs_db := hs_db (ms_history m')\<rparr>) = (saved, hs)" by fastforce
  have "saved = None"
    using cron_start_up_undone [OF mem.history_db_axioms _ _ c _ refl v, of "[]"]
    by (simp add: new_master_def new_scheduler_tables)
  with c v show ?thesis by (auto simp: demo_http_def)
qed

subsection \<open>What the interface does not check\<close>

text \<open>A cron request whose expression the library refuses is answered with 400, and its definition
  stays in MySQL.\<close>

lemma rejected_cron_stays_stored:
  assumes db: "history_db g \<alpha>" and mysql: "HasHistoryStore (conf (ms_sched m))"
    and cron: "cr_Trigger req = TriggerCron" "\<not> he_cron he (cr_CronExpr req)" "cr_Name req \<noteq> ''''" "cr_TaskGroups req \<noteq> []"
    and save: "SaveWorkflowDef g marshal (store_args (requested_workflow req (he_uuid he))) (ms_history m) = (Some wid, hs)"
  shows "\<exists>e. Http_CreateWorkflow g marshal he (Inr req) m = (refuse 400 (ErrEngine e), m\<lparr>ms_history := hs\<rparr>)
     \<and> uuid_taken (he_uuid he) (\<alpha> (hs_db hs))"
proof -
  have "uuid_taken (he_uuid he) (\<alpha> (hs_db hs))"
    using history_db.SaveWorkflowDef_cases [OF db save] history_db.def_written_takes [OF db]
    by (fastforce simp: store_args_def requested_workflow_def)
  moreover have "\<exists>e. ScheduleCronWorkflow (he_cron he) (requested_workflow req (he_uuid he)) = Inl e"
    using cron(1,2) by (simp add: ScheduleCronWorkflow_def requested_workflow_def)
  ultimately show ?thesis using cron mysql save
    by (auto simp: Http_CreateWorkflow_def requested_trigger Let_def SaveWorkflow_def schedule_cron_def)
qed

text \<open>The secret of a web hook takes no part in triggering it.\<close>

lemma webhook_ignores_secret:
  assumes "FireWebhook u m = Inr l" and "GetRegisteredWorkflow u s = Some w"
  shows "TriggerWebhook t u payload (s\<lparr>etm := m\<lparr>webhookWfs := AList.update u (l\<lparr>el_WebhookSecret := secret\<rparr>) (webhookWfs m)\<rparr>\<rparr>)
     = (fst (TriggerWebhook t u payload (s\<lparr>etm := m\<rparr>)),
        (snd (TriggerWebhook t u payload (s\<lparr>etm := m\<rparr>)))\<lparr>etm := m\<lparr>webhookWfs := AList.update u (l\<lparr>el_WebhookSecret := secret\<rparr>) (webhookWfs m)\<rparr>\<rparr>)"
  using assms
  by (auto simp: TriggerWebhook_def FireWebhook_def update_conv' GetRegisteredWorkflow_def SubmitWorkflow_def set_entry_def emit_def Let_def
      split: sum.splits option.splits list.splits)

text \<open>The failure policies the API reference documents are refused.\<close>

lemma documented_policies_refused:
  assumes "OnTaskFailure p \<in> {''fail'', ''continue'', ''skip_and_continue''}" and "cr_ErrorPolicy req = Some p"
  shows "validateWorkflowTasks (requested_workflow req u) \<noteq> Inr ()"
  using assms unfolding validation_exact by (auto simp: well_formed_def policy_ok_def requested_workflow_def known_policy_def)

text \<open>The health check answers 200 exactly if etcd answers and MySQL, if configured, does too; queue
  and workers play no part.\<close>

lemma Health_status:
  "fst (Health he m) = (if snd (he_etcd_ping he) = None \<and> (HasHistoryStore (conf (ms_sched m)) \<longrightarrow> snd (he_mysql_ping he) = None)
     then 200 else 503)"
  by (auto simp: Health_def Let_def checkEtcd_def checkMySQL_def split: prod.splits option.splits)

end
