(* ===== verification/Advanced_Group.thy ===== *)
theory Advanced_Group
  imports Execution "HOL-Library.Multiset"
begin

text \<open>
  \<^verbatim>\<open>executeAdvancedGroup\<close> and \<^verbatim>\<open>executeLoopGroup\<close> of \<^verbatim>\<open>execution_manager.go\<close>: a group with fan-out or
  sub-workflow nodes as a transition system of its goroutines, whose callbacks run in any order.
  What the executors answer is fixed by the record \<open>answers\<close>; \<open>ExecuteFanOut\<close>, \<open>ExecuteWithOptions\<close> and
  \<open>runLoop\<close> of \<open>Execution\<close> say what these answers are.
\<close>

subsection \<open>Loops\<close>

text \<open>\<^verbatim>\<open>executeLoopGroup\<close>: the result of the loop over this one group, as the group's result. The outputs
  of the loop include those it was started with.\<close>

definition executeLoopGroup ::
  "(task_node list \<Rightarrow> vars list \<Rightarrow> msg + vars list) \<Rightarrow> uuid \<Rightarrow> task_groups \<Rightarrow> nat \<Rightarrow> loop_def \<Rightarrow> vars list
     \<Rightarrow> 'a wm_state_scheme \<Rightarrow> msg + vars list" where
  "executeLoopGroup exec u groups groupIdx loopDef ups s =
     (case runLoop (\<lambda>_ iterUpstream. executeLoopBody exec u groups groupIdx groupIdx iterUpstream s) loopDef ups of
        (_, Some err) \<Rightarrow> Inl err
      | (outputs, None) \<Rightarrow> Inr outputs)"

text \<open>The first loop of the group is the one that runs.\<close>

fun loop_of :: "task_node list \<Rightarrow> loop_def option" where
  "loop_of [] = None"
| "loop_of (node # rest) = (case node_Loop node of Some l \<Rightarrow> Some l | None \<Rightarrow> loop_of rest)"

lemma detected_loop: "detectAdvancedNodes grp = LoopGroup l \<Longrightarrow> loop_of grp = Some l"
  by (induction grp) (auto split: option.splits if_splits)


subsection \<open>The goroutines of an advanced group\<close>

datatype member = NormalNodes "task_node list" | AdvancedNode task_node

definition is_advanced :: "task_node \<Rightarrow> bool" where
  "is_advanced node \<longleftrightarrow> GetTaskNodeType node = TaskNodeTypeSubWorkflow \<or> GetTaskNodeType node = TaskNodeTypeFanOut"

definition members :: "task_node list \<Rightarrow> member list" where
  "members grp =
     (let normal = filter (\<lambda>n. \<not> is_advanced n) grp
      in (if normal \<noteq> [] then [NormalNodes normal] else []) @ map AdvancedNode (filter is_advanced grp))"

record answers =
  an_normal :: "msg + vars list"                          \<comment> \<open>the normal nodes together\<close>
  an_fan_out :: "task_node \<Rightarrow> msg + vars"
  an_start :: "task_node \<Rightarrow> msg + unit"                   \<comment> \<open>is the sub-workflow started\<close>
  an_tracked :: "task_node \<Rightarrow> msg + vars option list"     \<comment> \<open>what polling it ends with\<close>

text \<open>A started sub-workflow is tracked by another goroutine, which calls the callback later.\<close>

definition tracked_member :: "answers \<Rightarrow> member \<Rightarrow> bool" where
  "tracked_member a g \<longleftrightarrow>
     (case g of NormalNodes _ \<Rightarrow> False
      | AdvancedNode n \<Rightarrow> GetTaskNodeType n = TaskNodeTypeSubWorkflow \<and> an_start a n = Inr ())"

definition sub_output :: "task_node \<Rightarrow> vars option list \<Rightarrow> vars" where
  "sub_output n outputs =
     fold (\<lambda>o' out. out ++ vars_of o') outputs
       [''_sub_workflow'' \<mapsto> AString (SubWorkflow n), ''_task_name'' \<mapsto> AString (node_Name n)]"

text \<open>What the callback of a member is called with: an error, or the outputs it appends.\<close>

definition callback_arg :: "answers \<Rightarrow> member \<Rightarrow> msg + vars list" where
  "callback_arg a g =
     (case g of
        NormalNodes _ \<Rightarrow> an_normal a
      | AdvancedNode n \<Rightarrow>
          if GetTaskNodeType n = TaskNodeTypeSubWorkflow then
            (case an_start a n of
               Inl err \<Rightarrow> Inl err
             | Inr _ \<Rightarrow> (case an_tracked a n of Inl err \<Rightarrow> Inl err | Inr outs \<Rightarrow> Inr [sub_output n outs]))
          else (case an_fan_out a n of Inl err \<Rightarrow> Inl err | Inr out \<Rightarrow> Inr [out]))"

record group_run =
  allOutputs :: "vars list"
  firstErr :: "msg option"
  wg :: "member list"                        \<comment> \<open>goroutines that have not called \<^verbatim>\<open>wg.Done\<close>\<close>
  late :: "member list"                      \<comment> \<open>tracked sub-workflows whose callback is to come\<close>
  verdict :: "(msg + vars list) option"      \<comment> \<open>what the waiting goroutine goes on with\<close>
  arrived :: "member list"                   \<comment> \<open>ghost: the callbacks before the verdict\<close>

definition group_start :: "task_node list \<Rightarrow> group_run" where
  "group_start grp =
     \<lparr>allOutputs = [], firstErr = None, wg = members grp, late = [], verdict = None, arrived = []\<rparr>"

text \<open>The body of the callbacks: \<^verbatim>\<open>errOnce\<close> keeps the first error.\<close>

definition call_back :: "answers \<Rightarrow> member \<Rightarrow> group_run \<Rightarrow> group_run" where
  "call_back a g s =
     (let s1 = (case callback_arg a g of
                  Inl err \<Rightarrow> s\<lparr>firstErr := (case firstErr s of None \<Rightarrow> Some err | Some e \<Rightarrow> Some e)\<rparr>
                | Inr outs \<Rightarrow> s\<lparr>allOutputs := allOutputs s @ outs\<rparr>)
      in if verdict s = None then s1\<lparr>arrived := arrived s @ [g]\<rparr> else s1)"

text \<open>The goroutine of a member returns and calls \<^verbatim>\<open>wg.Done\<close>: after its callback, or, for a
  sub-workflow that was started, without.\<close>

definition member_returns :: "answers \<Rightarrow> member \<Rightarrow> group_run \<Rightarrow> group_run" where
  "member_returns a g s =
     (let s1 = (if tracked_member a g then s\<lparr>late := late s @ [g]\<rparr> else call_back a g s)
      in s1\<lparr>wg := remove1 g (wg s)\<rparr>)"

definition decide :: "group_run \<Rightarrow> group_run" where
  "decide s =
     s\<lparr>verdict := Some (case firstErr s of Some err \<Rightarrow> Inl err | None \<Rightarrow> Inr (allOutputs s))\<rparr>"

inductive group_step :: "answers \<Rightarrow> group_run \<Rightarrow> group_run \<Rightarrow> bool" for a where
  returns: "g \<in> set (wg s) \<Longrightarrow> group_step a s (member_returns a g s)"
| late_callback: "g \<in> set (late s) \<Longrightarrow> group_step a s (call_back a g (s\<lparr>late := remove1 g (late s)\<rparr>))"
| decides: "wg s = [] \<Longrightarrow> verdict s = None \<Longrightarrow> group_step a s (decide s)"

inductive group_reach :: "answers \<Rightarrow> task_node list \<Rightarrow> group_run \<Rightarrow> bool" for a grp where
  start: "group_reach a grp (group_start grp)"
| next_step: "group_reach a grp s \<Longrightarrow> group_step a s s' \<Longrightarrow> group_reach a grp s'"

inductive_cases group_stepE: "group_step a s s'"


subsection \<open>What the verdict is\<close>

text \<open>The result of callbacks in this order, as a function of their arguments.\<close>

definition combine :: "(msg + 'a list) list \<Rightarrow> msg + 'a list" where
  "combine rs =
     (case List.map_filter result_error rs of
        e # _ \<Rightarrow> Inl e
      | [] \<Rightarrow> Inr (concat (List.map_filter (\<lambda>r. case r of Inl _ \<Rightarrow> None | Inr outs \<Rightarrow> Some outs) rs)))"

definition group_inv :: "answers \<Rightarrow> task_node list \<Rightarrow> group_run \<Rightarrow> bool" where
  "group_inv a grp s \<longleftrightarrow>
     (\<forall>g \<in> set (late s). tracked_member a g)
     \<and> (verdict s = None \<longrightarrow>
          mset (arrived s) + mset (wg s) + mset (late s) = mset (members grp)
          \<and> allOutputs s = concat (List.map_filter (\<lambda>r. case r of Inl _ \<Rightarrow> None | Inr outs \<Rightarrow> Some outs) (map (callback_arg a) (arrived s)))
          \<and> firstErr s = (case List.map_filter result_error (map (callback_arg a) (arrived s)) of [] \<Rightarrow> None | e # _ \<Rightarrow> Some e))
     \<and> (\<forall>v. verdict s = Some v \<longrightarrow>
          wg s = [] \<and> v = combine (map (callback_arg a) (arrived s))
          \<and> (\<exists>missed. mset (arrived s) + mset missed = mset (members grp) \<and> (\<forall>g \<in> set missed. tracked_member a g)))"

lemma map_filter_snoc: "List.map_filter f (xs @ [x]) = List.map_filter f xs @ (case f x of None \<Rightarrow> [] | Some y \<Rightarrow> [y])"
  by (simp add: List.map_filter_def split: option.splits)

lemma call_back_open:
  assumes "verdict s = None"
  shows "verdict (call_back a g s) = None" "wg (call_back a g s) = wg s" "late (call_back a g s) = late s"
    "arrived (call_back a g s) = arrived s @ [g]"
    "allOutputs (call_back a g s) = allOutputs s @ (case callback_arg a g of Inl _ \<Rightarrow> [] | Inr outs \<Rightarrow> outs)"
    "firstErr (call_back a g s) = (case firstErr s of Some e \<Rightarrow> Some e | None \<Rightarrow> result_error (callback_arg a g))"
  using assms by (auto simp: call_back_def result_error_def split: sum.splits option.splits)

lemma call_back_closed:
  "verdict s \<noteq> None \<Longrightarrow> verdict (call_back a g s) = verdict s \<and> wg (call_back a g s) = wg s
     \<and> late (call_back a g s) = late s \<and> arrived (call_back a g s) = arrived s"
  by (auto simp: call_back_def Let_def split: sum.splits)

lemma call_back_inv:
  assumes inv: "group_inv a grp (s\<lparr>wg := w, late := l\<rparr>)" and parts: "mset w + mset l = add_mset g (mset (wg s) + mset (late s))"
    and late: "\<forall>g \<in> set (late s). tracked_member a g" and closed: "verdict s \<noteq> None \<longrightarrow> wg s = []"
  shows "group_inv a grp (call_back a g s)"
proof (cases "verdict s")
  case None
  note cb = call_back_open [OF None, of a g]
  have old: "mset (arrived s) + mset w + mset l = mset (members grp)"
    "allOutputs s = concat (List.map_filter (\<lambda>r. case r of Inl _ \<Rightarrow> None | Inr outs \<Rightarrow> Some outs) (map (callback_arg a) (arrived s)))"
    "firstErr s = (case List.map_filter result_error (map (callback_arg a) (arrived s)) of [] \<Rightarrow> None | e # _ \<Rightarrow> Some e)"
    using inv None by (simp_all add: group_inv_def)
  have "mset (arrived (call_back a g s)) + mset (wg s) + mset (late s) = mset (members grp)"
    using old(1) parts by (simp add: cb union_assoc)
  then show ?thesis
    using late by (auto simp: group_inv_def cb old(2,3) map_filter_snoc result_error_def split: sum.splits list.splits)
next
  case (Some v)
  with inv late closed call_back_closed [of s a g] show ?thesis by (simp add: group_inv_def)
qed

lemma members_tracked: "tracked_member a g \<Longrightarrow> \<exists>n. g = AdvancedNode n"
  by (cases g) (simp_all add: tracked_member_def)

lemma group_step_inv:
  assumes "group_step a s s'" and inv: "group_inv a grp s"
  shows "group_inv a grp s'"
  using assms(1)
proof cases
  case (returns g)
  then have open': "verdict s = None" using inv by (cases "verdict s") (auto simp: group_inv_def)
  have wg: "add_mset g (mset (remove1 g (wg s))) = mset (wg s)" using returns(2) by simp
  show ?thesis
  proof (cases "tracked_member a g")
    case True
    have "mset (arrived s) + mset (remove1 g (wg s)) + mset (late s @ [g]) = mset (members grp)"
    proof -
      have "mset (arrived s) + mset (wg s) + mset (late s) = mset (members grp)" using inv open' by (simp add: group_inv_def)
      then show ?thesis unfolding wg [symmetric] by simp
    qed
    then show ?thesis using inv open' True returns(1) by (simp add: member_returns_def group_inv_def)
  next
    case False
    let ?t = "s\<lparr>wg := remove1 g (wg s)\<rparr>"
    have s': "s' = call_back a g ?t"
      using returns(1) False open' by (simp add: member_returns_def call_back_def split: sum.splits)
    have "group_inv a grp (?t\<lparr>wg := wg s, late := late s\<rparr>)" using inv by simp
    moreover have "mset (wg s) + mset (late s) = add_mset g (mset (wg ?t) + mset (late ?t))" using wg by simp
    ultimately show ?thesis unfolding s' using inv open' by (intro call_back_inv) (auto simp: group_inv_def)
  qed
next
  case (late_callback g)
  let ?t = "s\<lparr>late := remove1 g (late s)\<rparr>"
  have "group_inv a grp (?t\<lparr>wg := wg s, late := late s\<rparr>)" using inv by simp
  moreover have "mset (wg s) + mset (late s) = add_mset g (mset (wg ?t) + mset (late ?t))"
    using late_callback(2) by simp
  moreover have "\<forall>g' \<in> set (late ?t). tracked_member a g'" using inv by (auto simp: group_inv_def dest: notin_set_remove1)
  moreover have "verdict ?t \<noteq> None \<longrightarrow> wg ?t = []" using inv by (auto simp: group_inv_def)
  ultimately show ?thesis unfolding late_callback(1) by (rule call_back_inv)
next
  case decides
  then show ?thesis
    using inv by (auto simp: group_inv_def decide_def combine_def split: list.splits intro!: exI [of _ "late s"])
qed

lemma group_reach_inv: "group_reach a grp s \<Longrightarrow> group_inv a grp s"
proof (induction rule: group_reach.induct)
  case start
  show ?case by (simp add: group_inv_def group_start_def map_filter_simps)
qed (rule group_step_inv)

lemma verdict_kept: "group_step a s s' \<Longrightarrow> verdict s = Some v \<Longrightarrow> verdict s' = Some v"
  by (auto elim!: group_stepE simp: member_returns_def call_back_def Let_def split: sum.splits)

text \<open>Every step brings the group closer to its end.\<close>

definition steps_left :: "group_run \<Rightarrow> nat" where
  "steps_left s = 2 * length (wg s) + length (late s) + (if verdict s = None then 1 else 0)"

lemma call_back_length: "length (wg (call_back a g s)) = length (wg s)" "late (call_back a g s) = late s"
  "verdict (call_back a g s) = verdict s"
  by (auto simp: call_back_def Let_def split: sum.splits)

lemma call_back_wg: "wg (call_back a g s) = wg s"
  by (auto simp: call_back_def Let_def split: sum.splits)

lemma group_step_decreases: "group_step a s s' \<Longrightarrow> steps_left s' < steps_left s"
proof (erule group_stepE)
  fix g assume s': "s' = member_returns a g s" and g: "g \<in> set (wg s)"
  then have "Suc (2 * (length (wg s) - Suc 0)) < 2 * length (wg s)" by (cases "wg s") simp_all
  then show ?thesis using g
    by (auto simp: s' member_returns_def steps_left_def Let_def call_back_length call_back_wg length_remove1)
next
  fix g assume s': "s' = call_back a g (s\<lparr>late := remove1 g (late s)\<rparr>)" and g: "g \<in> set (late s)"
  then have "0 < length (late s)" by (cases "late s") simp_all
  then show ?thesis using g by (simp add: s' steps_left_def call_back_length length_remove1)
qed (simp add: steps_left_def decide_def)

definition outs_of :: "msg + vars list \<Rightarrow> vars list" where
  "outs_of r = (case r of Inl _ \<Rightarrow> [] | Inr outs \<Rightarrow> outs)"

lemma combine_ok:
  assumes "\<forall>r \<in> set rs. result_error r = None"
  shows "combine rs = Inr (concat (map outs_of rs))"
proof -
  have "List.map_filter result_error rs = []" using assms by (auto simp: List.map_filter_def filter_empty_conv)
  moreover have "List.map_filter (\<lambda>r. case r of Inl _ \<Rightarrow> None | Inr outs \<Rightarrow> Some outs) rs = map outs_of rs"
    using assms by (induction rs) (auto simp: map_filter_simps outs_of_def result_error_def split: sum.splits)
  ultimately show ?thesis by (simp add: combine_def)
qed

lemma combine_error:
  assumes "\<exists>r \<in> set rs. result_error r \<noteq> None"
  shows "\<exists>r \<in> set rs. \<exists>e. r = Inl e \<and> combine rs = Inl e"
proof -
  obtain e es where m: "List.map_filter result_error rs = e # es"
    using assms by (cases "List.map_filter result_error rs") (auto simp: List.map_filter_def filter_empty_conv)
  then have "e \<in> set (List.map_filter result_error rs)" by simp
  then obtain r where "r \<in> set rs" "result_error r = Some e" by (auto simp: List.map_filter_def)
  moreover from this(2) have "r = Inl e" by (simp add: result_error_def split: sum.splits)
  ultimately show ?thesis using m by (auto simp: combine_def)
qed

text \<open>C36. The outcome of an advanced group whose sub-workflows could not be started (or that has
  none), in every order in which its goroutines return. The group goes on exactly when no member
  failed, and then with the outputs of all members, each member's in one piece; otherwise it fails
  with the error of one of its members.\<close>

theorem advanced_group_result:
  assumes reach: "group_reach a grp s" and v: "verdict s = Some v"
    and none: "\<And>g. g \<in> set (members grp) \<Longrightarrow> \<not> tracked_member a g"
  shows "(\<forall>g \<in> set (members grp). result_error (callback_arg a g) = None) \<and>
           (\<exists>order. mset order = mset (members grp) \<and> v = Inr (concat (map (outs_of \<circ> callback_arg a) order)))
       \<or> (\<exists>g \<in> set (members grp). \<exists>e. callback_arg a g = Inl e \<and> v = Inl e)"
proof -
  obtain missed where m: "mset (arrived s) + mset missed = mset (members grp)" "\<forall>g \<in> set missed. tracked_member a g"
    and comb: "v = combine (map (callback_arg a) (arrived s))"
    using group_reach_inv [OF reach] v unfolding group_inv_def by blast
  have "missed = []"
  proof (cases missed)
    case (Cons g gs)
    then have "g \<in># mset (members grp)" by (simp flip: m(1))
    then have False using none [of g] m(2) Cons by simp
    then show ?thesis ..
  qed
  then have all: "mset (arrived s) = mset (members grp)" using m(1) by simp
  then have sets: "set (arrived s) = set (members grp)" by (metis set_mset_mset)
  show ?thesis
  proof (cases "\<forall>g \<in> set (members grp). result_error (callback_arg a g) = None")
    case True
    then have "v = Inr (concat (map outs_of (map (callback_arg a) (arrived s))))"
      unfolding comb by (intro combine_ok) (simp add: sets)
    then show ?thesis using True all by (auto simp: comp_def)
  next
    case False
    then have "\<exists>r \<in> set (map (callback_arg a) (arrived s)). result_error r \<noteq> None" by (auto simp: sets)
    from combine_error [OF this] show ?thesis by (auto simp: comb sets)
  qed
qed


subsection \<open>Sub-workflows are not awaited\<close>

text \<open>The members return in the order of the list, no late callback comes, then the group decides.\<close>

lemma members_return:
  assumes "group_reach a grp s" and "wg s = gs" and "verdict s = None"
  shows "\<exists>s'. group_reach a grp s' \<and> wg s' = [] \<and> verdict s' = None \<and> late s' = late s @ filter (tracked_member a) gs
     \<and> arrived s' = arrived s @ filter (\<lambda>g. \<not> tracked_member a g) gs"
  using assms
proof (induction gs arbitrary: s)
  case (Cons g gs)
  let ?s = "member_returns a g s"
  have "group_reach a grp ?s" using Cons.prems by (intro group_reach.next_step [OF Cons.prems(1)] returns) simp
  moreover have "wg ?s = gs" "verdict ?s = None"
    "late ?s = late s @ (if tracked_member a g then [g] else [])" "arrived ?s = arrived s @ (if tracked_member a g then [] else [g])"
    using Cons.prems(2,3) by (auto simp: member_returns_def Let_def call_back_open)
  ultimately show ?case using Cons.IH [of ?s] by auto
qed (auto intro!: exI)

text \<open>C37. A group does not wait for its sub-workflows. Whatever the group: there is an order in which
  the group goes on (or fails) with the outcome of the other members alone, while every sub-workflow
  that was started is still running; and once the group has gone on, no result of a sub-workflow, and
  no failure of one, changes with what.\<close>

theorem sub_workflows_not_awaited:
  "(\<exists>s. group_reach a grp s \<and> late s = filter (tracked_member a) (members grp)
        \<and> verdict s = Some (combine (map (callback_arg a) (filter (\<lambda>g. \<not> tracked_member a g) (members grp)))))
   \<and> (\<forall>s s' v. (group_step a)\<^sup>*\<^sup>* s s' \<longrightarrow> verdict s = Some v \<longrightarrow> verdict s' = Some v)"
proof
  obtain s where s: "group_reach a grp s" "wg s = []" "verdict s = None" "late s = filter (tracked_member a) (members grp)"
    "arrived s = filter (\<lambda>g. \<not> tracked_member a g) (members grp)"
    using members_return [OF group_reach.start [of a grp]] by (auto simp: group_start_def)
  have r: "group_reach a grp (decide s)" by (rule group_reach.next_step [OF s(1)]) (rule decides [OF s(2,3)])
  moreover have "late (decide s) = late s" "arrived (decide s) = arrived s" "verdict (decide s) \<noteq> None"
    by (simp_all add: decide_def)
  moreover from this(3) have "verdict (decide s) = Some (combine (map (callback_arg a) (arrived (decide s))))"
    using group_reach_inv [OF r] unfolding group_inv_def by auto
  ultimately show "\<exists>s. group_reach a grp s \<and> late s = filter (tracked_member a) (members grp)
        \<and> verdict s = Some (combine (map (callback_arg a) (filter (\<lambda>g. \<not> tracked_member a g) (members grp))))"
    using s(4,5) by auto
  have "(group_step a)\<^sup>*\<^sup>* s s' \<Longrightarrow> verdict s = Some v \<Longrightarrow> verdict s' = Some v" for s s' v
    by (induction rule: rtranclp_induct) (auto intro: verdict_kept)
  then show "\<forall>s s' v. (group_step a)\<^sup>*\<^sup>* s s' \<longrightarrow> verdict s = Some v \<longrightarrow> verdict s' = Some v" by blast
qed

definition demo_sub :: task_node where
  "demo_sub = TaskNode TaskNodeTypeSubWorkflow ''child'' None 0 None '''' False ''sub'' None None None None"

definition demo_fan :: task_node where
  "demo_fan = TaskNode TaskNodeTypeFanOut ''fan'' None 0 None '''' False '''' None (Some (FanOutDef ''items'' (named_node ''t'') 0 '''')) None None"

definition demo_answers :: answers where
  "demo_answers = \<lparr>an_normal = Inr [[''n'' \<mapsto> ABool True]], an_fan_out = (\<lambda>_. Inr [''_count'' \<mapsto> AInt 2]),
     an_start = (\<lambda>_. Inr ()), an_tracked = (\<lambda>_. Inl MsgCancelled)\<rparr>"

lemma demo_members:
  "members [named_node ''a'', demo_fan] = [NormalNodes [named_node ''a''], AdvancedNode demo_fan]"
  "members [demo_sub] = [AdvancedNode demo_sub]" "tracked_member demo_answers (AdvancedNode demo_sub)"
  "\<not> tracked_member demo_answers (NormalNodes ns)" "\<not> tracked_member demo_answers (AdvancedNode demo_fan)"
  by (simp_all add: members_def is_advanced_def GetTaskNodeType_def named_node_def demo_fan_def demo_sub_def tracked_member_def
      demo_answers_def)

text \<open>A group of one sub-workflow that fails: the group succeeds with no outputs.\<close>

theorem sub_workflows_not_awaited_witness:
  "\<exists>s. group_reach demo_answers [demo_sub] s \<and> late s = [AdvancedNode demo_sub] \<and> verdict s = Some (Inr [])
     \<and> callback_arg demo_answers (AdvancedNode demo_sub) = Inl MsgCancelled"
  using conjunct1 [OF sub_workflows_not_awaited [of demo_answers "[demo_sub]"]]
  by (simp add: demo_members combine_def map_filter_simps) (simp add: callback_arg_def demo_answers_def demo_sub_def GetTaskNodeType_def)

theorem advanced_group_result_witness:
  "\<exists>s order. group_reach demo_answers [named_node ''a'', demo_fan] s \<and> mset order = mset (members [named_node ''a'', demo_fan])
     \<and> verdict s = Some (Inr (concat (map (outs_of \<circ> callback_arg demo_answers) order)))"
proof -
  let ?g = "[named_node ''a'', demo_fan]"
  obtain s where s: "group_reach demo_answers ?g s" "wg s = []" "verdict s = None"
    using members_return [OF group_reach.start [of demo_answers ?g]] by (auto simp: group_start_def)
  then have r: "group_reach demo_answers ?g (decide s)" by (intro group_reach.next_step [OF s(1)] decides)
  obtain v where v: "verdict (decide s) = Some v" by (simp add: decide_def)
  have ok: "\<forall>g \<in> set (members ?g). \<not> tracked_member demo_answers g \<and> (\<forall>e. callback_arg demo_answers g \<noteq> Inl e)"
    by (simp add: demo_members) (simp add: callback_arg_def demo_answers_def demo_fan_def GetTaskNodeType_def)
  from advanced_group_result [OF r v] ok r v show ?thesis by blast
qed

text \<open>The outputs a loop group passes on contain those it was started with a second time.\<close>

lemma loop_group_duplicates_upstream:
  assumes "executeLoopGroup exec u groups groupIdx loopDef ups s = Inr outs"
  shows "\<exists>more. outs = ups @ more"
proof -
  have run: "run_iterations body def fuel i cur = (outs', None) \<Longrightarrow> \<exists>more. outs' = cur @ more" for body def fuel i cur outs'
  proof (induction fuel arbitrary: i cur)
    case (Suc fuel)
    then show ?case by (fastforce simp: Let_def split: sum.splits prod.splits if_splits)
  qed simp
  show ?thesis using assms by (auto simp: executeLoopGroup_def runLoop_def split: prod.splits option.splits intro: run)
qed

subsection \<open>What the answers are\<close>

text \<open>The answers of a group in a state of the scheduler: \<open>normal\<close> for the parallel executor, \<open>results\<close> for
  the items of each fan-out, \<open>tracking\<close> for what following a sub-workflow ends with.\<close>

definition answers_for ::
  "uuid \<Rightarrow> vars list \<Rightarrow> (msg + vars list) \<Rightarrow> (task_node \<Rightarrow> (msg + vars option) list)
     \<Rightarrow> (task_node \<Rightarrow> msg + vars option list) \<Rightarrow> 'a wm_state_scheme \<Rightarrow> answers" where
  "answers_for u ups normal results tracking s =
     \<lparr>an_normal = normal, an_fan_out = (\<lambda>n. ExecuteFanOut n ups (results n)),
      an_start = (\<lambda>n. case ExecuteSubWorkflow_start u n ups s of Inl err \<Rightarrow> Inl err | Inr _ \<Rightarrow> Inr ()),
      an_tracked = tracking\<rparr>"

lemma registered_is_tracked:
  "tracked_member (answers_for u ups normal results tracking s) (AdvancedNode n)
     \<longleftrightarrow> GetTaskNodeType n = TaskNodeTypeSubWorkflow \<and> GetRegisteredWorkflow (SubWorkflow n) s \<noteq> None"
  by (auto simp: tracked_member_def answers_for_def ExecuteSubWorkflow_start_def Let_def split: option.splits)

text \<open>A sub-workflow is handed to the executor without being submitted. Unless a workflow with its UUID
  happens to be running, the executor finds no state and returns, and following it ends only if a
  workflow with this UUID is in the history, with the outcome of that earlier run.\<close>

lemma sub_workflow_never_starts:
  assumes "ExecuteSubWorkflow_start u n ups s = Inr (v, ups')" and "running v s = None"
  shows "ExecuteWorkflow exec v ups' 0 s = Some s"
    and "GetHistory load v s = None \<Longrightarrow> poll_sub_workflow load v s = None"
    and "GetHistory load v s = Some st \<Longrightarrow> st_Status st = WorkflowStatusCompleted
           \<Longrightarrow> poll_sub_workflow load v s = Some (Inr (collectCompletedOutputs (CompletedTasks st)))"
  using assms(2) by (simp_all add: ExecuteWorkflow_def poll_sub_workflow_def GetWorkflowState_def)

end
