(* ===== verification/Slot_Race.thy ===== *)
theory Slot_Race
  imports Prelude
begin

text \<open>
  Concurrent \<^verbatim>\<open>PushTask\<close>, \<^verbatim>\<open>ReleaseSlotForWorkflow\<close> and \<^verbatim>\<open>tryDispatchPending\<close> calls of
  \<^verbatim>\<open>task_dispatcher.go\<close> for the tasks of any number of workflows, one atomic operation at a time.
  \<open>Dispatcher\<close> takes each call as one step; here the counters' loads, additions and deletions interleave.
  A task is a process: it asks for a slot, holds it or waits in the queue, may be dispatched from there,
  and gives the slot back. A load of \<^verbatim>\<open>sync.Map\<close> and of the counter it finds is one operation.
\<close>

text \<open>Tasks and workflows are numbered; \<open>sc_workflow\<close> gives each task's workflow.\<close>

record slot_conf =
  sc_globalMax :: int
  sc_perWfMax :: int
  sc_workflow :: "nat \<Rightarrow> nat"

text \<open>The counter of a workflow is an object of its own: the map holds its address or nothing.\<close>

record slot_mem =
  sm_global :: int
  sm_counter :: "nat \<Rightarrow> nat option"
  sm_value :: "nat \<Rightarrow> int"
  sm_fresh :: nat
  sm_locked :: bool           \<comment> \<open>\<^verbatim>\<open>pqMu\<close>, held while a task is selected\<close>

datatype after_dec = ThenEnqueue | ThenReturn

datatype slot_pc =
    PushCheckWf
  | PushCheckGlobal
  | PushIncLoad
  | PushIncAdd nat
  | PushTestWf int
  | PushAddGlobal
  | PushTestGlobal int
  | PushUndoGlobal
  | DecLoad after_dec
  | DecAdd nat after_dec
  | DecDelete after_dec
  | Enqueue
  | Queued
  | DispCheckGlobal
  | DispCheckWf
  | DispAddGlobal
  | DispIncLoad
  | DispIncAdd nat
  | Holding
  | Returned

definition load_counter :: "nat \<Rightarrow> slot_mem \<Rightarrow> int" where
  "load_counter w m = (case sm_counter m w of None \<Rightarrow> 0 | Some a \<Rightarrow> sm_value m a)"

definition get_or_create :: "nat \<Rightarrow> slot_mem \<Rightarrow> nat \<times> slot_mem" where
  "get_or_create w m =
     (case sm_counter m w of
        Some a \<Rightarrow> (a, m)
      | None \<Rightarrow> (sm_fresh m, m\<lparr>sm_counter := (sm_counter m)(w := Some (sm_fresh m)), sm_value := (sm_value m)(sm_fresh m := 0),
                             sm_fresh := sm_fresh m + 1\<rparr>))"

definition add_counter :: "nat \<Rightarrow> int \<Rightarrow> slot_mem \<Rightarrow> int \<times> slot_mem" where
  "add_counter a d m = (let n = sm_value m a + d in (n, m\<lparr>sm_value := (sm_value m)(a := n)\<rparr>))"

definition add_global :: "int \<Rightarrow> slot_mem \<Rightarrow> slot_mem" where
  "add_global d m = m\<lparr>sm_global := sm_global m + d\<rparr>"

definition after_pc :: "after_dec \<Rightarrow> slot_pc" where
  "after_pc k = (case k of ThenEnqueue \<Rightarrow> Enqueue | ThenReturn \<Rightarrow> Returned)"

text \<open>The next operation of a task of workflow \<open>w\<close>. A task that holds a slot gives it back.\<close>

fun slot_next :: "slot_conf \<Rightarrow> nat \<Rightarrow> slot_pc \<Rightarrow> slot_mem \<Rightarrow> slot_pc \<times> slot_mem" where
  "slot_next c w PushCheckWf m =
     (if \<not> (0 < sc_globalMax c \<or> 0 < sc_perWfMax c) then (Holding, m)
      else if 0 < sc_perWfMax c \<and> sc_perWfMax c \<le> load_counter w m then (Enqueue, m) else (PushCheckGlobal, m))"
| "slot_next c w PushCheckGlobal m =
     (if 0 < sc_globalMax c \<and> sc_globalMax c \<le> sm_global m then (Enqueue, m) else (PushIncLoad, m))"
| "slot_next c w PushIncLoad m = (case get_or_create w m of (a, m') \<Rightarrow> (PushIncAdd a, m'))"
| "slot_next c w (PushIncAdd a) m = (case add_counter a 1 m of (n, m') \<Rightarrow> (PushTestWf n, m'))"
| "slot_next c w (PushTestWf n) m =
     (if 0 < sc_perWfMax c \<and> sc_perWfMax c < n then (DecLoad ThenEnqueue, m) else (PushAddGlobal, m))"
| "slot_next c w PushAddGlobal m = (PushTestGlobal (sm_global m + 1), add_global 1 m)"
| "slot_next c w (PushTestGlobal n) m =
     (if 0 < sc_globalMax c \<and> sc_globalMax c < n then (PushUndoGlobal, m) else (Holding, m))"
| "slot_next c w PushUndoGlobal m = (DecLoad ThenEnqueue, add_global (- 1) m)"
| "slot_next c w (DecLoad k) m = (case get_or_create w m of (a, m') \<Rightarrow> (DecAdd a k, m'))"
| "slot_next c w (DecAdd a k) m =
     (case add_counter a (- 1) m of (n, m') \<Rightarrow> (if n = 0 then DecDelete k else after_pc k, m'))"
| "slot_next c w (DecDelete k) m = (after_pc k, m\<lparr>sm_counter := (sm_counter m)(w := None)\<rparr>)"
| "slot_next c w Enqueue m = (if sm_locked m then (Enqueue, m) else (Queued, m))"
| "slot_next c w Queued m = (Queued, m)"
| "slot_next c w DispCheckGlobal m =
     (if 0 < sc_globalMax c \<and> sc_globalMax c \<le> sm_global m then (Queued, m\<lparr>sm_locked := False\<rparr>) else (DispCheckWf, m))"
| "slot_next c w DispCheckWf m =
     (if 0 < sc_perWfMax c \<and> sc_perWfMax c \<le> load_counter w m then (Queued, m\<lparr>sm_locked := False\<rparr>) else (DispAddGlobal, m))"
| "slot_next c w DispAddGlobal m = (DispIncLoad, add_global 1 m)"
| "slot_next c w DispIncLoad m = (case get_or_create w m of (a, m') \<Rightarrow> (DispIncAdd a, m'))"
| "slot_next c w (DispIncAdd a) m = (case add_counter a 1 m of (n, m') \<Rightarrow> (Holding, m'\<lparr>sm_locked := False\<rparr>))"
| "slot_next c w Holding m =
     (DecLoad ThenReturn, if 0 < sc_globalMax c then add_global (- 1) m else m)"
| "slot_next c w Returned m = (Returned, m)"

record slot_sys =
  ss_pcs :: "slot_pc list"
  ss_mem :: slot_mem

text \<open>\<open>Dispatch i\<close>: some release selects task \<open>i\<close> from the queue; the queue is locked meanwhile.\<close>

datatype slot_event = Run nat | Dispatch nat

fun slot_step :: "slot_conf \<Rightarrow> slot_event \<Rightarrow> slot_sys \<Rightarrow> slot_sys" where
  "slot_step c (Run i) s =
     (if i < length (ss_pcs s) then
        (case slot_next c (sc_workflow c i) (ss_pcs s ! i) (ss_mem s) of (pc, m) \<Rightarrow> s\<lparr>ss_pcs := (ss_pcs s)[i := pc], ss_mem := m\<rparr>)
      else s)"
| "slot_step c (Dispatch i) s =
     (if i < length (ss_pcs s) \<and> ss_pcs s ! i = Queued \<and> \<not> sm_locked (ss_mem s)
      then s\<lparr>ss_pcs := (ss_pcs s)[i := DispCheckGlobal], ss_mem := (ss_mem s)\<lparr>sm_locked := True\<rparr>\<rparr>
      else s)"

definition slot_init :: "nat \<Rightarrow> slot_sys" where
  "slot_init n =
     \<lparr>ss_pcs = replicate n PushCheckWf,
      ss_mem = \<lparr>sm_global = 0, sm_counter = Map.empty, sm_value = (\<lambda>_. 0), sm_fresh = 0, sm_locked = False\<rparr>\<rparr>"


subsection \<open>The global counter\<close>

text \<open>The tasks the global counter counts, and those that were dispatched from the queue.\<close>

fun counted :: "slot_pc \<Rightarrow> bool" where
  "counted (PushTestGlobal n) = True"
| "counted PushUndoGlobal = True"
| "counted DispIncLoad = True"
| "counted (DispIncAdd a) = True"
| "counted Holding = True"
| "counted _ = False"

fun dispatching :: "slot_pc \<Rightarrow> bool" where
  "dispatching DispCheckGlobal = True"
| "dispatching DispCheckWf = True"
| "dispatching DispAddGlobal = True"
| "dispatching DispIncLoad = True"
| "dispatching (DispIncAdd a) = True"
| "dispatching _ = False"

fun holds :: "slot_pc \<Rightarrow> bool" where
  "holds Holding = True"
| "holds _ = False"

definition num :: "(slot_pc \<Rightarrow> bool) \<Rightarrow> slot_sys \<Rightarrow> int" where
  "num P s = int (length (filter P (ss_pcs s)))"

text \<open>A task whose addition has just shown that there was room holds its slot already.\<close>

definition granted :: "slot_conf \<Rightarrow> slot_pc \<Rightarrow> bool" where
  "granted c pc \<longleftrightarrow> pc = Holding \<or> (\<exists>n. pc = PushTestGlobal n \<and> n \<le> sc_globalMax c)"

text \<open>The tasks that the global counter counts depend on the limits: with a limit per workflow only, a
  slot that is given back is not taken off; without any limit nothing is counted.\<close>

fun returning :: "slot_pc \<Rightarrow> bool" where
  "returning (DecLoad k) = (k = ThenReturn)"
| "returning (DecAdd a k) = (k = ThenReturn)"
| "returning (DecDelete k) = (k = ThenReturn)"
| "returning Returned = True"
| "returning _ = False"

definition counted_by :: "slot_conf \<Rightarrow> slot_pc \<Rightarrow> bool" where
  "counted_by c pc \<longleftrightarrow>
     (if 0 < sc_globalMax c then counted pc else 0 < sc_perWfMax c \<and> (counted pc \<or> returning pc))"

definition unlimited_pc :: "slot_pc \<Rightarrow> bool" where
  "unlimited_pc pc \<longleftrightarrow> pc = PushCheckWf \<or> pc = Holding \<or> returning pc"

definition counts_ok :: "slot_conf \<Rightarrow> slot_sys \<Rightarrow> bool" where
  "counts_ok c s \<longleftrightarrow> sm_global (ss_mem s) = num (counted_by c) s
     \<and> (\<not> 0 < sc_globalMax c \<and> \<not> 0 < sc_perWfMax c \<longrightarrow> (\<forall>pc \<in> set (ss_pcs s). unlimited_pc pc))"

lemma global_sel [simp]:
  "sm_global (add_global d m) = sm_global m + d" "sm_global (snd (get_or_create w m)) = sm_global m"
  "sm_global (snd (add_counter a d m)) = sm_global m"
  by (simp_all add: add_global_def get_or_create_def add_counter_def Let_def split: option.splits)

lemma memory_sel [dest]:
  "get_or_create w m = (a, m') \<Longrightarrow> sm_global m' = sm_global m"
  "add_counter a d m = (n, m') \<Longrightarrow> sm_global m' = sm_global m"
  using global_sel(2) [of w m] global_sel(3) [of a d m] by simp_all

lemma slot_next_global:
  assumes "0 < sc_globalMax c \<or> 0 < sc_perWfMax c \<or> unlimited_pc pc"
  shows "sm_global (snd (slot_next c w pc m)) - sm_global m
     = (if counted_by c (fst (slot_next c w pc m)) then 1 else 0) - (if counted_by c pc then 1 else 0)"
  using assms
  by (cases pc) (auto simp: counted_by_def unlimited_pc_def after_pc_def split: prod.splits after_dec.splits)

lemma slot_next_unlimited:
  "\<not> 0 < sc_globalMax c \<Longrightarrow> \<not> 0 < sc_perWfMax c \<Longrightarrow> unlimited_pc pc \<Longrightarrow> unlimited_pc (fst (slot_next c w pc m))"
  by (cases pc) (auto simp: unlimited_pc_def after_pc_def split: prod.splits after_dec.splits)

lemma counts_step:
  assumes "counts_ok c s"
  shows "counts_ok c (slot_step c e s)"
proof (cases e)
  case (Run i)
  show ?thesis
  proof (cases "i < length (ss_pcs s)")
    case True
    let ?pc = "ss_pcs s ! i" and ?w = "sc_workflow c i"
    have pc: "0 < sc_globalMax c \<or> 0 < sc_perWfMax c \<or> unlimited_pc ?pc" using assms True by (auto simp: counts_ok_def)
    show ?thesis using slot_next_global [OF pc, of ?w "ss_mem s"] slot_next_unlimited [of c ?pc ?w "ss_mem s"] assms True
      by (auto simp: Run counts_ok_def num_def length_filter_update split: prod.splits dest!: set_update_subset_insert [THEN subsetD])
  qed (simp add: Run assms)
next
  case (Dispatch i)
  have "0 < sc_globalMax c \<or> 0 < sc_perWfMax c" if "i < length (ss_pcs s)" "ss_pcs s ! i = Queued"
  proof (rule ccontr)
    assume "\<not> ?thesis"
    then have "unlimited_pc (ss_pcs s ! i)" using assms that(1) by (simp add: counts_ok_def)
    then show False using that(2) by (simp add: unlimited_pc_def)
  qed
  then show ?thesis using assms
    by (auto simp: Dispatch counts_ok_def num_def length_filter_update counted_by_def)
qed

lemma num_le: "(\<And>pc. P pc \<Longrightarrow> Q pc) \<Longrightarrow> num P s \<le> num Q s"
  unfolding num_def by (induction "ss_pcs s" arbitrary: s) (simp, metis (mono_tags, lifting) length_filter_conv_card card_mono finite_nat_set_iff_bounded mem_Collect_eq subsetI of_nat_mono)

definition no_dispatch :: "slot_sys \<Rightarrow> bool" where
  "no_dispatch s \<longleftrightarrow> (\<forall>pc \<in> set (ss_pcs s). \<not> dispatching pc)"

lemma granted_counted: "granted c pc \<Longrightarrow> counted pc"
  by (auto simp: granted_def)

lemma slot_next_granted:
  assumes "0 < sc_globalMax c" and "\<not> dispatching pc"
  shows "\<not> dispatching (fst (slot_next c w pc m))"
    and "granted c (fst (slot_next c w pc m)) \<Longrightarrow> \<not> granted c pc \<Longrightarrow> pc = PushAddGlobal \<and> sm_global m + 1 \<le> sc_globalMax c"
  using assms by (cases pc; auto simp: granted_def after_pc_def split: prod.splits after_dec.splits if_splits)+

lemma granted_step:
  assumes max: "0 < sc_globalMax c" and ok: "counts_ok c s" "no_dispatch s" "num (granted c) s \<le> sc_globalMax c"
  shows "no_dispatch (slot_step c (Run i) s) \<and> num (granted c) (slot_step c (Run i) s) \<le> sc_globalMax c"
proof (cases "i < length (ss_pcs s)")
  case True
  let ?pc = "ss_pcs s ! i" and ?m = "ss_mem s" and ?w = "sc_workflow c i"
  have nd: "\<not> dispatching ?pc" using ok(2) True by (simp add: no_dispatch_def)
  have "num (granted c) s \<le> num counted s" by (rule num_le) (rule granted_counted)
  then have room: "num (granted c) s + 1 \<le> sc_globalMax c"
    if "granted c (fst (slot_next c ?w ?pc ?m))" "\<not> granted c ?pc"
    using slot_next_granted(2) [OF max nd that] ok(1) max by (simp add: counts_ok_def counted_by_def [abs_def])
  show ?thesis
    using room ok(2,3) slot_next_granted(1) [OF max nd, of ?w ?m] True
    by (auto simp: num_def length_filter_update no_dispatch_def split: prod.splits dest!: set_update_subset_insert [THEN subsetD])
qed (simp add: ok)

interpretation slots: component "slot_step c" "counts_ok c"
  by unfold_locales (rule counts_step)

lemma slot_init_ok: "counts_ok c (slot_init n)" "no_dispatch (slot_init n)" "num (granted c) (slot_init n) = 0"
  by (simp_all add: slot_init_def counts_ok_def num_def no_dispatch_def granted_def counted_by_def unlimited_pc_def)

lemma run_only:
  assumes "0 < sc_globalMax c" and "counts_ok c s" "no_dispatch s" "num (granted c) s \<le> sc_globalMax c"
  shows "num (granted c) (fold (slot_step c) (map Run is) s) \<le> sc_globalMax c"
  using assms(2-)
proof (induction "is" arbitrary: s)
  case (Cons i "is")
  have "counts_ok c (slot_step c (Run i) s)" using counts_step [OF Cons.prems(1)] .
  moreover have "no_dispatch (slot_step c (Run i) s) \<and> num (granted c) (slot_step c (Run i) s) \<le> sc_globalMax c"
    by (rule granted_step [OF assms(1) Cons.prems])
  ultimately show ?case using Cons.IH [of "slot_step c (Run i) s"] by simp
qed simp

text \<open>C38. The global counter under concurrency. For any number of tasks of any workflows, any configuration
  of the limits and any interleaving of the tasks' atomic operations: with a global limit, the global
  counter is at every moment the number of tasks that hold a slot or are between taking or giving it
  back on the counter and the next operation, so no slot is lost or given twice; with a limit per workflow
  only, it counts besides every task that has given its slot back, so it never goes down when they do;
  without a limit it is zero. And with a global limit, as long as tasks only ask for slots and give
  them back, without dispatching from the queue, at most \<open>sc_globalMax\<close> of them hold one at any time.\<close>

theorem slots_accounted:
  "sm_global (ss_mem (fold (slot_step c) es (slot_init n)))
     = (if 0 < sc_globalMax c then num counted (fold (slot_step c) es (slot_init n))
        else if 0 < sc_perWfMax c then num (\<lambda>pc. counted pc \<or> returning pc) (fold (slot_step c) es (slot_init n))
        else 0)
   \<and> (0 < sc_globalMax c \<longrightarrow> num holds (fold (slot_step c) (map Run is) (slot_init n)) \<le> sc_globalMax c)"
proof -
  have "counts_ok c (fold (slot_step c) es (slot_init n))"
    using slots.run_inv [of c "slot_init n" es] slot_init_ok(1) by blast
  moreover have "num (granted c) (fold (slot_step c) (map Run is) (slot_init n)) \<le> sc_globalMax c" if "0 < sc_globalMax c"
    using that by (intro run_only) (simp_all add: slot_init_ok)
  moreover have "num holds s \<le> num (granted c) s" for s by (rule num_le) (auto simp: granted_def elim: holds.elims)
  ultimately have "sm_global (ss_mem (fold (slot_step c) es (slot_init n))) = num (counted_by c) (fold (slot_step c) es (slot_init n))"
    and limit: "0 < sc_globalMax c \<longrightarrow> num holds (fold (slot_step c) (map Run is) (slot_init n)) \<le> sc_globalMax c"
    by (auto simp: counts_ok_def intro: order_trans)
  moreover have "num (\<lambda>_. False) s = 0" for s by (simp add: num_def)
  ultimately show ?thesis by (simp add: counted_by_def [abs_def])
qed


subsection \<open>Where the limits fail\<close>

abbreviation "one_global \<equiv> \<lparr>sc_globalMax = 1, sc_perWfMax = 0, sc_workflow = (\<lambda>_. 0)\<rparr>"
abbreviation "one_per_workflow \<equiv> \<lparr>sc_globalMax = 0, sc_perWfMax = 1, sc_workflow = (\<lambda>_. 0)\<rparr>"

text \<open>\<^verbatim>\<open>tryDispatchPending\<close> compares and adds in two steps: a task that asks for a slot in between gets
  it, and then two tasks hold the one slot there is.\<close>

definition overtaking :: "slot_event list" where
  "overtaking =
     replicate 7 (Run 0) @ replicate 3 (Run 1)              \<comment> \<open>task 0 holds the slot, task 1 waits\<close>
     @ replicate 3 (Run 0) @ [Dispatch 1, Run 1, Run 1]     \<comment> \<open>0 gives it back, 1 is selected\<close>
     @ replicate 7 (Run 2) @ replicate 3 (Run 1)            \<comment> \<open>2 takes the slot, then 1 is counted\<close>"

lemma dispatch_exceeds_limit:
  "length (filter holds (ss_pcs (fold (slot_step one_global) overtaking (slot_init 3)))) = 2
   \<and> sm_global (ss_mem (fold (slot_step one_global) overtaking (slot_init 3))) = 2"
  by code_simp

text \<open>\<^verbatim>\<open>decPerWfActive\<close> deletes the counter some time after it has become zero: a slot that was taken in
  between is forgotten with it, and the next task gets the same slot.\<close>

definition forgotten :: "slot_event list" where
  "forgotten =
     replicate 7 (Run 0) @ replicate 3 (Run 0)              \<comment> \<open>task 0 gives back, the counter is zero\<close>
     @ replicate 7 (Run 1) @ [Run 0]                        \<comment> \<open>1 takes the slot, 0 deletes the counter\<close>
     @ replicate 7 (Run 2)"

lemma deleted_counter_exceeds_limit:
  "length (filter holds (ss_pcs (fold (slot_step one_per_workflow) forgotten (slot_init 3)))) = 2"
  by code_simp

theorem slots_accounted_witness:
  "sm_global (ss_mem (fold (slot_step one_global) overtaking (slot_init 3))) = num counted (fold (slot_step one_global) overtaking (slot_init 3))
   \<and> num holds (fold (slot_step one_global) (map Run [0, 1, 0, 1, 0, 1, 0, 1]) (slot_init 2)) \<le> 1"
proof -
  have g: "0 < sc_globalMax one_global" and eq: "sc_globalMax one_global = 1" by simp_all
  note a = conjunct1 [OF slots_accounted [of one_global overtaking 3 "[]"], unfolded if_P [OF g]]
  note b = mp [OF conjunct2 [OF slots_accounted [of one_global "[]" 2 "[0, 1, 0, 1, 0, 1, 0, 1]"]] g, unfolded eq]
  from a b show ?thesis by (rule conjI)
qed

end
