(* ===== verification/Persist_Pool.thy ===== *)
theory Persist_Pool
  imports Repository
begin

text \<open>
  The pool of goroutines that writes final states to MySQL (\<^verbatim>\<open>persistWorkerPool\<close> of \<^verbatim>\<open>repository.go\<close>):
  a buffered channel of jobs, a fixed number of workers, and callers that wait for room for a limited
  time. The steps of callers and workers interleave in any order; a \<^verbatim>\<open>select\<close> with several ready cases
  takes any of them.
\<close>

record persistJob =
  job_uuid :: uuid
  job_workflowID :: nat
  job_execID :: nat
  job_status :: workflow_status
  job_errMsg :: msg
  job_val :: "workflow_state option"    \<comment> \<open>the serialised state; \<open>None\<close> for no bytes\<close>

text \<open>\<^verbatim>\<open>persistToMySQL\<close>: the job of a call.\<close>

definition persist_job :: "uuid \<Rightarrow> nat \<Rightarrow> nat \<Rightarrow> workflow_status \<Rightarrow> msg \<Rightarrow> workflow_state \<Rightarrow> persistJob" where
  "persist_job u w x status err st =
     \<lparr>job_uuid = u, job_workflowID = w, job_execID = x, job_status = status, job_errMsg = err, job_val = Some st\<rparr>"

definition job_of :: "effect \<Rightarrow> persistJob option" where
  "job_of e = (case e of PersistToMySQL u w x status err st \<Rightarrow> Some (persist_job u w x status err st) | _ \<Rightarrow> None)"

datatype pool_worker = WIdle | WBusy persistJob | WExited

record persist_pool =
  pl_jobs :: "persistJob list"
  pl_cap :: nat
  pl_workers :: "pool_worker list"
  pl_waiting :: "persistJob list"       \<comment> \<open>callers of \<^verbatim>\<open>submit\<close> in their second \<^verbatim>\<open>select\<close>\<close>
  pl_cancelled :: bool                  \<comment> \<open>the context of the scheduler\<close>
  pl_accepted :: "persistJob list"      \<comment> \<open>ghost: \<^verbatim>\<open>submit\<close> returned true, in order\<close>
  pl_started :: "persistJob list"       \<comment> \<open>ghost: taken by a worker, in order\<close>
  pl_processed :: "persistJob list"
  pl_refused :: "persistJob list"       \<comment> \<open>\<^verbatim>\<open>submit\<close> returned false\<close>
  pl_submitted :: "persistJob list"     \<comment> \<open>ghost: \<^verbatim>\<open>submit\<close> was called\<close>

abbreviation persistWorkerPoolSize :: nat where "persistWorkerPoolSize \<equiv> 32"

definition newPersistWorkerPool :: "nat \<Rightarrow> persist_pool" where
  "newPersistWorkerPool n =
     \<lparr>pl_jobs = [], pl_cap = n * 4, pl_workers = replicate n WIdle, pl_waiting = [], pl_cancelled = False,
      pl_accepted = [], pl_started = [], pl_processed = [], pl_refused = [], pl_submitted = []\<rparr>"

definition pool_send :: "persistJob \<Rightarrow> persist_pool \<Rightarrow> persist_pool" where
  "pool_send j p = p\<lparr>pl_jobs := pl_jobs p @ [j], pl_accepted := pl_accepted p @ [j]\<rparr>"

text \<open>The first \<^verbatim>\<open>select\<close> of \<^verbatim>\<open>submit\<close>: send if there is room, otherwise go on to wait.\<close>

definition submit :: "persistJob \<Rightarrow> persist_pool \<Rightarrow> persist_pool" where
  "submit j p =
     (if length (pl_jobs p) < pl_cap p then pool_send j p else p\<lparr>pl_waiting := pl_waiting p @ [j]\<rparr>)"

inductive pool_step :: "persist_pool \<Rightarrow> persist_pool \<Rightarrow> bool" where
  submits: "pool_step p (submit j (p\<lparr>pl_submitted := pl_submitted p @ [j]\<rparr>))"
| sends: "j \<in> set (pl_waiting p) \<Longrightarrow> length (pl_jobs p) < pl_cap p \<Longrightarrow>
     pool_step p (pool_send j (p\<lparr>pl_waiting := remove1 j (pl_waiting p)\<rparr>))"
| gives_up: "j \<in> set (pl_waiting p) \<Longrightarrow>
     pool_step p (p\<lparr>pl_waiting := remove1 j (pl_waiting p), pl_refused := pl_refused p @ [j]\<rparr>)"
| takes: "i < length (pl_workers p) \<Longrightarrow> pl_workers p ! i = WIdle \<Longrightarrow> pl_jobs p = j # js \<Longrightarrow>
     pool_step p (p\<lparr>pl_jobs := js, pl_workers := (pl_workers p)[i := WBusy j], pl_started := pl_started p @ [j]\<rparr>)"
| finishes: "i < length (pl_workers p) \<Longrightarrow> pl_workers p ! i = WBusy j \<Longrightarrow>
     pool_step p (p\<lparr>pl_workers := (pl_workers p)[i := WIdle], pl_processed := pl_processed p @ [j]\<rparr>)"
| cancels: "pool_step p (p\<lparr>pl_cancelled := True\<rparr>)"
| exits: "i < length (pl_workers p) \<Longrightarrow> pl_workers p ! i = WIdle \<Longrightarrow> pl_cancelled p \<Longrightarrow>
     pool_step p (p\<lparr>pl_workers := (pl_workers p)[i := WExited]\<rparr>)"

inductive_cases pool_stepE: "pool_step p p'"

text \<open>The caller that gives up does so after \<^verbatim>\<open>persistEnqueueTimeout\<close> or because the context is done.\<close>

inductive pool_reach :: "nat \<Rightarrow> persist_pool \<Rightarrow> bool" for n where
  start: "pool_reach n (newPersistWorkerPool n)"
| next_step: "pool_reach n p \<Longrightarrow> pool_step p p' \<Longrightarrow> pool_reach n p'"

fun busy_job :: "pool_worker \<Rightarrow> persistJob option" where
  "busy_job (WBusy j) = Some j"
| "busy_job _ = None"

definition busy :: "persist_pool \<Rightarrow> persistJob list" where
  "busy p = List.map_filter busy_job (pl_workers p)"

definition pool_inv :: "nat \<Rightarrow> persist_pool \<Rightarrow> bool" where
  "pool_inv n p \<longleftrightarrow>
     pl_cap p = n * 4 \<and> length (pl_workers p) = n \<and> length (pl_jobs p) \<le> pl_cap p
     \<and> pl_accepted p = pl_started p @ pl_jobs p
     \<and> mset (pl_started p) = mset (busy p) + mset (pl_processed p)
     \<and> mset (pl_submitted p) = mset (pl_accepted p) + mset (pl_waiting p) + mset (pl_refused p)
     \<and> (\<not> pl_cancelled p \<longrightarrow> WExited \<notin> set (pl_workers p))"

lemma busy_update:
  "i < length ws \<Longrightarrow> mset (List.map_filter busy_job (ws[i := w])) + mset (List.map_filter busy_job [ws ! i])
     = mset (List.map_filter busy_job ws) + mset (List.map_filter busy_job [w])"
proof (induction ws arbitrary: i)
  case (Cons x ws)
  show ?case
  proof (cases i)
    case (Suc k)
    with Cons.IH [of k] Cons.prems show ?thesis
      by (cases "busy_job x") (simp_all add: map_filter_simps)
  qed (cases "busy_job x"; cases "busy_job w"; simp add: map_filter_simps)
qed simp

lemma pool_step_inv: "pool_step p p' \<Longrightarrow> pool_inv n p \<Longrightarrow> pool_inv n p'"
proof (erule pool_stepE)
  fix i j js
  assume s: "p' = p\<lparr>pl_jobs := js, pl_workers := (pl_workers p)[i := WBusy j], pl_started := pl_started p @ [j]\<rparr>"
    "i < length (pl_workers p)" "pl_workers p ! i = WIdle" "pl_jobs p = j # js" and inv: "pool_inv n p"
  then show "pool_inv n p'" using busy_update [of i "pl_workers p" "WBusy j"]
    by (auto simp: pool_inv_def busy_def map_filter_simps dest!: set_update_subset_insert [THEN subsetD])
next
  fix i j
  assume s: "p' = p\<lparr>pl_workers := (pl_workers p)[i := WIdle], pl_processed := pl_processed p @ [j]\<rparr>"
    "i < length (pl_workers p)" "pl_workers p ! i = WBusy j" and inv: "pool_inv n p"
  then show "pool_inv n p'" using busy_update [of i "pl_workers p" WIdle]
    by (auto simp: pool_inv_def busy_def map_filter_simps dest!: set_update_subset_insert [THEN subsetD])
next
  fix i
  assume s: "p' = p\<lparr>pl_workers := (pl_workers p)[i := WExited]\<rparr>"
    "i < length (pl_workers p)" "pl_workers p ! i = WIdle" "pl_cancelled p" and inv: "pool_inv n p"
  then show "pool_inv n p'" using busy_update [of i "pl_workers p" WExited]
    by (auto simp: pool_inv_def busy_def map_filter_simps)
qed (auto simp: pool_inv_def busy_def submit_def pool_send_def ac_simps)

lemma pool_reach_inv: "pool_reach n p \<Longrightarrow> pool_inv n p"
proof (induction rule: pool_reach.induct)
  case start
  have "List.map_filter busy_job (replicate n WIdle) = []" by (induction n) (simp_all add: map_filter_simps)
  then show ?case by (simp add: pool_inv_def newPersistWorkerPool_def busy_def)
qed (rule pool_step_inv)

text \<open>C39. The accounts of the pool, in every interleaving of its callers, its workers and the shutdown:
  the jobs for which \<^verbatim>\<open>submit\<close> was called are, each once, those accepted, those whose caller still
  waits for room and those refused to their caller; the accepted jobs are those a worker has taken, in the order
  in which they were accepted, followed by those in the channel; the jobs taken are, each once, the jobs
  written and the jobs being written; at most \<open>n\<close> are written at a time and at most \<open>4 n\<close> are in the
  channel; a caller waits only after it found the channel full, and one that waits while there is room can send; and
  until the scheduler's context is cancelled the pool never stands still while there is a job.\<close>

theorem pool_accounting:
  assumes "pool_reach n p"
  shows "mset (pl_submitted p) = mset (pl_accepted p) + mset (pl_waiting p) + mset (pl_refused p)
     \<and> (\<forall>j. length (pl_jobs p) < pl_cap p \<longrightarrow> pl_waiting (submit j p) = pl_waiting p
              \<and> (j \<in> set (pl_waiting p) \<longrightarrow> (\<exists>p'. pool_step p p' \<and> pl_accepted p' = pl_accepted p @ [j])))
     \<and> pl_accepted p = pl_started p @ pl_jobs p
     \<and> mset (pl_started p) = mset (pl_processed p) + mset (busy p)
     \<and> length (busy p) \<le> n \<and> length (pl_jobs p) \<le> 4 * n
     \<and> (\<not> pl_cancelled p \<and> 0 < n \<and> (pl_jobs p \<noteq> [] \<or> busy p \<noteq> []) \<longrightarrow>
          (\<exists>p'. pool_step p p' \<and> pl_accepted p' = pl_accepted p
             \<and> 2 * length (pl_jobs p') + length (busy p') < 2 * length (pl_jobs p) + length (busy p)))"
proof -
  have inv: "pool_inv n p" by (rule pool_reach_inv [OF assms])
  have "length (busy p) \<le> n" using inv by (auto simp: pool_inv_def busy_def List.map_filter_def)
  moreover have "\<exists>p'. pool_step p p' \<and> pl_accepted p' = pl_accepted p
      \<and> 2 * length (pl_jobs p') + length (busy p') < 2 * length (pl_jobs p) + length (busy p)"
    if open': "\<not> pl_cancelled p" and n: "0 < n" and work: "pl_jobs p \<noteq> [] \<or> busy p \<noteq> []"
  proof (cases "busy p = []")
    case True
    then obtain j js where js: "pl_jobs p = j # js" using work by (cases "pl_jobs p") auto
    have len: "0 < length (pl_workers p)" using inv n by (simp add: pool_inv_def)
    have "pl_workers p ! 0 \<in> set (pl_workers p)" using len by simp
    moreover have "\<forall>w \<in> set (pl_workers p). busy_job w = None"
      using True by (auto simp: busy_def List.map_filter_def filter_empty_conv)
    moreover have "WExited \<notin> set (pl_workers p)" using inv open' by (simp add: pool_inv_def)
    ultimately have "busy_job (pl_workers p ! 0) = None" "pl_workers p ! 0 \<noteq> WExited" by force+
    then have idle: "pl_workers p ! 0 = WIdle" by (cases "pl_workers p ! 0") simp_all
    let ?p = "p\<lparr>pl_jobs := js, pl_workers := (pl_workers p)[0 := WBusy j], pl_started := pl_started p @ [j]\<rparr>"
    have "pool_step p ?p" by (rule takes [OF len idle js])
    moreover have "mset (busy ?p) = {#j#}"
      using busy_update [OF len, of "WBusy j"] True by (simp add: idle busy_def map_filter_simps)
    then have "length (busy ?p) = 1" by (metis size_mset size_single)
    ultimately show ?thesis using True js by (intro exI [of _ ?p]) simp
  next
    case False
    then obtain w where w: "w \<in> set (pl_workers p)" "busy_job w \<noteq> None"
      by (auto simp: busy_def List.map_filter_def filter_empty_conv)
    then obtain j where j: "w = WBusy j" by (auto elim: busy_job.elims)
    then obtain i where i: "i < length (pl_workers p)" "pl_workers p ! i = WBusy j" using w(1) by (metis in_set_conv_nth)
    let ?p = "p\<lparr>pl_workers := (pl_workers p)[i := WIdle], pl_processed := pl_processed p @ [j]\<rparr>"
    have "pool_step p ?p" by (rule finishes [OF i])
    moreover have "add_mset j (mset (busy ?p)) = mset (busy p)"
      using busy_update [OF i(1), of WIdle] by (simp add: i(2) busy_def map_filter_simps)
    then have "length (busy p) = Suc (length (busy ?p))" by (metis size_mset size_add_mset)
    ultimately show ?thesis by (intro exI [of _ ?p]) simp
  qed
  moreover have "pl_waiting (submit j p) = pl_waiting p \<and> (j \<in> set (pl_waiting p) \<longrightarrow>
      (\<exists>p'. pool_step p p' \<and> pl_accepted p' = pl_accepted p @ [j]))" if room: "length (pl_jobs p) < pl_cap p" for j
  proof -
    have "pl_waiting (submit j p) = pl_waiting p" using room by (simp add: submit_def pool_send_def)
    moreover have "pl_accepted (pool_send j (p\<lparr>pl_waiting := remove1 j (pl_waiting p)\<rparr>)) = pl_accepted p @ [j]"
      by (simp add: pool_send_def)
    ultimately show ?thesis using sends [OF _ room] by blast
  qed
  ultimately show ?thesis using inv by (simp add: pool_inv_def ac_simps)
qed

text \<open>\<^verbatim>\<open>Shutdown\<close> cancels the context before it waits; the workers then leave, and what is in the channel
  is never written.\<close>

lemma workers_exit:
  assumes "pool_reach n p" and "pl_cancelled p" and "\<forall>w \<in> set (pl_workers p). w = WIdle \<or> w = WExited"
  shows "\<exists>p'. pool_reach n p' \<and> set (pl_workers p') \<subseteq> {WExited} \<and> pl_jobs p' = pl_jobs p \<and> pl_accepted p' = pl_accepted p"
  using assms
proof (induction "length (filter (\<lambda>w. w = WIdle) (pl_workers p))" arbitrary: p rule: less_induct)
  case less
  show ?case
  proof (cases "WIdle \<in> set (pl_workers p)")
    case True
    then obtain i where i: "i < length (pl_workers p)" "pl_workers p ! i = WIdle" by (metis in_set_conv_nth)
    let ?p = "p\<lparr>pl_workers := (pl_workers p)[i := WExited]\<rparr>"
    have "mset (pl_workers ?p) = add_mset WExited (mset (pl_workers p) - {#WIdle#})"
      using i by (simp add: mset_update)
    then have "filter_mset (\<lambda>w. w = WIdle) (mset (pl_workers ?p)) = filter_mset (\<lambda>w. w = WIdle) (mset (pl_workers p)) - {#WIdle#}"
      by simp
    moreover have "WIdle \<in># filter_mset (\<lambda>w. w = WIdle) (mset (pl_workers p))" using True by simp
    ultimately have "size (filter_mset (\<lambda>w. w = WIdle) (mset (pl_workers ?p))) < size (filter_mset (\<lambda>w. w = WIdle) (mset (pl_workers p)))"
      by (metis size_Diff1_less)
    then have "length (filter (\<lambda>w. w = WIdle) (pl_workers ?p)) < length (filter (\<lambda>w. w = WIdle) (pl_workers p))"
      by (simp flip: mset_filter add: size_mset del: filter_mset_eq_conv)
    moreover have "pool_reach n ?p" by (rule pool_reach.next_step [OF less.prems(1) exits [OF i less.prems(2)]])
    moreover have "\<forall>w \<in> set (pl_workers ?p). w = WIdle \<or> w = WExited"
      using less.prems(3) by (auto dest!: set_update_subset_insert [THEN subsetD])
    ultimately show ?thesis using less.hyps [of ?p] less.prems(2) by auto
  next
    case False
    then show ?thesis using less.prems by (intro exI [of _ p]) auto
  qed
qed

lemma shutdown_loses_jobs:
  assumes "0 < n"
  shows "\<exists>p. pool_reach n p \<and> pl_accepted p = [j] \<and> pl_jobs p = [j] \<and> set (pl_workers p) \<subseteq> {WExited}"
proof -
  let ?p0 = "(newPersistWorkerPool n)\<lparr>pl_submitted := pl_submitted (newPersistWorkerPool n) @ [j]\<rparr>"
  let ?p = "(submit j ?p0)\<lparr>pl_cancelled := True\<rparr>"
  have "pool_reach n ?p"
    by (rule pool_reach.next_step [OF pool_reach.next_step [OF pool_reach.start submits] cancels])
  moreover have "pl_jobs ?p = [j]" "pl_accepted ?p = [j]" "pl_cancelled ?p" "\<forall>w \<in> set (pl_workers ?p). w = WIdle \<or> w = WExited"
    using assms by (simp_all add: submit_def pool_send_def newPersistWorkerPool_def)
  ultimately show ?thesis using workers_exit [of n ?p] by metis
qed

definition demo_job :: persistJob where
  "demo_job = persist_job ''w'' 4 1 WorkflowStatusCompleted NoMsg (pending_state demo_workflow)"

theorem pool_accounting_witness:
  "\<exists>p p'. pool_reach 1 p \<and> pl_jobs p = [demo_job] \<and> pool_step p p' \<and> pl_accepted p' = [demo_job]
     \<and> 2 * length (pl_jobs p') + length (busy p') < 2"
proof -
  define p where "p = submit demo_job ((newPersistWorkerPool 1)\<lparr>pl_submitted := pl_submitted (newPersistWorkerPool 1) @ [demo_job]\<rparr>)"
  have r: "pool_reach 1 p" unfolding p_def by (rule pool_reach.next_step [OF pool_reach.start submits])
  have sel: "pl_jobs p = [demo_job]" "pl_accepted p = [demo_job]" "\<not> pl_cancelled p" "busy p = []"
    by (simp_all add: p_def submit_def pool_send_def newPersistWorkerPool_def busy_def map_filter_simps)
  from pool_accounting [OF r] r sel show ?thesis by auto
qed

end
