(* ===== verification/Plugins.thy ===== *)
theory Plugins
  imports Lifecycle Worker Worker_Manager
begin

text \<open>
  The plug-in registry (\<^verbatim>\<open>infra/plugin/registry.go\<close>), the built-in plug-ins and their two tasks
  (\<^verbatim>\<open>plugin/builtin\<close>), and the path of a task from its node through the master's payload and the
  worker's handler to the output that the next task is given. What the network and the file system
  answer are arguments of the handlers. \<open>utf8\<close> is a string literal of the source that is not ASCII,
  given by its bytes.
\<close>

definition utf8 :: "nat list \<Rightarrow> string" where
  "utf8 bytes = map char_of bytes"


subsection \<open>The registry of plug-ins\<close>

text \<open>A registered value: the interfaces it implements, each by its one method.\<close>

record ('m, 'w) plugin =
  RegisterToMaster :: "('m \<Rightarrow> 'm) option"
  RegisterToWorker :: "('w \<Rightarrow> 'w option) option"

record ('m, 'w) plugin_registry =
  masterPlugins :: "('m \<Rightarrow> 'm) list"
  workerPlugins :: "('w \<Rightarrow> 'w option) list"

definition register_plugin :: "('m, 'w) plugin \<Rightarrow> ('m, 'w) plugin_registry \<Rightarrow> ('m, 'w) plugin_registry" where
  "register_plugin p r =
     r\<lparr>masterPlugins := masterPlugins r @ (case RegisterToMaster p of None \<Rightarrow> [] | Some f \<Rightarrow> [f]),
       workerPlugins := workerPlugins r @ (case RegisterToWorker p of None \<Rightarrow> [] | Some f \<Rightarrow> [f])\<rparr>"

definition plugin_Register :: "('m, 'w) plugin list \<Rightarrow> ('m, 'w) plugin_registry \<Rightarrow> ('m, 'w) plugin_registry" where
  "plugin_Register ps r = fold register_plugin ps r"

definition ApplyToMaster :: "('m, 'w) plugin_registry \<Rightarrow> 'm \<Rightarrow> 'm" where
  "ApplyToMaster r m = fold (\<lambda>f. f) (masterPlugins r) m"

text \<open>\<open>None\<close>: the registration of a task failed and ended the process.\<close>

definition ApplyToWorker :: "('m, 'w) plugin_registry \<Rightarrow> 'w \<Rightarrow> 'w option" where
  "ApplyToWorker r w = fold (\<lambda>f w. Option.bind w f) (workerPlugins r) (Some w)"

datatype plugin_error = JsonInvalid | NameMissing | TaskGroupsMissing | FileUnreadable string

text \<open>\<open>decode\<close> is \<^verbatim>\<open>json.Unmarshal\<close> into a workflow.\<close>

definition WorkflowFromJSON ::
  "(string \<Rightarrow> workflow option) \<Rightarrow> string \<Rightarrow> 'a sched_scheme \<Rightarrow> (plugin_error + unit) \<times> 'a sched_scheme" where
  "WorkflowFromJSON decode data s =
     (case decode data of
        None \<Rightarrow> (Inl JsonInvalid, s)
      | Some w \<Rightarrow>
          if wf_Name w = '''' then (Inl NameMissing, s)
          else if TaskGroups w = [] then (Inl TaskGroupsMissing, s)
          else (Inr (), RegisterWorkflow w s))"

definition WorkflowFromJSONFile ::
  "(string \<Rightarrow> workflow option) \<Rightarrow> (string \<Rightarrow> string option) \<Rightarrow> string \<Rightarrow> 'a sched_scheme
     \<Rightarrow> (plugin_error + unit) \<times> 'a sched_scheme" where
  "WorkflowFromJSONFile decode read_file path s =
     (case read_file path of
        None \<Rightarrow> (Inl (FileUnreadable path), s)
      | Some data \<Rightarrow> WorkflowFromJSON decode data s)"


subsection \<open>The task \<^verbatim>\<open>fetch_url\<close>\<close>

abbreviation ParamTypeText :: string where "ParamTypeText \<equiv> ''text''"

definition fetch_url_params :: "param list" where
  "fetch_url_params =
     [\<lparr>pm_Key = ''url'', pm_Label = utf8 [232, 175, 183, 230, 177, 130, 229, 156, 176, 229, 157, 128],
       pm_Type = ParamTypeText, pm_Required = True, pm_Default = AString ''https://www.example.com'', pm_Options = [],
       pm_Placeholder = ''https://www.example.com'',
       pm_Description = utf8 [232, 166, 129, 232, 142, 183, 229, 143, 150, 229, 134, 133, 229, 174, 185, 231, 154, 132, 32, 85, 82, 76]\<rparr>]"

text \<open>What the request for a URL comes to.\<close>

datatype http_outcome = RequestInvalid go_error | RequestFailed go_error | ReadFailed go_error | FetchedBody string

definition msg_url_empty :: msg where
  "msg_url_empty = Text (utf8 [229, 143, 130, 230, 149, 176, 32, 117, 114, 108, 32, 228, 184, 186, 231, 169, 186, 239, 188, 140, 232, 175, 183,
     230, 143, 144, 228, 190, 155, 230, 156, 137, 230, 149, 136, 231, 154, 132, 32, 85, 82, 76])"

definition msg_create_request :: msg where
  "msg_create_request = Text (utf8 [229, 136, 155, 229, 187, 186, 232, 175, 183, 230, 177, 130, 229, 164, 177, 232, 180, 165])"

definition msg_request_failed :: msg where
  "msg_request_failed = Text (utf8 [232, 175, 183, 230, 177, 130, 229, 164, 177, 232, 180, 165])"

definition msg_read_failed :: msg where
  "msg_read_failed = Text (utf8 [232, 175, 187, 229, 143, 150, 229, 147, 141, 229, 186, 148, 229, 164, 177, 232, 180, 165])"

definition string_or_empty :: "string option \<Rightarrow> string" where
  "string_or_empty s = (case s of None \<Rightarrow> '''' | Some x \<Rightarrow> x)"

definition fetch_url_Execute :: "(string \<Rightarrow> http_outcome) \<Rightarrow> handler" where
  "fetch_url_Execute http limit paramCtx taskCtx =
     (let url = string_or_empty (GetString paramCtx ''url'') in
      if url = '''' then Returned (WrapNoRetry (Some (ErrPlain msg_url_empty))) taskCtx
      else case http url of
        RequestInvalid err \<Rightarrow> Returned (Some (ErrWrap msg_create_request err)) taskCtx
      | RequestFailed err \<Rightarrow> Returned (Some (ErrWrap msg_request_failed err)) taskCtx
      | ReadFailed err \<Rightarrow> Returned (Some (ErrWrap msg_read_failed err)) taskCtx
      | FetchedBody body \<Rightarrow> Returned None (ctx_Set ''content'' (AString body) taskCtx))"

definition NewFetchURL :: "(string \<Rightarrow> http_outcome) \<Rightarrow> task" where
  "NewFetchURL http =
     \<lparr>t_Name = ''fetch_url'', t_Params = fetch_url_params, t_Execute = fetch_url_Execute http, t_OnRollback = None\<rparr>"


subsection \<open>The task \<^verbatim>\<open>write_file\<close>\<close>

definition write_file_params :: "param list" where
  "write_file_params =
     [\<lparr>pm_Key = ''file_path'', pm_Label = utf8 [230, 150, 135, 228, 187, 182, 232, 183, 175, 229, 190, 132],
       pm_Type = ParamTypeText, pm_Required = True, pm_Default = AString ''/tmp/output.html'', pm_Options = [],
       pm_Placeholder = ''/tmp/output.html'',
       pm_Description = utf8 [229, 134, 153, 229, 133, 165, 231, 154, 132, 231, 155, 174, 230, 160, 135, 230, 150, 135, 228, 187, 182,
         232, 183, 175, 229, 190, 132]\<rparr>]"

definition msg_path_empty :: msg where
  "msg_path_empty = Text (utf8 [229, 143, 130, 230, 149, 176, 32, 102, 105, 108, 101, 95, 112, 97, 116, 104, 32, 228, 184, 186, 231, 169, 186])"

definition msg_content_missing :: msg where
  "msg_content_missing = Text (utf8 [230, 156, 170, 230, 137, 190, 229, 136, 176, 228, 184, 138, 230, 184, 184, 232, 190, 147, 229, 135, 186,
     32, 99, 111, 110, 116, 101, 110, 116, 239, 188, 140, 232, 175, 183, 231, 161, 174, 228, 191, 157, 229, 137, 141, 231, 189, 174, 228,
     187, 187, 229, 138, 161, 228, 184, 186, 32, 102, 101, 116, 99, 104, 95, 117, 114, 108])"

definition msg_mkdir_failed :: msg where
  "msg_mkdir_failed = Text (utf8 [229, 136, 155, 229, 187, 186, 231, 155, 174, 229, 189, 149, 229, 164, 177, 232, 180, 165])"

definition msg_write_failed :: msg where
  "msg_write_failed = Text (utf8 [229, 134, 153, 229, 133, 165, 230, 150, 135, 228, 187, 182, 229, 164, 177, 232, 180, 165])"

text \<open>What creating the directory of a path and writing the file come to: \<open>None\<close> for success.\<close>

record file_system =
  fs_MkdirAll :: "string \<Rightarrow> go_error option"
  fs_WriteFile :: "string \<Rightarrow> string \<Rightarrow> go_error option"

text \<open>The result of the handler, and the file it has written with its content.\<close>

definition write_file_run :: "file_system \<Rightarrow> ctx \<Rightarrow> ctx \<Rightarrow> handler_result \<times> (string \<times> string) option" where
  "write_file_run fs paramCtx taskCtx =
     (let filePath = string_or_empty (GetString paramCtx ''file_path'') in
      if filePath = '''' then (Returned (WrapNoRetry (Some (ErrPlain msg_path_empty))) taskCtx, None)
      else case GetString taskCtx ''content'' of
        None \<Rightarrow> (Returned (WrapNoRetry (Some (ErrPlain msg_content_missing))) taskCtx, None)
      | Some content \<Rightarrow>
          (case fs_MkdirAll fs filePath of
             Some err \<Rightarrow> (Returned (Some (ErrWrap msg_mkdir_failed err)) taskCtx, None)
           | None \<Rightarrow>
               (case fs_WriteFile fs filePath content of
                  Some err \<Rightarrow> (Returned (Some (ErrWrap msg_write_failed err)) taskCtx, None)
                | None \<Rightarrow> (Returned None taskCtx, Some (filePath, content)))))"

definition write_file_Execute :: "file_system \<Rightarrow> handler" where
  "write_file_Execute fs limit paramCtx taskCtx = fst (write_file_run fs paramCtx taskCtx)"

definition NewWriteFile :: "file_system \<Rightarrow> task" where
  "NewWriteFile fs =
     \<lparr>t_Name = ''write_file'', t_Params = write_file_params, t_Execute = write_file_Execute fs, t_OnRollback = None\<rparr>"


subsection \<open>The built-in plug-ins\<close>

text \<open>The scheduler with its worker manager, on which the master's plug-ins act.\<close>

type_synonym master_parts = "sched \<times> worker_mgr"

definition type_of_task :: "task \<Rightarrow> task_type" where
  "type_of_task t = \<lparr>tt_Name = t_Name t, tt_Description = '''', tt_Params = t_Params t\<rparr>"

definition builtin_workflow :: workflow where
  "builtin_workflow = AddTaskGroup [''write_file''] (AddTaskGroup [''fetch_url''] (NewWorkflow ''builtin-fetch-and-save''))"

definition builtin_tasks :: "(string \<Rightarrow> http_outcome) \<Rightarrow> file_system \<Rightarrow> task list" where
  "builtin_tasks http fs = [NewFetchURL http, NewWriteFile fs]"

definition builtin_RegisterToMaster :: "(string \<Rightarrow> http_outcome) \<Rightarrow> file_system \<Rightarrow> master_parts \<Rightarrow> master_parts" where
  "builtin_RegisterToMaster http fs = (\<lambda>(s, m).
     (fold RegisterWorkflow [builtin_workflow] s, fold (\<lambda>t. RegisterTaskType (type_of_task t)) (builtin_tasks http fs) m))"

definition builtin_RegisterToWorker :: "(string \<Rightarrow> http_outcome) \<Rightarrow> file_system \<Rightarrow> worker \<Rightarrow> worker option" where
  "builtin_RegisterToWorker http fs w = fold (\<lambda>t w. Option.bind w (RegisterTask t)) (builtin_tasks http fs) (Some w)"

text \<open>\<^verbatim>\<open>plugin/plugin.go\<close>: what is registered when the program starts.\<close>

definition shipped_plugins :: "(string \<Rightarrow> http_outcome) \<Rightarrow> file_system \<Rightarrow> (master_parts, worker) plugin_registry" where
  "shipped_plugins http fs =
     plugin_Register
       [\<lparr>RegisterToMaster = Some (builtin_RegisterToMaster http fs), RegisterToWorker = None\<rparr>,
        \<lparr>RegisterToMaster = None, RegisterToWorker = Some (builtin_RegisterToWorker http fs)\<rparr>]
       \<lparr>masterPlugins = [], workerPlugins = []\<rparr>"

lemmas plugin_defs = shipped_plugins_def plugin_Register_def register_plugin_def ApplyToMaster_def ApplyToWorker_def

subsection \<open>What the plug-ins register\<close>

lemma plugin_Register_lists:
  "masterPlugins (plugin_Register ps r) = masterPlugins r @ List.map_filter RegisterToMaster ps
   \<and> workerPlugins (plugin_Register ps r) = workerPlugins r @ List.map_filter RegisterToWorker ps"
proof (induction ps arbitrary: r)
  case (Cons p ps)
  from Cons.IH [of "register_plugin p r"] show ?case
    by (simp add: plugin_Register_def register_plugin_def map_filter_simps split: option.splits)
qed (simp add: plugin_Register_def map_filter_simps)

lemma builtin_acceptable: "ValidateTaskParams (NewFetchURL http) = Inr ()" "ValidateTaskParams (NewWriteFile fs) = Inr ()"
  by (simp_all add: ValidateTaskParams_def NewFetchURL_def NewWriteFile_def fetch_url_params_def write_file_params_def check_param_def)

text \<open>A new worker accepts the built-in tasks and finds both by their names.\<close>

lemma shipped_worker:
  "\<exists>wk. ApplyToWorker (shipped_plugins http fs) (NewWorker clock src t cfg) = Some wk
     \<and> registry_Get (wk_registry wk) ''fetch_url'' = Some (NewFetchURL http)
     \<and> registry_Get (wk_registry wk) ''write_file'' = Some (NewWriteFile fs)"
  by (simp add: plugin_defs builtin_RegisterToWorker_def builtin_tasks_def RegisterTask_def Register_def builtin_acceptable
      NewWorker_def NewTaskRegistry_def registry_Get_def)
     (simp add: NewFetchURL_def NewWriteFile_def)

lemma builtin_workflow_simps:
  "wf_Name builtin_workflow = ''builtin-fetch-and-save''" "wf_UUID builtin_workflow = ''builtin-fetch-and-save''"
  "TaskGroups builtin_workflow = [[named_node ''fetch_url''], [named_node ''write_file'']]"
  "EventTrigger builtin_workflow = None" "ErrorPolicy builtin_workflow = None"
  by (simp_all add: builtin_workflow_def AddTaskGroup_def AddTaskNodeGroup_def NewWorkflow_def)

lemma builtin_workflow_valid:
  "validateWorkflowName ''builtin-fetch-and-save'' = Inr ()" "validateWorkflowTasks builtin_workflow = Inr ()"
  unfolding validation_exact name_check_Inr
  by (simp_all add: well_formed_def builtin_workflow_simps named_node_def
      policy_ok_def trigger_ok_def AllTaskNodes_def node_ok_def loop_ok_def GetTaskNodeType_def resolved_name_def
      branch_nodes_def branch_list_def mapping_ok_def default_branch_ok_def name_char_def builtin_workflow_def
      AddTaskGroup_def AddTaskNodeGroup_def NewWorkflow_def)

lemma shipped_master:
  assumes "ApplyToMaster (shipped_plugins http fs) (s, m) = (s', m')"
  shows "GetRegisteredWorkflow ''builtin-fetch-and-save'' s' = Some builtin_workflow"
    and "u \<noteq> ''builtin-fetch-and-save'' \<Longrightarrow> GetRegisteredWorkflow u s' = GetRegisteredWorkflow u s"
  using assms
  by (auto simp: plugin_defs builtin_RegisterToMaster_def RegisterWorkflow_def RegisterWorkflow_tables_def
      builtin_workflow_simps builtin_workflow_valid GetRegisteredWorkflow_def update_conv' Let_def)


subsection \<open>From one task to the next\<close>

text \<open>What a worker reports for a task that the master wrote for a node.\<close>

definition report_of :: "task_registry \<Rightarrow> task_payload \<Rightarrow> task_payload" where
  "report_of reg p = finish_payload p (run_task reg p (task_context p))"

lemma new_payload_sel:
  "tp_TaskName (new_payload c w u n ups) = node_Name n" "Rollback (new_payload c w u n ups) = False"
  "tp_Params (new_payload c w u n ups) = Some (case node_Params n of Some p \<Rightarrow> p | None \<Rightarrow> Map.empty)"
  "tp_Input (new_payload c w u n ups) = Some (task_input n ups)" "NoRetry (new_payload c w u n ups) = False"
  by (simp_all add: new_payload_def zero_payload_def)

lemma run_new_payload:
  assumes "registry_Get reg (node_Name n) = Some t"
  shows "report_of reg (new_payload c w u n ups)
     = finish_payload (new_payload c w u n ups)
         (handler_outcome (node_Name n)
            (t_Execute t (if 0 < tp_TimeoutSec (new_payload c w u n ups) then Some (tp_TimeoutSec (new_payload c w u n ups)) else None)
               (NewContextWith (case node_Params n of Some p \<Rightarrow> p | None \<Rightarrow> Map.empty))
               (NewContextFromMap (task_input n ups))))"
  using assms by (simp add: report_of_def run_task_def new_payload_sel task_context_def Let_def)

lemma merged_last: "merge_outputs (ups @ [out]) k = (case out k of Some v \<Rightarrow> Some v | None \<Rightarrow> merge_outputs ups k)"
  by (simp add: merge_outputs_def map_add_def split: option.splits)

text \<open>The defaults of a task's parameters are shown to clients and never used: the workflow that the
  shipped plug-ins register, whose nodes have no parameters, fails in its first task whatever the
  network answers, with an error that forbids a retry.\<close>

lemma builtin_workflow_fails:
  assumes wk: "ApplyToWorker (shipped_plugins http fs) (NewWorker clock src t cfg) = Some wk"
  shows "tp_Status (report_of (wk_registry wk) (new_payload c builtin_workflow u (hd (hd (TaskGroups builtin_workflow))) ups)) = StatusFailed
     \<and> NoRetry (report_of (wk_registry wk) (new_payload c builtin_workflow u (hd (hd (TaskGroups builtin_workflow))) ups))"
proof -
  have reg: "registry_Get (wk_registry wk) ''fetch_url'' = Some (NewFetchURL http)"
    using shipped_worker [of http fs clock src t cfg] wk by auto
  then show ?thesis
    using run_new_payload [of "wk_registry wk" "named_node ''fetch_url''"]
    by (simp add: builtin_workflow_simps named_node_def NewFetchURL_def fetch_url_Execute_def string_or_empty_def GetString_def ctx_Get_def
        NewContextWith_def handler_outcome_def finish_payload_def WrapNoRetry_def)
qed



text \<open>Workflows from JSON are registered under the UUID they carry. The format documented for them has
  none, so the second such workflow replaces the first.\<close>

lemma json_workflows_overwrite:
  assumes "decode d1 = Some w1" "decode d2 = Some w2" "wf_UUID w1 = ''''" "wf_UUID w2 = ''''"
    and "WorkflowFromJSON decode d1 s = (Inr (), s1)" and "WorkflowFromJSON decode d2 s1 = (Inr (), s2)"
    and "validateWorkflowName (wf_Name w2) = Inr ()" and "validateWorkflowTasks w2 = Inr ()"
  shows "GetRegisteredWorkflow '''' s2 = Some w2 \<and> (u \<noteq> '''' \<longrightarrow> GetRegisteredWorkflow u s2 = GetRegisteredWorkflow u s)"
  using assms
  by (auto simp: WorkflowFromJSON_def RegisterWorkflow_def RegisterWorkflow_tables_def GetRegisteredWorkflow_def update_conv' Let_def
      split: if_splits sum.splits)

end
