(* ===== verification/Rollback_Run.thy ===== *)
theory Rollback_Run
  imports Failure_Handling
begin

text \<open>
  The goroutines that \<^verbatim>\<open>startSagaRollback\<close> (\<^verbatim>\<open>watch.go\<close>) starts for the tasks to compensate, for all
  rollbacks of the master together, since they share one semaphore. Each task has a goroutine that
  waits for a slot, writes the compensation to etcd, waits for its end and gives the slot back, and
  a second one that polls the workflow. The rest of the master may do anything in between.
\<close>

subsection \<open>The goroutines\<close>

text \<open>\<open>rt_run\<close>: the rollback the task belongs to, which has one context with \<^verbatim>\<open>rollbackOverallTimeout\<close>.\<close>

record rollbackTask =
  rt_run :: nat
  rt_uuid :: uuid
  rt_node :: task_node
  rt_output :: "vars option"

datatype rb_pc = RbAcquire | RbPush | RbWait | RbStalled | RbRelease | RbDone

text \<open>\<open>PollClosed\<close>: the poll has seen the task rolled back and has closed \<^verbatim>\<open>rollbackDone\<close>; \<open>PollGone\<close>: it has
  returned without closing it.\<close>

datatype rb_poll = PollOff | Polling | PollClosed | PollGone

record rb_sys =
  rb_pcs :: "rb_pc list"
  rb_polls :: "rb_poll list"
  rb_sem :: rollback_semaphore
  rb_expired :: "nat \<Rightarrow> bool"
  rb_sched :: sched
  rb_pushed :: "nat list"      \<comment> \<open>ghost: the tasks whose compensation was written, in order\<close>
  rb_forced :: "nat list"      \<comment> \<open>ghost: those marked because the time was up\<close>

abbreviation maxRollbackConcurrency :: int where "maxRollbackConcurrency \<equiv> 5"

definition rb_init :: "rollbackTask list \<Rightarrow> sched \<Rightarrow> rb_sys" where
  "rb_init ts s =
     \<lparr>rb_pcs = replicate (length ts) RbAcquire, rb_polls = replicate (length ts) PollOff,
      rb_sem = newRollbackSemaphore maxRollbackConcurrency, rb_expired = (\<lambda>_. False), rb_sched = s,
      rb_pushed = [], rb_forced = []\<rparr>"

definition goto :: "nat \<Rightarrow> rb_pc \<Rightarrow> rb_sys \<Rightarrow> rb_sys" where
  "goto i pc x = x\<lparr>rb_pcs := (rb_pcs x)[i := pc]\<rparr>"

definition set_poll :: "nat \<Rightarrow> rb_poll \<Rightarrow> rb_sys \<Rightarrow> rb_sys" where
  "set_poll i p x = x\<lparr>rb_polls := (rb_polls x)[i := p]\<rparr>"

text \<open>One tick of the poll: the workflow is gone, the task is rolled back, or nothing has happened.\<close>

definition poll_tick :: "rollbackTask \<Rightarrow> sched \<Rightarrow> rb_poll" where
  "poll_tick t s =
     (case running (rt_uuid t) s of
        None \<Rightarrow> PollGone
      | Some e \<Rightarrow> if map_of (RolledBack (e_state e)) (node_Name (rt_node t)) = None then Polling else PollClosed)"

inductive rb_own :: "rollbackTask list \<Rightarrow> rb_sys \<Rightarrow> rb_sys \<Rightarrow> bool" for ts where
  acquires: "i < length ts \<Longrightarrow> rb_pcs x ! i = RbAcquire \<Longrightarrow> sem_acquire (rb_sem x) = Some sem \<Longrightarrow>
     rb_own ts x (goto i RbPush (x\<lparr>rb_sem := sem\<rparr>))"
| pushes: "i < length ts \<Longrightarrow> rb_pcs x ! i = RbPush \<Longrightarrow>
     rb_own ts x (goto i RbWait (set_poll i Polling (x\<lparr>rb_pushed := rb_pushed x @ [i],
       rb_sched := PushRollbackTask ev (rt_uuid (ts ! i)) (rt_node (ts ! i)) (rt_output (ts ! i)) (rb_sched x)\<rparr>)))"
| ticks: "i < length ts \<Longrightarrow> rb_polls x ! i = Polling \<Longrightarrow> poll_tick (ts ! i) (rb_sched x) \<noteq> Polling \<Longrightarrow>
     rb_own ts x (set_poll i (poll_tick (ts ! i) (rb_sched x)) x)"
| poll_ends: "i < length ts \<Longrightarrow> rb_polls x ! i = Polling \<Longrightarrow> rb_expired x (rt_run (ts ! i)) \<Longrightarrow>
     rb_own ts x (set_poll i PollGone x)"
| sees_done: "i < length ts \<Longrightarrow> rb_pcs x ! i \<in> {RbWait, RbStalled} \<Longrightarrow> rb_polls x ! i = PollClosed \<Longrightarrow>
     rb_own ts x (goto i RbRelease x)"
| stalls: "i < length ts \<Longrightarrow> rb_pcs x ! i = RbWait \<Longrightarrow> rb_own ts x (goto i RbStalled x)"
| forces: "i < length ts \<Longrightarrow> rb_pcs x ! i \<in> {RbWait, RbStalled} \<Longrightarrow> rb_expired x (rt_run (ts ! i)) \<Longrightarrow>
     rb_own ts x (goto i RbRelease (x\<lparr>rb_forced := rb_forced x @ [i],
       rb_sched := force_rolled_back (rt_uuid (ts ! i)) (node_Name (rt_node (ts ! i))) (rb_sched x)\<rparr>))"
| releases: "i < length ts \<Longrightarrow> rb_pcs x ! i = RbRelease \<Longrightarrow>
     rb_own ts x (goto i RbDone (x\<lparr>rb_sem := sem_release (rb_sem x)\<rparr>))"

text \<open>Contexts end, by their deadline or with the master's, and the rest of the master goes on.\<close>

inductive rb_step :: "rollbackTask list \<Rightarrow> rb_sys \<Rightarrow> rb_sys \<Rightarrow> bool" for ts where
  own: "rb_own ts x y \<Longrightarrow> rb_step ts x y"
| expires: "rb_step ts x (x\<lparr>rb_expired := (rb_expired x)(k := True)\<rparr>)"
| master: "rb_step ts x (x\<lparr>rb_sched := s\<rparr>)"

inductive rb_reach :: "rollbackTask list \<Rightarrow> rb_sys \<Rightarrow> bool" for ts where
  start: "rb_reach ts (rb_init ts s)"
| next_step: "rb_reach ts x \<Longrightarrow> rb_step ts x y \<Longrightarrow> rb_reach ts y"

inductive_cases rb_ownE: "rb_own ts x y"
inductive_cases rb_stepE: "rb_step ts x y"

named_theorems rb_simps \<comment> \<open>what the updates do to each field\<close>

lemma goto_sel [rb_simps]:
  "rb_pcs (goto i pc x) = (rb_pcs x)[i := pc]" "rb_polls (goto i pc x) = rb_polls x" "rb_sem (goto i pc x) = rb_sem x"
  "rb_expired (goto i pc x) = rb_expired x" "rb_sched (goto i pc x) = rb_sched x"
  "rb_pushed (goto i pc x) = rb_pushed x" "rb_forced (goto i pc x) = rb_forced x"
  by (simp_all add: goto_def)

lemma set_poll_sel [rb_simps]:
  "rb_pcs (set_poll i p x) = rb_pcs x" "rb_polls (set_poll i p x) = (rb_polls x)[i := p]" "rb_sem (set_poll i p x) = rb_sem x"
  "rb_expired (set_poll i p x) = rb_expired x" "rb_sched (set_poll i p x) = rb_sched x"
  "rb_pushed (set_poll i p x) = rb_pushed x" "rb_forced (set_poll i p x) = rb_forced x"
  by (simp_all add: set_poll_def)


subsection \<open>Slots\<close>

definition holding :: "rb_pc \<Rightarrow> bool" where
  "holding pc \<longleftrightarrow> pc \<in> {RbPush, RbWait, RbStalled, RbRelease}"

definition passed_push :: "rb_pc \<Rightarrow> bool" where
  "passed_push pc \<longleftrightarrow> pc \<in> {RbWait, RbStalled, RbRelease, RbDone}"



definition rb_inv :: "rollbackTask list \<Rightarrow> rb_sys \<Rightarrow> bool" where
  "rb_inv ts x \<longleftrightarrow>
     length (rb_pcs x) = length ts \<and> length (rb_polls x) = length ts
     \<and> sem_max (rb_sem x) = maxRollbackConcurrency
     \<and> sem_count (rb_sem x) = int (length (filter holding (rb_pcs x)))
     \<and> sem_count (rb_sem x) \<le> maxRollbackConcurrency
     \<and> distinct (rb_pushed x) \<and> set (rb_pushed x) = {i. i < length ts \<and> passed_push (rb_pcs x ! i)}
     \<and> distinct (rb_forced x) \<and> set (rb_forced x) \<subseteq> {i. i < length ts \<and> rb_pcs x ! i \<in> {RbRelease, RbDone} \<and> rb_expired x (rt_run (ts ! i))}
     \<and> (\<forall>i < length ts. rb_pcs x ! i \<in> {RbRelease, RbDone} \<longrightarrow> i \<in> set (rb_forced x) \<or> rb_polls x ! i = PollClosed)
     \<and> (\<forall>i < length ts. rb_polls x ! i \<noteq> PollOff \<longrightarrow> passed_push (rb_pcs x ! i))"

lemmas rb_states = holding_def passed_push_def

lemma rb_init_inv: "rb_inv ts (rb_init ts s)"
  by (simp add: rb_inv_def rb_init_def newRollbackSemaphore_def rb_states)

lemma sem_acquire_SomeE:
  assumes "sem_acquire sem = Some sem'"
  shows "sem_count sem < sem_max sem" and "sem' = sem\<lparr>sem_count := sem_count sem + 1\<rparr>"
  using assms by (auto simp: sem_acquire_def split: if_splits)

lemma rb_own_inv:
  assumes "rb_own ts x y" and "rb_inv ts x"
  shows "rb_inv ts y"
  using assms
proof (cases rule: rb_own.cases)
  case (acquires i sem)
  with assms(2) sem_acquire_SomeE [OF acquires(4)] show ?thesis
    unfolding rb_inv_def
    by (auto simp: rb_simps length_filter_update nth_list_update rb_states)
next
  case (pushes i ev)
  with assms(2) show ?thesis
    unfolding rb_inv_def
    by (auto simp: rb_simps length_filter_update nth_list_update rb_states)
next
  case (ticks i)
  with assms(2) show ?thesis
    unfolding rb_inv_def
    by (auto simp: rb_simps nth_list_update rb_states)
next
  case (poll_ends i)
  with assms(2) show ?thesis
    unfolding rb_inv_def by (auto simp: rb_simps nth_list_update rb_states)
next
  case (sees_done i)
  with assms(2) show ?thesis
    unfolding rb_inv_def by (auto simp: rb_simps length_filter_update nth_list_update rb_states)
next
  case (stalls i)
  with assms(2) show ?thesis
    unfolding rb_inv_def by (auto simp: rb_simps length_filter_update nth_list_update rb_states)
next
  case (forces i)
  with assms(2) show ?thesis
    unfolding rb_inv_def by (auto simp: rb_simps length_filter_update nth_list_update rb_states)
next
  case (releases i)
  with assms(2) show ?thesis
    unfolding rb_inv_def sem_release_def by (auto simp: rb_simps length_filter_update nth_list_update rb_states)
qed

lemma rb_reach_inv: "rb_reach ts x \<Longrightarrow> rb_inv ts x"
proof (induction rule: rb_reach.induct)
  case (start s)
  show ?case by (rule rb_init_inv)
next
  case (next_step x y)
  from next_step.hyps(2) show ?case
  proof (cases rule: rb_step.cases)
    case own
    then show ?thesis using next_step.IH by (rule rb_own_inv)
  qed (use next_step.IH in \<open>auto simp: rb_inv_def\<close>)
qed


subsection \<open>The rollbacks end\<close>

fun pc_left :: "rb_pc \<Rightarrow> nat" where
  "pc_left RbAcquire = 7"
| "pc_left RbPush = 6"
| "pc_left RbWait = 4"
| "pc_left RbStalled = 3"
| "pc_left RbRelease = 2"
| "pc_left RbDone = 0"

definition poll_left :: "rb_poll \<Rightarrow> nat" where
  "poll_left p = (if p = Polling then 1 else 0)"

definition rb_left :: "rb_sys \<Rightarrow> nat" where
  "rb_left x = sum_list (map pc_left (rb_pcs x)) + sum_list (map poll_left (rb_polls x))"

lemma sum_left_update:
  "i < length xs \<Longrightarrow> sum_list (map (f :: 'a \<Rightarrow> nat) (xs[i := z])) + f (xs ! i) = sum_list (map f xs) + f z"
  by (induction xs arbitrary: i) (auto split: nat.splits)

lemma rb_own_decreases:
  assumes "rb_own ts x y" and inv: "rb_inv ts x"
  shows "rb_left y < rb_left x"
  using assms(1)
proof -
  have len: "length (rb_pcs x) = length ts" "length (rb_polls x) = length ts"
    and off: "\<And>i. i < length ts \<Longrightarrow> rb_pcs x ! i = RbPush \<Longrightarrow> rb_polls x ! i = PollOff"
    using inv by (auto simp: rb_inv_def rb_states)
  have pcs: "sum_list (map pc_left ((rb_pcs x)[i := pc])) + pc_left (rb_pcs x ! i) = sum_list (map pc_left (rb_pcs x)) + pc_left pc"
    and polls: "sum_list (map poll_left ((rb_polls x)[i := p])) + poll_left (rb_polls x ! i) = sum_list (map poll_left (rb_polls x)) + poll_left p"
    if "i < length ts" for i pc p
    using that len by (simp_all add: sum_left_update)
  show ?thesis
    using assms(1)
  proof (cases rule: rb_own.cases)
    case (acquires i sem)
    then show ?thesis using pcs [of i RbPush] by (simp add: rb_left_def rb_simps)
  next
    case (pushes i ev)
    then show ?thesis using pcs [of i RbWait] polls [of i Polling] off [of i] by (simp add: rb_left_def rb_simps poll_left_def)
  next
    case (ticks i)
    then show ?thesis using polls [of i "poll_tick (ts ! i) (rb_sched x)"] by (simp add: rb_left_def rb_simps poll_left_def)
  next
    case (poll_ends i)
    then show ?thesis using polls [of i PollGone] by (simp add: rb_left_def rb_simps poll_left_def)
  next
    case (sees_done i)
    then show ?thesis using pcs [of i RbRelease] by (auto simp: rb_left_def rb_simps)
  next
    case (stalls i)
    then show ?thesis using pcs [of i RbStalled] by (simp add: rb_left_def rb_simps)
  next
    case (forces i)
    then show ?thesis using pcs [of i RbRelease] by (auto simp: rb_left_def rb_simps)
  next
    case (releases i)
    then show ?thesis using pcs [of i RbDone] by (simp add: rb_left_def rb_simps)
  qed
qed

text \<open>A goroutine that waits for a slot gets one: somebody holds one who can go on, or one is free.\<close>

lemma rb_own_enabled:
  assumes inv: "rb_inv ts x" and late: "\<And>t. t \<in> set ts \<Longrightarrow> rb_expired x (rt_run t)"
    and i: "i < length ts" "rb_pcs x ! i \<noteq> RbDone"
  shows "\<exists>y. rb_own ts x y"
proof (cases "\<exists>j < length ts. holding (rb_pcs x ! j)")
  case True
  then obtain j where j: "j < length ts" "holding (rb_pcs x ! j)" by blast
  then consider "rb_pcs x ! j = RbPush" | "rb_pcs x ! j \<in> {RbWait, RbStalled}" | "rb_pcs x ! j = RbRelease"
    by (auto simp: holding_def)
  then show ?thesis
    by cases (use j late [of "ts ! j"] in \<open>auto intro: rb_own.intros\<close>)
next
  case False
  then have "filter holding (rb_pcs x) = []"
    using inv by (auto simp: rb_inv_def filter_empty_conv in_set_conv_nth)
  with inv have "sem_acquire (rb_sem x) = Some (rb_sem x\<lparr>sem_count := sem_count (rb_sem x) + 1\<rparr>)"
    by (simp add: rb_inv_def sem_acquire_def)
  moreover have "rb_pcs x ! i = RbAcquire" using False i by (cases "rb_pcs x ! i") (auto simp: holding_def)
  ultimately show ?thesis using i(1) by (blast intro: rb_own.acquires)
qed

text \<open>C15. The goroutines of all rollbacks of the master, in every interleaving with each other and with
  the rest of the master: at most five compensations are under way; each compensation is written at
  most once, and before its goroutine ends; a goroutine ends only after its task was seen rolled back
  or was marked because the time of its rollback was up; every step of a goroutine brings the end
  nearer, and once the time of the rollbacks is up there is a step as long as one of them has not
  ended, so that all end and all slots are given back.\<close>

theorem rollbacks_end:
  assumes "rb_reach ts x"
  shows "length (filter holding (rb_pcs x)) \<le> 5
     \<and> distinct (rb_pushed x) \<and> set (rb_pushed x) = {i. i < length ts \<and> passed_push (rb_pcs x ! i)}
     \<and> (\<forall>i < length ts. rb_pcs x ! i = RbDone \<longrightarrow>
          rb_polls x ! i = PollClosed \<or> i \<in> set (rb_forced x) \<and> rb_expired x (rt_run (ts ! i)))
     \<and> (\<forall>y. rb_own ts x y \<longrightarrow> rb_left y < rb_left x)
     \<and> ((\<forall>t \<in> set ts. rb_expired x (rt_run t)) \<and> (\<nexists>y. rb_own ts x y) \<longrightarrow>
          rb_pcs x = replicate (length ts) RbDone \<and> sem_count (rb_sem x) = 0)"
proof -
  note inv = rb_reach_inv [OF assms]
  have ended: "rb_pcs x = replicate (length ts) RbDone \<and> sem_count (rb_sem x) = 0"
    if late: "\<forall>t \<in> set ts. rb_expired x (rt_run t)" and stuck: "\<nexists>y. rb_own ts x y"
  proof -
    have "\<forall>i < length ts. rb_pcs x ! i = RbDone" using rb_own_enabled [OF inv] late stuck by blast
    then have "rb_pcs x = replicate (length ts) RbDone" using inv by (simp add: list_eq_iff_nth_eq rb_inv_def)
    with inv show ?thesis by (simp add: rb_inv_def holding_def)
  qed
  show ?thesis
    using inv rb_own_decreases [OF _ inv] ended by (auto simp: rb_inv_def)
qed

definition demo_compensation :: rollbackTask where
  "demo_compensation = \<lparr>rt_run = 0, rt_uuid = ''w'', rt_node = named_node ''A'', rt_output = None\<rparr>"

theorem rollbacks_end_witness:
  "\<exists>x. rb_reach [demo_compensation] x \<and> rb_pcs x = [RbWait] \<and> rb_pushed x = [0]
     \<and> length (filter holding (rb_pcs x)) \<le> 5 \<and> distinct (rb_pushed x)"
proof -
  let ?ts = "[demo_compensation]" and ?x0 = "rb_init [demo_compensation] demo_sched"
  let ?sem = "(newRollbackSemaphore 5)\<lparr>sem_count := 1\<rparr>"
  have a: "rb_own ?ts ?x0 (goto 0 RbPush (?x0\<lparr>rb_sem := ?sem\<rparr>))"
    by (rule rb_own.acquires) (simp_all add: rb_init_def sem_acquire_def newRollbackSemaphore_def)
  let ?x1 = "goto 0 RbPush (?x0\<lparr>rb_sem := ?sem\<rparr>)"
  obtain x2 where b: "rb_own ?ts ?x1 x2" and x2: "rb_pcs x2 = [RbWait]" "rb_pushed x2 = [0]"
    using rb_own.pushes [of 0 ?ts ?x1] by (fastforce simp: rb_simps rb_init_def)
  have reach: "rb_reach ?ts x2"
    by (rule rb_reach.next_step [OF rb_reach.next_step [OF rb_reach.start [of ?ts demo_sched] rb_step.own [OF a]] rb_step.own [OF b]])
  with x2 rollbacks_end [OF reach] show ?thesis by blast
qed


subsection \<open>What the polls can see\<close>

text \<open>Marking a task persists the workflow, which takes it out of the running table. So the first
  compensation that ends, and the first whose time is up, leave the polls of all others nothing to
  see, and nothing for the later ones to mark.\<close>

lemma completion_ends_polls: "poll_tick t (handleRollbackCompleted (rt_uuid t) payload s) = PollGone"
proof -
  have "running u (handleRollbackCompleted u payload s) = None" for u
    by (cases "running u s") (auto simp: handleRollbackCompleted_def Let_def wm_simps finish_rollback_gone)
  then show ?thesis by (simp add: poll_tick_def)
qed

lemma forced_once: "force_rolled_back u task' (force_rolled_back u task s) = force_rolled_back u task s"
proof -
  have "running u (force_rolled_back u task s) = None" by (cases "running u s") (simp_all add: force_rolled_back_def wm_simps)
  then show ?thesis by (simp add: force_rolled_back_def [of u task'])
qed

text \<open>A goroutine whose poll has found the workflow gone keeps its slot until the time of the whole
  rollback is up, also when its own compensation has ended.\<close>

lemma gone_poll_waits:
  assumes "rb_step ts x y" and "rb_polls x ! i = PollGone" and "rb_pcs x ! i \<in> {RbWait, RbStalled}"
    and "\<not> rb_expired x (rt_run (ts ! i))" and "rb_inv ts x"
  shows "rb_polls y ! i = PollGone \<and> rb_pcs y ! i \<in> {RbWait, RbStalled}"
  using assms(1)
proof (cases rule: rb_step.cases)
  case own
  then show ?thesis
    using assms(2-5) by (cases rule: rb_own.cases) (auto simp: rb_simps nth_list_update rb_inv_def)
qed (use assms in simp_all)

end
