(* ===== verification/Watch_Loops.thy ===== *)
theory Watch_Loops
  imports Worker_Manager Watchers
begin

text \<open>
  The loop of \<^verbatim>\<open>watchWorkerHeartbeats\<close> and \<^verbatim>\<open>processHeartbeatEvents\<close> (\<^verbatim>\<open>worker_manager.go\<close>): the scan, the
  watch with its reconnect delay, and what the master sees of its workers through it. The loop of the
  task events is in \<open>Watchers\<close>; here both are run on the etcd store's \<^verbatim>\<open>Watch\<close>, which never fails.
\<close>

subsection \<open>The heartbeat loop\<close>

datatype heartbeat_pc = HbTop | HbRetry | HbReading | HbDone

datatype heartbeat_input =
    HbWatchOk              \<comment> \<open>the watch is established\<close>
  | HbWatchErr bool        \<comment> \<open>the watch failed; is the context cancelled?\<close>
  | HbRetryTimer
  | HbEvent event
  | HbStaleTick go_time
  | HbChanClosed           \<comment> \<open>the watch's channel closes\<close>
  | HbCtxDone              \<comment> \<open>the end of the context is noticed in a \<^verbatim>\<open>select\<close>\<close>

record heartbeat_watch =
  hw_pc :: heartbeat_pc
  hw_delay :: go_duration
  hw_mgr :: worker_mgr

text \<open>\<open>de\<close> decodes a heartbeat, \<open>pre\<close> is the prefix of the keys, \<open>sec\<close> the configured threshold.\<close>

fun watchWorkerHeartbeats ::
  "(string \<Rightarrow> heartbeat option) \<Rightarrow> string \<Rightarrow> int \<Rightarrow> heartbeat_input \<Rightarrow> heartbeat_watch \<Rightarrow> heartbeat_watch" where
  "watchWorkerHeartbeats de pre sec i x =
     (case (hw_pc x, i) of
        (HbTop, HbWatchOk) \<Rightarrow> x\<lparr>hw_pc := HbReading, hw_delay := heartbeatWatchReconnectDelay\<rparr>
      | (HbTop, HbWatchErr cancelled) \<Rightarrow> x\<lparr>hw_pc := (if cancelled then HbDone else HbRetry)\<rparr>
      | (HbRetry, HbRetryTimer) \<Rightarrow>
          x\<lparr>hw_pc := HbTop, hw_delay := min (hw_delay x * 2) heartbeatWatchMaxReconnectDelay\<rparr>
      | (HbRetry, HbCtxDone) \<Rightarrow> x\<lparr>hw_pc := HbDone\<rparr>
      | (HbReading, HbEvent ev) \<Rightarrow> x\<lparr>hw_mgr := heartbeat_event de pre ev (hw_mgr x)\<rparr>
      | (HbReading, HbStaleTick t) \<Rightarrow> x\<lparr>hw_mgr := markStaleWorkers t sec (hw_mgr x)\<rparr>
      | (HbReading, HbChanClosed) \<Rightarrow> x\<lparr>hw_pc := HbTop\<rparr>
      | (HbReading, HbCtxDone) \<Rightarrow> x\<lparr>hw_pc := HbTop\<rparr>
      | _ \<Rightarrow> x)"

declare watchWorkerHeartbeats.simps [simp del]

text \<open>The scan comes first; if it blocks, the loop never starts.\<close>

definition start_heartbeat_watch ::
  "(string \<Rightarrow> heartbeat option) \<Rightarrow> 'db etcd \<Rightarrow> string \<Rightarrow> 'db \<Rightarrow> worker_mgr \<Rightarrow> heartbeat_watch option" where
  "start_heartbeat_watch de c pre d m =
     map_option (\<lambda>m. \<lparr>hw_pc = HbTop, hw_delay = heartbeatWatchReconnectDelay, hw_mgr = m\<rparr>)
       (scanExistingWorkers de c pre d m)"


subsection \<open>The delay and the state of the workers\<close>

text \<open>What the manager does for the inputs of the loop: nothing unless a watch is being read.\<close>

fun handled :: "(string \<Rightarrow> heartbeat option) \<Rightarrow> string \<Rightarrow> int \<Rightarrow> heartbeat_pc \<Rightarrow> heartbeat_input \<Rightarrow> wm_event list" where
  "handled de pre sec HbReading (HbEvent ev) =
     (case ev_Type ev of
        EventPut \<Rightarrow> (case de (ev_Value ev) of None \<Rightarrow> [] | Some hb \<Rightarrow> [Beat hb])
      | EventDelete \<Rightarrow> [Gone pre (ev_Key ev)])"
| "handled de pre sec HbReading (HbStaleTick t) = [StaleCheck t sec]"
| "handled de pre sec pc i = []"

fun handled_run ::
  "(string \<Rightarrow> heartbeat option) \<Rightarrow> string \<Rightarrow> int \<Rightarrow> heartbeat_input list \<Rightarrow> heartbeat_watch \<Rightarrow> wm_event list" where
  "handled_run de pre sec [] x = []"
| "handled_run de pre sec (i # is) x =
     handled de pre sec (hw_pc x) i @ handled_run de pre sec is (watchWorkerHeartbeats de pre sec i x)"

lemma step_manager: "hw_mgr (watchWorkerHeartbeats de pre sec i x) = fold wm_step (handled de pre sec (hw_pc x) i) (hw_mgr x)"
  by (cases i; cases "hw_pc x")
     (simp_all add: watchWorkerHeartbeats.simps heartbeat_event_def split: event_type.split option.split)

lemma step_delay:
  "hw_delay x \<in> {heartbeatWatchReconnectDelay..heartbeatWatchMaxReconnectDelay} \<Longrightarrow>
   hw_delay (watchWorkerHeartbeats de pre sec i x) \<in> {heartbeatWatchReconnectDelay..heartbeatWatchMaxReconnectDelay}"
  by (cases i; cases "hw_pc x")
     (auto simp: watchWorkerHeartbeats.simps heartbeatWatchReconnectDelay_def heartbeatWatchMaxReconnectDelay_def go_units)

text \<open>The loop refines the manager's machine: its workers are those of the heartbeats, deletions and
  checks handled while a watch was being read, so everything shown of that machine holds of the loop;
  and the delay before a reconnect stays between 3 and 30 seconds.\<close>

theorem heartbeat_loop_refines:
  "hw_mgr (fold (watchWorkerHeartbeats de pre sec) is x) = fold wm_step (handled_run de pre sec is x) (hw_mgr x)
   \<and> (hw_delay x \<in> {heartbeatWatchReconnectDelay..heartbeatWatchMaxReconnectDelay} \<longrightarrow>
      hw_delay (fold (watchWorkerHeartbeats de pre sec) is x) \<in> {heartbeatWatchReconnectDelay..heartbeatWatchMaxReconnectDelay})"
proof (induction "is" arbitrary: x)
  case (Cons i "is")
  show ?case
    using Cons.IH [of "watchWorkerHeartbeats de pre sec i x"] step_delay [of x de pre sec i]
    by (simp add: step_manager)
qed simp

lemma loop_counts:
  assumes "wm_inv 0 (hw_mgr x)"
  shows "deadCount (hw_mgr (fold (watchWorkerHeartbeats de pre sec) is x))
    = workers_with WorkerStatusDead (hw_mgr (fold (watchWorkerHeartbeats de pre sec) is x))"
  using wm_inv_run [OF assms, of "handled_run de pre sec is x"] by (simp add: heartbeat_loop_refines wm_inv_def)

text \<open>A worker that dies between two watches is not noticed: nothing is handled there, and only the
  start of the process scans.\<close>

lemma nothing_between_watches: "hw_pc x \<noteq> HbReading \<Longrightarrow> handled de pre sec (hw_pc x) i = []"
  by (cases "hw_pc x"; cases i) simp_all


subsection \<open>On the etcd store\<close>

text \<open>\<^verbatim>\<open>EtcdStore.Watch\<close> returns a channel and a nil error, whatever happens to the watch. Then the
  heartbeat loop never waits and never ends: after the master's context is cancelled it goes round
  between the watch and the closed channel.\<close>

definition etcd_watch_input :: "heartbeat_input \<Rightarrow> bool" where
  "etcd_watch_input i \<longleftrightarrow> (\<forall>cancelled. i \<noteq> HbWatchErr cancelled)"

theorem heartbeat_loop_never_ends:
  assumes "\<forall>i \<in> set is. etcd_watch_input i" and "hw_pc x \<in> {HbTop, HbReading}"
  shows "hw_pc (fold (watchWorkerHeartbeats de pre sec) is x) \<in> {HbTop, HbReading}"
  using assms
proof (induction "is" arbitrary: x)
  case (Cons i "is")
  have "hw_pc (watchWorkerHeartbeats de pre sec i x) \<in> {HbTop, HbReading}"
    using Cons.prems by (cases i) (auto simp: watchWorkerHeartbeats.simps etcd_watch_input_def split: heartbeat_pc.splits)
  with Cons show ?case by simp
qed simp

text \<open>The loop of the task events ends on a cancelled context, but does not wait either when the
  channel of its watch closes with the context alive.\<close>

lemma task_loop_reconnects_at_once: "watch_loop WatchOk (watch_loop (ChanClosed False) (WatchReading, b)) = (WatchReading, watch_initialBackoff)"
  by simp

end
