(* ===== verification/Execution_Ids.thy ===== *)
theory Execution_Ids
  imports Lifecycle
begin

text \<open>
  The identifier of an execution in the running table: a workflow enters it without one
  (\<^verbatim>\<open>SubmitWorkflow\<close>, \<^verbatim>\<open>workflow_manager.go\<close>), and only the second half of its own start-up in MySQL
  (\<^verbatim>\<open>asyncInitMySQL\<close>) or a recovery gives it one, whatever else happens in between.
\<close>

definition unsaved :: "uuid \<Rightarrow> 'a wm_state_scheme \<Rightarrow> bool" where
  "unsaved u s \<longleftrightarrow> (\<forall>e. running u s = Some e \<longrightarrow> ExecutionID (e_state e) = 0)"

fun gives_id :: "uuid \<Rightarrow> sys_op \<Rightarrow> bool" where
  "gives_id u (OpInitExecution v created) = (v = u)"
| "gives_id u (OpRecover t st deltas) = True"
| "gives_id u _ = False"

named_theorems un \<comment> \<open>operations that keep \<open>unsaved\<close>\<close>

lemma un_frame: "(\<And>v. running v s' = running v s \<or> running v s' = None) \<Longrightarrow> unsaved u s \<Longrightarrow> unsaved u s'"
  unfolding unsaved_def by (metis option.distinct(1))

lemma un_same: "runningEntries s' = runningEntries s \<Longrightarrow> unsaved u s' = unsaved u s"
  by (simp add: unsaved_def running_def)

lemma un_leaves: "leaves_only P s s' \<Longrightarrow> unsaved u s \<Longrightarrow> unsaved u s'"
  by (rule un_frame [of s']) (auto simp: leaves_only_def grows_by_def)

lemma un_emit [un]: "unsaved u s \<Longrightarrow> unsaved u (emit x s)"
  by (simp add: unsaved_def)

lemma un_Persist [un]: "unsaved u s \<Longrightarrow> unsaved u (PersistWorkflowLocked v e s)"
  by (rule un_frame [of _ s]) (auto simp: wm_simps)

lemma un_set_entry: "(v = u \<Longrightarrow> ExecutionID (e_state e) = 0) \<Longrightarrow> unsaved u s \<Longrightarrow> unsaved u (set_entry v e s)"
  by (auto simp: unsaved_def)

lemma unD: "unsaved u s \<Longrightarrow> running u s = Some e \<Longrightarrow> ExecutionID (e_state e) = 0"
  by (simp add: unsaved_def)

lemma un_modify: "(\<And>st. ExecutionID (f st) = ExecutionID st) \<Longrightarrow> unsaved u s \<Longrightarrow> unsaved u (modify_state v f s)"
  by (auto simp: modify_state_def intro!: un_set_entry dest: unD split: option.splits)

lemma un_Persist_case:
  "unsaved u s \<Longrightarrow> unsaved u (case running v s of None \<Rightarrow> s | Some e \<Rightarrow> PersistWorkflowLocked v (f e) s)"
  by (auto intro: un_Persist split: option.splits)

lemmas un_handlers [un] =
  un_leaves [OF leaves_markWorkflowFailed] un_leaves [OF leaves_tryDispatchPending] un_leaves [OF leaves_ReleaseSlotForWorkflow]
  un_leaves [OF leaves_notify] un_leaves [OF leaves_release_slot] un_leaves [OF leaves_startSagaRollback]

lemma un_clearFailedTask [un]: "unsaved u s \<Longrightarrow> unsaved u (clearFailedTask v task s)"
  unfolding clearFailedTask_def by (rule un_modify) simp_all

lemma un_saveTaskRecord [un]: "unsaved u s \<Longrightarrow> unsaved u (saveTaskRecord t payload x w s)"
  using un_same [of "s\<lparr>mysqlBreaker := snd (Allow t (mysqlBreaker s))\<rparr>" s u]
  by (auto simp: saveTaskRecord_def Let_def intro!: un_emit split: prod.splits)

lemma un_cleanupTaskEtcdKey [un]: "unsaved u s \<Longrightarrow> unsaved u (cleanupTaskEtcdKey payload s)"
  by (auto simp: cleanupTaskEtcdKey_def intro!: un_emit)

lemma un_snapshot [un]:
  assumes "unsaved u s"
  shows "unsaved u (snapshotRunningWorkflow t v s)"
proof -
  obtain pass s1 where th: "snapshotThrottle t v snapshotThrottleInterval s = (pass, s1)" by fastforce
  then have "runningEntries s1 = runningEntries s" by (auto simp: snapshotThrottle_def split: option.splits if_splits)
  then have un1: "unsaved u s1" using assms un_same [of s1 s] by simp
  obtain allowed b where al: "Allow t (mysqlBreaker s1) = (allowed, b)" by fastforce
  let ?s2 = "s1\<lparr>mysqlBreaker := b\<rparr>"
  have un2: "unsaved u ?s2" using un1 un_same [of ?s2 s1] by simp
  show ?thesis
  proof (cases "running v ?s2")
    case None
    with un1 un2 show ?thesis by (auto simp: snapshotRunningWorkflow_def th al Let_def)
  next
    case (Some e)
    obtain deltas st' where col: "collectTaskDeltas (e_state e) = (deltas, st')" by fastforce
    then have "ExecutionID st' = ExecutionID (e_state e)" by (auto simp: collectTaskDeltas_def Let_def)
    then have "unsaved u (set_entry v (e\<lparr>e_state := st'\<rparr>) ?s2)"
      using unD [OF un2] Some by (intro un_set_entry un2) auto
    then have "unsaved u (emit (Go (JSaveTaskDeltas i snap)) (set_entry v (e\<lparr>e_state := st'\<rparr>) ?s2))" for i snap by (rule un_emit)
    with un1 un2 Some show ?thesis by (auto simp: snapshotRunningWorkflow_def th al col Let_def)
  qed
qed

lemma un_record [un]:
  "unsaved u s \<Longrightarrow> unsaved u (recordTaskCompleted t v payload s)" "unsaved u s \<Longrightarrow> unsaved u (recordTaskFailed t v payload s)"
  by (auto simp: recordTaskCompleted_def recordTaskFailed_def Let_def intro!: un un_modify split: option.splits)

lemma un_ends [un]:
  "unsaved u s \<Longrightarrow> unsaved u (finishWorkflow v s)" "unsaved u s \<Longrightarrow> unsaved u (fail_group v err s)"
  "unsaved u s \<Longrightarrow> unsaved u (finish_rollback v s)" "unsaved u s \<Longrightarrow> unsaved u (force_rolled_back v task s)"
  by (auto simp: finishWorkflow_def fail_group_def finish_rollback_def force_rolled_back_def intro!: un un_Persist_case)

lemma un_handleTaskFailed [un]: "unsaved u s \<Longrightarrow> unsaved u (handleTaskFailed ev v st payload s)"
  by (auto simp: handleTaskFailed_def default_failure_def ExecuteFailFast_def ExecuteRollback_def ExecuteSkip_def skip_failed_task_def
      Let_def intro!: un un_Persist_case)

lemma un_handleRollbackCompleted [un]: "unsaved u s \<Longrightarrow> unsaved u (handleRollbackCompleted v payload s)"
  by (auto simp: handleRollbackCompleted_def Let_def intro!: un split: option.splits)

lemma un_watch_event [un]: "unsaved u s \<Longrightarrow> unsaved u (snd (watch_event ev v payload s))"
  by (auto simp: watch_event_def intro!: un split: option.splits task_status.splits)

lemma un_timeoutAfter [un]: "unsaved u s \<Longrightarrow> unsaved u (timeoutAfter ctxDone v d s)"
  by (auto simp: timeoutAfter_def HandleTimeoutPolicy_def Let_def intro!: un split: option.splits prod.splits)

lemma un_Submit [un]:
  assumes "unsaved u s"
  shows "unsaved u (snd (SubmitWorkflow t w s))"
proof -
  have "unsaved u (set_entry (wf_UUID w) (new_entry t (nextCtx s) w) (s\<lparr>nextCtx := nextCtx s + 1\<rparr>))"
    using un_same [of "s\<lparr>nextCtx := nextCtx s + 1\<rparr>" s u] assms
    by (intro un_set_entry) (simp_all add: new_entry_def pending_state_def)
  then show ?thesis using assms by (auto simp: SubmitWorkflow_def Let_def intro!: un_emit split: sum.splits)
qed

lemma un_submissions [un]:
  "unsaved u s \<Longrightarrow> unsaved u (snd (RunWorkflow t v s))" "unsaved u s \<Longrightarrow> unsaved u (submit_target t v s)"
  by (auto simp: RunWorkflow_def submit_target_def intro!: un split: option.splits)

lemma un_webhook [un]: "unsaved u s \<Longrightarrow> unsaved u (snd (TriggerWebhook t v params s))"
  by (auto simp: TriggerWebhook_def intro!: un_Submit split: sum.splits option.splits list.splits)

lemma un_RetryWorkflow [un]:
  assumes "unsaved u s"
  shows "unsaved u (snd (RetryWorkflow t v s))"
proof -
  have "unsaved u (removeFromHistoryOrder i (removeHistoryByUUIDEntry v i (deleteHistory i s)))" for i
  proof -
    obtain b where "removeHistoryByUUIDEntry v i (deleteHistory i s) = (deleteHistory i s)\<lparr>workflowHistoryByUUID := b\<rparr>"
      using removeHistory_frame by blast
    then show ?thesis
      using un_same [of "removeFromHistoryOrder i (removeHistoryByUUIDEntry v i (deleteHistory i s))" s u] assms
      by (simp add: removeFromHistoryOrder_def deleteHistory_def)
  qed
  with assms show ?thesis by (auto simp: RetryWorkflow_def Let_def intro!: un_Submit split: option.splits)
qed

lemma un_client [un]:
  "unsaved u s \<Longrightarrow> unsaved u (snd (CancelWorkflow v s))" "unsaved u s \<Longrightarrow> unsaved u (snd (RejectWorkflow ev v reason s))"
  "unsaved u s \<Longrightarrow> unsaved u (snd (ApproveWorkflow v s))"
  by (auto simp: CancelWorkflow_def RejectWorkflow_def ApproveWorkflow_def Let_def intro!: un un_set_entry dest: unD split: option.splits)

lemma un_cleanup [un]: "unsaved u s \<Longrightarrow> unsaved u (cleanupWorkflowState v s)"
  by (rule un_frame [of _ s], cases "map_of (runningEntries s) v")
     (simp_all add: cleanupWorkflowState_def cleanSnapshotThrottle_def cleanupTaskListeners_def cancel_ctx_def running_def
        delete_conv' Let_def)

lemma un_asyncInit [un]: "unsaved u s \<Longrightarrow> unsaved u (snd (asyncInit_workflow v saved s))"
  by (auto simp: asyncInit_workflow_def intro!: un un_modify split: option.splits)

lemma un_other_execution: "v \<noteq> u \<Longrightarrow> unsaved u s \<Longrightarrow> unsaved u (asyncInit_execution v created s)"
  by (cases created) (simp_all add: asyncInit_execution_def un_cleanup, simp add: unsaved_def running_modify_state)

lemma un_slots:
  "unsaved u (snd (incPerWfActive v r)) = unsaved u r" "unsaved u (addGlobal d r) = unsaved u r"
  "unsaved u (decPerWfActive v r) = unsaved u r" "unsaved u (enqueuePending t v node ups pr r) = unsaved u r"
  by (subst un_same [of _ r], simp_all add: incPerWfActive_def addGlobal_def decPerWfActive_def enqueuePending_def Let_def)+

lemma un_RetryTask [un]: "unsaved u s \<Longrightarrow> unsaved u (RetryTask ev ctxDone payload s)"
  by (auto simp: RetryTask_def Let_def un_slots intro!: un)

lemma un_PushTask [un]: "unsaved u s \<Longrightarrow> unsaved u (snd (PushTask ev v node ups s))"
proof -
  assume un: "unsaved u s"
  have push: "unsaved u (snd (doPush ev v node ups r))" if "unsaved u r" for r
    using that by (auto simp: doPush_def Let_def intro!: un_emit split: option.splits)
  have rel: "unsaved u (snd (push_or_release ev g v node ups r))" if "unsaved u r" for g r
    using push [OF that] by (auto simp: push_or_release_def intro!: un_handlers split: prod.splits sum.splits)
  obtain n s1 where inc: "incPerWfActive v s = (n, s1)" by fastforce
  then have "unsaved u s1" using un_slots(1) [of u v s] un by simp
  then show ?thesis using un by (auto simp: PushTask_def Let_def inc un_slots intro!: rel)
qed

lemma un_PushRollbackTask [un]: "unsaved u s \<Longrightarrow> unsaved u (PushRollbackTask ev v node out s)"
  by (auto simp: PushRollbackTask_def Let_def intro!: un_emit)

lemma un_group [un]: "unsaved u s \<Longrightarrow> unsaved u (snd (group_completed t v groups idx ups result s))"
proof -
  assume un: "unsaved u s"
  have "unsaved u (pauseForApproval t v st cur out s)" for st cur out
    using un by (auto simp: pauseForApproval_def intro!: un_emit un_snapshot un_set_entry dest: unD split: option.splits)
  with un show ?thesis
    by (auto simp: group_completed_def advanceWorkflow_def pushBranchGroups_def Let_def intro!: un_ends un_emit
        split: control.splits sum.splits option.splits)
qed

lemma un_others [un]:
  "unsaved u s \<Longrightarrow> unsaved u (RegisterWorkflow w s)"
  "unsaved u s \<Longrightarrow> unsaved u (registerTaskListener v task s)"
  "unsaved u s \<Longrightarrow> unsaved u (unregisterTaskListener v task s)"
  "unsaved u s \<Longrightarrow> unsaved u (report_write t ok s)"
  using un_same [of "RegisterWorkflow w s" s u] un_same [of "registerTaskListener v task s" s u]
    un_same [of "unregisterTaskListener v task s" s u] un_same [of "report_write t ok s" s u]
  by (auto simp: RegisterWorkflow_def RegisterWorkflow_tables_def registerTaskListener_def unregisterTaskListener_def report_write_def Let_def
      split: option.splits sum.splits)

lemma un_loadHistory [un]: "unsaved u s \<Longrightarrow> unsaved u (loadHistory records s)"
proof -
  have "unsaved u (load_record r s) = unsaved u s" for r and s :: "'a wm_state_scheme"
    by (rule un_same) (cases r, simp add: load_record_def)
  then have "unsaved u s \<Longrightarrow> unsaved u (fold load_record rs s)" for rs and s :: "'a wm_state_scheme"
    by (induction rs arbitrary: s) simp_all
  then show "unsaved u s \<Longrightarrow> unsaved u (loadHistory records s)" by (simp add: loadHistory_def split: option.splits)
qed

lemma un_sys_step: "\<not> gives_id u x \<Longrightarrow> unsaved u s \<Longrightarrow> unsaved u (sys_step x s)"
  by (cases x) (auto intro!: un un_other_execution)

lemma un_run: "\<forall>x \<in> set ops. \<not> gives_id u x \<Longrightarrow> unsaved u s \<Longrightarrow> unsaved u (fold sys_step ops s)"
  by (induction ops arbitrary: s) (simp_all add: un_sys_step)

lemma submitted_unsaved: "fst (SubmitWorkflow t w s) = Inr () \<Longrightarrow> unsaved (wf_UUID w) (snd (SubmitWorkflow t w s))"
  by (auto simp: SubmitWorkflow_def unsaved_def Let_def new_entry_def pending_state_def split: sum.splits if_splits)

end
