(* ===== verification/Startup.thy ===== *)
theory Startup
  imports Http_Handlers Plugins Persist_Pool Watch_Loops Execution_Ids
begin

text \<open>
  How a master comes up: \<^verbatim>\<open>NewScheduler\<close> (\<^verbatim>\<open>scheduler.go\<close>), which loads the history and recovers the running
  workflows side by side, \<^verbatim>\<open>NewMaster\<close> (\<^verbatim>\<open>infra/app/master.go\<close>), which builds what it needs and applies the
  plug-ins, \<^verbatim>\<open>NewWorker\<close> (\<^verbatim>\<open>infra/app/worker.go\<close>) on the other side; and what becomes of a workflow that was
  running when the master before stopped.
\<close>

subsection \<open>The scheduler\<close>

abbreviation defaultMaxHistoryInMemory :: int where "defaultMaxHistoryInMemory \<equiv> 500"

text \<open>What \<^verbatim>\<open>loadHistory\<close> takes from MySQL: the newest executions, whatever their status, as far as they
  can be decoded.\<close>

definition loaded_history ::
  "'db gorm \<Rightarrow> (json_text \<Rightarrow> workflow_state option) \<Rightarrow> config \<Rightarrow> 'db \<Rightarrow> (nat \<times> uuid \<times> workflow_state) list option" where
  "loaded_history g dec_state c d =
     (case LoadExecutions g 0 (if MaxHistoryCache c \<le> 0 then defaultMaxHistoryInMemory else MaxHistoryCache c) d of
        None \<Rightarrow> None
      | Some (records, tot) \<Rightarrow>
          Some (List.map_filter
            (\<lambda>rec. map_option (\<lambda>st. (er_ExecutionID rec, er_UUID rec, st)) (dec_state (er_Data rec))) records))"

text \<open>Both goroutines of \<^verbatim>\<open>NewScheduler\<close>, one after the other; \<open>start_order\<close> shows that the order does not
  matter.\<close>

definition NewScheduler ::
  "'db gorm \<Rightarrow> (json \<Rightarrow> vars option) \<Rightarrow> (json_text \<Rightarrow> workflow_state option) \<Rightarrow> go_time
     \<Rightarrow> (ExecutionRecord list \<Rightarrow> ExecutionRecord list) \<Rightarrow> config \<Rightarrow> 'db \<Rightarrow> sched" where
  "NewScheduler g dec dec_state t order c d =
     recoverRunningWorkflows g dec dec_state t order d
       (loadHistory (if HasHistoryStore c then loaded_history g dec_state c d else None) (new_scheduler c))"

text \<open>\<^verbatim>\<open>Shutdown\<close>: the cron library is stopped, the root context cancelled, and the goroutines have until
  the time-out to end.\<close>

definition shutdown_timeout :: "go_duration \<Rightarrow> go_duration" where
  "shutdown_timeout configured = (if configured \<le> 0 then 10 * Second else configured)"

definition Shutdown :: "go_duration \<Rightarrow> go_duration \<Rightarrow> bool" where
  "Shutdown configured needed \<longleftrightarrow> needed < shutdown_timeout configured"


subsection \<open>The processes\<close>

text \<open>The answers of the outside: does the logger start, is etcd reached, is there a MySQL host in the
  configuration, does it open, are its tables migrated. Tracing that does not start is only logged.\<close>

datatype process_error = LoggerFailed | EtcdFailed | MySQLFailed | HistoryFailed

record process_env =
  pe_logger :: bool
  pe_etcd :: bool
  pe_mysql :: bool
  pe_opens :: bool
  pe_migrated :: bool

text \<open>Without MySQL the scheduler gets no history store.\<close>

definition open_history :: "'db gorm \<Rightarrow> process_env \<Rightarrow> 'db \<Rightarrow> process_error + 'db history_store option" where
  "open_history g pe d =
     (if \<not> pe_mysql pe then Inr None
      else if \<not> pe_opens pe then Inl MySQLFailed
      else case NewHistoryStore g (pe_migrated pe) d of None \<Rightarrow> Inl HistoryFailed | Some hs \<Rightarrow> Inr (Some hs))"

definition NewMaster ::
  "'db gorm \<Rightarrow> (json \<Rightarrow> vars option) \<Rightarrow> (json_text \<Rightarrow> workflow_state option) \<Rightarrow> go_time
     \<Rightarrow> (ExecutionRecord list \<Rightarrow> ExecutionRecord list) \<Rightarrow> (master_parts, worker) plugin_registry \<Rightarrow> process_env
     \<Rightarrow> config \<Rightarrow> 'db \<Rightarrow> process_error + 'db master" where
  "NewMaster g dec dec_state t order plugins pe c d =
     (if \<not> pe_logger pe then Inl LoggerFailed
      else if \<not> pe_etcd pe then Inl EtcdFailed
      else case open_history g pe d of
        Inl err \<Rightarrow> Inl err
      | Inr hs \<Rightarrow>
          (let c' = c\<lparr>HasHistoryStore := hs \<noteq> None\<rparr>;
               (s, m) = ApplyToMaster plugins (NewScheduler g dec dec_state t order c' d, NewWorkerManager)
           in Inr \<lparr>ms_sched = s, ms_workers = m,
                   ms_history = (case hs of None \<Rightarrow> \<lparr>hs_db = d, taskIDCache = Map.empty\<rparr> | Some h \<Rightarrow> h), ms_cron = []\<rparr>))"

text \<open>\<^verbatim>\<open>NewWorker\<close> of \<^verbatim>\<open>infra/app\<close>; a registration that fails ends the process.\<close>

definition app_NewWorker ::
  "(master_parts, worker) plugin_registry \<Rightarrow> process_env \<Rightarrow> worker \<Rightarrow> process_error + worker option" where
  "app_NewWorker plugins pe w =
     (if \<not> pe_logger pe then Inl LoggerFailed
      else if \<not> pe_etcd pe then Inl EtcdFailed
      else Inr (ApplyToWorker plugins w))"


subsection \<open>The order of the start does not matter\<close>

lemma load_record_sel:
  "running u (load_record r s) = running u s" "conf (load_record r s) = conf s" "nextCtx (load_record r s) = nextCtx s"
  "log (load_record r s) = log s"
  by (simp_all add: load_record_def running_def split: prod.splits)

lemma load_record_commutes:
  "set_entry u e (load_record r s) = load_record r (set_entry u e s)"
  "emit x (load_record r s) = load_record r (emit x s)"
  "(load_record r s)\<lparr>nextCtx := n\<rparr> = load_record r (s\<lparr>nextCtx := n\<rparr>)"
  by (simp_all add: load_record_def set_entry_def emit_def split: prod.split)

lemma recoverSingle_load_record:
  "recoverSingleWorkflow t st ds (load_record r s) = load_record r (recoverSingleWorkflow t st ds s)"
proof -
  have bound: "Let (load_record r a) f = Let a (\<lambda>a. f (load_record r a))" for a and f :: "'a wm_state_scheme \<Rightarrow> 'a wm_state_scheme"
    by (simp add: Let_def)
  have out: "Let x (\<lambda>y. load_record r (f y)) = load_record r (Let x f)"
    "(if b then load_record r s1 else load_record r s2) = load_record r (if b then s1 else s2)"
    "(let (x, y) = p in load_record r (g x y)) = load_record r (let (x, y) = p in g x y)"
    "(case v of None \<Rightarrow> load_record r s1 | Some e \<Rightarrow> load_record r (h e)) = load_record r (case v of None \<Rightarrow> s1 | Some e \<Rightarrow> h e)"
    for x b p v s1 s2 and f :: "'b \<Rightarrow> 'a wm_state_scheme" and g :: "'c \<Rightarrow> 'd \<Rightarrow> 'a wm_state_scheme" and h :: "'e \<Rightarrow> 'a wm_state_scheme"
    by (simp_all add: Let_def split: prod.split option.split)
  show ?thesis
    unfolding recoverSingleWorkflow_def
    by (simp only: load_record_sel load_record_commutes out bound cong: if_cong)
qed

lemma recover_record_load_record:
  "recover_record g dec dec_state t allDeltas d rec (load_record r s)
     = load_record r (recover_record g dec dec_state t allDeltas d rec s)"
  by (simp add: recover_record_def recoverSingle_load_record split: option.split)

lemma recover_record_load:
  "recover_record g dec dec_state t allDeltas d rec (fold load_record rs s)
     = fold load_record rs (recover_record g dec dec_state t allDeltas d rec s)"
  by (induction rs arbitrary: s) (simp_all add: recover_record_load_record)

lemma fold_recover_load:
  "fold (recover_record g dec dec_state t allDeltas d) recs (fold load_record rs s)
     = fold load_record rs (fold (recover_record g dec dec_state t allDeltas d) recs s)"
  by (induction recs arbitrary: s) (simp_all add: recover_record_load)

lemma conf_recover_record: "conf (recover_record g dec dec_state t allDeltas d rec s) = conf s"
  by (auto simp: recover_record_def recoverSingleWorkflow_def set_entry_def emit_def Let_def split: prod.splits option.splits)

lemma conf_fold_recover: "conf (fold (recover_record g dec dec_state t allDeltas d) recs s) = conf s"
  by (induction recs arbitrary: s) (simp_all add: conf_recover_record)

lemma conf_fold_load: "conf (fold load_record rs s) = conf s"
  by (induction rs arbitrary: s) (simp_all add: load_record_sel)

lemma start_order:
  "loadHistory h (recoverRunningWorkflows g dec dec_state t order d s)
     = recoverRunningWorkflows g dec dec_state t order d (loadHistory h s)"
  unfolding recoverRunningWorkflows_def loadHistory_def
  by (simp add: conf_fold_recover conf_fold_load fold_recover_load Let_def split: option.split)

subsection \<open>The start is a run of the scheduler\<close>

lemma recover_record_op:
  "\<exists>ops. recover_record g dec dec_state t allDeltas d rec s = fold sys_step ops s"
proof (cases "dec_state (er_Data rec)")
  case None
  then show ?thesis by (intro exI [of _ "[]"]) (simp add: recover_record_def)
next
  case (Some st)
  then show ?thesis
    by (intro exI [of _ "[OpRecover t st (recovery_deltas g dec allDeltas (er_ExecutionID rec) d)]"]) (simp add: recover_record_def)
qed

lemma fold_ops:
  assumes "\<And>x s. \<exists>ops. f x s = fold sys_step ops s"
  shows "\<exists>ops. fold f xs s = fold sys_step ops s"
proof (induction xs arbitrary: s)
  case Nil
  then show ?case by (intro exI [of _ "[]"]) simp
next
  case (Cons x xs)
  obtain ops where "f x s = fold sys_step ops s" using assms by blast
  moreover obtain ops' where "fold f xs (f x s) = fold sys_step ops' (f x s)" using Cons by blast
  ultimately show ?case by (intro exI [of _ "ops @ ops'"]) simp
qed

lemma recover_ops: "\<exists>ops. recoverRunningWorkflows g dec dec_state t order d s = fold sys_step ops s"
proof (cases "HasHistoryStore (conf s) \<and> (\<exists>rs. LoadRunningExecutions g d = Some rs \<and> rs \<noteq> [])")
  case True
  then show ?thesis
    using fold_ops [OF recover_record_op] by (auto simp: recoverRunningWorkflows_def Let_def)
next
  case False
  then show ?thesis
    by (intro exI [of _ "[]"]) (auto simp: recoverRunningWorkflows_def split: option.splits)
qed

lemma NewScheduler_ops: "\<exists>ops. NewScheduler g dec dec_state t order c d = fold sys_step ops (new_scheduler c)"
proof -
  let ?h = "if HasHistoryStore c then loaded_history g dec_state c d else None"
  from recover_ops [of g dec dec_state t order d "loadHistory ?h (new_scheduler c)"]
  obtain ops where "NewScheduler g dec dec_state t order c d = fold sys_step ops (loadHistory ?h (new_scheduler c))"
    unfolding NewScheduler_def by blast
  then show ?thesis by (intro exI [of _ "OpLoadHistory ?h # ops"]) simp
qed


subsection \<open>What a master starts with\<close>

text \<open>What one record adds: a workflow under the UUID of the state, or else of its definition, which is there
  only if no other is, in the recorded state with the deltas applied.\<close>

definition recovered_key :: "workflow_state \<Rightarrow> uuid" where
  "recovered_key st = (if WorkflowUUID st = '''' then wf_UUID (st_Workflow st) else WorkflowUUID st)"

definition recovered_state :: "task_delta list \<Rightarrow> workflow_state \<Rightarrow> workflow_state" where
  "recovered_state deltas st0 =
     (let st = ApplyDeltas deltas st0; w = st_Workflow st in
      st\<lparr>st_Status := WorkflowStatusRunning,
         TaskGroupIndex := (if TaskGroupIndex st = [] then BuildTaskGroupIndex w else TaskGroupIndex st),
         BranchTaskIndex := (if BranchTaskIndex st = [] then BuildBranchTaskIndex w else BranchTaskIndex st)\<rparr>)"

definition bulk_deltas :: "'db gorm \<Rightarrow> 'db \<Rightarrow> (nat \<rightharpoonup> json_text) option" where
  "bulk_deltas g d =
     (case LoadRunningExecutions g d of
        None \<Rightarrow> None
      | Some records \<Rightarrow>
          (case BatchLoadTaskDeltas g (map er_ExecutionID records) d of None \<Rightarrow> None | Some loaded \<Rightarrow> loaded))"

definition running_rows :: "tables \<Rightarrow> VibeflowExecution list" where
  "running_rows T = filter (\<lambda>ex. ex_Status ex = WorkflowStatusRUNNING) (t_executions T)"

lemma recover_record_running:
  "running v (recover_record g dec dec_state t allDeltas d rec s) =
     (case dec_state (er_Data rec) of
        None \<Rightarrow> running v s
      | Some st \<Rightarrow>
          if v = recovered_key st \<and> v \<noteq> '''' \<and> running v s = None
          then Some \<lparr>e_state = recovered_state (recovery_deltas g dec allDeltas (er_ExecutionID rec) d) st, e_ctx = nextCtx s,
                 recovered = True\<rparr>
          else running v s)"
  by (auto simp: recover_record_def recoverSingleWorkflow_def recovered_key_def recovered_state_def Let_def
      split: prod.splits option.splits)

lemma fold_recover_keeps:
  "running u s = Some e \<Longrightarrow> running u (fold (recover_record g dec dec_state t allDeltas d) recs s) = Some e"
  by (induction recs arbitrary: s) (auto simp: recover_record_running split: option.splits)

lemma fold_recover_running:
  "running u s = None \<Longrightarrow> running u (fold (recover_record g dec dec_state t allDeltas d) recs s) \<noteq> None
     \<longleftrightarrow> u \<noteq> '''' \<and> (\<exists>rec \<in> set recs. \<exists>st. dec_state (er_Data rec) = Some st \<and> recovered_key st = u)"
proof (induction recs arbitrary: s)
  case (Cons rec recs)
  let ?s1 = "recover_record g dec dec_state t allDeltas d rec s"
  show ?case
  proof (cases "running u ?s1")
    case None
    then have "\<not> (u \<noteq> '''' \<and> (\<exists>st. dec_state (er_Data rec) = Some st \<and> recovered_key st = u))"
      using Cons.prems by (auto simp: recover_record_running split: option.splits if_splits)
    with Cons.IH [OF None] show ?thesis by auto
  next
    case (Some e)
    then have "u \<noteq> '''' \<and> (\<exists>st. dec_state (er_Data rec) = Some st \<and> recovered_key st = u)"
      using Cons.prems by (auto simp: recover_record_running split: option.splits if_splits)
    with fold_recover_keeps [OF Some, of g dec dec_state t allDeltas d recs] show ?thesis by auto
  qed
qed simp

lemma fold_recover_entry:
  assumes "running u (fold (recover_record g dec dec_state t allDeltas d) recs s) = Some e" and "running u s = None"
  shows "\<exists>rec \<in> set recs. \<exists>st. dec_state (er_Data rec) = Some st \<and> recovered_key st = u \<and> recovered e
    \<and> e_state e = recovered_state (recovery_deltas g dec allDeltas (er_ExecutionID rec) d) st"
  using assms
proof (induction recs arbitrary: s)
  case (Cons rec recs)
  let ?s1 = "recover_record g dec dec_state t allDeltas d rec s"
  show ?case
  proof (cases "running u ?s1")
    case None
    with Cons.IH [of ?s1] Cons.prems show ?thesis by auto
  next
    case (Some e1)
    with fold_recover_keeps [OF Some, of g dec dec_state t allDeltas d recs] Cons.prems have "e1 = e" by simp
    with Some Cons.prems(2) show ?thesis by (auto simp: recover_record_running split: option.splits if_splits)
  qed
qed simp

lemma ApplyDeltas_ExecutionID: "ExecutionID (ApplyDeltas ds st) = ExecutionID st"
  unfolding ApplyDeltas_def by (induction ds arbitrary: st) (simp_all add: apply_delta_def split: delta_action.split)

lemma recovered_state_sel [simp]:
  "ExecutionID (recovered_state ds st) = ExecutionID st" "st_Status (recovered_state ds st) = WorkflowStatusRunning"
  by (simp_all add: recovered_state_def Let_def ApplyDeltas_ExecutionID)

lemma running_load: "running u (loadHistory h s) = running u s"
proof -
  have "running u (fold load_record rs s) = running u s" for rs
    by (induction rs arbitrary: s) (simp_all add: load_record_sel)
  then show ?thesis by (simp add: loadHistory_def split: option.split)
qed

lemma running_rows_loaded:
  assumes db: "history_db g \<alpha>" and rs: "LoadRunningExecutions g d = Some rs"
  shows "map (\<lambda>rec. (er_ExecutionID rec, er_Data rec)) rs = map (\<lambda>ex. (ex_ID ex, ex_Data ex)) (running_rows (\<alpha> d))"
proof -
  obtain xs where xs: "g_ExecutionsByStatus g WorkflowStatusRUNNING d = Some xs" "rs = map to_record xs"
    using rs by (auto simp: LoadRunningExecutions_def)
  show ?thesis
    by (simp add: xs(2) history_db.running_law [OF db xs(1)] to_record_def joined_def comp_def running_rows_def)
qed

lemma new_scheduler_idle: "running u (loadHistory h (new_scheduler c)) = None" "conf (loadHistory h (new_scheduler c)) = c"
  unfolding running_load
  by (simp_all add: running_def new_scheduler_def loadHistory_def conf_fold_load split: option.split)

text \<open>The running table of a new scheduler, from the rows that MySQL has as RUNNING.\<close>

lemma NewScheduler_running:
  assumes db: "history_db g \<alpha>" and order: "\<forall>rs. mset (order rs) = mset rs"
  shows "running u (NewScheduler g dec dec_state t order c d) \<noteq> None \<longleftrightarrow>
      HasHistoryStore c \<and> LoadRunningExecutions g d \<noteq> None \<and> u \<noteq> ''''
      \<and> (\<exists>ex \<in> set (running_rows (\<alpha> d)). \<exists>st. dec_state (ex_Data ex) = Some st \<and> recovered_key st = u)"
    and "running u (NewScheduler g dec dec_state t order c d) = Some e \<Longrightarrow>
      recovered e \<and> (\<exists>ex \<in> set (running_rows (\<alpha> d)). \<exists>st. dec_state (ex_Data ex) = Some st \<and> recovered_key st = u
        \<and> e_state e = recovered_state (recovery_deltas g dec (bulk_deltas g d) (ex_ID ex) d) st)"
proof -
  let ?s = "loadHistory (if HasHistoryStore c then loaded_history g dec_state c d else None) (new_scheduler c)"
  let ?N = "NewScheduler g dec dec_state t order c d"
  have set_order: "set (order rs) = set rs" for rs using order mset_eq_setD by blast
  have other: "?N = ?s" if "\<not> HasHistoryStore c \<or> LoadRunningExecutions g d = None"
    using that by (auto simp: NewScheduler_def recoverRunningWorkflows_def new_scheduler_idle)
  have loaded: "?N = fold (recover_record g dec dec_state t (bulk_deltas g d) d) (order rs) ?s"
    if "HasHistoryStore c" "LoadRunningExecutions g d = Some rs" for rs
    using that set_order [of "[]"] by (simp add: NewScheduler_def recoverRunningWorkflows_def new_scheduler_idle bulk_deltas_def Let_def)
  have rows: "(\<exists>rec \<in> set rs. P (er_ExecutionID rec) (er_Data rec)) \<longleftrightarrow> (\<exists>ex \<in> set (running_rows (\<alpha> d)). P (ex_ID ex) (ex_Data ex))"
    if "LoadRunningExecutions g d = Some rs" for rs and P :: "nat \<Rightarrow> json_text \<Rightarrow> bool"
  proof -
    have "(\<exists>x \<in> set (map (\<lambda>rec. (er_ExecutionID rec, er_Data rec)) rs). P (fst x) (snd x))
        \<longleftrightarrow> (\<exists>x \<in> set (map (\<lambda>ex. (ex_ID ex, ex_Data ex)) (running_rows (\<alpha> d))). P (fst x) (snd x))"
      unfolding running_rows_loaded [OF db that] ..
    then show ?thesis by simp
  qed
  show "running u ?N \<noteq> None \<longleftrightarrow> HasHistoryStore c \<and> LoadRunningExecutions g d \<noteq> None \<and> u \<noteq> ''''
      \<and> (\<exists>ex \<in> set (running_rows (\<alpha> d)). \<exists>st. dec_state (ex_Data ex) = Some st \<and> recovered_key st = u)"
  proof (cases "HasHistoryStore c \<and> LoadRunningExecutions g d \<noteq> None")
    case True
    then obtain rs where rs: "HasHistoryStore c" "LoadRunningExecutions g d = Some rs" by blast
    show ?thesis
      unfolding loaded [OF rs] fold_recover_running [OF new_scheduler_idle(1)] set_order
      using rs rows [OF rs(2), of "\<lambda>_ x. \<exists>st. dec_state x = Some st \<and> recovered_key st = u"] by simp
  next
    case False
    then have "?N = ?s" using other by blast
    with False new_scheduler_idle(1) show ?thesis by auto
  qed
  assume e: "running u ?N = Some e"
  then obtain rs where rs: "HasHistoryStore c" "LoadRunningExecutions g d = Some rs"
    using other new_scheduler_idle(1) by (metis option.distinct(1) option.exhaust)
  from fold_recover_entry [OF e [unfolded loaded [OF rs]] new_scheduler_idle(1)] have "recovered e" and
    "\<exists>rec \<in> set rs. \<exists>st. dec_state (er_Data rec) = Some st \<and> recovered_key st = u
      \<and> e_state e = recovered_state (recovery_deltas g dec (bulk_deltas g d) (er_ExecutionID rec) d) st"
    unfolding set_order by blast+
  then show "recovered e \<and> (\<exists>ex \<in> set (running_rows (\<alpha> d)). \<exists>st. dec_state (ex_Data ex) = Some st \<and> recovered_key st = u
        \<and> e_state e = recovered_state (recovery_deltas g dec (bulk_deltas g d) (ex_ID ex) d) st)"
    using rows [OF rs(2), of "\<lambda>i x. \<exists>st. dec_state x = Some st \<and> recovered_key st = u
      \<and> e_state e = recovered_state (recovery_deltas g dec (bulk_deltas g d) i d) st"] by blast
qed

text \<open>C8. A new master, whatever it finds in MySQL: if something it needs does not start there is no master
  at all. Otherwise its scheduler is in a state that the operations of the scheduler reach, with the
  shipped workflow registered. It runs exactly the workflows of the executions that MySQL has as
  RUNNING, if these can be read and as far as they can be decoded (none without MySQL), whatever the
  order in which they are recovered; each is RUNNING in the decoded state of an execution of its own
  with that execution's deltas; and it makes no difference whether the history or the running
  workflows are loaded first.\<close>

theorem started_master:
  assumes db: "history_db g \<alpha>" and order: "\<forall>rs. mset (order rs) = mset rs"
    and new: "NewMaster g dec dec_state t order (shipped_plugins http fs) pe c d = Inr m"
  shows "pe_logger pe \<and> pe_etcd pe \<and> (pe_mysql pe \<longrightarrow> pe_opens pe \<and> pe_migrated pe)
     \<and> (\<exists>ops. ms_sched m = fold sys_step ops (new_scheduler (c\<lparr>HasHistoryStore := pe_mysql pe\<rparr>)))
     \<and> GetRegisteredWorkflow ''builtin-fetch-and-save'' (ms_sched m) = Some builtin_workflow
     \<and> (\<forall>u. running u (ms_sched m) \<noteq> None \<longleftrightarrow> pe_mysql pe \<and> LoadRunningExecutions g d \<noteq> None \<and> u \<noteq> ''''
          \<and> (\<exists>ex \<in> set (running_rows (\<alpha> d)). \<exists>st. dec_state (ex_Data ex) = Some st \<and> recovered_key st = u))
     \<and> (\<forall>u e. running u (ms_sched m) = Some e \<longrightarrow> recovered e \<and> st_Status (e_state e) = WorkflowStatusRunning
          \<and> (\<exists>ex \<in> set (running_rows (\<alpha> d)). \<exists>st. dec_state (ex_Data ex) = Some st \<and> recovered_key st = u
               \<and> e_state e = recovered_state (recovery_deltas g dec (bulk_deltas g d) (ex_ID ex) d) st))
     \<and> (\<forall>h s. loadHistory h (recoverRunningWorkflows g dec dec_state t order d (s :: sched))
          = recoverRunningWorkflows g dec dec_state t order d (loadHistory h s))"
proof -
  obtain hs where hs: "open_history g pe d = Inr hs" and ok: "pe_logger pe" "pe_etcd pe"
    using new by (auto simp: NewMaster_def split: if_splits sum.splits)
  have mysql: "pe_mysql pe \<longrightarrow> pe_opens pe \<and> pe_migrated pe" and has: "hs \<noteq> None \<longleftrightarrow> pe_mysql pe"
    using hs by (auto simp: open_history_def NewHistoryStore_def split: if_splits option.splits)
  define c' where "c' = c\<lparr>HasHistoryStore := pe_mysql pe\<rparr>"
  define s0 where "s0 = NewScheduler g dec dec_state t order c' d"
  obtain wm where applied: "ApplyToMaster (shipped_plugins http fs) (s0, NewWorkerManager) = (ms_sched m, wm)"
    using new hs ok has by (auto simp: NewMaster_def s0_def c'_def Let_def split: prod.splits)
  then have s: "ms_sched m = RegisterWorkflow builtin_workflow s0"
    by (simp add: plugin_defs builtin_RegisterToMaster_def)
  from NewScheduler_ops [of g dec dec_state t order c' d]
  obtain ops where "s0 = fold sys_step ops (new_scheduler c')" unfolding s0_def by blast
  then have "ms_sched m = fold sys_step (ops @ [OpRegister builtin_workflow]) (new_scheduler c')" by (simp add: s)
  then have run: "\<exists>ops. ms_sched m = fold sys_step ops (new_scheduler (c\<lparr>HasHistoryStore := pe_mysql pe\<rparr>))"
    unfolding c'_def by blast
  have same: "running u (ms_sched m) = running u s0" for u
    by (simp add: s RegisterWorkflow_def RegisterWorkflow_tables_def running_def Let_def split: sum.split)
  have has': "HasHistoryStore c' = pe_mysql pe" by (simp add: c'_def)
  note live = NewScheduler_running [OF db order, where dec = dec and dec_state = dec_state and t = t and c = c' and d = d,
    folded s0_def]
  have which: "\<forall>u. running u (ms_sched m) \<noteq> None \<longleftrightarrow> pe_mysql pe \<and> LoadRunningExecutions g d \<noteq> None \<and> u \<noteq> ''''
      \<and> (\<exists>ex \<in> set (running_rows (\<alpha> d)). \<exists>st. dec_state (ex_Data ex) = Some st \<and> recovered_key st = u)"
    unfolding same has' [symmetric] by (intro allI live(1))
  have how: "\<forall>u e. running u (ms_sched m) = Some e \<longrightarrow> recovered e \<and> st_Status (e_state e) = WorkflowStatusRunning
      \<and> (\<exists>ex \<in> set (running_rows (\<alpha> d)). \<exists>st. dec_state (ex_Data ex) = Some st \<and> recovered_key st = u
           \<and> e_state e = recovered_state (recovery_deltas g dec (bulk_deltas g d) (ex_ID ex) d) st)"
  proof (intro allI impI)
    fix u e
    assume "running u (ms_sched m) = Some e"
    from live(2) [OF this [unfolded same]] show "recovered e \<and> st_Status (e_state e) = WorkflowStatusRunning
      \<and> (\<exists>ex \<in> set (running_rows (\<alpha> d)). \<exists>st. dec_state (ex_Data ex) = Some st \<and> recovered_key st = u
           \<and> e_state e = recovered_state (recovery_deltas g dec (bulk_deltas g d) (ex_ID ex) d) st)" by fastforce
  qed
  have orders: "\<forall>h s. loadHistory h (recoverRunningWorkflows g dec dec_state t order d (s :: sched))
      = recoverRunningWorkflows g dec dec_state t order d (loadHistory h s)" by (intro allI start_order)
  show ?thesis by (intro conjI ok mysql run shipped_master(1) [OF applied] which how orders)
qed

definition demo_outside :: process_env where
  "demo_outside = \<lparr>pe_logger = True, pe_etcd = True, pe_mysql = False, pe_opens = False, pe_migrated = False\<rparr>"

theorem started_master_witness:
  "\<exists>m. NewMaster mem_gorm (\<lambda>_. None) (\<lambda>_. None) 0 (\<lambda>rs. rs)
       (shipped_plugins (\<lambda>_. FetchedBody '''') \<lparr>fs_MkdirAll = \<lambda>_. None, fs_WriteFile = \<lambda>_ _. None\<rparr>)
       demo_outside demo_conf demo_history = Inr m
     \<and> GetRegisteredWorkflow ''builtin-fetch-and-save'' (ms_sched m) = Some builtin_workflow"
proof -
  let ?plugins = "shipped_plugins (\<lambda>_. FetchedBody '''') \<lparr>fs_MkdirAll = \<lambda>_. None, fs_WriteFile = \<lambda>_ _. None\<rparr>"
  have "\<exists>m. NewMaster mem_gorm (\<lambda>_. None) (\<lambda>_. None) 0 (\<lambda>rs. rs) ?plugins demo_outside demo_conf demo_history = Inr m"
    by (simp add: NewMaster_def demo_outside_def open_history_def split: prod.split)
  then obtain m where m: "NewMaster mem_gorm (\<lambda>_. None) (\<lambda>_. None) 0 (\<lambda>rs. rs) ?plugins demo_outside demo_conf demo_history = Inr m" ..
  from started_master [OF mem.history_db_axioms _ m] m show ?thesis by simp
qed


subsection \<open>The end of a recovered workflow\<close>

text \<open>\<^verbatim>\<open>asyncInitMySQL\<close> serialises the state before the execution's identifier is known. The row it creates
  stays as it is under all statements but an update of this very row.\<close>

fun leaves_execution :: "nat \<Rightarrow> statement \<Rightarrow> bool" where
  "leaves_execution i (SetExecution k data st err) = (k \<noteq> i)"
| "leaves_execution i _ = True"

definition only_row :: "VibeflowExecution \<Rightarrow> tables \<Rightarrow> bool" where
  "only_row row T \<longleftrightarrow> row \<in> set (t_executions T) \<and> (\<forall>ex \<in> set (t_executions T). ex_ID ex = ex_ID row \<longrightarrow> ex = row)"

lemma only_row_after:
  assumes "only_row row T" and "leaves_execution (ex_ID row) st" and "admits st i T"
  shows "only_row row (after_statement st i T)"
  using assms by (cases st) (auto simp: only_row_def image_iff intro!: bexI [of _ row])

lemma only_row_exec:
  assumes db: "history_db g \<alpha>" and "only_row row (\<alpha> d)" and "leaves_execution (ex_ID row) st" and "g_Exec g st d = (r, d')"
  shows "only_row row (\<alpha> d')"
  using history_db.exec_law [OF db, of st d _ d'] history_db.exec_lost [OF db, of st d d'] only_row_after assms(2-4)
  by (cases r) metis+

lemma only_row_statements:
  assumes db: "history_db g \<alpha>"
  shows "only_row row (\<alpha> d) \<Longrightarrow> \<forall>st \<in> set sts. leaves_execution (ex_ID row) st \<Longrightarrow>
    only_row row (\<alpha> (fold (\<lambda>st d. snd (g_Exec g st d)) sts d))"
proof (induction sts arbitrary: d)
  case (Cons st sts)
  then have "only_row row (\<alpha> (snd (g_Exec g st d)))" by (auto intro: only_row_exec [OF db] simp: prod_eq_iff)
  with Cons show ?case by simp
qed simp

lemma created_row:
  assumes db: "history_db g \<alpha>" and "CreateExecution g wid data status startedAt err d = (Some i, d1)"
  shows "0 < i \<and> only_row \<lparr>ex_ID = i, ex_WorkflowID = wid, ex_Data = data, ex_Status = status, ex_Error = err, ex_StartedAt = startedAt\<rparr> (\<alpha> d1)"
  using history_db.exec_law [OF db assms(2) [unfolded CreateExecution_def]]
  by (auto simp: only_row_def)

text \<open>C7. A workflow that a restarted master recovers can never end in MySQL. Take a workflow whose submission
  is accepted, any operations up to its start-up in MySQL, and the execution that this start-up
  creates from the serialised state; whatever is written afterwards except the end of this
  execution, when the master stops. If the next master can read MySQL and this is the only execution
  of the workflow that MySQL has as RUNNING, it recovers the workflow with the execution identifier
  zero, and when the workflow completes, the completion is written for execution zero. Whatever is
  written for that execution, MySQL has the real one still as RUNNING, and every later master that
  can read it recovers and runs the workflow again.\<close>

theorem recovered_execution_stays_running:
  assumes db: "history_db g \<alpha>" and order: "\<forall>rs. mset (order rs) = mset rs"
    and submitted: "fst (SubmitWorkflow t0 w s0) = Inr ()" and u: "u = wf_UUID w" "u \<noteq> ''''"
    and meanwhile: "\<forall>x \<in> set ops. \<not> gives_id u x"
    and init: "asyncInit_workflow u (Some wid) (fold sys_step ops (snd (SubmitWorkflow t0 w s0))) = (True, s1)"
    and entry: "running u s1 = Some e1"
    and codec: "dec_state data = Some st1" "ExecutionID st1 = ExecutionID (e_state e1)" "recovered_key st1 = u"
    and create: "CreateExecution g wid data WorkflowStatusRUNNING startedAt '''' d = (Some i, d1)"
    and later: "d2 = fold (\<lambda>st d. snd (g_Exec g st d)) sts d1" "\<forall>st \<in> set sts. leaves_execution i st"
    and only: "\<forall>ex \<in> set (running_rows (\<alpha> d2)). \<forall>st. dec_state (ex_Data ex) = Some st \<and> recovered_key st = u \<longrightarrow> ex_ID ex = i"
    and restart: "HasHistoryStore c" "LoadRunningExecutions g d2 \<noteq> None"
  shows "\<exists>e. running u (NewScheduler g dec dec_state t order c d2) = Some e \<and> ExecutionID (e_state e) = 0
     \<and> (\<exists>st. PersistToMySQL u (st_WorkflowID (e_state e)) 0 WorkflowStatusCompleted (st_Error (e_state e)) st
          \<in> set (log (finishWorkflow u (NewScheduler g dec dec_state t order c d2))))
     \<and> (\<forall>data' status err ok d3. UpdateExecution g 0 data' status err d2 = (ok, d3) \<longrightarrow>
          (\<exists>ex \<in> set (running_rows (\<alpha> d3)). ex_ID ex = i \<and> ex_Data ex = data)
          \<and> (\<forall>t'. LoadRunningExecutions g d3 \<noteq> None \<longrightarrow> running u (NewScheduler g dec dec_state t' order c d3) \<noteq> None))"
proof -
  define row where "row = \<lparr>ex_ID = i, ex_WorkflowID = wid, ex_Data = data, ex_Status = WorkflowStatusRUNNING, ex_Error = '''', ex_StartedAt = startedAt\<rparr>"
  have row: "ex_ID row = i" "ex_Data row = data" "ex_Status row = WorkflowStatusRUNNING" by (simp_all add: row_def)
  from created_row [OF db create] have "0 < i" "only_row row (\<alpha> d1)" by (simp_all add: row_def)
  with only_row_statements [OF db] later have r2: "only_row row (\<alpha> d2)" by (simp add: row)
  have there: "row \<in> set (running_rows (\<alpha> d'))" if "only_row row (\<alpha> d')" for d'
    using that by (simp add: only_row_def running_rows_def row)
  have "unsaved u s1"
    using un_asyncInit [of u _ u "Some wid"] un_run [OF meanwhile] submitted_unsaved [OF submitted] init u(1) by (metis snd_conv)
  with entry codec(2) have zero: "ExecutionID st1 = 0" by (simp add: unsaved_def)
  have runs: "running u (NewScheduler g dec dec_state t' order c d') \<noteq> None"
    if "only_row row (\<alpha> d')" "LoadRunningExecutions g d' \<noteq> None" for t' d'
    unfolding NewScheduler_running(1) [OF db order] using that restart(1) there u(2) codec row by blast
  from runs [OF r2 restart(2)] obtain e where e: "running u (NewScheduler g dec dec_state t order c d2) = Some e" by blast
  from NewScheduler_running(2) [OF db order e] obtain ex st where
    ex: "ex \<in> set (running_rows (\<alpha> d2))" "dec_state (ex_Data ex) = Some st" "recovered_key st = u"
    "ExecutionID (e_state e) = ExecutionID st" by auto
  with only have "ex_ID ex = i" by blast
  with ex(1) r2 have "ex = row" by (auto simp: only_row_def running_rows_def row)
  with ex codec(1) zero have id: "ExecutionID (e_state e) = 0" by (simp add: row)
  have final: "PersistToMySQL u (st_WorkflowID (e_state e)) 0 WorkflowStatusCompleted (st_Error (e_state e))
      ((e_state e)\<lparr>st_Status := WorkflowStatusCompleted\<rparr>)
      \<in> set (log (finishWorkflow u (NewScheduler g dec dec_state t order c d2)))"
    using e id by (simp add: finishWorkflow_def wm_simps)
  have "only_row row (\<alpha> d3)" if "UpdateExecution g 0 data' status err d2 = (ok, d3)" for data' status err ok d3
  proof -
    from that obtain r where "g_Exec g (SetExecution 0 data' status err) d2 = (r, d3)"
      by (auto simp: UpdateExecution_def split: prod.splits)
    from only_row_exec [OF db r2 _ this] \<open>0 < i\<close> show ?thesis by (simp add: row)
  qed
  with e id final runs there row show ?thesis by blast
qed

theorem recovered_execution_stays_running_witness:
  "\<exists>i d1 e. CreateExecution mem_gorm 1 (JsonText JNull) WorkflowStatusRUNNING 0 '''' demo_history = (Some i, d1)
     \<and> running ''demo'' (NewScheduler mem_gorm (\<lambda>_. None) (\<lambda>_. Some (pending_state demo_workflow)) 0 (\<lambda>rs. rs)
          (demo_conf\<lparr>HasHistoryStore := True\<rparr>) d1) = Some e \<and> ExecutionID (e_state e) = 0"
proof -
  let ?dec = "\<lambda>_ :: json_text. Some (pending_state demo_workflow)"
  let ?s = "snd (SubmitWorkflow 7 demo_workflow demo_sched)"
  have demo: "wf_UUID demo_workflow = ''demo''" by (simp add: demo_workflow_simps)
  have sub: "fst (SubmitWorkflow 7 demo_workflow demo_sched) = Inr ()"
    using demo_workflow_valid by (simp add: SubmitWorkflow_def demo_workflow_simps Let_def)
  have "\<exists>e. running ''demo'' ?s = Some e"
    using demo_workflow_valid by (simp add: SubmitWorkflow_def demo_workflow_simps Let_def)
  then obtain s1 e1 where init: "asyncInit_workflow ''demo'' (Some 1) ?s = (True, s1)" and e1: "running ''demo'' s1 = Some e1"
    by (auto simp: asyncInit_workflow_def running_modify_state)
  have "unsaved ''demo'' s1"
    using un_asyncInit [of "''demo''" ?s "''demo''" "Some 1"] submitted_unsaved [OF sub] init by (simp add: demo)
  with e1 have id: "ExecutionID (pending_state demo_workflow) = ExecutionID (e_state e1)" by (simp add: unsaved_def pending_state_def)
  have key: "recovered_key (pending_state demo_workflow) = ''demo''" by (simp add: recovered_key_def pending_state_def demo)
  obtain i d1 where cr: "CreateExecution mem_gorm 1 (JsonText JNull) WorkflowStatusRUNNING 0 '''' demo_history = (Some i, d1)"
    by (simp add: CreateExecution_def mem_gorm_def mem_exec_def demo_history_def Let_def)
  then have "md_tables d1 = (md_tables demo_history)\<lparr>t_executions := [\<lparr>ex_ID = i, ex_WorkflowID = 1, ex_Data = JsonText JNull,
      ex_Status = WorkflowStatusRUNNING, ex_Error = '''', ex_StartedAt = 0\<rparr>]\<rparr>"
    by (auto simp: CreateExecution_def mem_gorm_def mem_exec_def demo_history_def Let_def)
  then have only: "\<forall>ex \<in> set (running_rows (md_tables d1)). \<forall>st. ?dec (ex_Data ex) = Some st \<and> recovered_key st = ''demo'' \<longrightarrow> ex_ID ex = i"
    by (simp add: running_rows_def)
  have load: "LoadRunningExecutions mem_gorm d1 \<noteq> None" by (simp add: LoadRunningExecutions_def mem_gorm_def)
  have init': "asyncInit_workflow ''demo'' (Some 1) (fold sys_step [] ?s) = (True, s1)" using init by simp
  have d1: "d1 = fold (\<lambda>st d. snd (g_Exec mem_gorm st d)) [] d1" by simp
  from recovered_execution_stays_running [where dec = "\<lambda>_. None" and t = 0 and order = "\<lambda>rs. rs"
      and c = "demo_conf\<lparr>HasHistoryStore := True\<rparr>" and dec_state = ?dec,
      OF mem.history_db_axioms _ sub _ _ _ init' e1 refl id key cr d1 _ only _ load]
  obtain e where "running ''demo'' (NewScheduler mem_gorm (\<lambda>_. None) ?dec 0 (\<lambda>rs. rs) (demo_conf\<lparr>HasHistoryStore := True\<rparr>) d1) = Some e"
    "ExecutionID (e_state e) = 0" by (auto simp: demo)
  with cr show ?thesis by blast
qed

end
