(* ===== verification/Float_Context.thy ===== *)
theory Float_Context
  imports Complex_Main Task_Context
begin

text \<open>
  \<^verbatim>\<open>GetFloat64\<close> of \<^verbatim>\<open>domain/model/context.go\<close>. A finite \<^verbatim>\<open>float64\<close> is the rational number it stands for; the
  two zeros are one. Integers and the text of a number are rounded to the nearest \<^verbatim>\<open>float64\<close>, ties to
  even, as Go's conversion and \<^verbatim>\<open>strconv.ParseFloat\<close> do.
\<close>

subsection \<open>Rounding to binary64\<close>

definition pow2 :: "int \<Rightarrow> rat" where
  "pow2 e = (if 0 \<le> e then 2 ^ nat e else 1 / 2 ^ nat (- e))"

definition half_even :: "rat \<Rightarrow> int" where
  "half_even x =
     (let f = \<lfloor>x\<rfloor>; r = x - of_int f in if r < 1 / 2 \<or> r = 1 / 2 \<and> even f then f else f + 1)"

fun bits :: "nat \<Rightarrow> nat" where
  "bits n = (if n = 0 then 0 else Suc (bits (n div 2)))"

declare bits.simps [simp del]

text \<open>The exponent of the last of the 53 bits of \<open>x\<close>; denormal numbers have fewer.\<close>

definition float_exp :: "rat \<Rightarrow> int" where
  "float_exp x =
     (let (p, q) = quotient_of \<bar>x\<bar>; e = int (bits (nat p)) - int (bits (nat q)) - 53
      in max (- 1074) (if 2 ^ 53 * pow2 e \<le> \<bar>x\<bar> then e + 1 else e))"

text \<open>\<open>None\<close>: the result is infinite, which \<^verbatim>\<open>ParseFloat\<close> reports as an error.\<close>

definition round_float64 :: "rat \<Rightarrow> rat option" where
  "round_float64 x =
     (let e = float_exp x; y = of_int (half_even (x / pow2 e)) * pow2 e
      in if 2 ^ 1024 \<le> \<bar>y\<bar> then None else Some y)"


subsection \<open>Decimal numbers\<close>

text \<open>The decimal syntax of \<^verbatim>\<open>ParseFloat\<close>, to which every JSON number belongs: a sign, digits with a point
  somewhere, an exponent.\<close>

fun span_digits :: "string \<Rightarrow> nat \<Rightarrow> nat \<Rightarrow> nat \<times> nat \<times> string" where
  "span_digits [] acc n = (acc, n, [])"
| "span_digits (c # cs) acc n =
     (case digit_val c of None \<Rightarrow> (acc, n, c # cs) | Some d \<Rightarrow> span_digits cs (10 * acc + nat d) (Suc n))"

definition parse_exponent :: "string \<Rightarrow> int option" where
  "parse_exponent s =
     (case s of
        [] \<Rightarrow> Some 0
      | c # cs \<Rightarrow>
          if c = CHR ''e'' \<or> c = CHR ''E'' then
            (case cs of
               [] \<Rightarrow> None
             | d # ds \<Rightarrow> if d = CHR ''-'' then map_option uminus (parse_unsigned ds)
                        else if d = CHR ''+'' then parse_unsigned ds else parse_unsigned cs)
          else None)"

definition pow10 :: "int \<Rightarrow> rat" where
  "pow10 e = (if 0 \<le> e then 10 ^ nat e else 1 / 10 ^ nat (- e))"

definition parse_decimal :: "string \<Rightarrow> rat option" where
  "parse_decimal s =
     (let (m, n, rest) = span_digits s 0 0;
          (m, k, rest) = (case rest of
             [] \<Rightarrow> (m, n, [])
           | c # cs \<Rightarrow> if c = CHR ''.'' then span_digits cs m n else (m, n, rest))
      in if k = 0 then None
         else map_option (\<lambda>e. of_nat m * pow10 (e - int (k - n))) (parse_exponent rest))"

definition ParseFloat :: "string \<Rightarrow> rat option" where
  "ParseFloat s =
     Option.bind
       (case s of
          [] \<Rightarrow> None
        | c # cs \<Rightarrow> if c = CHR ''-'' then map_option uminus (parse_decimal cs)
                   else if c = CHR ''+'' then parse_decimal cs else parse_decimal s)
       round_float64"

definition GetFloat64 :: "ctx \<Rightarrow> string \<Rightarrow> rat option" where
  "GetFloat64 c key =
     (case ctx_Get c key of
        None \<Rightarrow> None
      | Some v \<Rightarrow> (case v of
            AFloat64 m e \<Rightarrow> Some (of_int m * pow2 e)
          | AInt n \<Rightarrow> round_float64 (of_int n)
          | AInt64 n \<Rightarrow> round_float64 (of_int n)
          | ANumber s \<Rightarrow> ParseFloat s
          | _ \<Rightarrow> None))"


subsection \<open>The result is the nearest number\<close>

lemma pow2_pos [simp]: "0 < pow2 e"
  by (simp add: pow2_def)

lemma pow2_add: "pow2 (a + int n) = pow2 a * 2 ^ n"
proof (cases "0 \<le> a")
  case True
  then show ?thesis by (simp add: pow2_def nat_add_distrib power_add)
next
  case neg: False
  show ?thesis
  proof (cases "0 \<le> a + int n")
    case True
    then have "n = nat (a + int n) + nat (- a)" using neg by linarith
    then have "(2::rat) ^ n = 2 ^ nat (a + int n) * 2 ^ nat (- a)" by (metis power_add)
    with neg True show ?thesis by (simp add: pow2_def)
  next
    case False
    then have "nat (- a) = nat (- (a + int n)) + n" using neg by linarith
    then have "(2::rat) ^ nat (- a) = 2 ^ nat (- (a + int n)) * 2 ^ n" by (metis power_add)
    with neg False show ?thesis by (simp add: pow2_def)
  qed
qed

lemma pow2_mono: "a \<le> b \<Longrightarrow> pow2 a \<le> pow2 b"
  using pow2_add [of a "nat (b - a)"] mult_left_mono [of 1 "2 ^ nat (b - a)" "pow2 a"] by (simp add: less_imp_le)

lemma bits_bounds: "n < 2 ^ bits n \<and> (0 < n \<longrightarrow> 2 ^ bits n \<le> 2 * n)"
proof (induction n rule: bits.induct)
  case (1 n)
  show ?case
  proof (cases "n = 0")
    case False
    with 1 have "n div 2 < 2 ^ bits (n div 2)" "0 < n div 2 \<longrightarrow> 2 ^ bits (n div 2) \<le> 2 * (n div 2)" by simp_all
    moreover have "n div 2 = 0 \<Longrightarrow> n = 1" using False by linarith
    moreover have "bits n = Suc (bits (n div 2))" using False by (simp add: bits.simps [of n])
    moreover have "n div 2 = 0 \<Longrightarrow> bits (n div 2) = 0" by (simp add: bits.simps [of 0])
    ultimately show ?thesis by (cases "n div 2 = 0") auto
  qed (simp add: bits.simps)
qed

lemma half_even_near: "\<bar>of_int (half_even x) - x\<bar> \<le> 1 / 2"
proof -
  have "of_int \<lfloor>x\<rfloor> \<le> x" "x < of_int \<lfloor>x\<rfloor> + 1" by linarith+
  then show ?thesis by (auto simp: half_even_def Let_def)
qed

lemma half_even_int: "half_even (of_int n) = n"
  by (simp add: half_even_def)

lemma half_even_bound:
  assumes "\<bar>x\<bar> < of_int n"
  shows "\<bar>half_even x\<bar> \<le> n"
proof -
  have "of_int \<bar>half_even x\<bar> \<le> \<bar>x\<bar> + 1 / 2" using half_even_near [of x] by (simp only: of_int_abs)
  with assms have "of_int \<bar>half_even x\<bar> < (of_int (n + 1) :: rat)" by simp
  then show ?thesis by linarith
qed

lemma float_exp_bound: "\<bar>x\<bar> < 2 ^ 53 * pow2 (float_exp x)"
proof -
  obtain p q where pq: "quotient_of \<bar>x\<bar> = (p, q)" by fastforce
  have q: "0 < q" by (rule quotient_of_denom_pos [OF pq])
  have x: "\<bar>x\<bar> = of_int p / of_int q" by (rule quotient_of_div [OF pq])
  have p: "0 \<le> p" using q x by (metis abs_ge_zero of_int_0_le_iff of_int_pos zero_le_divide_iff less_le_not_le)
  define b where "b = int (bits (nat p))"
  define c where "c = int (bits (nat q))"
  have "p < 2 ^ bits (nat p)" using bits_bounds [of "nat p"] p by (metis nat_less_numeral_power_cancel_iff of_nat_less_iff nat_0_le of_nat_numeral of_nat_power)
  then have p_less: "(of_int p :: rat) < 2 ^ bits (nat p)" by (metis of_int_less_iff of_int_numeral of_int_power)
  have "2 ^ bits (nat q) \<le> 2 * nat q" using bits_bounds [of "nat q"] q by simp
  then have "(2 :: int) ^ bits (nat q) \<le> 2 * q" using q by (metis nat_0_le of_nat_le_iff of_nat_mult of_nat_numeral of_nat_power less_imp_le)
  then have q_ge: "(2 :: rat) ^ bits (nat q) \<le> 2 * of_int q" by (metis of_int_le_iff of_int_numeral of_int_power of_int_mult)
  define e where "e = b - c - 53"
  have "pow2 (e + 54) * 2 ^ bits (nat q) = pow2 (e + 54 + c)" by (simp add: pow2_add c_def)
  also have "\<dots> = 2 * 2 ^ bits (nat p)" by (simp add: e_def b_def pow2_def nat_add_distrib)
  finally have top: "pow2 (e + 54) * 2 ^ bits (nat q) = 2 * 2 ^ bits (nat p)" .
  have "2 * of_int p < pow2 (e + 54) * 2 ^ bits (nat q)" using p_less top by simp
  also have "\<dots> \<le> pow2 (e + 54) * (2 * of_int q)" using q_ge by (intro mult_left_mono) (simp_all add: less_imp_le)
  finally have "\<bar>x\<bar> < pow2 (e + 54)" using q by (simp add: x field_simps)
  then have wide: "\<bar>x\<bar> < 2 ^ 53 * pow2 (e + 1)" using pow2_add [of "e + 1" 53] by (simp add: mult.commute add.assoc)
  let ?e = "if 2 ^ 53 * pow2 e \<le> \<bar>x\<bar> then e + 1 else e"
  have "\<bar>x\<bar> < 2 ^ 53 * pow2 ?e" using wide by auto
  also have "\<dots> \<le> 2 ^ 53 * pow2 (max (- 1074) ?e)" by (intro mult_left_mono pow2_mono) auto
  also have "max (- 1074) ?e = float_exp x" by (simp only: float_exp_def pq Let_def prod.case e_def b_def c_def)
  finally show ?thesis .
qed

text \<open>What a conversion returns is a \<^verbatim>\<open>float64\<close>, and no further from the number than half of the value of
  the last bit.\<close>

theorem round_float64_nearest:
  assumes "round_float64 x = Some y"
  shows "\<bar>y - x\<bar> \<le> pow2 (float_exp x) / 2
     \<and> (\<exists>m e. y = of_int m * pow2 e \<and> \<bar>m\<bar> \<le> 2 ^ 53 \<and> - 1074 \<le> e) \<and> \<bar>y\<bar> < 2 ^ 1024"
proof -
  let ?e = "float_exp x"
  let ?m = "half_even (x / pow2 ?e)"
  have y: "y = of_int ?m * pow2 ?e" and small: "\<bar>y\<bar> < 2 ^ 1024"
    using assms by (auto simp: round_float64_def Let_def split: if_splits)
  have "\<bar>x / pow2 ?e\<bar> < of_int (2 ^ 53)"
    using float_exp_bound [of x] by (simp add: abs_divide divide_less_eq)
  then have m: "\<bar>?m\<bar> \<le> 2 ^ 53" by (rule half_even_bound)
  have "\<bar>y - x\<bar> = \<bar>of_int ?m - x / pow2 ?e\<bar> * pow2 ?e"
  proof -
    have "x = x / pow2 ?e * pow2 ?e" using pow2_pos [of ?e] by (simp add: less_imp_neq [THEN not_sym])
    then have "y - x = (of_int ?m - x / pow2 ?e) * pow2 ?e" using y by (simp add: left_diff_distrib)
    then show ?thesis by (simp add: abs_mult less_imp_le)
  qed
  also have "\<dots> \<le> 1 / 2 * pow2 ?e" by (intro mult_right_mono half_even_near) (simp add: less_imp_le)
  finally have near: "\<bar>y - x\<bar> \<le> pow2 ?e / 2" by simp
  have "- 1074 \<le> ?e" by (simp add: float_exp_def Let_def split: prod.split)
  with near m y small show ?thesis by blast
qed

text \<open>An integer of at most 53 bits is read as itself, from an \<^verbatim>\<open>int\<close> and from JSON.\<close>

lemma float_exp_int:
  assumes "\<bar>n\<bar> < 2 ^ 53"
  shows "float_exp (of_int n) \<le> 0"
proof -
  have quot: "quotient_of \<bar>of_int n\<bar> = (\<bar>n\<bar>, 1)" using quotient_of_int [of "\<bar>n\<bar>"] by (simp add: Rat.of_int_def)
  have "bits (nat \<bar>n\<bar>) \<le> 53"
  proof (rule ccontr)
    assume "\<not> bits (nat \<bar>n\<bar>) \<le> 53"
    then have "(2 :: nat) ^ 54 \<le> 2 ^ bits (nat \<bar>n\<bar>)" by (intro power_increasing) auto
    moreover have "nat \<bar>n\<bar> < 2 ^ 53" using assms by (simp add: nat_less_iff)
    moreover have "0 < nat \<bar>n\<bar>" using \<open>\<not> bits (nat \<bar>n\<bar>) \<le> 53\<close> by (cases "n = 0") (simp_all add: bits.simps [of 0])
    ultimately show False using bits_bounds [of "nat \<bar>n\<bar>"] by simp
  qed
  moreover have "bits 1 = 1" by (subst bits.simps) (simp add: bits.simps [of 0])
  ultimately show ?thesis by (simp add: float_exp_def quot Let_def)
qed

lemma round_float64_int:
  assumes "\<bar>n\<bar> < 2 ^ 53"
  shows "round_float64 (of_int n) = Some (of_int n)"
proof -
  define e where "e = float_exp (of_int n)"
  have neg: "e \<le> 0" using float_exp_int [OF assms] by (simp add: e_def)
  have "of_int n / pow2 e = of_int (n * 2 ^ nat (- e))" using neg by (auto simp: pow2_def)
  then have "half_even (of_int n / pow2 e) = n * 2 ^ nat (- e)" by (simp only: half_even_int)
  moreover have "of_int (n * 2 ^ nat (- e)) * pow2 e = of_int n" using neg by (auto simp: pow2_def)
  ultimately have y: "of_int (half_even (of_int n / pow2 e)) * pow2 e = (of_int n :: rat)" by simp
  have "\<bar>of_int n :: rat\<bar> < 2 ^ 1024"
  proof -
    have "\<bar>of_int n :: rat\<bar> = of_int \<bar>n\<bar>" by simp
    also have "\<dots> < of_int (2 ^ 53)" using assms by (simp only: of_int_less_iff)
    also have "\<dots> \<le> 2 ^ 1024" by simp
    finally show ?thesis .
  qed
  then show ?thesis by (simp add: round_float64_def Let_def e_def [symmetric] y not_le)
qed

text \<open>What a task stores as an integer is the same number for \<^verbatim>\<open>GetFloat64\<close> on both sides of the wire, and
  agrees with \<^verbatim>\<open>GetInt\<close>.\<close>

theorem float_of_int_survives:
  assumes "\<bar>n\<bar> < 2 ^ 53"
  shows "GetFloat64 (ctx_Set k (AInt n) c) k = Some (of_int n)
     \<and> (\<exists>v. json_wire (AInt n) = Some v \<and> GetFloat64 (ctx_Set k v c) k = Some (of_int n)
          \<and> GetInt (ctx_Set k v c) k = Some n)"
proof -
  have "exact_float n" using assms by (simp add: exact_float_def)
  then show ?thesis
    using round_float64_int [OF assms] by (simp add: GetFloat64_def GetInt_def float_to_int_exact pow2_def)
qed

end
