(* ===== verification/Snapshot_Run.thy ===== *)
theory Snapshot_Run
  imports Failure_Handling
begin

text \<open>
  Which recorded results reach MySQL with the incremental snapshots: the handlers of \<^verbatim>\<open>watch.go\<close> that
  record a result, the retry that clears a failure and \<^verbatim>\<open>snapshotRunningWorkflow\<close> of \<^verbatim>\<open>repository.go\<close>, in any
  order and with anything else the scheduler does in between.
\<close>

subsection \<open>What has been handed to MySQL\<close>

definition deltas_of :: "nat \<Rightarrow> effect \<Rightarrow> task_delta list" where
  "deltas_of x f =
     (case f of Go (JSaveTaskDeltas y snap) \<Rightarrow> if y = x then ChangedTasks snap else [] | _ \<Rightarrow> [])"

definition stored_deltas :: "nat \<Rightarrow> 'a sched_base_scheme \<Rightarrow> task_delta list" where
  "stored_deltas x s = concat (map (deltas_of x) (log s))"

definition same_results :: "workflow_state \<Rightarrow> workflow_state \<Rightarrow> bool" where
  "same_results st st' \<longleftrightarrow>
     ExecutionID st' = ExecutionID st \<and> CompletedTasks st' = CompletedTasks st \<and> FailedTasks st' = FailedTasks st
     \<and> RolledBack st' = RolledBack st \<and> SnapshotSeq st' = SnapshotSeq st \<and> Snapshotted st' = Snapshotted st"

definition snapshotted :: "uuid \<Rightarrow> string \<Rightarrow> sched \<Rightarrow> bool" where
  "snapshotted u n s \<longleftrightarrow> (\<exists>e. running u s = Some e \<and> \<not> unsnapshotted (e_state e) n)"

text \<open>The second component is a ghost: the tasks with a result that was recorded when a snapshot held an
  earlier one, up to their next retry. The last rule is everything else: the workflow stays in the
  running table, and nothing of what the other rules change is changed.\<close>

inductive result_step :: "uuid \<Rightarrow> nat \<Rightarrow> sched \<times> string set \<Rightarrow> sched \<times> string set \<Rightarrow> bool" for u x where
  completes: "result_step u x (s, late) (recordTaskCompleted t u p s,
     if snapshotted u (tp_TaskName p) s then insert (tp_TaskName p) late else late)"
| fails: "result_step u x (s, late) (recordTaskFailed t u p s,
     if snapshotted u (tp_TaskName p) s then insert (tp_TaskName p) late else late)"
| retried: "result_step u x (s, late) (clearFailedTask u n s, late - {n})"
| snapshots: "result_step u x (s, late) (snapshotRunningWorkflow t u s, late)"
| others: "running u s = Some e \<Longrightarrow> running u s' = Some e' \<Longrightarrow> same_results (e_state e) (e_state e') \<Longrightarrow>
     stored_deltas x s' = stored_deltas x s \<Longrightarrow> result_step u x (s, late) (s', late)"


subsection \<open>The invariant on the workflow's state\<close>

definition holds_results :: "workflow_state \<Rightarrow> task_delta list \<Rightarrow> workflow_state \<Rightarrow> string set \<Rightarrow> bool" where
  "holds_results base acc st late \<longleftrightarrow>
     distinct (map fst (CompletedTasks st)) \<and> distinct (map fst (FailedTasks st))
     \<and> (\<forall>n. \<not> unsnapshotted st n \<longrightarrow> tracked st n) \<and> (\<forall>n \<in> late. \<not> unsnapshotted st n)
     \<and> (\<forall>n. \<not> unsnapshotted st n \<and> n \<notin> late \<longrightarrow>
          (\<forall>out. map_of (CompletedTasks st) n = Some out \<longrightarrow> map_of (CompletedTasks (ApplyDeltas acc base)) n = Some out)
          \<and> (\<forall>r. map_of (FailedTasks st) n = Some r \<longrightarrow> map_of (FailedTasks (ApplyDeltas acc base)) n = Some r))"

lemma tracked_update:
  "tracked (st\<lparr>CompletedTasks := AList.update n out (CompletedTasks st)\<rparr>) k \<longleftrightarrow> k = n \<or> tracked st k"
  "tracked (st\<lparr>FailedTasks := AList.update n r (FailedTasks st)\<rparr>) k \<longleftrightarrow> k = n \<or> tracked st k"
  "k \<noteq> n \<Longrightarrow> tracked (st\<lparr>FailedTasks := AList.delete n (FailedTasks st), Snapshotted := l\<rparr>) k \<longleftrightarrow> tracked st k"
  by (auto simp: tracked_def update_conv' delete_conv')

lemma holds_results_done:
  "holds_results base acc st late \<Longrightarrow>
   holds_results base acc (st\<lparr>CompletedTasks := AList.update n out (CompletedTasks st)\<rparr>) (if unsnapshotted st n then late else insert n late)"
  by (auto simp: holds_results_def unsnapshotted_update update_conv' distinct_update tracked_update)

lemma holds_results_failed:
  "holds_results base acc st late \<Longrightarrow>
   holds_results base acc (st\<lparr>FailedTasks := AList.update n r (FailedTasks st)\<rparr>) (if unsnapshotted st n then late else insert n late)"
  by (auto simp: holds_results_def unsnapshotted_update update_conv' distinct_update tracked_update)

lemma holds_results_cleared:
  assumes "holds_results base acc st late"
  shows "holds_results base acc (st\<lparr>FailedTasks := AList.delete n (FailedTasks st), Snapshotted := AList.delete n (Snapshotted st)\<rparr>) (late - {n})"
proof -
  have "unsnapshotted (st\<lparr>FailedTasks := AList.delete n (FailedTasks st), Snapshotted := AList.delete n (Snapshotted st)\<rparr>) k
      \<longleftrightarrow> k = n \<or> unsnapshotted st k" for k
    by (simp add: unsnapshotted_def delete_conv')
  then show ?thesis using assms by (auto simp: holds_results_def delete_conv' distinct_delete tracked_update)
qed

lemma same_results_holds:
  assumes "same_results st st'" and "holds_results base acc st late"
  shows "holds_results base acc st' late"
proof -
  have "unsnapshotted st' = unsnapshotted st" "tracked st' = tracked st"
    using assms(1) by (simp_all add: same_results_def unsnapshotted_def tracked_def fun_eq_iff)
  with assms show ?thesis by (simp add: same_results_def holds_results_def)
qed

definition new_names :: "workflow_state \<Rightarrow> string set" where
  "new_names st = td_TaskName ` set (new_deltas st)"

lemma new_names_iff: "n \<in> new_names st \<longleftrightarrow> unsnapshotted st n \<and> tracked st n"
  by (auto simp: new_names_def new_deltas_def tracked_def image_Un image_image case_prod_unfold
      map_of_eq_None_iff intro: rev_image_eqI dest: map_of_SomeD)

lemma map_of_mark: "map_of (fold (\<lambda>d. AList.update (td_TaskName d) k) ds m) n = (if n \<in> td_TaskName ` set ds then Some k else map_of m n)"
  by (induction ds arbitrary: m) (auto simp: update_conv')

lemma collected_unsnapshotted:
  assumes "collectTaskDeltas st = (ds, st')"
  shows "unsnapshotted st' n \<longleftrightarrow> n \<notin> new_names st
     \<and> (unsnapshotted st n \<or> ds \<noteq> [] \<and> (SnapshotSeq st + 1) mod 10 = 0 \<and> \<not> tracked st n)"
proof -
  have ds: "ds = new_deltas st" using assms by (simp add: collectTaskDeltas_def Let_def)
  have names: "n \<in> new_names st \<Longrightarrow> tracked st n" by (simp add: new_names_iff)
  have "map_of (Snapshotted st') n = (if ds \<noteq> [] \<and> (SnapshotSeq st + 1) mod 10 = 0 \<and> \<not> tracked st n then None
      else if n \<in> new_names st then Some (SnapshotSeq st + 1) else map_of (Snapshotted st) n)"
    using assms by (auto simp: collectTaskDeltas_def Let_def map_of_filter_fst map_of_mark new_names_def)
  then show ?thesis using names by (simp add: unsnapshotted_def)
qed

lemma collected_results:
  assumes inv: "holds_results base acc st late" and col: "collectTaskDeltas st = (ds, st')" and n: "n \<notin> late"
  shows "map_of (CompletedTasks st) n = Some out \<Longrightarrow> map_of (CompletedTasks (ApplyDeltas (acc @ ds) base)) n = Some out"
    and "map_of (FailedTasks st) n = Some r \<Longrightarrow> map_of (FailedTasks (ApplyDeltas (acc @ ds) base)) n = Some r"
proof -
  have ds: "ds = new_deltas st" using col by (simp add: collectTaskDeltas_def Let_def)
  have c: "map_of (rev (completed_entries ds)) n = (if unsnapshotted st n then map_of (CompletedTasks st) n else None)"
    using inv unfolding ds new_deltas_entries holds_results_def
    by (subst map_of_rev_distinct) (auto simp: distinct_filter_fst map_of_filter_fst)
  have f: "map_of (rev (failed_entries ds)) n = (if unsnapshotted st n then map_of (FailedTasks st) n else None)"
    using inv unfolding ds new_deltas_entries holds_results_def
    by (subst map_of_rev_distinct) (auto simp: distinct_filter_fst map_of_filter_fst)
  show "map_of (CompletedTasks (ApplyDeltas (acc @ ds) base)) n = Some out" if "map_of (CompletedTasks st) n = Some out"
    using inv n that c by (auto simp: holds_results_def ApplyDeltas_completed map_add_def split: option.splits if_splits)
  show "map_of (FailedTasks (ApplyDeltas (acc @ ds) base)) n = Some r" if "map_of (FailedTasks st) n = Some r"
    using inv n that f by (auto simp: holds_results_def ApplyDeltas_failed map_add_def split: option.splits if_splits)
qed

lemma late_not_collected:
  assumes "holds_results base acc st late" and "collectTaskDeltas st = (ds, st')" and "n \<in> late"
  shows "filter (\<lambda>d. td_TaskName d = n) ds = []"
proof -
  have "ds = new_deltas st" using assms(2) by (simp add: collectTaskDeltas_def Let_def)
  moreover have "n \<notin> new_names st" using assms(1,3) by (simp add: new_names_iff holds_results_def)
  ultimately show ?thesis by (auto simp: new_names_def filter_empty_conv)
qed

lemma holds_results_collected:
  assumes inv: "holds_results base acc st late" and col: "collectTaskDeltas st = (ds, st')"
  shows "holds_results base (acc @ ds) st' late"
proof -
  have same: "CompletedTasks st' = CompletedTasks st" "FailedTasks st' = FailedTasks st" "RolledBack st' = RolledBack st"
    using col by (auto simp: collectTaskDeltas_def Let_def)
  then have tracked: "tracked st' n = tracked st n" for n by (simp add: tracked_def)
  have "tracked st n" if "\<not> unsnapshotted st' n" for n
    using that inv by (auto simp: collected_unsnapshotted [OF col] new_names_iff holds_results_def)
  moreover have "\<not> unsnapshotted st' n" if "n \<in> late" for n
    using that inv by (auto simp: collected_unsnapshotted [OF col] holds_results_def)
  ultimately show ?thesis
    using inv collected_results [OF inv col] by (simp add: holds_results_def same tracked)
qed


subsection \<open>The invariant of the run\<close>

lemma stored_emit: "stored_deltas x (emit f s) = stored_deltas x s @ deltas_of x f"
  by (simp add: stored_deltas_def emit_def)

lemma stored_same_log: "log s' = log s \<Longrightarrow> stored_deltas x s' = stored_deltas x s"
  by (simp add: stored_deltas_def)

lemma snapshot_cases:
  obtains (skipped) "running u (snapshotRunningWorkflow t u s) = running u s" "log (snapshotRunningWorkflow t u s) = log s"
  | (taken) e ds st' snap where "running u s = Some e" "collectTaskDeltas (e_state e) = (ds, st')"
      "running u (snapshotRunningWorkflow t u s) = Some (e\<lparr>e_state := st'\<rparr>)" "ChangedTasks snap = ds"
      "log (snapshotRunningWorkflow t u s) = log s @ [Go (JSaveTaskDeltas (ExecutionID (e_state e)) snap)]"
proof -
  obtain pass s1 where th: "snapshotThrottle t u snapshotThrottleInterval s = (pass, s1)" by fastforce
  then have 1: "log s1 = log s" "runningEntries s1 = runningEntries s"
    by (auto simp: snapshotThrottle_def split: option.splits if_splits)
  obtain allowed b where al: "Allow t (mysqlBreaker s1) = (allowed, b)" by fastforce
  have r: "running u (s1\<lparr>mysqlBreaker := b\<rparr>) = running u s" "running u s1 = running u s" using 1 by (simp_all add: running_def)
  show thesis
  proof (cases "running u s")
    case None
    then have "snapshotRunningWorkflow t u s \<in> {s1, s1\<lparr>mysqlBreaker := b\<rparr>}"
      using r by (auto simp: snapshotRunningWorkflow_def th al Let_def)
    then show thesis using 1 r by (intro skipped) auto
  next
    case (Some e)
    obtain ds st' where col: "collectTaskDeltas (e_state e) = (ds, st')" by fastforce
    show thesis
    proof (cases "pass \<and> allowed \<and> ExecutionID (e_state e) \<noteq> 0 \<and> HasHistoryStore (conf (s1\<lparr>mysqlBreaker := b\<rparr>))")
      case True
      let ?snap = "\<lparr>snap_WorkflowUUID = u, snap_ExecutionID = ExecutionID (e_state e), snap_Status = st_Status (e_state e),
        ChangedTasks = ds, snap_Error = st_Error (e_state e), snap_UpdatedAt = t\<rparr>"
      have "snapshotRunningWorkflow t u s = emit (Go (JSaveTaskDeltas (ExecutionID (e_state e)) ?snap))
          (set_entry u (e\<lparr>e_state := st'\<rparr>) (s1\<lparr>mysqlBreaker := b\<rparr>))"
        using True r Some col by (simp add: snapshotRunningWorkflow_def th al Let_def)
      moreover have "log (set_entry u e' (s1\<lparr>mysqlBreaker := b\<rparr>)) = log s" for e' using 1 by (simp add: set_entry_def)
      ultimately show thesis using Some col by (intro taken [of e ds st' ?snap]) simp_all
    next
      case False
      then have "snapshotRunningWorkflow t u s \<in> {s1, s1\<lparr>mysqlBreaker := b\<rparr>}"
        using r Some by (auto simp: snapshotRunningWorkflow_def th al Let_def)
      then show thesis using 1 r by (intro skipped) auto
    qed
  qed
qed

definition run_ok :: "workflow_state \<Rightarrow> uuid \<Rightarrow> nat \<Rightarrow> sched \<times> string set \<Rightarrow> bool" where
  "run_ok base u x = (\<lambda>(s, late). \<exists>e. running u s = Some e \<and> ExecutionID (e_state e) = x
     \<and> holds_results base (stored_deltas x s) (e_state e) late)"

lemma run_ok_snapshot:
  assumes "run_ok base u x (s, late)"
  shows "run_ok base u x (snapshotRunningWorkflow t u s, late)"
proof (cases rule: snapshot_cases [of u t s])
  case skipped
  then show ?thesis using assms by (simp add: run_ok_def stored_same_log [OF skipped(2)])
next
  case (taken e ds st' snap)
  have "ExecutionID st' = ExecutionID (e_state e)" using taken(2) by (auto simp: collectTaskDeltas_def Let_def)
  moreover have "stored_deltas x (snapshotRunningWorkflow t u s) = stored_deltas x s @ ds" if "ExecutionID (e_state e) = x"
    using taken(4,5) that by (simp add: stored_deltas_def deltas_of_def)
  ultimately show ?thesis
    using assms taken(1,3) holds_results_collected [OF _ taken(2)] by (auto simp: run_ok_def)
qed

lemma run_ok_frame:
  "running u s' = running u s \<Longrightarrow> stored_deltas x s' = stored_deltas x s \<Longrightarrow> run_ok base u x (s, late) \<Longrightarrow> run_ok base u x (s', late)"
  by (simp add: run_ok_def)

lemma run_ok_emit:
  "run_ok base u x (s, late) \<Longrightarrow> deltas_of x f = [] \<Longrightarrow> run_ok base u x (emit f s, late)"
  by (erule run_ok_frame [rotated 2]) (simp_all add: stored_emit)

lemma run_ok_saveTaskRecord: "run_ok base u x (s, late) \<Longrightarrow> run_ok base u x (saveTaskRecord t p e w s, late)"
proof -
  have "running u (saveTaskRecord t p e w s) = running u s" "stored_deltas x (saveTaskRecord t p e w s) = stored_deltas x s"
    by (auto simp: saveTaskRecord_def Let_def running_def stored_deltas_def deltas_of_def emit_def split: prod.splits)
  then show "run_ok base u x (s, late) \<Longrightarrow> ?thesis" by (rule run_ok_frame)
qed

lemma run_ok_cleanup: "run_ok base u x (s, late) \<Longrightarrow> run_ok base u x (cleanupTaskEtcdKey p s, late)"
  by (auto simp: cleanupTaskEtcdKey_def deltas_of_def intro: run_ok_emit)

lemma run_ok_modify:
  assumes "run_ok base u x (s, late)"
    and "\<And>st. ExecutionID (f st) = ExecutionID st"
    and "\<And>e. running u s = Some e \<Longrightarrow> holds_results base (stored_deltas x s) (e_state e) late \<Longrightarrow>
      holds_results base (stored_deltas x s) (f (e_state e)) late'"
  shows "run_ok base u x (modify_state u f s, late')"
proof -
  have "stored_deltas x (modify_state u f s) = stored_deltas x s"
    by (auto simp: modify_state_def set_entry_def stored_deltas_def split: option.split)
  with assms show ?thesis by (auto simp: run_ok_def running_modify_state)
qed

lemma result_step_ok:
  assumes "result_step u x c c'" and "run_ok base u x c"
  shows "run_ok base u x c'"
  using assms
proof (cases rule: result_step.cases)
  case (completes s late t p)
  let ?late = "if snapshotted u (tp_TaskName p) s then insert (tp_TaskName p) late else late"
  obtain e where e: "running u s = Some e" using assms(2) by (auto simp: completes run_ok_def)
  have "run_ok base u x (modify_state u (\<lambda>st. st\<lparr>CompletedTasks := AList.update (tp_TaskName p) (tp_Output p) (CompletedTasks st)\<rparr>) s, ?late)"
    using assms(2) unfolding completes
  proof (rule run_ok_modify)
    fix e' assume "running u s = Some e'" and inv: "holds_results base (stored_deltas x s) (e_state e') late"
    then have late: "?late = (if unsnapshotted (e_state e') (tp_TaskName p) then late else insert (tp_TaskName p) late)"
      by (simp add: snapshotted_def)
    show "holds_results base (stored_deltas x s)
        ((e_state e')\<lparr>CompletedTasks := AList.update (tp_TaskName p) (tp_Output p) (CompletedTasks (e_state e'))\<rparr>) ?late"
      unfolding late by (rule holds_results_done [OF inv])
  qed simp
  then show ?thesis
    unfolding completes recordTaskCompleted_def Let_def e option.case
    by (intro run_ok_cleanup run_ok_emit run_ok_saveTaskRecord run_ok_snapshot) (simp_all add: deltas_of_def)
next
  case (fails s late t p)
  let ?late = "if snapshotted u (tp_TaskName p) s then insert (tp_TaskName p) late else late"
  obtain e where e: "running u s = Some e" using assms(2) by (auto simp: fails run_ok_def)
  have "run_ok base u x (modify_state u (\<lambda>st. st\<lparr>FailedTasks := AList.update (tp_TaskName p) (tp_Result p) (FailedTasks st)\<rparr>) s, ?late)"
    using assms(2) unfolding fails
  proof (rule run_ok_modify)
    fix e' assume "running u s = Some e'" and inv: "holds_results base (stored_deltas x s) (e_state e') late"
    then have late: "?late = (if unsnapshotted (e_state e') (tp_TaskName p) then late else insert (tp_TaskName p) late)"
      by (simp add: snapshotted_def)
    show "holds_results base (stored_deltas x s)
        ((e_state e')\<lparr>FailedTasks := AList.update (tp_TaskName p) (tp_Result p) (FailedTasks (e_state e'))\<rparr>) ?late"
      unfolding late by (rule holds_results_failed [OF inv])
  qed simp
  then show ?thesis
    unfolding fails recordTaskFailed_def Let_def
    by (intro run_ok_cleanup run_ok_emit run_ok_snapshot) (simp_all add: deltas_of_def)
next
  case (retried s late n)
  show ?thesis
    using assms(2) unfolding retried clearFailedTask_def
    by (rule run_ok_modify) (simp_all add: holds_results_cleared)
next
  case (snapshots s late t)
  then show ?thesis using assms(2) by (simp add: run_ok_snapshot)
next
  case (others s e s' e' late)
  have "ExecutionID (e_state e') = ExecutionID (e_state e)" using others(5) by (simp add: same_results_def)
  then show ?thesis using others assms(2) same_results_holds [OF others(5)] by (simp add: run_ok_def)
qed


definition demo_snapshotting :: sched where
  "demo_snapshotting = demo_sched\<lparr>conf := (conf demo_sched)\<lparr>HasHistoryStore := True\<rparr>,
     runningEntries := [(''demo'', \<lparr>e_state = (pending_state demo_workflow)\<lparr>ExecutionID := 1\<rparr>, e_ctx = 0, recovered = False\<rparr>)]\<rparr>"

definition demo_result :: task_payload where
  "demo_result = zero_payload\<lparr>tp_WorkflowID := ''demo'', tp_TaskName := ''a'', tp_Output := None\<rparr>"


end
