(* ===== verification/Spec2Isabelle.thy ===== *)
theory Spec2Isabelle
  imports Task_Context Workflow_Model Validation Task_Payload Go_Heap Circuit_Breaker Sched_State
    Workflow_Manager Event_Trigger Dispatcher Repository Failure_Handling Execution Lifecycle
    Task_Queue Etcd_Store Cas_Lock Task_Registry Task_Runtime Worker Heartbeat
    Worker_Manager Watchers Engine_Config Ws_Bus History_Store Recovery Http_Handlers
    Advanced_Group Slot_Race Persist_Pool Plugins Rollback_Run Watch_Loops Startup
    Float_Context Snapshot_Run Execution_Ids
begin

text \<open>
  VibeFlow is a distributed workflow engine. A master accepts workflows (groups of tasks), writes
  the tasks of the current group to etcd, watches the results and moves on; workers watch etcd,
  run the tasks they have a handler for and write the outcome back. MySQL holds the history and
  the snapshots from which a restarted master recovers; browsers follow the events over a
  WebSocket. This development models the Go code under \<^verbatim>\<open>src/domain/model\<close>, \<^verbatim>\<open>src/infra\<close>,
  \<^verbatim>\<open>src/plugin\<close> and \<^verbatim>\<open>src/transport/http\<close> as executable functions and step relations, and proves
  what makes its parts correct, or shows where they are not.

  \<^bold>\<open>How the code is modelled.\<close>
  A struct is a record, an enumeration a datatype, a function that can fail returns a sum or an
  option, and each error return is a branch. What happens under one lock is one function, from state
  to state; goroutines that meet at finer points are step relations over the positions in their code,
  with invariants over every reachable state. Answers of the outside (the clock, random numbers,
  whether a write succeeds, the order in which goroutines finish) are arguments or records of answers
  (\<open>env\<close>, \<open>process_env\<close>). Calls that leave the engine (broadcasts, jobs for MySQL, goroutines that are
  started) are appended to the field \<open>log\<close> of the state. Fields marked as ghosts record a history for
  the statements and are read by no operation. Integers are Go's 64-bit integers: values that
  can leave the range are computed as \<open>64 word\<close>, which wraps around, or are tested with \<open>in_int64\<close>;
  counters and identifiers that cannot are \<open>int\<close> or \<open>nat\<close>. A finite \<^verbatim>\<open>float64\<close> is its number.
  The etcd client, GORM with MySQL, the JSON codec, the cron parser, HTTP and the file system are
  not part of the repository: they are parameters. The two databases have their documented
  behaviour in the locales \<open>etcd_client\<close> (calls may fail before or after they took effect, revisions,
  leases) and \<open>history_db\<close> (statements, transactions, unique keys); the interpretations \<open>mem_client\<close> and
  \<open>mem_gorm\<close>, databases in memory, show that the laws can be met and carry the examples.

  \<^bold>\<open>The data model\<close> (\<^verbatim>\<open>domain/model\<close>, \<^verbatim>\<open>infra/store/model.go\<close>).
  Task_Context: the variables tasks hand to each other and the control markers (skip, branch,
  approval) in them; Float_Context: reading a variable as a \<^verbatim>\<open>float64\<close>, with its rounding. Workflow_Model: tasks, groups, error policies, name indexes, snapshots and
  their deltas. Validation: the checks of a submission (\<^verbatim>\<open>scheduler/types.go\<close>) and the declarative
  specification they decide. Task_Payload: the payload in etcd, the scan of one JSON field, the
  task keys. Engine_Config (\<^verbatim>\<open>infra/config\<close>): the configuration, its defaults and its checks.

  \<^bold>\<open>The master\<close> (\<^verbatim>\<open>infra/engine/scheduler\<close>). Sched_State: configuration, the record \<open>sched\<close> of all
  components' state and the slot counters. Dispatcher (\<^verbatim>\<open>task_dispatcher.go\<close>): pushing tasks under
  the concurrency limits, the pending queue, time-outs, retries; Slot_Race runs its atomic
  operations one by one, for the tasks of any number of workflows. Workflow_Manager (\<^verbatim>\<open>workflow_manager.go\<close>): the running table, the bounded
  history cache and its queries. Lifecycle: submission, cancellation, approval, rejection, retry,
  cron and webhooks, the scheduler as a state machine \<open>sys_step\<close> over all operations and events, and
  what events start; Execution_Ids: that a workflow has no execution identifier before its row exists.
  Execution (\<^verbatim>\<open>execution_manager.go\<close>, \<^verbatim>\<open>advanced_executor.go\<close>): the groups' executors as functions
  between two waits; Advanced_Group: loop groups and the goroutines of groups with fan-out and
  sub-workflow nodes. Failure_Handling (\<^verbatim>\<open>error_policy.go\<close>, \<^verbatim>\<open>watch.go\<close>): task events, failure
  policies, time-outs and the decision of the saga rollback; Rollback_Run: the rollback's goroutines.
  Watchers (\<^verbatim>\<open>watch.go\<close>): from the one watch on etcd through the fan-out channel, its workers, the
  workflows' channels and the backlog to the workflows, with the dispatches in two steps.
  Repository (\<^verbatim>\<open>repository.go\<close>): snapshots, final writes behind the breaker, history loading and
  the recovery of one workflow; Snapshot_Run: snapshots taken while results are recorded;
  Persist_Pool: the pool of writers. Recovery: the repository on the
  store, that is what a restart finds of what was written. Event_Trigger (\<^verbatim>\<open>event_trigger.go\<close>): which
  workflows an event starts. Worker_Manager (\<^verbatim>\<open>worker_manager.go\<close>, \<^verbatim>\<open>backlog_metrics.go\<close>): the
  workers as the master sees them; Watch_Loops: the loop that feeds it. Startup (\<^verbatim>\<open>scheduler.go\<close>,
  \<^verbatim>\<open>infra/app\<close>): how a master comes up, and what a restart makes of a running workflow.

  \<^bold>\<open>The workers\<close> (\<^verbatim>\<open>infra/engine/runtime\<close>). Task_Queue (\<^verbatim>\<open>priority_queue.go\<close>): the queue of
  received events. Task_Registry (\<^verbatim>\<open>registry.go\<close>, \<^verbatim>\<open>domain/model/task.go\<close>): handlers, types and their
  hash. Cas_Lock (\<^verbatim>\<open>cas_lock.go\<close>): taking a task by compare and swap, all workers at once.
  Task_Runtime (\<^verbatim>\<open>reporter.go\<close>, \<^verbatim>\<open>executor.go\<close>): running a task and reporting its outcome. Worker
  (\<^verbatim>\<open>worker.go\<close>): the main loop and the consumer. Heartbeat (\<^verbatim>\<open>heartbeat.go\<close>).

  \<^bold>\<open>Stores and interfaces\<close>. Etcd_Store (\<^verbatim>\<open>store/etcd\<close>): the store over the client. History_Store
  (\<^verbatim>\<open>store/mysql\<close>): definitions, executions, task records and deltas over GORM. Http_Handlers
  (\<^verbatim>\<open>transport/http\<close>): every handler of the REST interface, over the whole master. Ws_Bus
  (\<^verbatim>\<open>infra/ws\<close>): the hub with its goroutines. Plugins (\<^verbatim>\<open>infra/plugin\<close>, \<^verbatim>\<open>plugin/builtin\<close>): the
  registry and the shipped tasks, run through the engine.

  \<^bold>\<open>Shared parts\<close>. Prelude: units of time, lists, maps, error sums and folds over checks; its locale
  \<open>component\<close> carries an invariant from one step to every run (for the breaker, the scheduler and the
  slots). Go_Heap: \<^verbatim>\<open>container/heap\<close>, whose laws the locale \<open>heap_order\<close> gives to both priority queues.
  Circuit_Breaker (\<^verbatim>\<open>infra/circuit\<close>): the breaker in front of MySQL and etcd.

  \<^bold>\<open>What is shown\<close>.
  The life of a workflow: \<open>lifecycle_inv\<close> holds in every run of \<open>sys_step\<close>; each operation is
  described on all its branches; groups run in order with the outputs of all groups before; pausing
  and approving goes on exactly once. Dispatching: limits, order, what is taken and given back, for
  one call and under interleaving. Failure: the outcome under each policy, and that a rollback
  never reaches a compensation. Persistence: which results the snapshots hold, and that recovery
  reads none of them; each job is written once, waits or was refused; what is lost at a shutdown. Restart: the start of a master is a
  run of \<open>sys_step\<close>, in either order of its goroutines; a recovered workflow's end is not recorded.
  Workers: one winner per task, no event lost or run twice, no lost wake-up, the outcome in etcd.
  Distribution: where every event and message can be, which losses are counted and which are not,
  order and bounds. Interfaces: what each
  request does in every reachable state of the master. The statements are about the code as it is;
  where it does not do what it means to, the theorem says what it does.

  \<^bold>\<open>Bounds and termination\<close>. The functions are total. Recursion that is not structural has a
  measure: the heap's indexes, the queue's length (\<open>evict_queue\<close>, \<open>dispatch_loop\<close>), the length of the
  history (\<open>lru_evict\<close>), the groups left (\<open>serial_run\<close>), the attempts left (\<open>cas_loop\<close>, the reports). A
  loop node runs with \<open>nat (MaxIterations def)\<close> rounds as its fuel, which is enough because the code
  stops at this number (\<open>shouldContinueLoop\<close>); validation demands that it is positive. For the step
  relations, \<open>rb_left\<close> decreases with every step of a rollback's goroutines, and a step is possible
  until all have ended once their time is up. The constants are the code's: channels of 4096 and
  8192 events and a backlog of 2048 in Watchers, buffers of 256 and 64 messages in Ws_Bus, 32 writers
  and 128 waiting jobs in Persist_Pool, five rollback slots, 500 executions in the history.

  \<^bold>\<open>Not modelled\<close>. Infinities, hexadecimal numbers and \<^verbatim>\<open>float32\<close> values in a task's variables; nothing in
  the repository makes them. Log lines and tracing (\<^verbatim>\<open>infra/logger\<close>, \<^verbatim>\<open>infra/tracing\<close>): no decision depends on
  them. The command line, signals and closing of the processes, connecting to etcd and MySQL, TLS,
  and the pool's statistics: calls of libraries only. The HTML pages, gorilla's socket (upgrade,
  deadlines, pings) and the HTTP listener. The text of JSON: what the codec does is a parameter
  wherever it matters, except for the scan of one field and the objects of snapshots and deltas. The
  adapters of \<^verbatim>\<open>interfaces.go\<close>: each method passes its arguments on, and the model calls the
  target. The deep copy of a definition is the definition, since values cannot share memory here; where
  the code shares an object on purpose (the counters in Slot_Race, the clients in Ws_Bus) the model
  has addresses. Races of unlocked fields other than those modelled are outside.
\<close>

end
